(* ===== verification/Prelude.thy ===== *)
theory Prelude
  imports "HOL-Library.Word"
begin

text \<open>
  Shared vocabulary of the development: the names of the machine integers the C++ code
  uses, the byte order conversions that the hashing code and the miner share, and the
  collections of rewrite rules that carry the component proofs.

  All code modelled here runs on a little-endian host (the CUDA and OpenCL host code reads
  \<open>*(const uint32_t * )p\<close> and relies on it), so a four byte load is \<open>le_load32\<close>.
\<close>

unbundle bit_operations_syntax

named_theorems byte_simps \<open>lengths and byte order conversions\<close>
named_theorems vm_simps \<open>unfolding of the virtual machine monad and its primitives\<close>

type_synonym byte = "8 word"
type_synonym u32 = "32 word"
type_synonym u64 = "64 word"

section \<open>Byte order\<close>

definition be32 :: "byte \<Rightarrow> byte \<Rightarrow> byte \<Rightarrow> byte \<Rightarrow> u32" where
  "be32 a b c d =
     push_bit 24 (ucast a) OR push_bit 16 (ucast b) OR push_bit 8 (ucast c) OR ucast d"

definition le_load32 :: "byte list \<Rightarrow> nat \<Rightarrow> u32" where
  "le_load32 p i =
     ucast (p ! i) OR push_bit 8 (ucast (p ! (i + 1))) OR
     push_bit 16 (ucast (p ! (i + 2))) OR push_bit 24 (ucast (p ! (i + 3)))"

definition be32_bytes :: "u32 \<Rightarrow> byte list" where
  "be32_bytes w = [ucast (drop_bit 24 w), ucast (drop_bit 16 w), ucast (drop_bit 8 w), ucast w]"

definition be64_bytes :: "u64 \<Rightarrow> byte list" where
  "be64_bytes w =
     [ucast (drop_bit 56 w), ucast (drop_bit 48 w), ucast (drop_bit 40 w), ucast (drop_bit 32 w),
      ucast (drop_bit 24 w), ucast (drop_bit 16 w), ucast (drop_bit 8 w), ucast w]"

fun be_words :: "byte list \<Rightarrow> u32 list" where
  "be_words (a # b # c # d # r) = be32 a b c d # be_words r"
| "be_words _ = []"

text \<open>Lexicographic comparison of byte strings, the sign of \<open>memcmp\<close> of the C library.\<close>

fun memcmp_less :: "byte list \<Rightarrow> byte list \<Rightarrow> bool" where
  "memcmp_less (x # xs) (y # ys) = (x < y \<or> (x = y \<and> memcmp_less xs ys))"
| "memcmp_less _ _ = False"

lemma length_be32_bytes [simp, byte_simps]: "length (be32_bytes w) = 4"
  by (simp add: be32_bytes_def)

lemma length_be64_bytes [simp, byte_simps]: "length (be64_bytes w) = 8"
  by (simp add: be64_bytes_def)

lemma length_be_words [byte_simps]: "length (be_words bs) = length bs div 4"
  by (induction bs rule: be_words.induct) simp_all

lemma be32_of_bytes [simp]:
  "be32 (ucast (drop_bit 24 w)) (ucast (drop_bit 16 w)) (ucast (drop_bit 8 w)) (ucast w) = w"
proof (rule bit_word_eqI)
  fix n :: nat
  assume "n < LENGTH(32)"
  then have "n < 32" by simp
  then consider "n < 8" | "8 \<le> n" "n < 16" | "16 \<le> n" "n < 24" | "24 \<le> n" "n < 32"
    by linarith
  then show "bit (be32 (ucast (drop_bit 24 w)) (ucast (drop_bit 16 w)) (ucast (drop_bit 8 w))
      (ucast w)) n = bit w n"
    by cases (auto simp: be32_def bit_simps)
qed

lemma bytes_of_be32 [simp]: "be32_bytes (be32 a b c d) = [a, b, c, d]"
  unfolding be32_bytes_def list.inject
  by (intro conjI bit_word_eqI refl) (auto simp: be32_def bit_simps dest: bit_imp_le_length)

lemma and_ff [byte_simps]: "(x :: 'a::len word) AND 0xff = take_bit 8 x"
  by (simp add: take_bit_eq_mask mask_eq_exp_minus_1)

lemma and_low24: "(x :: u32) AND 0xFFFFFF00 = push_bit 8 (drop_bit 8 x)"
proof -
  have "(0xFFFFFF00 :: u32) = NOT (mask 8)"
    by (simp add: mask_eq_exp_minus_1)
  then have "x AND 0xFFFFFF00 = x AND NOT (mask 8)"
    by (rule arg_cong)
  also have "\<dots> = push_bit 8 (drop_bit 8 x)"
    by (auto intro!: bit_word_eqI simp: bit_simps)
  finally show ?thesis .
qed

lemma be_words_be32_bytes: "be_words (concat (map be32_bytes ws)) = ws"
  by (induction ws) (simp_all add: be32_bytes_def)

lemma unat_max: "unat (- 1 :: u32) = 0xFFFFFFFF" "unat (- 1 :: u64) = 0xFFFFFFFFFFFFFFFF"
  by (simp_all add: unsigned_minus_1_eq_mask mask_eq_exp_minus_1)

text \<open>The greatest of a list of numbers.\<close>

lemma fold_max_le: "fold max xs a \<le> (m :: nat) \<longleftrightarrow> a \<le> m \<and> (\<forall>x \<in> set xs. x \<le> m)"
  by (induction xs arbitrary: a) auto

lemma fold_max_less: "fold max xs a < (m :: nat) \<longleftrightarrow> a < m \<and> (\<forall>x \<in> set xs. x < m)"
  by (induction xs arbitrary: a) auto

end
