(* ===== verification/Sha256.thy ===== *)
theory Sha256
  imports Prelude
begin

text \<open>
  The SHA-256 compression function as \<open>crypto/util/cruncher.h\<close> spells it (macros
  \<open>ROTRIGHT\<close> to \<open>SIG1\<close>, the round constants, the two loops of \<open>sha256_transform\<close>), a
  specification of SHA-256 in the style of FIPS 180-4 (rotations as rotations, the message
  schedule as a recurrence), and the theorem that the former computes the latter.
  \<open>vec8u\<close> and \<open>vec16u\<close> are arrays of eight and sixteen words.
\<close>

section \<open>The compression function of cruncher.h\<close>

type_synonym vec8u = "u32 list"
type_synonym vec16u = "u32 list"

definition ROTRIGHT :: "u32 \<Rightarrow> nat \<Rightarrow> u32" where
  "ROTRIGHT a b = drop_bit b a OR push_bit (32 - b) a"

definition CH :: "u32 \<Rightarrow> u32 \<Rightarrow> u32 \<Rightarrow> u32" where
  "CH x y z = (x AND y) XOR (NOT x AND z)"

definition MAJ :: "u32 \<Rightarrow> u32 \<Rightarrow> u32 \<Rightarrow> u32" where
  "MAJ x y z = (x AND y) XOR (x AND z) XOR (y AND z)"

definition EP0 :: "u32 \<Rightarrow> u32" where
  "EP0 x = ROTRIGHT x 2 XOR ROTRIGHT x 13 XOR ROTRIGHT x 22"

definition EP1 :: "u32 \<Rightarrow> u32" where
  "EP1 x = ROTRIGHT x 6 XOR ROTRIGHT x 11 XOR ROTRIGHT x 25"

definition SIG0 :: "u32 \<Rightarrow> u32" where
  "SIG0 x = ROTRIGHT x 7 XOR ROTRIGHT x 18 XOR drop_bit 3 x"

definition SIG1 :: "u32 \<Rightarrow> u32" where
  "SIG1 x = ROTRIGHT x 17 XOR ROTRIGHT x 19 XOR drop_bit 10 x"

definition ksha :: "u32 list" where
  "ksha = [
     0x428A2F98, 0x71374491, 0xB5C0FBCF, 0xE9B5DBA5, 0x3956C25B, 0x59F111F1, 0x923F82A4, 0xAB1C5ED5,
     0xD807AA98, 0x12835B01, 0x243185BE, 0x550C7DC3, 0x72BE5D74, 0x80DEB1FE, 0x9BDC06A7, 0xC19BF174,
     0xE49B69C1, 0xEFBE4786, 0x0FC19DC6, 0x240CA1CC, 0x2DE92C6F, 0x4A7484AA, 0x5CB0A9DC, 0x76F988DA,
     0x983E5152, 0xA831C66D, 0xB00327C8, 0xBF597FC7, 0xC6E00BF3, 0xD5A79147, 0x06CA6351, 0x14292967,
     0x27B70A85, 0x2E1B2138, 0x4D2C6DFC, 0x53380D13, 0x650A7354, 0x766A0ABB, 0x81C2C92E, 0x92722C85,
     0xA2BFE8A1, 0xA81A664B, 0xC24B8B70, 0xC76C51A3, 0xD192E819, 0xD6990624, 0xF40E3585, 0x106AA070,
     0x19A4C116, 0x1E376C08, 0x2748774C, 0x34B0BCB5, 0x391C0CB3, 0x4ED8AA4A, 0x5B9CCA4F, 0x682E6FF3,
     0x748F82EE, 0x78A5636F, 0x84C87814, 0x8CC70208, 0x90BEFFFA, 0xA4506CEB, 0xBEF9A3F7, 0xC67178F2]"

definition h256 :: vec8u where
  "h256 = [0x6A09E667, 0xBB67AE85, 0x3C6EF372, 0xA54FF53A,
           0x510E527F, 0x9B05688C, 0x1F83D9AB, 0x5BE0CD19]"

text \<open>One iteration of the loop that extends the sixteen message words to sixty-four.\<close>

definition sha256_schedule_step :: "u32 list \<Rightarrow> nat \<Rightarrow> u32 list" where
  "sha256_schedule_step m i =
     m @ [SIG1 (m ! (i - 2)) + m ! (i - 7) + SIG0 (m ! (i - 15)) + m ! (i - 16)]"

type_synonym regs8 = "u32 \<times> u32 \<times> u32 \<times> u32 \<times> u32 \<times> u32 \<times> u32 \<times> u32"

text \<open>One iteration of the round loop, on the local variables \<open>a\<close> to \<open>h\<close>.\<close>

fun sha256_round :: "u32 list \<Rightarrow> regs8 \<Rightarrow> nat \<Rightarrow> regs8" where
  "sha256_round m (a, b, c, d, e, f, g, h) i =
     (let t1 = h + EP1 e + CH e f g + ksha ! i + m ! i;
          t2 = EP0 a + MAJ a b c
      in (t1 + t2, a, b, c, d + t1, e, f, g))"

definition sha256_transform :: "vec16u \<Rightarrow> vec8u \<Rightarrow> vec8u" where
  "sha256_transform data state =
     (let m0 = map (\<lambda>i. data ! i) [0..<16];
          m = foldl sha256_schedule_step m0 [16..<64];
          (a, b, c, d, e, f, g, h) =
            foldl (sha256_round m)
              (state ! 0, state ! 1, state ! 2, state ! 3, state ! 4, state ! 5, state ! 6, state ! 7)
              [0..<64]
      in [state ! 0 + a, state ! 1 + b, state ! 2 + c, state ! 3 + d,
          state ! 4 + e, state ! 5 + f, state ! 6 + g, state ! 7 + h])"

section \<open>SHA-256, after FIPS 180-4\<close>

definition fips_Sigma0 :: "u32 \<Rightarrow> u32" where
  "fips_Sigma0 x = word_rotr 2 x XOR word_rotr 13 x XOR word_rotr 22 x"

definition fips_Sigma1 :: "u32 \<Rightarrow> u32" where
  "fips_Sigma1 x = word_rotr 6 x XOR word_rotr 11 x XOR word_rotr 25 x"

definition fips_sigma0 :: "u32 \<Rightarrow> u32" where
  "fips_sigma0 x = word_rotr 7 x XOR word_rotr 18 x XOR drop_bit 3 x"

definition fips_sigma1 :: "u32 \<Rightarrow> u32" where
  "fips_sigma1 x = word_rotr 17 x XOR word_rotr 19 x XOR drop_bit 10 x"

definition fips_Ch :: "u32 \<Rightarrow> u32 \<Rightarrow> u32 \<Rightarrow> u32" where
  "fips_Ch x y z = (x AND y) OR (NOT x AND z)"

definition fips_Maj :: "u32 \<Rightarrow> u32 \<Rightarrow> u32 \<Rightarrow> u32" where
  "fips_Maj x y z = (x AND y) OR (x AND z) OR (y AND z)"

text \<open>The message schedule: \<open>W t\<close> for \<open>t < 64\<close>, from the sixteen words of a block.\<close>

function fips_W :: "u32 list \<Rightarrow> nat \<Rightarrow> u32" where
  "fips_W M t =
     (if t < 16 then M ! t
      else fips_sigma1 (fips_W M (t - 2)) + fips_W M (t - 7) +
           fips_sigma0 (fips_W M (t - 15)) + fips_W M (t - 16))"
  by pat_completeness auto
termination
  by (relation "measure snd") auto

declare fips_W.simps [simp del]

fun fips_rounds :: "u32 list \<Rightarrow> nat \<Rightarrow> regs8 \<Rightarrow> regs8" where
  "fips_rounds M 0 s = s"
| "fips_rounds M (Suc t) s =
     (case fips_rounds M t s of (a, b, c, d, e, f, g, h) \<Rightarrow>
        let T1 = h + fips_Sigma1 e + fips_Ch e f g + ksha ! t + fips_W M t;
            T2 = fips_Sigma0 a + fips_Maj a b c
        in (T1 + T2, a, b, c, d + T1, e, f, g))"

fun fips_compress :: "u32 list \<Rightarrow> u32 list \<Rightarrow> u32 list" where
  "fips_compress M [h0, h1, h2, h3, h4, h5, h6, h7] =
     (case fips_rounds M 64 (h0, h1, h2, h3, h4, h5, h6, h7) of
        (a, b, c, d, e, f, g, h) \<Rightarrow>
          [h0 + a, h1 + b, h2 + c, h3 + d, h4 + e, h5 + f, h6 + g, h7 + h])"
| "fips_compress M _ = []"

definition sha256_pad :: "byte list \<Rightarrow> byte list" where
  "sha256_pad m =
     m @ [0x80] @ replicate ((119 - length m mod 64) mod 64) 0 @ be64_bytes (of_nat (8 * length m))"

function sha256_blocks :: "u32 list \<Rightarrow> byte list \<Rightarrow> u32 list" where
  "sha256_blocks H m =
     (if length m < 64 then H
      else sha256_blocks (fips_compress (be_words (take 64 m)) H) (drop 64 m))"
  by pat_completeness auto
termination
  by (relation "measure (\<lambda>(H, m). length m)") auto

declare sha256_blocks.simps [simp del]

definition sha256_words :: "byte list \<Rightarrow> u32 list" where
  "sha256_words m = sha256_blocks h256 (sha256_pad m)"

definition sha256 :: "byte list \<Rightarrow> byte list" where
  "sha256 m = concat (map be32_bytes (sha256_words m))"

section \<open>The code computes the specification\<close>

lemma ROTRIGHT_eq_word_rotr: "0 < b \<Longrightarrow> b < 32 \<Longrightarrow> ROTRIGHT a b = word_rotr b a"
proof (rule bit_word_eqI)
  fix n :: nat
  assume b: "0 < b" "b < 32" and "n < LENGTH(32)"
  then have n: "n < 32" by simp
  show "bit (ROTRIGHT a b) n = bit (word_rotr b a) n"
  proof (cases "n + b < 32")
    case True
    with b n show ?thesis
      by (auto simp: ROTRIGHT_def bit_simps add.commute)
  next
    case False
    with b n have "(n + b) mod 32 = n + b - 32" by (simp add: mod_if)
    with False b n show ?thesis
      by (auto simp: ROTRIGHT_def bit_simps add.commute dest: bit_imp_le_length)
  qed
qed

lemma fips_functions:
  "EP0 = fips_Sigma0" "EP1 = fips_Sigma1" "SIG0 = fips_sigma0" "SIG1 = fips_sigma1"
  by (simp_all add: fun_eq_iff EP0_def EP1_def SIG0_def SIG1_def fips_Sigma0_def fips_Sigma1_def
      fips_sigma0_def fips_sigma1_def ROTRIGHT_eq_word_rotr)

lemma fips_logical: "CH = fips_Ch" "MAJ = fips_Maj"
  unfolding fun_eq_iff CH_def MAJ_def fips_Ch_def fips_Maj_def
  by (auto intro!: bit_word_eqI simp: bit_simps)

lemma schedule_prefix:
  assumes "n \<le> 48"
  shows "foldl sha256_schedule_step (map (\<lambda>i. data ! i) [0..<16]) [16..<16 + n]
         = map (fips_W data) [0..<16 + n]"
  using assms
proof (induction n)
  case 0
  show ?case by (simp add: fips_W.simps)
next
  case (Suc n)
  let ?m = "map (fips_W data) [0..<16 + n]"
  have W: "fips_W data (16 + n) =
      fips_sigma1 (fips_W data (14 + n)) + fips_W data (9 + n) +
      fips_sigma0 (fips_W data (Suc n)) + fips_W data n"
    by (subst fips_W.simps) simp
  have "foldl sha256_schedule_step (map (\<lambda>i. data ! i) [0..<16]) [16..<16 + Suc n]
      = sha256_schedule_step ?m (16 + n)"
    using Suc upt_Suc_append [of 16 "16 + n"] by (simp only: add_Suc_right) simp
  also have "\<dots> = ?m @ [fips_W data (16 + n)]"
    by (simp only: W) (simp add: sha256_schedule_step_def fips_functions del: upt_Suc)
  also have "\<dots> = map (fips_W data) [0..<16 + Suc n]"
    using upt_Suc_append [of 0 "16 + n"] by (simp only: add_Suc_right) simp
  finally show ?case .
qed

lemma rounds_eq_fips:
  assumes "n \<le> 64"
  shows "foldl (sha256_round (map (fips_W data) [0..<64])) s [0..<n] = fips_rounds data n s"
  using assms
  by (induction n) (auto simp: fips_functions fips_logical split: prod.split)

lemma sha256_transform_fips:
  assumes "length state = 8"
  shows "sha256_transform data state = fips_compress data state"
proof -
  from assms obtain h0 h1 h2 h3 h4 h5 h6 h7 where st: "state = [h0, h1, h2, h3, h4, h5, h6, h7]"
    by (auto simp: length_Suc_conv eval_nat_numeral)
  have "foldl sha256_schedule_step (map (\<lambda>i. data ! i) [0..<16]) [16..<64]
      = map (fips_W data) [0..<64]"
    using schedule_prefix [of 48 data] by simp
  then show ?thesis
    by (simp add: sha256_transform_def st rounds_eq_fips [simplified] Let_def)
qed

lemma length_sha256_transform [simp]: "length (sha256_transform data state) = 8"
  by (simp add: sha256_transform_def Let_def split: prod.split)

lemma length_h256 [simp]: "length h256 = 8"
  by (simp add: h256_def)

lemma length_fips_compress: "length H = 8 \<Longrightarrow> length (fips_compress M H) = 8"
  using sha256_transform_fips [of H M] length_sha256_transform [of M H] by simp

lemma length_sha256_blocks: "length H = 8 \<Longrightarrow> length (sha256_blocks H m) = 8"
  by (induction H m rule: sha256_blocks.induct)
    (subst sha256_blocks.simps, simp add: length_fips_compress)

lemma length_sha256_words [simp]: "length (sha256_words m) = 8"
  by (simp add: sha256_words_def length_sha256_blocks)

lemma length_concat_be32: "length (concat (map be32_bytes ws)) = 4 * length ws"
  by (induction ws) simp_all

lemma length_sha256 [simp]: "length (sha256 m) = 32"
  by (simp add: sha256_def length_concat_be32)

lemma sha256_blocks_block:
  assumes "length b = 64"
  shows "sha256_blocks H (b @ m) = sha256_blocks (fips_compress (be_words b) H) m"
  using assms by (subst sha256_blocks.simps) simp

lemma sha256_blocks_Nil [simp]: "sha256_blocks H [] = H"
  by (subst sha256_blocks.simps) simp

end
