(* ===== verification/Hdata.thy ===== *)
theory Hdata
  imports Sha256
begin

text \<open>
  The message a proof-of-work giver accepts: \<open>struct HData\<close> and \<open>struct HDataEnv\<close> of
  \<open>crypto/util/Miner.h\<close>, packed byte by byte, with their methods. The 123 bytes of
  \<open>HDataEnv\<close> are what is hashed; \<open>rdata1\<close> and \<open>rdata2\<close> hold the same 256-bit number, the
  nonce that mining advances.
\<close>

section \<open>Numbers and big-endian byte strings\<close>

definition be_nat :: "byte list \<Rightarrow> nat" where
  "be_nat bs = foldl (\<lambda>a b. 256 * a + unat b) 0 bs"

lemma foldl_be_nat: "foldl (\<lambda>a b. 256 * a + unat b) n bs = n * 256 ^ length bs + be_nat bs"
proof (induction bs arbitrary: n)
  case Nil
  show ?case by (simp add: be_nat_def)
next
  case (Cons b bs)
  from Cons [of "256 * n + unat b"] Cons [of "unat b"] show ?case
    by (simp add: be_nat_def algebra_simps)
qed

lemma be_nat_Nil [simp]: "be_nat [] = 0"
  by (simp add: be_nat_def)

lemma be_nat_Cons: "be_nat (b # bs) = unat b * 256 ^ length bs + be_nat bs"
  using foldl_be_nat [of "unat b" bs] by (simp add: be_nat_def)

lemma be_nat_append: "be_nat (xs @ ys) = be_nat xs * 256 ^ length ys + be_nat ys"
  by (induction xs) (simp_all add: be_nat_Cons algebra_simps power_add)

lemma unat_byte_less [simp]: "unat (b :: byte) < 256"
  using unsigned_less [of b] by simp

lemma be_nat_less: "be_nat bs < 256 ^ length bs"
proof (induction bs)
  case Nil
  show ?case by simp
next
  case (Cons b bs)
  have "(unat b + 1) * 256 ^ length bs \<le> 256 * 256 ^ length bs"
    using unat_byte_less [of b] by (intro mult_le_mono1) linarith
  then have "unat b * 256 ^ length bs + 256 ^ length bs \<le> 256 * 256 ^ length bs"
    by (simp only: distrib_right mult_1)
  with Cons.IH show ?case
    unfolding be_nat_Cons length_Cons power_Suc by linarith
qed

lemma be_nat_inject:
  "length xs = length ys \<Longrightarrow> be_nat xs = be_nat ys \<longleftrightarrow> xs = ys"
proof (induction xs ys rule: list_induct2)
  case Nil
  show ?case by simp
next
  case (Cons x xs y ys)
  have "be_nat (x # xs) div 256 ^ length xs = unat x" "be_nat (x # xs) mod 256 ^ length xs = be_nat xs"
    "be_nat (y # ys) div 256 ^ length xs = unat y" "be_nat (y # ys) mod 256 ^ length xs = be_nat ys"
    using be_nat_less [of xs] be_nat_less [of ys] Cons.hyps by (simp_all add: be_nat_Cons)
  then show ?case
    using Cons.IH by (metis list.inject unsigned_word_eqI)
qed

text \<open>The \<open>k\<close> byte big-endian representation of a number.\<close>

fun be_bytes :: "nat \<Rightarrow> nat \<Rightarrow> byte list" where
  "be_bytes 0 n = []"
| "be_bytes (Suc k) n = be_bytes k (n div 256) @ [of_nat n]"

lemma length_be_bytes [simp]: "length (be_bytes k n) = k"
  by (induction k arbitrary: n) simp_all

lemma be_nat_be_bytes: "be_nat (be_bytes k n) = n mod 256 ^ k"
proof (induction k arbitrary: n)
  case 0
  show ?case by simp
next
  case (Suc k)
  show ?case
    by (simp add: be_nat_append be_nat_Cons Suc mod_mult2_eq unat_of_nat)
qed

lemma be_bytes_be_nat: "length r = k \<Longrightarrow> be_bytes k (be_nat r) = r"
  using be_nat_inject [of "be_bytes k (be_nat r)" r] be_nat_less [of r]
  by (simp add: be_nat_be_bytes)

section \<open>HData and HDataEnv\<close>

record hdata =
  op :: "byte list"
  flags :: byte
  expire :: "byte list"
  myaddr :: "byte list"
  rdata1 :: "byte list"
  pseed :: "byte list"
  rdata2 :: "byte list"

record hdata_env =
  d1 :: byte
  d2 :: byte
  body :: hdata

definition wf_hdata :: "hdata \<Rightarrow> bool" where
  "wf_hdata H \<longleftrightarrow> length (op H) = 4 \<and> length (expire H) = 4 \<and> length (myaddr H) = 32 \<and>
     length (rdata1 H) = 32 \<and> length (pseed H) = 16 \<and> length (rdata2 H) = 32"

text \<open>\<open>HData::as_slice\<close> and \<open>HDataEnv::as_slice\<close>: the packed struct as bytes.\<close>

definition hdata_as_slice :: "hdata \<Rightarrow> byte list" where
  "hdata_as_slice H =
     op H @ [flags H] @ expire H @ myaddr H @ rdata1 H @ pseed H @ rdata2 H"

definition hdata_env_as_slice :: "hdata_env \<Rightarrow> byte list" where
  "hdata_env_as_slice E = [d1 E, d2 E] @ hdata_as_slice (body E)"

text \<open>
  \<open>HData::inc\<close>: \<open>for (long i = 31; !(rdata1[i] = ++(rdata2[i])); --i)\<close>. The loop has no
  lower bound: when every byte wraps it continues below the array, which is
  \<open>None\<close> here.
\<close>

fun inc_loop :: "nat \<Rightarrow> byte list \<Rightarrow> byte list \<Rightarrow> (byte list \<times> byte list) option" where
  "inc_loop i r1 r2 =
     (let v = r2 ! i + 1; r1' = r1[i := v]; r2' = r2[i := v]
      in if v \<noteq> 0 then Some (r1', r2')
         else (case i of 0 \<Rightarrow> None | Suc j \<Rightarrow> inc_loop j r1' r2'))"

declare inc_loop.simps [simp del]

lemmas inc_loop_unfold = inc_loop.simps [unfolded Let_def]

definition hdata_inc :: "hdata \<Rightarrow> hdata option" where
  "hdata_inc H =
     (case inc_loop 31 (rdata1 H) (rdata2 H) of
        None \<Rightarrow> None
      | Some (r1, r2) \<Rightarrow> Some (H\<lparr>rdata1 := r1, rdata2 := r2\<rparr>))"

text \<open>\<open>HData::set_expire\<close>: the loop writes the low byte and shifts, from index 3 down.\<close>

fun set_expire_loop :: "nat \<Rightarrow> u32 \<Rightarrow> byte list \<Rightarrow> byte list" where
  "set_expire_loop 0 x e = e"
| "set_expire_loop (Suc i) x e =
     set_expire_loop i (drop_bit 8 x) (e[i := ucast (x AND 0xff)])"

definition set_expire :: "u32 \<Rightarrow> hdata \<Rightarrow> hdata" where
  "set_expire x H = H\<lparr>expire := set_expire_loop 4 x (expire H)\<rparr>"

text \<open>\<open>block::StdAddress\<close>, as far as the miner reads it.\<close>

record std_address =
  workchain :: int
  bounceable :: bool
  addr :: "byte list"

definition zeros :: "nat \<Rightarrow> byte list" where
  "zeros n = replicate n 0"

text \<open>The member initialisers of the two structs (\<open>op\<close> has none: its bytes are arbitrary).\<close>

definition hdata_env_new :: "byte list \<Rightarrow> hdata_env" where
  "hdata_env_new op0 =
     \<lparr>d1 = 0, d2 = of_nat (121 * 2),
      body = \<lparr>op = op0, flags = - 4, expire = zeros 4, myaddr = zeros 32, rdata1 = zeros 32,
              pseed = zeros 16, rdata2 = zeros 32\<rparr>\<rparr>"

definition mine_tag :: "byte list" where
  "mine_tag = map (\<lambda>c. of_nat (of_char c)) ''Mine''"

text \<open>
  \<open>HDataEnv::init\<close>. The CPU build fills \<open>rdata1\<close> with random bytes (\<open>Some rnd\<close>), the GPU
  builds leave it as it is (\<open>None\<close>). A seed that is not 16 bytes long fails a \<open>CHECK\<close>.
\<close>

definition hdata_env_init :: "byte list option \<Rightarrow> std_address \<Rightarrow> byte list \<Rightarrow> hdata_env \<Rightarrow> hdata_env option" where
  "hdata_env_init rnd a seed E =
     (if length seed \<noteq> 16 then None
      else
        let r1 = (case rnd of None \<Rightarrow> rdata1 (body E) | Some r \<Rightarrow> r)
        in Some (E\<lparr>body := (body E)
             \<lparr>myaddr := addr a,
              flags := word_of_int (workchain a * 4 + (if bounceable a then 1 else 0)),
              pseed := seed, op := mine_tag, rdata1 := r1, rdata2 := r1\<rparr>\<rparr>))"

section \<open>Layout\<close>

lemma length_hdata_as_slice [byte_simps]: "wf_hdata H \<Longrightarrow> length (hdata_as_slice H) = 121"
  by (simp add: wf_hdata_def hdata_as_slice_def)

lemma length_hdata_env_as_slice [byte_simps]:
  "wf_hdata (body E) \<Longrightarrow> length (hdata_env_as_slice E) = 123"
  by (simp add: hdata_env_as_slice_def length_hdata_as_slice)

lemma length_zeros [simp]: "length (zeros n) = n"
  by (simp add: zeros_def)

lemma length_mine_tag [simp]: "length mine_tag = 4"
  by (simp add: mine_tag_def)

section \<open>set_expire writes the big-endian word\<close>

lemma set_expire_be32:
  assumes "length (expire H) = 4"
  shows "expire (set_expire x H) = be32_bytes x"
proof -
  obtain e0 e1 e2 e3 where "expire H = [e0, e1, e2, e3]"
    using assms by (auto simp: length_Suc_conv eval_nat_numeral)
  then show ?thesis
    by (simp add: set_expire_def be32_bytes_def numeral_eq_Suc and_ff)
      (auto intro!: bit_word_eqI simp: bit_simps)
qed

lemma wf_set_expire [simp]: "wf_hdata H \<Longrightarrow> wf_hdata (set_expire x H)"
  using set_expire_be32 [of H x] by (simp add: wf_hdata_def set_expire_def)

lemma set_expire_frame [simp]:
  "op (set_expire x H) = op H" "flags (set_expire x H) = flags H" "myaddr (set_expire x H) = myaddr H"
  "rdata1 (set_expire x H) = rdata1 H" "pseed (set_expire x H) = pseed H"
  "rdata2 (set_expire x H) = rdata2 H"
  by (simp_all add: set_expire_def)

section \<open>inc adds one to the big-endian nonce\<close>

lemma be_nat_take_Suc:
  "i < length r \<Longrightarrow> be_nat (take (Suc i) r) = 256 * be_nat (take i r) + unat (r ! i)"
  by (simp add: take_Suc_conv_app_nth be_nat_append be_nat_Cons)

lemma unat_inc_byte:
  "(b :: byte) + 1 \<noteq> 0 \<Longrightarrow> unat (b + 1) = unat b + 1" "(b :: byte) + 1 = 0 \<Longrightarrow> unat b = 255"
proof -
  show "b + 1 \<noteq> 0 \<Longrightarrow> unat (b + 1) = unat b + 1"
    by (metis Suc_eq_plus1 add.commute unatSuc)
  show "b + 1 = 0 \<Longrightarrow> unat b = 255"
  proof -
    assume "b + 1 = 0"
    then have "b = 255" by (simp add: eq_neg_iff_add_eq_0 [symmetric])
    then show "unat b = 255" by simp
  qed
qed

lemma carry_out: "256 * a + w + 1 = 256 * (x :: nat) \<Longrightarrow> w < 256 \<Longrightarrow> w = 255 \<and> a + 1 = x"
proof -
  assume eq: "256 * a + w + 1 = 256 * x" and "w < 256"
  then have "a < x" and "x < a + 2" by linarith+
  then have "x = a + 1" by linarith
  with eq show ?thesis by simp
qed

lemma inc_loop_Some:
  assumes "i < length r" "be_nat (take (Suc i) r) + 1 < 256 ^ Suc i"
  shows "\<exists>r'. inc_loop i r r = Some (r', r') \<and> length r' = length r \<and>
           be_nat (take (Suc i) r') = be_nat (take (Suc i) r) + 1 \<and> drop (Suc i) r' = drop (Suc i) r"
  using assms
proof (induction i arbitrary: r)
  case 0
  then have "unat (r ! 0) + 1 < 256"
    by (simp add: be_nat_take_Suc)
  then have v: "r ! 0 + 1 \<noteq> 0"
    using unat_inc_byte(2) [of "r ! 0"] by auto
  with 0 show ?case
    by (auto simp: inc_loop_unfold [of 0] be_nat_take_Suc unat_inc_byte)
next
  case (Suc i)
  let ?v = "r ! Suc i + 1" and ?r = "r[Suc i := r ! Suc i + 1]"
  show ?case
  proof (cases "?v = 0")
    case False
    with Suc.prems show ?thesis
      by (auto simp: inc_loop_unfold [of "Suc i"] be_nat_take_Suc unat_inc_byte)
  next
    case True
    have w: "unat (r ! Suc i) = 255"
      using True by (rule unat_inc_byte(2))
    with Suc.prems have "be_nat (take (Suc i) r) + 1 < 256 ^ Suc i"
      by (simp add: be_nat_take_Suc [of "Suc i"])
    with Suc.prems obtain r' where r': "inc_loop i ?r ?r = Some (r', r')" "length r' = length r"
      "be_nat (take (Suc i) r') = be_nat (take (Suc i) r) + 1" "drop (Suc i) r' = drop (Suc i) ?r"
      using Suc.IH [of ?r] by auto
    have "r' ! Suc i # drop (Suc (Suc i)) r' = 0 # drop (Suc (Suc i)) r"
      using r'(2,4) Suc.prems(1) True
        Cons_nth_drop_Suc [of "Suc i" r'] Cons_nth_drop_Suc [of "Suc i" ?r] by simp
    then have "r' ! Suc i = 0" "drop (Suc (Suc i)) r' = drop (Suc (Suc i)) r"
      by simp_all
    with r' Suc.prems(1) True w show ?thesis
      by (simp add: inc_loop_unfold [of "Suc i"] be_nat_take_Suc [of "Suc i"])
  qed
qed

lemma inc_loop_None:
  assumes "i < length r" "be_nat (take (Suc i) r) + 1 = 256 ^ Suc i"
  shows "inc_loop i r r = None"
  using assms
proof (induction i arbitrary: r)
  case 0
  then have "unat (r ! 0) = 255"
    by (simp add: be_nat_take_Suc)
  then have "r ! 0 + 1 = 0"
    using unat_inc_byte(1) [of "r ! 0"] unat_byte_less [of "r ! 0 + 1"] by force
  then show ?case
    by (simp add: inc_loop_unfold [of 0])
next
  case (Suc i)
  from Suc.prems have eq: "256 * be_nat (take (Suc i) r) + unat (r ! Suc i) + 1 = 256 * 256 ^ Suc i"
    by (simp add: be_nat_take_Suc [of "Suc i"])
  then have w: "unat (r ! Suc i) = 255" "be_nat (take (Suc i) r) + 1 = 256 ^ Suc i"
    using carry_out [OF eq] by simp_all
  then have "r ! Suc i + 1 = 0"
    using unat_inc_byte(1) [of "r ! Suc i"] unat_byte_less [of "r ! Suc i + 1"] by force
  with Suc.IH [of "r[Suc i := 0]"] Suc.prems(1) w show ?case
    by (simp add: inc_loop_unfold [of "Suc i"])
qed

text \<open>
  While byte \<open>k\<close> of the nonce does not change, no byte before it changes: this is what lets
  the miner keep the hash state of the first 72 bytes until the guard byte differs.
\<close>

lemma inc_loop_drop: "inc_loop i r r = Some (r', s') \<Longrightarrow> drop (Suc i) r' = drop (Suc i) r"
proof (induction i arbitrary: r)
  case 0
  then show ?case by (auto simp: inc_loop_unfold [of 0] Let_def split: if_splits)
next
  case (Suc i)
  show ?case
  proof (cases "r ! Suc i + 1 = 0")
    case True
    with Suc.prems have "drop (Suc i) r' = drop (Suc i) (r[Suc i := 0])"
      by (intro Suc.IH) (simp add: inc_loop_unfold [of "Suc i"])
    then have "drop 1 (drop (Suc i) r') = drop 1 (drop (Suc i) (r[Suc i := 0]))"
      by simp
    then show ?thesis by simp
  next
    case False
    with Suc.prems show ?thesis by (auto simp: inc_loop_unfold [of "Suc i"])
  qed
qed

lemma inc_loop_guard:
  assumes "inc_loop i r r = Some (r', s')" "i < length r" "k \<le> i" "r' ! k = r ! k"
    "length r' = length r"
  shows "take k r' = take k r"
  using assms
proof (induction i arbitrary: r)
  case 0
  then show ?case by simp
next
  case (Suc i)
  show ?case
  proof (cases "r ! Suc i + 1 = 0")
    case True
    let ?r = "r[Suc i := 0]"
    from True Suc.prems(1) have st: "inc_loop i ?r ?r = Some (r', s')"
      by (simp add: inc_loop_unfold [of "Suc i"])
    show ?thesis
    proof (cases "k \<le> i")
      case le: True
      with Suc.IH [OF st] Suc.prems have "take k r' = take k ?r" by simp
      with le show ?thesis by simp
    next
      case False
      with Suc.prems(3) have k: "k = Suc i" by simp
      have "drop (Suc i) r' = drop (Suc i) ?r" by (rule inc_loop_drop [OF st])
      then have "hd (drop (Suc i) r') = hd (drop (Suc i) ?r)" by simp
      with Suc.prems(2,5) have "r' ! Suc i = 0" by (simp add: hd_drop_conv_nth)
      with Suc.prems(4) True show ?thesis unfolding k by simp
    qed
  next
    case False
    with Suc.prems show ?thesis by (auto simp: inc_loop_unfold [of "Suc i"])
  qed
qed

text \<open>
  Advancing the nonce: \<open>hdata_inc\<close> adds one to the 256-bit number in \<open>rdata1\<close> and keeps
  both copies equal; it leaves the array exactly when every byte is 0xff.
\<close>

definition same_rdata :: "hdata \<Rightarrow> bool" where
  "same_rdata H \<longleftrightarrow> rdata2 H = rdata1 H"

lemma hdata_inc_Some:
  assumes "wf_hdata H" "same_rdata H" "be_nat (rdata1 H) + 1 < 2 ^ 256"
  obtains r where "hdata_inc H = Some (H\<lparr>rdata1 := r, rdata2 := r\<rparr>)" "length r = 32"
    "be_nat r = be_nat (rdata1 H) + 1" "r ! 28 = rdata1 H ! 28 \<Longrightarrow> take 29 r = take 29 (rdata1 H)"
proof -
  let ?r = "rdata1 H"
  have l: "length ?r = 32" "rdata2 H = ?r"
    using assms(1,2) by (simp_all add: wf_hdata_def same_rdata_def)
  have "be_nat (take (Suc 31) ?r) + 1 < 256 ^ Suc 31"
    using assms(3) l by simp
  with l obtain r where r: "inc_loop 31 ?r ?r = Some (r, r)" "length r = 32" "be_nat r = be_nat ?r + 1"
    using inc_loop_Some [of 31 ?r] by auto
  have "take 29 r = take 29 ?r" if "r ! 28 = ?r ! 28"
  proof -
    have "take 28 r = take 28 ?r"
      using inc_loop_guard [OF r(1), of 28] that l r(2) by simp
    with that l r(2) show ?thesis
      using take_Suc_conv_app_nth [of 28 r] take_Suc_conv_app_nth [of 28 ?r] by simp
  qed
  with r l that show ?thesis
    by (simp add: hdata_inc_def)
qed

lemma hdata_inc_None:
  assumes "wf_hdata H" "same_rdata H" "be_nat (rdata1 H) + 1 = 2 ^ 256"
  shows "hdata_inc H = None"
  using assms inc_loop_None [of 31 "rdata1 H"]
  by (simp add: hdata_inc_def wf_hdata_def same_rdata_def)

text \<open>A fresh message after \<open>HDataEnv::init\<close>.\<close>

lemma hdata_env_init_wf:
  assumes "length (addr a) = 32" "length sd = 16"
  shows "\<exists>E. hdata_env_init r a sd (hdata_env_new op0) = Some E \<and>
    (wf_hdata (body E) \<longleftrightarrow> (case r of None \<Rightarrow> True | Some b \<Rightarrow> length b = 32)) \<and>
    same_rdata (body E) \<and> (\<forall>b. r = Some b \<longrightarrow> rdata1 (body E) = b) \<and> length (expire (body E)) = 4"
  using assms by (auto simp: hdata_env_init_def hdata_env_new_def wf_hdata_def same_rdata_def Let_def split: option.split)

end
