(* ===== verification/CpuMiner.thy ===== *)
theory CpuMiner
  imports Hdata
begin

text \<open>
  The CPU miner, \<open>ton::Miner::run\<close> of \<open>crypto/util/Miner.cpp\<close>: it hashes the 123 bytes of an
  \<open>HDataEnv\<close> for successive nonces, keeping the OpenSSL hash state of the first 72 bytes
  and recomputing it when the last of them (the guard, byte 28 of \<open>rdata1\<close>) changes or
  every 2^20 iterations. OpenSSL is not part of the repository: its three calls are a
  parameter, and locale \<open>openssl_sha256\<close> states what they document.
\<close>

section \<open>OpenSSL's incremental SHA-256\<close>

record 'ctx sha_api =
  sha_init :: 'ctx
  sha_update :: "'ctx \<Rightarrow> byte list \<Rightarrow> 'ctx"
  sha_final :: "'ctx \<Rightarrow> byte list"

text \<open>Feeding a message in pieces and finalising gives the digest of the whole message.\<close>

locale openssl_sha256 =
  fixes api :: "'ctx sha_api"
  assumes final_updates:
    "sha_final api (foldl (sha_update api) (sha_init api) cs) = sha256 (concat cs)"

section \<open>Miner::run\<close>

record miner_options =
  my_address :: std_address
  seed :: "byte list"
  complexity :: "byte list"
  max_iterations :: int

text \<open>
  What the loop reads of the outside world when it polls at iteration \<open>i\<close>: the cancellation
  token, whether \<open>expire_at\<close> is set and lies in the past, and the system clock.
\<close>

record miner_poll =
  cancelled :: "int \<Rightarrow> bool"
  timed_out :: "int \<Rightarrow> bool"
  system_clock :: "int \<Rightarrow> u32"

record 'ctx miner_state =
  st_H :: hdata_env
  st_i0 :: int
  st_guard :: byte
  st_ctx1 :: 'ctx
  st_hashes :: "u64 option"

datatype 'ctx poll_result = Break "'ctx miner_state" | Continue "'ctx miner_state"

datatype mine_outcome =
    Mined "byte list" "u64 option"
  | Exhausted "u64 option"
  | Undefined

definition prefix_size :: nat where
  "prefix_size = 72"

definition env_head :: "hdata_env \<Rightarrow> byte list" where
  "env_head E = take prefix_size (hdata_env_as_slice E)"

definition env_tail :: "hdata_env \<Rightarrow> byte list" where
  "env_tail E = drop prefix_size (hdata_env_as_slice E)"

definition head_back :: "hdata_env \<Rightarrow> byte" where
  "head_back E = last (env_head E)"

text \<open>\<open>if (options.hashes_computed) *options.hashes_computed += i - i0;\<close>\<close>

definition add_hashes :: "int \<Rightarrow> 'ctx miner_state \<Rightarrow> 'ctx miner_state" where
  "add_hashes i st =
     st\<lparr>st_hashes := map_option (\<lambda>n. n + word_of_int (i - st_i0 st)) (st_hashes st)\<rparr>"

text \<open>The block entered when \<open>!(i & 0xfffff) || head.back() != guard\<close>.\<close>

definition miner_check :: "'ctx sha_api \<Rightarrow> miner_poll \<Rightarrow> int \<Rightarrow> 'ctx miner_state \<Rightarrow> 'ctx poll_result" where
  "miner_check api p i st =
     (if cancelled p i then Break st
      else
        let st1 = (add_hashes i st)\<lparr>st_i0 := i\<rparr>
        in if timed_out p i then Break st1
           else
             let H = (st_H st1)\<lparr>body := set_expire (system_clock p i + 900) (body (st_H st1))\<rparr>
             in Continue (st1\<lparr>st_H := H, st_guard := head_back H,
                  st_ctx1 := sha_update api (sha_init api) (env_head H)\<rparr>))"

function miner_loop ::
  "'ctx sha_api \<Rightarrow> miner_options \<Rightarrow> miner_poll \<Rightarrow> int \<Rightarrow> 'ctx miner_state \<Rightarrow> mine_outcome" where
  "miner_loop api opt p i st =
     (if i < max_iterations opt then
        (case (if i AND 0xfffff = 0 \<or> head_back (st_H st) \<noteq> st_guard st
               then miner_check api p i st else Continue st) of
           Break st' \<Rightarrow> Exhausted (st_hashes (add_hashes i st'))
         | Continue st' \<Rightarrow>
             (let shactx2 = sha_update api (st_ctx1 st') (env_tail (st_H st'));
                  hash = sha_final api shactx2
              in if memcmp_less hash (complexity opt)
                 then Mined (hdata_as_slice (body (st_H st'))) (st_hashes (add_hashes i st'))
                 else (case hdata_inc (body (st_H st')) of
                         None \<Rightarrow> Undefined
                       | Some b \<Rightarrow>
                           miner_loop api opt p (i + 1) (st'\<lparr>st_H := (st_H st')\<lparr>body := b\<rparr>\<rparr>))))
      else Exhausted (st_hashes (add_hashes i st)))"
  by pat_completeness auto
termination
  by (relation "measure (\<lambda>(api, opt, p, i, st). nat (max_iterations opt - i))") auto

declare miner_loop.simps [simp del]

text \<open>
  The start of \<open>Miner::run\<close>. \<open>op0\<close> stands for the four uninitialised bytes of \<open>op\<close> and
  \<open>rnd\<close> for the bytes \<open>td::Random::secure_bytes\<close> delivers; \<open>hashes\<close> is the value behind
  \<open>options.hashes_computed\<close>, if that pointer is set.
\<close>

definition miner_run ::
  "'ctx sha_api \<Rightarrow> miner_options \<Rightarrow> miner_poll \<Rightarrow> byte list \<Rightarrow> byte list \<Rightarrow> u64 option \<Rightarrow> mine_outcome" where
  "miner_run api opt p op0 rnd hashes =
     (case hdata_env_init (Some rnd) (my_address opt) (seed opt) (hdata_env_new op0) of
        None \<Rightarrow> Undefined
      | Some H \<Rightarrow>
          if length (hdata_env_as_slice H) \<noteq> 123 then Undefined
          else miner_loop api opt p 0
                 \<lparr>st_H = H, st_i0 = 0, st_guard = head_back H, st_ctx1 = sha_init api,
                  st_hashes = hashes\<rparr>)"

section \<open>The candidate messages\<close>

text \<open>The message with expiry time \<open>e\<close> and the number \<open>n\<close> as its nonce.\<close>

definition candidate :: "hdata_env \<Rightarrow> u32 \<Rightarrow> nat \<Rightarrow> hdata_env" where
  "candidate E e n =
     E\<lparr>body := (body E)\<lparr>expire := be32_bytes e, rdata1 := be_bytes 32 n, rdata2 := be_bytes 32 n\<rparr>\<rparr>"

definition hits :: "miner_options \<Rightarrow> hdata_env \<Rightarrow> bool" where
  "hits opt E \<longleftrightarrow> memcmp_less (sha256 (hdata_env_as_slice E)) (complexity opt)"

lemma wf_candidate: "wf_hdata (body E) \<Longrightarrow> wf_hdata (body (candidate E e n))"
  by (simp add: wf_hdata_def candidate_def)

lemma env_head_tail: "env_head E @ env_tail E = hdata_env_as_slice E"
  by (simp add: env_head_def env_tail_def)

lemma env_head_eq:
  assumes "wf_hdata (body E)"
  shows "env_head E = [d1 E, d2 E] @ op (body E) @ [flags (body E)] @ expire (body E) @
           myaddr (body E) @ take 29 (rdata1 (body E))"
  using assms
  by (simp add: env_head_def prefix_size_def hdata_env_as_slice_def hdata_as_slice_def wf_hdata_def)

lemma head_back_eq: "wf_hdata (body E) \<Longrightarrow> head_back E = rdata1 (body E) ! 28"
  by (simp add: head_back_def env_head_eq wf_hdata_def last_conv_nth nth_append)

lemma head_back_candidate:
  "wf_hdata (body E) \<Longrightarrow> head_back (candidate E e n) = be_bytes 32 n ! 28"
  using head_back_eq [OF wf_candidate] by (simp add: candidate_def)

lemma env_head_candidate:
  assumes "wf_hdata (body E)" "take 29 (be_bytes 32 n) = take 29 (be_bytes 32 m)"
  shows "env_head (candidate E e n) = env_head (candidate E e m)"
  using env_head_eq [OF wf_candidate [OF assms(1)]] assms(2) by (simp add: candidate_def)

section \<open>The loop invariant\<close>

text \<open>The expiry times the loop can have set by iteration \<open>i\<close>: 900 seconds after a poll.\<close>

definition expiry_at :: "miner_poll \<Rightarrow> int \<Rightarrow> u32 \<Rightarrow> bool" where
  "expiry_at p i e \<longleftrightarrow> (\<exists>k. 0 \<le> k \<and> k \<le> i \<and> e = system_clock p k + 900)"

lemma expiry_at_Suc: "expiry_at p i e \<Longrightarrow> expiry_at p (i + 1) e"
  unfolding expiry_at_def by force

text \<open>
  Between iterations: the message differs from the initial one in expiry time and nonce
  only, the nonce has advanced by \<open>i\<close>, the hash counter has been brought up to \<open>i0\<close>, and
  as long as the guard byte is unchanged the kept hash state is the one of the current
  first 72 bytes.
\<close>

definition miner_inv ::
  "'ctx sha_api \<Rightarrow> miner_poll \<Rightarrow> hdata_env \<Rightarrow> nat \<Rightarrow> u64 option \<Rightarrow> int \<Rightarrow> 'ctx miner_state \<Rightarrow> bool" where
  "miner_inv api p E n h i st \<longleftrightarrow>
     0 \<le> i \<and> st_hashes st = map_option (\<lambda>x. x + word_of_int (st_i0 st)) h \<and>
     (\<exists>x. length x = 4 \<and>
        st_H st = E\<lparr>body := (body E)\<lparr>expire := x, rdata1 := be_bytes 32 (n + nat i),
                                    rdata2 := be_bytes 32 (n + nat i)\<rparr>\<rparr> \<and>
        (0 < i \<longrightarrow> (\<exists>e. x = be32_bytes e \<and> expiry_at p i e))) \<and>
     (0 < i \<and> head_back (st_H st) = st_guard st \<longrightarrow>
        st_ctx1 st = sha_update api (sha_init api) (env_head (st_H st)))"

text \<open>After the poll of iteration \<open>i\<close>: the kept state is valid for the message at hand.\<close>

definition miner_ready ::
  "'ctx sha_api \<Rightarrow> miner_poll \<Rightarrow> hdata_env \<Rightarrow> nat \<Rightarrow> u64 option \<Rightarrow> int \<Rightarrow> 'ctx miner_state \<Rightarrow> bool" where
  "miner_ready api p E n h i st \<longleftrightarrow>
     0 \<le> i \<and> st_hashes st = map_option (\<lambda>x. x + word_of_int (st_i0 st)) h \<and>
     (\<exists>e. expiry_at p i e \<and> st_H st = candidate E e (n + nat i)) \<and> st_guard st = head_back (st_H st) \<and>
     st_ctx1 st = sha_update api (sha_init api) (env_head (st_H st))"

text \<open>What \<open>miner_loop\<close> promises from iteration \<open>i\<close> on.\<close>

definition tried :: "miner_options \<Rightarrow> miner_poll \<Rightarrow> hdata_env \<Rightarrow> nat \<Rightarrow> int \<Rightarrow> int \<Rightarrow> bool" where
  "tried opt p E n i j \<longleftrightarrow>
     (\<forall>k. i \<le> k \<and> k < j \<longrightarrow> (\<exists>e. expiry_at p k e \<and> \<not> hits opt (candidate E e (n + nat k))))"

fun miner_spec ::
  "miner_options \<Rightarrow> miner_poll \<Rightarrow> hdata_env \<Rightarrow> nat \<Rightarrow> u64 option \<Rightarrow> int \<Rightarrow> mine_outcome \<Rightarrow> bool" where
  "miner_spec opt p E n h i (Mined b h') =
     (\<exists>j e. i \<le> j \<and> j < max_iterations opt \<and> tried opt p E n i j \<and>
        expiry_at p j e \<and> hits opt (candidate E e (n + nat j)) \<and>
        b = hdata_as_slice (body (candidate E e (n + nat j))) \<and>
        h' = map_option (\<lambda>x. x + word_of_int j) h)"
| "miner_spec opt p E n h i (Exhausted h') =
     (\<exists>j. i \<le> j \<and> (max_iterations opt \<le> j \<or> cancelled p j \<or> timed_out p j) \<and>
        tried opt p E n i j \<and> h' = map_option (\<lambda>x. x + word_of_int j) h)"
| "miner_spec opt p E n h i Undefined = False"

lemma tried_step:
  "expiry_at p i e \<Longrightarrow> \<not> hits opt (candidate E e (n + nat i)) \<Longrightarrow> tried opt p E n (i + 1) j \<Longrightarrow> tried opt p E n i j"
  unfolding tried_def by (metis add1_zle_eq order_le_less)

lemma miner_spec_step:
  assumes "expiry_at p i e" "\<not> hits opt (candidate E e (n + nat i))" "miner_spec opt p E n h (i + 1) out"
  shows "miner_spec opt p E n h i out"
proof (cases out)
  case (Mined b h')
  with assms(3) obtain j e' where "i + 1 \<le> j" "j < max_iterations opt" "tried opt p E n (i + 1) j"
    "expiry_at p j e'" "hits opt (candidate E e' (n + nat j))" "b = hdata_as_slice (body (candidate E e' (n + nat j)))"
    "h' = map_option (\<lambda>x. x + word_of_int j) h"
    by auto
  then show ?thesis
    using tried_step [OF assms(1,2), of j] unfolding Mined miner_spec.simps
    by (intro exI [of _ j] exI [of _ e'] conjI) auto
next
  case (Exhausted h')
  with assms(3) obtain j where "i + 1 \<le> j" "max_iterations opt \<le> j \<or> cancelled p j \<or> timed_out p j"
    "tried opt p E n (i + 1) j" "h' = map_option (\<lambda>x. x + word_of_int j) h"
    by auto
  then show ?thesis
    using tried_step [OF assms(1,2), of j] unfolding Exhausted miner_spec.simps
    by (intro exI [of _ j] conjI) auto
next
  case Undefined
  with assms(3) show ?thesis by simp
qed

lemma add_hashes_total:
  assumes "st_hashes st = map_option (\<lambda>x. x + word_of_int (st_i0 st)) h"
  shows "st_hashes (add_hashes i st) = map_option (\<lambda>x. x + word_of_int i) h"
  using assms by (cases h) (simp_all add: add_hashes_def)

lemma miner_check_Continue:
  assumes "wf_hdata (body E)" "miner_inv api p E n h i st" "miner_check api p i st = Continue st'"
  shows "miner_ready api p E n h i st'"
proof -
  obtain x where x: "length x = 4"
    "st_H st = E\<lparr>body := (body E)\<lparr>expire := x, rdata1 := be_bytes 32 (n + nat i),
                                    rdata2 := be_bytes 32 (n + nat i)\<rparr>\<rparr>"
    using assms(2) by (auto simp: miner_inv_def)
  let ?H = "(st_H st)\<lparr>body := set_expire (system_clock p i + 900) (body (st_H st))\<rparr>"
  have "expire (set_expire (system_clock p i + 900) (body (st_H st))) = be32_bytes (system_clock p i + 900)"
    using x by (intro set_expire_be32) simp
  then have "?H = candidate E (system_clock p i + 900) (n + nat i)"
    using x(2) by (simp add: candidate_def set_expire_def)
  moreover have "expiry_at p i (system_clock p i + 900)"
    using assms(2) by (auto simp: expiry_at_def miner_inv_def)
  ultimately show ?thesis
    using assms add_hashes_total [of st h i]
    by (auto simp: miner_check_def miner_ready_def miner_inv_def Let_def add_hashes_def split: if_splits)
qed

lemma miner_check_Break:
  assumes "miner_inv api p E n h i st" "miner_check api p i st = Break st'"
  shows "(cancelled p i \<or> timed_out p i) \<and>
         st_hashes (add_hashes i st') = map_option (\<lambda>x. x + word_of_int i) h"
proof -
  have "st_hashes (add_hashes i st) = map_option (\<lambda>x. x + word_of_int i) h"
    using assms(1) by (intro add_hashes_total) (simp add: miner_inv_def)
  with assms(2) show ?thesis
    by (cases h) (auto simp: miner_check_def Let_def add_hashes_def split: if_splits)
qed

lemma miner_skip_ready:
  assumes "wf_hdata (body E)" "miner_inv api p E n h i st" "i AND 0xfffff \<noteq> 0"
    "head_back (st_H st) = st_guard st"
  shows "miner_ready api p E n h i st"
proof -
  have "0 < i"
    using assms(2,3) by (cases "i = 0") (auto simp: miner_inv_def)
  with assms show ?thesis
    by (auto simp: miner_inv_def miner_ready_def candidate_def)
qed

lemma miner_inc:
  assumes wf: "wf_hdata (body E)" and r: "miner_ready api p E n h i st" and b: "n + nat i + 1 < 2 ^ 256"
  shows "\<exists>b. hdata_inc (body (st_H st)) = Some b \<and>
             miner_inv api p E n h (i + 1) (st\<lparr>st_H := (st_H st)\<lparr>body := b\<rparr>\<rparr>)"
proof -
  obtain e where H: "st_H st = candidate E e (n + nat i)" and ex: "expiry_at p i e"
    using r by (auto simp: miner_ready_def)
  have i: "0 \<le> i" and nat: "n + nat (i + 1) = n + nat i + 1"
    using r by (auto simp: miner_ready_def)
  let ?B = "body (candidate E e (n + nat i))"
  have wfB: "wf_hdata ?B" by (rule wf_candidate [OF wf])
  have v: "be_nat (rdata1 ?B) = n + nat i"
    using b by (simp add: candidate_def be_nat_be_bytes)
  have same: "same_rdata ?B"
    by (simp add: same_rdata_def candidate_def)
  have lt: "be_nat (rdata1 ?B) + 1 < 2 ^ 256"
    unfolding v by (rule b)
  obtain r' where inc: "hdata_inc ?B = Some (?B\<lparr>rdata1 := r', rdata2 := r'\<rparr>)" "length r' = 32"
    "be_nat r' = be_nat (rdata1 ?B) + 1"
    "r' ! 28 = rdata1 ?B ! 28 \<Longrightarrow> take 29 r' = take 29 (rdata1 ?B)"
    using hdata_inc_Some [OF wfB same lt] by blast
  have "be_nat r' = n + nat i + 1" using inc(3) unfolding v .
  then have r': "r' = be_bytes 32 (n + nat i + 1)"
    using inc(2) be_bytes_be_nat [of r' 32] by simp
  let ?b = "?B\<lparr>rdata1 := r', rdata2 := r'\<rparr>"
  let ?H' = "(st_H st)\<lparr>body := ?b\<rparr>"
  have H': "?H' = candidate E e (n + nat i + 1)"
    by (simp add: H candidate_def r')
  have "env_head ?H' = env_head (st_H st)" if "head_back ?H' = st_guard st"
  proof -
    have "head_back ?H' = head_back (st_H st)" using that r by (simp add: miner_ready_def)
    then have "r' ! 28 = rdata1 ?B ! 28"
      unfolding H' unfolding H head_back_candidate [OF wf] by (simp add: candidate_def r')
    then have "take 29 r' = take 29 (rdata1 ?B)" by (rule inc(4))
    then show ?thesis
      unfolding H' unfolding H by (intro env_head_candidate [OF wf]) (simp add: candidate_def r')
  qed
  moreover have "st_H (st\<lparr>st_H := ?H'\<rparr>) = E\<lparr>body := (body E)\<lparr>expire := be32_bytes e,
      rdata1 := be_bytes 32 (n + nat (i + 1)), rdata2 := be_bytes 32 (n + nat (i + 1))\<rparr>\<rparr>"
    unfolding nat by (simp add: H candidate_def r')
  ultimately have "miner_inv api p E n h (i + 1) (st\<lparr>st_H := ?H'\<rparr>)"
    using r i expiry_at_Suc [OF ex] unfolding miner_inv_def miner_ready_def
    by (intro conjI exI [of _ "be32_bytes e"]) auto
  with inc(1) H show ?thesis by auto
qed

context openssl_sha256
begin

lemma ready_digest:
  assumes "miner_ready api p E n h i st"
  shows "sha_final api (sha_update api (st_ctx1 st) (env_tail (st_H st)))
         = sha256 (hdata_env_as_slice (st_H st))"
  using final_updates [of "[env_head (st_H st), env_tail (st_H st)]"] assms
  by (simp add: miner_ready_def env_head_tail)

lemma miner_loop_spec:
  assumes "wf_hdata (body E)" "miner_inv api p E n h i st" "n + nat (max_iterations opt) < 2 ^ 256"
  shows "miner_spec opt p E n h i (miner_loop api opt p i st)"
  using assms(2)
proof (induction "nat (max_iterations opt - i)" arbitrary: i st rule: less_induct)
  case less
  show ?case
  proof (cases "i < max_iterations opt")
    case False
    have "st_hashes (add_hashes i st) = map_option (\<lambda>x. x + word_of_int i) h"
      using less.prems by (intro add_hashes_total) (simp add: miner_inv_def)
    with False show ?thesis
      by (subst miner_loop.simps) (auto simp: tried_def intro!: exI [of _ i])
  next
    case lt: True
    define polled where "polled = (if i AND 0xfffff = 0 \<or> head_back (st_H st) \<noteq> st_guard st
               then miner_check api p i st else Continue st)"
    show ?thesis
    proof (cases polled)
      case (Break st')
      then have "miner_check api p i st = Break st'"
        by (simp add: polled_def split: if_splits)
      from miner_check_Break [OF less.prems this] lt Break show ?thesis
        by (subst miner_loop.simps) (auto simp: polled_def [symmetric] tried_def intro!: exI [of _ i])
    next
      case (Continue st')
      have ready: "miner_ready api p E n h i st'"
      proof (cases "i AND 0xfffff = 0 \<or> head_back (st_H st) \<noteq> st_guard st")
        case True
        then have "miner_check api p i st = Continue st'"
          using Continue unfolding polled_def by (simp only: if_True simp_thms)
        then show ?thesis by (rule miner_check_Continue [OF assms(1) less.prems])
      next
        case False
        then have "st' = st"
          using Continue unfolding polled_def by (simp only: if_False poll_result.inject)
        with False show ?thesis
          using miner_skip_ready [OF assms(1) less.prems] by simp
      qed
      then obtain e where e: "st_H st' = candidate E e (n + nat i)" and ex: "expiry_at p i e"
        by (auto simp: miner_ready_def)
      have hit: "memcmp_less (sha_final api (sha_update api (st_ctx1 st') (env_tail (st_H st'))))
            (complexity opt) \<longleftrightarrow> hits opt (candidate E e (n + nat i))"
        unfolding ready_digest [OF ready] hits_def by (simp only: e)
      have cnt: "st_hashes (add_hashes i st') = map_option (\<lambda>x. x + word_of_int i) h"
        using ready by (intro add_hashes_total) (simp add: miner_ready_def)
      show ?thesis
      proof (cases "hits opt (candidate E e (n + nat i))")
        case True
        with lt Continue hit cnt e ex show ?thesis
          by (subst miner_loop.simps)
            (auto simp: polled_def [symmetric] Let_def tried_def intro!: exI [of _ i] exI [of _ e])
      next
        case False
        have "0 \<le> i"
          using ready by (simp add: miner_ready_def)
        with lt have "nat i + 1 \<le> nat (max_iterations opt)"
          by linarith
        then have "n + nat i + 1 < 2 ^ 256"
          using assms(3) by linarith
        from miner_inc [OF assms(1) ready this] obtain b where
          b: "hdata_inc (body (st_H st')) = Some b"
            "miner_inv api p E n h (i + 1) (st'\<lparr>st_H := (st_H st')\<lparr>body := b\<rparr>\<rparr>)"
          by blast
        have "miner_spec opt p E n h (i + 1)
            (miner_loop api opt p (i + 1) (st'\<lparr>st_H := (st_H st')\<lparr>body := b\<rparr>\<rparr>))"
          using lt by (intro less.hyps b(2)) simp
        from miner_spec_step [OF ex False this] show ?thesis
          using lt Continue hit False b(1)
          by (subst miner_loop.simps) (simp add: polled_def [symmetric] Let_def)
      qed
    qed
  qed
qed

end

section \<open>A streaming SHA-256 over the code's own compression function\<close>

text \<open>
  An implementation of the three calls: chaining value, the bytes not yet filling a block,
  and the number of bytes seen. It compresses with \<open>sha256_transform\<close> of
  \<open>cruncher.h\<close>, so the miner's CPU loop also runs on that function.
\<close>

fun stream_compress :: "u32 list \<Rightarrow> byte list \<Rightarrow> nat \<Rightarrow> u32 list" where
  "stream_compress H m 0 = H"
| "stream_compress H m (Suc k) =
     stream_compress (sha256_transform (be_words (take 64 m)) H) (drop 64 m) k"

definition stream_update :: "u32 list \<times> byte list \<times> nat \<Rightarrow> byte list \<Rightarrow> u32 list \<times> byte list \<times> nat" where
  "stream_update c bs =
     (case c of (H, buf, n) \<Rightarrow>
        let m = buf @ bs; k = length m div 64
        in (stream_compress H m k, drop (64 * k) m, n + length bs))"

definition stream_final :: "u32 list \<times> byte list \<times> nat \<Rightarrow> byte list" where
  "stream_final c =
     (case c of (H, buf, n) \<Rightarrow>
        let m = buf @ [0x80] @ replicate ((119 - n mod 64) mod 64) 0 @ be64_bytes (of_nat (8 * n))
        in concat (map be32_bytes (stream_compress H m (length m div 64))))"

definition stream_api :: "(u32 list \<times> byte list \<times> nat) sha_api" where
  "stream_api = \<lparr>sha_init = (h256, [], 0), sha_update = stream_update, sha_final = stream_final\<rparr>"

lemma stream_compress_blocks:
  "length H = 8 \<Longrightarrow> 64 * k \<le> length m \<Longrightarrow>
     stream_compress H m k = sha256_blocks H (take (64 * k) m)"
proof (induction k arbitrary: H m)
  case 0
  then show ?case by simp
next
  case (Suc k)
  have "take (64 * Suc k) m = take 64 m @ take (64 * k) (drop 64 m)"
    using take_add [of 64 "64 * k" m] by simp
  with Suc show ?case
    by (simp add: sha256_blocks_block sha256_transform_fips length_fips_compress)
qed

lemma sha256_blocks_append:
  "64 dvd length a \<Longrightarrow> sha256_blocks H (a @ b) = sha256_blocks (sha256_blocks H a) b"
proof (induction H a rule: sha256_blocks.induct)
  case (1 H a)
  show ?case
  proof (cases "length a < 64")
    case True
    with 1(2) have "a = []" by (auto dest: dvd_imp_le)
    then show ?thesis by simp
  next
    case False
    with 1(2) have "64 dvd length (drop 64 a)" by (simp add: dvd_minus_self)
    with 1(1) False have IH: "sha256_blocks (fips_compress (be_words (take 64 a)) H) (drop 64 a @ b)
        = sha256_blocks (sha256_blocks (fips_compress (be_words (take 64 a)) H) (drop 64 a)) b"
      by blast
    have "sha256_blocks H (take 64 a @ (drop 64 a @ b))
        = sha256_blocks (fips_compress (be_words (take 64 a)) H) (drop 64 a @ b)"
      using False by (intro sha256_blocks_block) simp
    moreover have "sha256_blocks H (take 64 a @ drop 64 a)
        = sha256_blocks (fips_compress (be_words (take 64 a)) H) (drop 64 a)"
      using False by (intro sha256_blocks_block) simp
    moreover have "a @ b = take 64 a @ (drop 64 a @ b)"
      by (metis append_assoc append_take_drop_id)
    ultimately show ?thesis using IH by (metis append_take_drop_id)
  qed
qed

text \<open>The streaming state after the bytes \<open>m\<close>.\<close>

definition stream_state :: "byte list \<Rightarrow> u32 list \<times> byte list \<times> nat" where
  "stream_state m =
     (sha256_blocks h256 (take (64 * (length m div 64)) m), drop (64 * (length m div 64)) m, length m)"

lemma stream_update_state: "stream_update (stream_state m) bs = stream_state (m @ bs)"
proof -
  let ?q = "length m div 64"
  define m1 where "m1 = take (64 * ?q) m"
  define m2 where "m2 = drop (64 * ?q) m"
  have m: "m = m1 @ m2" by (simp add: m1_def m2_def)
  have l1: "length m1 = 64 * ?q" by (simp add: m1_def)
  let ?k = "length (m2 @ bs) div 64"
  have q: "length (m @ bs) div 64 = ?q + ?k"
  proof -
    have "length (m @ bs) = 64 * ?q + length (m2 @ bs)" by (simp add: m2_def)
    then show ?thesis by simp
  qed
  have le: "64 * ?k \<le> length (m2 @ bs)" by simp
  have t: "take (64 * (?q + ?k)) (m @ bs) = m1 @ take (64 * ?k) (m2 @ bs)"
    by (subst m, subst append_assoc, subst take_append) (simp add: l1 distrib_left)
  have d: "drop (64 * (?q + ?k)) (m @ bs) = drop (64 * ?k) (m2 @ bs)"
    by (subst m, subst append_assoc, subst drop_append) (simp add: l1 distrib_left)
  have st: "stream_state m = (sha256_blocks h256 m1, m2, length m)"
    by (simp add: stream_state_def m1_def m2_def)
  have "stream_compress (sha256_blocks h256 m1) (m2 @ bs) ?k
      = sha256_blocks (sha256_blocks h256 m1) (take (64 * ?k) (m2 @ bs))"
    using le by (intro stream_compress_blocks) (simp_all add: length_sha256_blocks)
  also have "\<dots> = sha256_blocks h256 (m1 @ take (64 * ?k) (m2 @ bs))"
    using l1 by (subst sha256_blocks_append) simp_all
  finally have c: "stream_compress (sha256_blocks h256 m1) (m2 @ bs) ?k
      = sha256_blocks h256 (m1 @ take (64 * ?k) (m2 @ bs))" .
  have "stream_state (m @ bs) = (sha256_blocks h256 (m1 @ take (64 * ?k) (m2 @ bs)),
      drop (64 * ?k) (m2 @ bs), length m + length bs)"
    unfolding stream_state_def q t d by simp
  then show ?thesis
    by (simp only: st stream_update_def prod.case Let_def c)
qed

lemma stream_updates: "foldl stream_update (stream_state m) cs = stream_state (m @ concat cs)"
  by (induction cs arbitrary: m) (simp_all add: stream_update_state)

lemma length_sha256_pad: "64 dvd length (sha256_pad m)"
proof -
  have "length (sha256_pad m) = length m + 9 + (119 - length m mod 64) mod 64"
    by (simp add: sha256_pad_def)
  moreover have "64 dvd length m + 9 + (119 - length m mod 64) mod 64"
  proof -
    define q where "q = length m div 64"
    define r where "r = length m mod 64"
    have "length m = 64 * q + r" and "r < 64"
      by (simp_all add: q_def r_def)
    moreover have "(119 - r) mod 64 = (if r \<le> 55 then 55 - r else 119 - r)"
      using \<open>r < 64\<close> by (auto simp: mod_if)
    ultimately have "length m + 9 + (119 - r) mod 64 = 64 * q + (if r \<le> 55 then 64 else 128)"
      by auto
    moreover have "64 dvd 64 * q + (if r \<le> 55 then 64 else 128)"
      by simp
    ultimately show ?thesis by (simp only: r_def)
  qed
  ultimately show ?thesis by simp
qed

lemma stream_final_state: "stream_final (stream_state m) = sha256 m"
proof -
  let ?q = "length m div 64"
  define m1 where "m1 = take (64 * ?q) m"
  define m2 where "m2 = drop (64 * ?q) m"
  define tl where "tl = m2 @ [0x80] @ replicate ((119 - length m mod 64) mod 64) 0 @
      be64_bytes (of_nat (8 * length m))"
  have m: "m = m1 @ m2" by (simp add: m1_def m2_def)
  have l1: "64 dvd length m1" by (simp add: m1_def)
  have pad: "sha256_pad m = m1 @ tl"
    using m by (simp add: sha256_pad_def tl_def)
  then have "64 dvd length tl"
    using length_sha256_pad [of m] l1 by (simp add: dvd_add_right_iff)
  then have "stream_compress (sha256_blocks h256 m1) tl (length tl div 64)
      = sha256_blocks (sha256_blocks h256 m1) tl"
    by (subst stream_compress_blocks) (simp_all add: length_sha256_blocks dvd_mult_div_cancel)
  also have "\<dots> = sha256_words m"
    using l1 by (simp add: sha256_words_def pad sha256_blocks_append)
  finally show ?thesis
    by (simp add: stream_final_def stream_state_def sha256_def Let_def tl_def m1_def m2_def)
qed

interpretation stream: openssl_sha256 stream_api
proof
  fix cs :: "byte list list"
  have "(h256, [], 0) = stream_state []" by (simp add: stream_state_def)
  then show "sha_final stream_api (foldl (sha_update stream_api) (sha_init stream_api) cs) = sha256 (concat cs)"
    by (simp add: stream_api_def stream_updates stream_final_state)
qed

end
