(* ===== verification/GpuMiner.thy ===== *)
theory GpuMiner
  imports Hdata "HOL-Library.Multiset"
begin

text \<open>
  The GPU miner: message preparation and the kernel of \<open>crypto/util/cruncher.h\<close> (the source
  that the OpenCL build embeds and that the CUDA build repeats in
  \<open>crypto/util/cuda/cuda_credits.cu\<close>), the launch in \<open>opencl/opencl.cpp\<close>, the driver loop
  in \<open>opencl/sha256.cpp\<close> and \<open>build_mine_result\<close> of \<open>Miner.cpp\<close>, which recomputes a hit on
  the host.

  The 123 byte message spans three SHA-256 blocks. The host compresses the first once per
  virtual CPU; a work item patches the nonce into the second and runs two compressions.
\<close>

section \<open>Preparing the message (cruncher.h)\<close>

record thread_data =
  td_state :: vec8u
  td_rdata :: "u32 list"

record msg_data =
  msg_pseed :: "u32 list"
  msg_thrdata :: "thread_data list"
  msg_target :: vec8u

text \<open>
  \<open>bitcredit_be32enc(pp, x)\<close> writes the four bytes of \<open>x\<close>, most significant first, over a
  \<open>uint32_t\<close>; the result is that word as the little-endian host reads it back.
\<close>

definition bitcredit_be32enc :: "u32 \<Rightarrow> u32" where
  "bitcredit_be32enc x =
     le_load32 [ucast (drop_bit 24 x AND 0xff), ucast (drop_bit 16 x AND 0xff),
                ucast (drop_bit 8 x AND 0xff), ucast (x AND 0xff)] 0"

text \<open>The body of the loop over \<open>gpu_thread\<close>; \<open>thr_rdata\<close> starts at \<open>rdata + gpu_thread * 32\<close>.\<close>

definition bitcredit_prepare_thread :: "u32 \<Rightarrow> byte list \<Rightarrow> byte list \<Rightarrow> thread_data" where
  "bitcredit_prepare_thread expired data thr_rdata =
     (let v0 = bitcredit_be32enc (le_load32 data 0);
          word1 = bitcredit_be32enc (le_load32 data 4);
          v1 = (word1 AND 0xFFFFFF00) OR drop_bit 24 expired;
          v2 = push_bit 8 expired OR ucast (data ! 11);
          v3_9 = map (\<lambda>i. bitcredit_be32enc (le_load32 data (4 * i))) [3..<10];
          wordA = bitcredit_be32enc (le_load32 data 40);
          vA = (wordA AND 0xFFFFFF00) OR ucast (thr_rdata ! 0);
          vB_F = map (\<lambda>j. bitcredit_be32enc (le_load32 thr_rdata (1 + 4 * j))) [0..<5];
          shadata = [v0, v1, v2] @ v3_9 @ [vA] @ vB_F;
          r0_1 = map (\<lambda>j. bitcredit_be32enc (le_load32 thr_rdata (21 + 4 * j))) [0..<2];
          word28 = bitcredit_be32enc (le_load32 thr_rdata 28);
          r2 = push_bit 8 word28 OR ucast (data ! 75);
          word16 = bitcredit_be32enc (le_load32 data (4 * 22));
          r3 = (word16 AND 0xFFFFFF00) OR ucast (thr_rdata ! 0);
          r4_8 = map (\<lambda>j. bitcredit_be32enc (le_load32 thr_rdata (1 + 4 * j))) [0..<5]
      in \<lparr>td_state = sha256_transform shadata h256, td_rdata = r0_1 @ [r2, r3] @ r4_8\<rparr>)"

definition bitcredit_prepare_msg :: "nat \<Rightarrow> u32 \<Rightarrow> byte list \<Rightarrow> byte list \<Rightarrow> byte list \<Rightarrow> msg_data" where
  "bitcredit_prepare_msg gpu_threads expired data target rdata =
     \<lparr>msg_pseed = map (\<lambda>i. bitcredit_be32enc (le_load32 data (76 + 4 * i))) [0..<3],
      msg_thrdata = map (\<lambda>t. bitcredit_prepare_thread expired data (drop (t * 32) rdata)) [0..<gpu_threads],
      msg_target = map (\<lambda>i. bitcredit_be32enc (le_load32 target (4 * i))) [0..<8]\<rparr>"

section \<open>The kernel (cruncher.h)\<close>

record dev_hash_result =
  dev_nonce :: u64
  dev_vcpu :: u32
  dev_found :: u32

text \<open>The block a work item builds for the second compression.\<close>

definition kernel_block2 :: "msg_data \<Rightarrow> thread_data \<Rightarrow> u64 \<Rightarrow> vec16u" where
  "kernel_block2 msg thrdata nonce =
     (let rdata6 = td_rdata thrdata ! 0;
          rdata7 = td_rdata thrdata ! 1;
          rdata8 = td_rdata thrdata ! 2;
          rdata = (push_bit 56 (ucast rdata6) OR push_bit 24 (ucast rdata7) OR drop_bit 8 (ucast rdata8 :: u64)) + nonce;
          rdata6' = ucast (drop_bit 56 rdata) OR (rdata6 AND 0xFFFFFF00);
          rdata7' = ucast (drop_bit 24 rdata);
          rdata10 = ucast (push_bit 8 rdata) OR 0x80;
          rdata8' = ucast (push_bit 8 rdata) OR (rdata8 AND 0xFF)
      in [rdata6', rdata7', rdata8', msg_pseed msg ! 0, msg_pseed msg ! 1, msg_pseed msg ! 2,
          td_rdata thrdata ! 3, td_rdata thrdata ! 4, td_rdata thrdata ! 5, td_rdata thrdata ! 6,
          td_rdata thrdata ! 7, td_rdata thrdata ! 8, rdata6', rdata7', rdata10, 0])"

definition kernel_block3 :: vec16u where
  "kernel_block3 = [0, 0, 0, 0, 0, 0, 0, 0, 0, 0, 0, 0, 0, 0, 0, 0x000003d8]"

definition kernel_state :: "msg_data \<Rightarrow> nat \<Rightarrow> u64 \<Rightarrow> vec8u" where
  "kernel_state msg vcpu nonce =
     (let thrdata = msg_thrdata msg ! vcpu
      in sha256_transform kernel_block3
           (sha256_transform (kernel_block2 msg thrdata nonce) (td_state thrdata)))"

text \<open>The comparison loop: \<open>True\<close> when it reaches the branch that reports a hit.\<close>

fun kernel_below :: "vec8u \<Rightarrow> vec8u \<Rightarrow> bool" where
  "kernel_below (s # ss) (t # ts) =
     (if s > t then False else if s < t then True else kernel_below ss ts)"
| "kernel_below _ _ = False"

text \<open>
  One work item. \<open>atomic_add(&result->found, 1) == 0\<close> lets only the first reporting item
  write; the counter wraps at 2^32.
\<close>

definition bitcredit_gpu_hash :: "u64 \<Rightarrow> msg_data \<Rightarrow> nat \<times> nat \<Rightarrow> dev_hash_result \<Rightarrow> dev_hash_result" where
  "bitcredit_gpu_hash start_nonce msg item result =
     (case item of (idx, vcpu) \<Rightarrow>
        let nonce = start_nonce + of_nat idx
        in if kernel_below (kernel_state msg vcpu nonce) (msg_target msg) then
             (if dev_found result = 0
              then result\<lparr>dev_found := dev_found result + 1, dev_nonce := nonce, dev_vcpu := of_nat vcpu\<rparr>
              else result\<lparr>dev_found := dev_found result + 1\<rparr>)
           else result)"

section \<open>Launching it (opencl.cpp)\<close>

record hash_result =
  hr_nonce :: u64
  hr_vcpu :: u64

text \<open>The two-dimensional range of \<open>clEnqueueNDRangeKernel\<close>.\<close>

definition nd_range :: "nat \<Rightarrow> nat \<Rightarrow> (nat \<times> nat) list" where
  "nd_range n m = [(idx, vcpu). idx \<leftarrow> [0..<n], vcpu \<leftarrow> [0..<m]]"

text \<open>
  \<open>OpenCL::scan_hash\<close>. The device runs the work items in an order of its own: \<open>order\<close> is a
  parameter, and the theorems assume only that it runs each work item once.
\<close>

definition scan_hash ::
  "((nat \<times> nat) list \<Rightarrow> (nat \<times> nat) list) \<Rightarrow> msg_data \<Rightarrow> u32 \<Rightarrow> u64 \<Rightarrow> u64 \<Rightarrow> hash_result" where
  "scan_hash order msg gpu_threads threads start_nonce =
     (let start = start_nonce div ucast gpu_threads;
          devresult = \<lparr>dev_nonce = - 1, dev_vcpu = - 1, dev_found = 0\<rparr>;
          devresult' = fold (bitcredit_gpu_hash start msg)
            (order (nd_range (unat (threads div ucast gpu_threads)) (unat gpu_threads))) devresult
      in \<lparr>hr_nonce = dev_nonce devresult',
          hr_vcpu = (if dev_vcpu devresult' = - 1 then - 1 else ucast (dev_vcpu devresult'))\<rparr>)"

section \<open>Rebuilding a hit (Miner.cpp)\<close>

text \<open>Bytes 24 to 31 as \<open>build_mine_result\<close> reads them.\<close>

definition read_rdata64 :: "byte list \<Rightarrow> nat \<Rightarrow> u64" where
  "read_rdata64 rdata i =
     push_bit (8 * 7) (ucast (rdata ! i)) OR push_bit (8 * 6) (ucast (rdata ! (i + 1))) OR
     push_bit (8 * 5) (ucast (rdata ! (i + 2))) OR push_bit (8 * 4) (ucast (rdata ! (i + 3))) OR
     push_bit (8 * 3) (ucast (rdata ! (i + 4))) OR push_bit (8 * 2) (ucast (rdata ! (i + 5))) OR
     push_bit (8 * 1) (ucast (rdata ! (i + 6))) OR ucast (rdata ! (i + 7))"

definition mine_result_env :: "hdata_env \<Rightarrow> byte list \<Rightarrow> u64 \<Rightarrow> nat \<Rightarrow> u32 \<Rightarrow> hdata_env" where
  "mine_result_env H rdata nonce vcpu expired =
     (let r = read_rdata64 rdata (32 * vcpu + 24) + nonce;
          rd = map (\<lambda>i. rdata ! (32 * vcpu + i)) [0..<24] @
               [ucast (drop_bit (7 * 8) r), ucast (drop_bit (6 * 8) r), ucast (drop_bit (5 * 8) r),
                ucast (drop_bit (4 * 8) r), ucast (drop_bit (3 * 8) r), ucast (drop_bit (2 * 8) r),
                ucast (drop_bit (1 * 8) r), ucast r]
      in H\<lparr>body := set_expire expired ((body H)\<lparr>rdata1 := rd, rdata2 := rd\<rparr>)\<rparr>)"

text \<open>
  \<open>build_mine_result\<close>: \<open>None\<close> is the branch that logs an overclocked GPU. The digest is
  OpenSSL's one-shot SHA-256 of the whole message, which is \<open>sha256\<close>.
\<close>

definition build_mine_result ::
  "byte list \<Rightarrow> hdata_env \<Rightarrow> byte list \<Rightarrow> u64 \<Rightarrow> nat \<Rightarrow> u32 \<Rightarrow> byte list option" where
  "build_mine_result target H rdata nonce vcpu expired =
     (let H' = mine_result_env H rdata nonce vcpu expired
      in if memcmp_less (sha256 (hdata_env_as_slice H')) target
         then Some (hdata_as_slice (body H')) else None)"

section \<open>Words and bytes\<close>

lemma bit_be32:
  "bit (be32 a b c d) n \<longleftrightarrow>
     (if n < 8 then bit d n else if n < 16 then bit c (n - 8)
      else if n < 24 then bit b (n - 16) else n < 32 \<and> bit a (n - 24))"
  by (auto simp: be32_def bit_simps dest: bit_imp_le_length)

lemma le_load32_be32: "le_load32 p i = be32 (p ! (i + 3)) (p ! (i + 2)) (p ! (i + 1)) (p ! i)"
  by (simp add: le_load32_def be32_def or.commute or.left_commute)

lemma ucast_low_byte: "ucast (x AND 0xff :: u32) = (ucast x :: byte)"
  by (rule bit_word_eqI) (simp add: and_ff bit_simps)

lemma be32enc_be32: "bitcredit_be32enc (be32 a b c d) = be32 d c b a"
  using bytes_of_be32 [of a b c d]
  by (simp add: bitcredit_be32enc_def ucast_low_byte le_load32_be32 be32_bytes_def)

lemma be32enc_load:
  "bitcredit_be32enc (le_load32 p i) = be32 (p ! i) (p ! (i + 1)) (p ! (i + 2)) (p ! (i + 3))"
  by (simp add: le_load32_be32 be32enc_be32)

lemma be32_patch_low: "(be32 a b c d AND 0xFFFFFF00) OR ucast (e :: byte) = be32 a b c e"
  by (rule bit_word_eqI)
    (auto simp: and_low24 bit_be32 bit_simps dest: bit_imp_le_length)

definition be64 :: "byte \<Rightarrow> byte \<Rightarrow> byte \<Rightarrow> byte \<Rightarrow> byte \<Rightarrow> byte \<Rightarrow> byte \<Rightarrow> byte \<Rightarrow> u64" where
  "be64 a b c d e f g h = push_bit 32 (ucast (be32 a b c d)) OR ucast (be32 e f g h)"

lemma bit_be64:
  "bit (be64 a b c d e f g h) n \<longleftrightarrow>
     (if n < 32 then bit (be32 e f g h) n else n < 64 \<and> bit (be32 a b c d) (n - 32))"
  by (auto simp: be64_def bit_simps dest: bit_imp_le_length)

lemma less32_cases:
  assumes "n < (32 :: nat)"
  obtains m where "m < 8" "n = m \<or> n = 8 + m \<or> n = 16 + m \<or> n = 24 + m"
proof -
  from assms consider "n < 8" | "8 \<le> n" "n < 16" | "16 \<le> n" "n < 24" | "24 \<le> n" "n < 32"
    by linarith
  then show ?thesis
    using that [of n] that [of "n - 8"] that [of "n - 16"] that [of "n - 24"] by cases auto
qed

lemma less64_cases:
  assumes "n < (64 :: nat)"
  obtains m where "m < 8" "n = m \<or> n = 8 + m \<or> n = 16 + m \<or> n = 24 + m \<or>
    n = 32 + m \<or> n = 40 + m \<or> n = 48 + m \<or> n = 56 + m"
proof (cases "n < 32")
  case True
  then obtain m where "m < 8" "n = m \<or> n = 8 + m \<or> n = 16 + m \<or> n = 24 + m"
    by (rule less32_cases)
  then show ?thesis using that [of m] by blast
next
  case False
  with assms have "n - 32 < 32" by simp
  then obtain m where "m < 8" "n - 32 = m \<or> n - 32 = 8 + m \<or> n - 32 = 16 + m \<or> n - 32 = 24 + m"
    by (rule less32_cases)
  with False have "n = 32 + m \<or> n = 40 + m \<or> n = 48 + m \<or> n = 56 + m" by arith
  with \<open>m < 8\<close> show ?thesis using that [of m] by blast
qed

lemma word32_eqI:
  fixes v w :: u32
  assumes "\<And>m. m < 8 \<Longrightarrow> bit v m = bit w m" "\<And>m. m < 8 \<Longrightarrow> bit v (8 + m) = bit w (8 + m)"
    "\<And>m. m < 8 \<Longrightarrow> bit v (16 + m) = bit w (16 + m)" "\<And>m. m < 8 \<Longrightarrow> bit v (24 + m) = bit w (24 + m)"
  shows "v = w"
proof (rule bit_word_eqI)
  fix n :: nat
  assume "n < LENGTH(32)"
  then have "n < 32" by simp
  then obtain m where "m < 8" "n = m \<or> n = 8 + m \<or> n = 16 + m \<or> n = 24 + m"
    by (rule less32_cases)
  with assms show "bit v n = bit w n" by blast
qed

lemma word64_eqI:
  fixes v w :: u64
  assumes "\<And>m. m < 8 \<Longrightarrow> bit v m = bit w m" "\<And>m. m < 8 \<Longrightarrow> bit v (8 + m) = bit w (8 + m)"
    "\<And>m. m < 8 \<Longrightarrow> bit v (16 + m) = bit w (16 + m)" "\<And>m. m < 8 \<Longrightarrow> bit v (24 + m) = bit w (24 + m)"
    "\<And>m. m < 8 \<Longrightarrow> bit v (32 + m) = bit w (32 + m)" "\<And>m. m < 8 \<Longrightarrow> bit v (40 + m) = bit w (40 + m)"
    "\<And>m. m < 8 \<Longrightarrow> bit v (48 + m) = bit w (48 + m)" "\<And>m. m < 8 \<Longrightarrow> bit v (56 + m) = bit w (56 + m)"
  shows "v = w"
proof (rule bit_word_eqI)
  fix n :: nat
  assume "n < LENGTH(64)"
  then have "n < 64" by simp
  then obtain m where "m < 8" "n = m \<or> n = 8 + m \<or> n = 16 + m \<or> n = 24 + m \<or>
    n = 32 + m \<or> n = 40 + m \<or> n = 48 + m \<or> n = 56 + m"
    by (rule less64_cases)
  with assms show "bit v n = bit w n" by blast
qed

lemma bit_byte_beyond [simp]: "8 \<le> n \<Longrightarrow> \<not> bit (b :: byte) n"
  using bit_imp_le_length [of b n] by auto

lemma read_rdata64_be64:
  "read_rdata64 p i = be64 (p ! i) (p ! (i + 1)) (p ! (i + 2)) (p ! (i + 3))
                           (p ! (i + 4)) (p ! (i + 5)) (p ! (i + 6)) (p ! (i + 7))"
  by (rule word64_eqI) (simp_all add: read_rdata64_def bit_be64 bit_be32 bit_simps)

lemma kernel_word64:
  "push_bit 56 (ucast (be32 a b c d)) OR push_bit 24 (ucast (be32 e f g h)) OR
   drop_bit 8 (ucast (be32 i j k l) :: u64) = be64 d e f g h i j k"
  by (rule word64_eqI) (simp_all add: bit_be64 bit_be32 bit_simps)

lemma ucast_top_byte: "ucast (drop_bit 56 r) = (ucast (ucast (drop_bit 56 (r :: u64)) :: byte) :: u32)"
  by (rule bit_word_eqI) (auto simp: bit_simps dest: bit_imp_le_length)

lemma ucast_mid_word:
  "ucast (drop_bit 24 (r :: u64)) =
     be32 (ucast (drop_bit 48 r)) (ucast (drop_bit 40 r)) (ucast (drop_bit 32 r)) (ucast (drop_bit 24 r))"
  by (rule word32_eqI) (simp_all add: bit_be32 bit_simps)

lemma ucast_low_word:
  "ucast (push_bit 8 (r :: u64)) OR ucast (e :: byte) =
     be32 (ucast (drop_bit 16 r)) (ucast (drop_bit 8 r)) (ucast r) e"
  by (rule word32_eqI) (simp_all add: bit_be32 bit_simps)

lemma be32_and_ff: "be32 a b c d AND 0xFF = ucast d"
  by (rule word32_eqI) (simp_all add: and_ff bit_be32 bit_simps)

lemma be32_expire_hi: "(be32 a b c d AND 0xFFFFFF00) OR drop_bit 24 x = be32 a b c (ucast (drop_bit 24 x))"
proof -
  have "drop_bit 24 x = ucast (ucast (drop_bit 24 x) :: byte)"
    by (rule bit_word_eqI) (auto simp: bit_simps dest: bit_imp_le_length)
  then show ?thesis using be32_patch_low by metis
qed

lemma be32_expire_lo:
  "push_bit 8 x OR ucast (d :: byte) = be32 (ucast (drop_bit 16 x)) (ucast (drop_bit 8 x)) (ucast x) d"
  by (rule word32_eqI) (simp_all add: bit_be32 bit_simps)

lemma be32_shift: "push_bit 8 (be32 a b c d) OR ucast (e :: byte) = be32 b c d e"
  by (rule word32_eqI) (simp_all add: bit_be32 bit_simps)

lemma patch_top: "ucast (drop_bit 56 (r :: u64)) OR (be32 a b c d AND 0xFFFFFF00) = be32 a b c (ucast (drop_bit 56 r))"
  unfolding ucast_top_byte using be32_patch_low [of a b c d] by (simp add: or.commute)

lemma patch_low:
  "ucast (push_bit 8 (r :: u64)) OR (be32 a b c e AND 0xFF) =
     be32 (ucast (drop_bit 16 r)) (ucast (drop_bit 8 r)) (ucast r) e"
  "ucast (push_bit 8 (r :: u64)) OR 0x80 = be32 (ucast (drop_bit 16 r)) (ucast (drop_bit 8 r)) (ucast r) 0x80"
  using ucast_low_word [where r = r and e = e] ucast_low_word [where r = r and e = "0x80"]
  by (simp_all add: be32_and_ff)

lemma be32_zero: "be32 0 0 0 0 = 0"
  by (simp add: be32_def)

lemma be_words_nth:
  "length b = 4 * k \<Longrightarrow>
     be_words b = map (\<lambda>i. be32 (b ! (4 * i)) (b ! (4 * i + 1)) (b ! (4 * i + 2)) (b ! (4 * i + 3))) [0..<k]"
proof (induction b arbitrary: k rule: be_words.induct)
  case (1 a b c d r)
  then obtain k' where k: "k = Suc k'" "length r = 4 * k'" by (cases k) auto
  show ?case
    unfolding k(1) upt_conv_Cons [OF zero_less_Suc] be_words.simps 1(1) [OF k(2)] map_Suc_upt [symmetric]
    by (simp add: add.commute)
qed auto

section \<open>The kernel hashes the message the host rebuilds\<close>

definition mined_rdata :: "byte list \<Rightarrow> u64 \<Rightarrow> nat \<Rightarrow> byte list" where
  "mined_rdata rdata nonce vcpu =
     map (\<lambda>i. rdata ! (32 * vcpu + i)) [0..<24] @ be64_bytes (read_rdata64 rdata (32 * vcpu + 24) + nonce)"

lemma length_mined_rdata [simp]: "length (mined_rdata rdata nonce vcpu) = 32"
  by (simp add: mined_rdata_def)

lemma mine_result_env_eq:
  "mine_result_env H rdata nonce vcpu expired =
     H\<lparr>body := set_expire expired ((body H)\<lparr>rdata1 := mined_rdata rdata nonce vcpu,
                                            rdata2 := mined_rdata rdata nonce vcpu\<rparr>)\<rparr>"
  by (simp add: mine_result_env_def mined_rdata_def be64_bytes_def Let_def del: upt_Suc)

lemma wf_mine_result:
  assumes "wf_hdata (body H)"
  shows "wf_hdata (body (mine_result_env H rdata nonce vcpu expired))"
proof -
  have "wf_hdata ((body H)\<lparr>rdata1 := mined_rdata rdata nonce vcpu, rdata2 := mined_rdata rdata nonce vcpu\<rparr>)"
    using assms by (simp add: wf_hdata_def)
  from wf_set_expire [OF this] show ?thesis by (simp add: mine_result_env_eq)
qed

lemma mine_result_slice:
  assumes "wf_hdata (body H)"
  shows "hdata_env_as_slice (mine_result_env H rdata nonce vcpu expired) =
    [d1 H, d2 H] @ op (body H) @ [flags (body H)] @ be32_bytes expired @ myaddr (body H) @
    mined_rdata rdata nonce vcpu @ pseed (body H) @ mined_rdata rdata nonce vcpu"
proof -
  have "expire (set_expire expired ((body H)\<lparr>rdata1 := x, rdata2 := x\<rparr>)) = be32_bytes expired" for x
    using assms by (intro set_expire_be32) (simp add: wf_hdata_def)
  then show ?thesis
    by (simp add: mine_result_env_eq hdata_env_as_slice_def hdata_as_slice_def)
qed

lemma upt_numerals:
  "[0..<16] = [0, 1, 2, 3, 4, 5, 6, 7, 8, 9, 10, 11, 12, 13, 14, 15::nat]"
  "[3..<10] = [3, 4, 5, 6, 7, 8, 9::nat]" "[0..<5] = [0, 1, 2, 3, 4::nat]" "[0..<3] = [0, 1, 2::nat]"
  "[0..<2] = [0, 1::nat]" "[0..<8] = [0, 1, 2, 3, 4, 5, 6, 7::nat]"
  by (simp_all add: upt_rec)

lemma list4_cases:
  assumes "length xs = 4"
  obtains x0 x1 x2 x3 where "xs = [x0, x1, x2, x3]"
  using assms by (auto simp: length_Suc_conv numeral_eq_Suc)

lemma list16_cases:
  assumes "length xs = 16"
  obtains p0 p1 p2 p3 p4 p5 p6 p7 p8 p9 p10 p11 p12 p13 p14 p15 where
    "xs = [p0, p1, p2, p3, p4, p5, p6, p7, p8, p9, p10, p11, p12, p13, p14, p15]"
  using assms by (auto simp: length_Suc_conv numeral_eq_Suc)

lemma list32_cases:
  assumes "length xs = 32"
  obtains a0 a1 a2 a3 a4 a5 a6 a7 a8 a9 a10 a11 a12 a13 a14 a15
    a16 a17 a18 a19 a20 a21 a22 a23 a24 a25 a26 a27 a28 a29 a30 a31 where
    "xs = [a0, a1, a2, a3, a4, a5, a6, a7, a8, a9, a10, a11, a12, a13, a14, a15,
           a16, a17, a18, a19, a20, a21, a22, a23, a24, a25, a26, a27, a28, a29, a30, a31]"
  using assms by (auto simp: length_Suc_conv numeral_eq_Suc)

lemma upt24: "[0..<24] = [0, 1, 2, 3, 4, 5, 6, 7, 8, 9, 10, 11, 12, 13, 14, 15, 16, 17, 18, 19, 20, 21, 22, 23::nat]"
  by (simp add: upt_rec)

lemma pad123:
  assumes "length m = 123"
  shows "sha256_pad m = take 64 m @ (drop 64 m @ [0x80, 0, 0, 0, 0]) @
           (replicate 56 0 @ be64_bytes 0x3d8)"
proof -
  have "replicate 60 (0 :: byte) = [0, 0, 0, 0] @ replicate 56 0"
    by (simp add: numeral_eq_Suc)
  moreover have "m = take 64 m @ drop 64 m" by simp
  ultimately show ?thesis
    using assms by (simp add: sha256_pad_def)
qed

lemma kernel_block3_bytes: "be_words (replicate 56 0 @ be64_bytes 0x3d8) = kernel_block3"
  by code_simp

text \<open>
  The words the host and the kernel assemble are the words of the first and of the second
  block of the padded message.
\<close>

lemma sha_block_words:
  fixes expired nonce rdata target
  assumes wf: "wf_hdata (body H)" and t: "vcpu < n" "length rdata = 32 * n"
  defines "data \<equiv> hdata_env_as_slice H"
    and "m \<equiv> hdata_env_as_slice (mine_result_env H rdata nonce vcpu expired)"
  defines "thr \<equiv> bitcredit_prepare_thread expired data (drop (vcpu * 32) rdata)"
  shows "td_state thr = sha256_transform (be_words (take 64 m)) h256"
    and "kernel_block2 (bitcredit_prepare_msg n expired data target rdata) thr nonce =
           be_words (drop 64 m @ [0x80, 0, 0, 0, 0])"
proof -
  obtain o0 o1 o2 o3 where op: "op (body H) = [o0, o1, o2, o3]"
    using wf by (auto simp: wf_hdata_def elim: list4_cases)
  obtain e0 e1 e2 e3 where ex: "expire (body H) = [e0, e1, e2, e3]"
    using wf by (auto simp: wf_hdata_def elim: list4_cases)
  obtain p0 p1 p2 p3 p4 p5 p6 p7 p8 p9 p10 p11 p12 p13 p14 p15 where
    ps: "pseed (body H) = [p0, p1, p2, p3, p4, p5, p6, p7, p8, p9, p10, p11, p12, p13, p14, p15]"
    using wf by (auto simp: wf_hdata_def elim: list16_cases)
  obtain a0 a1 a2 a3 a4 a5 a6 a7 a8 a9 a10 a11 a12 a13 a14 a15
    a16 a17 a18 a19 a20 a21 a22 a23 a24 a25 a26 a27 a28 a29 a30 a31 where
    ad: "myaddr (body H) = [a0, a1, a2, a3, a4, a5, a6, a7, a8, a9, a10, a11, a12, a13, a14, a15,
           a16, a17, a18, a19, a20, a21, a22, a23, a24, a25, a26, a27, a28, a29, a30, a31]"
    using wf by (auto simp: wf_hdata_def elim: list32_cases)
  obtain z0 z1 z2 z3 z4 z5 z6 z7 z8 z9 z10 z11 z12 z13 z14 z15
    z16 z17 z18 z19 z20 z21 z22 z23 z24 z25 z26 z27 z28 z29 z30 z31 where
    r1: "rdata1 (body H) = [z0, z1, z2, z3, z4, z5, z6, z7, z8, z9, z10, z11, z12, z13, z14, z15,
           z16, z17, z18, z19, z20, z21, z22, z23, z24, z25, z26, z27, z28, z29, z30, z31]"
    using wf by (auto simp: wf_hdata_def elim: list32_cases)
  define b where "b j = rdata ! (32 * vcpu + j)" for j
  have idx: "drop (vcpu * 32) rdata ! j = b j" for j
    using t by (simp add: mult.commute b_def)
  have rd: "read_rdata64 rdata (32 * vcpu + 24) = be64 (b 24) (b 25) (b 26) (b 27) (b 28) (b 29) (b 30) (b 31)"
    by (simp add: read_rdata64_be64 b_def add.commute)
  have mr: "mined_rdata rdata nonce vcpu = map b [0..<24] @
      be64_bytes (be64 (b 24) (b 25) (b 26) (b 27) (b 28) (b 29) (b 30) (b 31) + nonce)"
    by (simp add: mined_rdata_def rd b_def del: upt_Suc)
  note layout = hdata_env_as_slice_def hdata_as_slice_def op ex ad ps r1
  show "td_state thr = sha256_transform (be_words (take 64 m)) h256"
    unfolding m_def mine_result_slice [OF wf] thr_def data_def
    by (simp add: bitcredit_prepare_thread_def upt_numerals be32enc_load be32_expire_hi be32_expire_lo
       be32_patch_low Let_def layout be32_bytes_def mr upt24 idx numeral_2_eq_2 [symmetric] del: upt_Suc nth_drop)
  show "kernel_block2 (bitcredit_prepare_msg n expired data target rdata) thr nonce =
      be_words (drop 64 m @ [0x80, 0, 0, 0, 0])"
    unfolding m_def mine_result_slice [OF wf] thr_def data_def
    by (simp add: kernel_block2_def bitcredit_prepare_msg_def bitcredit_prepare_thread_def upt_numerals
       be32enc_load be32_shift be32_patch_low kernel_word64 patch_top ucast_mid_word patch_low be32_zero Let_def layout be64_bytes_def be32_bytes_def mr upt24 idx
       numeral_2_eq_2 [symmetric] del: upt_Suc nth_drop)
qed

text \<open>The kernel's two compressions on top of the prepared state are the digest of the rebuilt message.\<close>

lemma kernel_state_sha256:
  assumes wf: "wf_hdata (body H)" and t: "vcpu < n" "length rdata = 32 * n"
  shows "kernel_state (bitcredit_prepare_msg n expired (hdata_env_as_slice H) target rdata) vcpu nonce
    = sha256_words (hdata_env_as_slice (mine_result_env H rdata nonce vcpu expired))"
proof -
  let ?m = "hdata_env_as_slice (mine_result_env H rdata nonce vcpu expired)"
  have l: "length ?m = 123"
    by (rule length_hdata_env_as_slice [OF wf_mine_result [OF wf]])
  have "sha256_words ?m = fips_compress kernel_block3
      (fips_compress (be_words (drop 64 ?m @ [0x80, 0, 0, 0, 0])) (fips_compress (be_words (take 64 ?m)) h256))"
    unfolding sha256_words_def pad123 [OF l]
    using l sha256_blocks_block [of "replicate 56 0 @ be64_bytes 0x3d8" _ "[]"]
    by (simp add: sha256_blocks_block kernel_block3_bytes del: append_assoc)
  moreover have "msg_thrdata (bitcredit_prepare_msg n expired (hdata_env_as_slice H) target rdata) ! vcpu
      = bitcredit_prepare_thread expired (hdata_env_as_slice H) (drop (vcpu * 32) rdata)"
    using t by (simp add: bitcredit_prepare_msg_def)
  ultimately show ?thesis
    using sha_block_words(1) [OF wf t, of expired nonce] sha_block_words(2) [OF wf t, of expired target nonce]
    by (simp add: kernel_state_def Let_def sha256_transform_fips length_fips_compress)
qed

section \<open>Comparing digests\<close>

lemma memcmp_less_be_nat:
  "length xs = length ys \<Longrightarrow> memcmp_less xs ys \<longleftrightarrow> be_nat xs < be_nat ys"
proof (induction xs ys rule: list_induct2)
  case Nil
  show ?case by simp
next
  case (Cons x xs y ys)
  have b: "be_nat xs < 256 ^ length xs" "be_nat ys < 256 ^ length xs"
    using be_nat_less [of xs] be_nat_less [of ys] Cons.hyps by simp_all
  have lt: "be_nat (u # us) < be_nat (v # vs)"
    if "u < v" "length us = length vs" "be_nat us < 256 ^ length vs" for u v :: byte and us vs
  proof -
    have "(unat u + 1) * 256 ^ length vs \<le> unat v * 256 ^ length vs"
      using that(1) by (intro mult_le_mono1) (simp add: word_less_nat_alt)
    with that(2,3) show ?thesis
      unfolding be_nat_Cons by (simp only: distrib_right mult_1)
  qed
  show ?case
  proof (cases x y rule: linorder_cases)
    case less
    with lt [of x y xs ys] b Cons.hyps show ?thesis by simp
  next
    case equal
    with Cons show ?thesis by (simp add: be_nat_Cons)
  next
    case greater
    with lt [of y x ys xs] b Cons.hyps show ?thesis by auto
  qed
qed

lemma byte_of_word: "(ucast (drop_bit k (w :: 'a::len word)) :: byte) = of_nat (unat w div 2 ^ k)"
proof -
  have "(ucast (drop_bit k w) :: byte) = of_nat (unat (drop_bit k w))"
    by (rule of_nat_unat [symmetric])
  also have "unat (drop_bit k w) = unat w div 2 ^ k"
    unfolding unat_drop_bit_eq by (rule drop_bit_eq_div)
  finally show ?thesis .
qed

lemma be32_bytes_be_bytes: "be32_bytes w = be_bytes 4 (unat w)"
proof -
  have "be_bytes 4 n = [of_nat (n div 2 ^ 24), of_nat (n div 2 ^ 16), of_nat (n div 2 ^ 8), of_nat (n div 2 ^ 0)]" for n
  proof -
    have "4 = Suc (Suc (Suc (Suc 0)))" by simp
    then have "be_bytes 4 n = be_bytes (Suc (Suc (Suc (Suc 0)))) n" by (simp only:)
    also have "\<dots> = [of_nat (n div 256 div 256 div 256), of_nat (n div 256 div 256), of_nat (n div 256), of_nat n]"
      by simp
    finally have "be_bytes 4 n =
        [of_nat (n div 256 div 256 div 256), of_nat (n div 256 div 256), of_nat (n div 256), of_nat n]" .
    moreover have "n div 256 div 256 = n div 2 ^ 16" "n div 256 div 256 div 256 = n div 2 ^ 24"
      by (simp_all flip: div_mult2_eq)
    ultimately show ?thesis by simp
  qed
  then show ?thesis
    using byte_of_word [of 24 w] byte_of_word [of 16 w] byte_of_word [of 8 w] byte_of_word [of 0 w]
    by (simp only: be32_bytes_def drop_bit_0 id_apply)
qed

lemma be_nat_be32_bytes: "be_nat (be32_bytes w) = unat w"
proof -
  have "unat w < 2 ^ LENGTH(32)" by (rule unsigned_less)
  then show ?thesis by (simp add: be32_bytes_be_bytes be_nat_be_bytes)
qed

lemma memcmp_less_be32: "memcmp_less (be32_bytes v) (be32_bytes w) \<longleftrightarrow> v < w"
  by (simp add: memcmp_less_be_nat be_nat_be32_bytes word_less_nat_alt)

lemma memcmp_less_append:
  "length a = length b \<Longrightarrow>
     memcmp_less (a @ xs) (b @ ys) \<longleftrightarrow> memcmp_less a b \<or> (a = b \<and> memcmp_less xs ys)"
  by (induction a b rule: list_induct2) auto

lemma be32_bytes_inject: "be32_bytes v = be32_bytes w \<longleftrightarrow> v = w"
  by (metis be_nat_be32_bytes unsigned_word_eqI)

lemma kernel_below_memcmp:
  "length ss = length ts \<Longrightarrow>
     kernel_below ss ts \<longleftrightarrow> memcmp_less (concat (map be32_bytes ss)) (concat (map be32_bytes ts))"
  by (induction ss ts rule: list_induct2)
    (auto simp: memcmp_less_append memcmp_less_be32 be32_bytes_inject)

lemma concat_be_words: "length b = 4 * k \<Longrightarrow> concat (map be32_bytes (be_words b)) = b"
proof (induction b arbitrary: k rule: be_words.induct)
  case (1 a b c d r)
  then obtain k' where "length r = 4 * k'" by (cases k) auto
  with 1(1) show ?case by simp
qed (auto, presburger+)

lemma msg_target_words:
  assumes "length target = 32"
  shows "msg_target (bitcredit_prepare_msg n expired data target rdata) = be_words target"
  using assms be_words_nth [of target 8]
  by (simp add: bitcredit_prepare_msg_def be32enc_load del: upt_Suc)

text \<open>
  What the device decides for one work item is what the host decides for the message it
  rebuilds from the reported nonce.
\<close>

lemma kernel_hit_iff:
  assumes "wf_hdata (body H)" "vcpu < n" "length rdata = 32 * n" "length target = 32"
    and msg: "msg = bitcredit_prepare_msg n expired (hdata_env_as_slice H) target rdata"
  shows "kernel_below (kernel_state msg vcpu nonce) (msg_target msg) \<longleftrightarrow>
         memcmp_less (sha256 (hdata_env_as_slice (mine_result_env H rdata nonce vcpu expired))) target"
proof -
  have "length (be_words target) = 8" using assms(4) by (simp add: length_be_words)
  with concat_be_words [of target 8] assms(4) show ?thesis
    by (simp add: msg msg_target_words kernel_state_sha256 [OF assms(1,2,3)] kernel_below_memcmp sha256_def)
qed

end
