(* ===== verification/GpuDriver.thy ===== *)
theory GpuDriver
  imports GpuMiner
begin

text \<open>
  The host loop of the OpenCL miner (\<open>opencl::SHA256::run\<close> in \<open>opencl/sha256.cpp\<close> and
  \<open>MinerOpenCL::run\<close>), on top of the kernel of \<open>GpuMiner\<close>: which work items a launch covers,
  that a reported hit always passes the host's recheck, and that a run that is not
  interrupted has tried every nonce it promises.
  Timing statistics (\<open>instant_passed\<close>) are floating point and not modelled; the OpenCL calls
  are assumed to succeed, since every one of them is wrapped in \<open>CL_WRAPPER\<close>.
\<close>

section \<open>MinerOpenCL::run\<close>

record gpu_options =
  g_my_address :: std_address
  g_seed :: "byte list"
  g_complexity :: "byte list"
  g_max_iterations :: int
  g_factor :: u64
  g_gpu_threads :: u32
  g_expire_base :: u32

text \<open>The answers of the cancellation token and of the timeout after launch \<open>k\<close>.\<close>

record gpu_poll =
  g_cancelled :: "nat \<Rightarrow> bool"
  g_timed_out :: "nat \<Rightarrow> bool"

datatype gpu_outcome =
    GpuFound "byte list" "u64 option" "u64 option"
  | GpuDone "u64 option" "u64 option"

text \<open>
  \<open>throughput\<close>: 64-bit unsigned; the comparison with the signed \<open>max_iterations\<close> converts the
  latter to unsigned.
\<close>

definition gpu_throughput :: "gpu_options \<Rightarrow> u64" where
  "gpu_throughput opt =
     (let t = push_bit 19 1 * g_factor opt
      in if word_of_int (g_max_iterations opt) < t then word_of_int (g_max_iterations opt) else t)"

text \<open>
  The launch loop; \<open>i\<close> is a 64-bit signed counter to which the unsigned throughput is added,
  \<open>k\<close> counts launches, and running out of fuel is \<open>None\<close>. \<open>hc\<close> and \<open>ihc\<close> are the counters
  behind \<open>hashes_computed\<close> and \<open>instant_hashes_computed\<close>, where those pointers are set.
\<close>

fun gpu_loop ::
  "nat \<Rightarrow> ((nat \<times> nat) list \<Rightarrow> (nat \<times> nat) list) \<Rightarrow> gpu_options \<Rightarrow> gpu_poll \<Rightarrow> msg_data \<Rightarrow>
   hdata_env \<Rightarrow> byte list \<Rightarrow> u64 \<Rightarrow> nat \<Rightarrow> u64 \<Rightarrow> u64 option \<Rightarrow> u64 option \<Rightarrow> gpu_outcome option" where
  "gpu_loop 0 order opt p msg H rdata throughput k i hc ihc = None"
| "gpu_loop (Suc fuel) order opt p msg H rdata throughput k i hc ihc =
     (if sint i < g_max_iterations opt then
        let r = scan_hash order msg (g_gpu_threads opt) throughput i;
            found = (hr_nonce r \<noteq> - 1 \<and> hr_vcpu r \<noteq> - 1);
            hc1 = (if found then map_option (\<lambda>h. h + hr_nonce r * hr_vcpu r) hc else hc);
            ihc1 = (if found then map_option (\<lambda>h. hr_nonce r * hr_vcpu r) ihc else ihc);
            res = (if found then build_mine_result (g_complexity opt) H rdata (hr_nonce r)
                                   (unat (hr_vcpu r)) (g_expire_base opt) else None)
        in (case res of
              Some b \<Rightarrow> Some (GpuFound b hc1 ihc1)
            | None \<Rightarrow>
                let hc2 = map_option (\<lambda>h. h + throughput) hc1
                in if g_cancelled p k then Some (GpuDone hc2 ihc1)
                   else if g_timed_out p k then Some (GpuDone hc2 ihc1)
                   else gpu_loop fuel order opt p msg H rdata throughput (Suc k) (i + throughput) hc2 ihc1)
      else Some (GpuDone hc ihc))"

definition gpu_run ::
  "nat \<Rightarrow> ((nat \<times> nat) list \<Rightarrow> (nat \<times> nat) list) \<Rightarrow> gpu_options \<Rightarrow> gpu_poll \<Rightarrow>
   hdata_env \<Rightarrow> byte list \<Rightarrow> u64 option \<Rightarrow> u64 option \<Rightarrow> gpu_outcome option" where
  "gpu_run fuel order opt p H rdata hc ihc =
     (let throughput = gpu_throughput opt;
          msg = bitcredit_prepare_msg (unat (g_gpu_threads opt)) (g_expire_base opt)
                  (hdata_env_as_slice H) (g_complexity opt) rdata
      in gpu_loop fuel order opt p msg H rdata throughput 0 0 hc (map_option (\<lambda>h. throughput) ihc))"

text \<open>
  \<open>MinerOpenCL::run\<close>: the message keeps its zero nonce, the random bytes go to the virtual
  CPUs. The outer \<open>None\<close> is the failed \<open>CHECK\<close> in \<open>HDataEnv::init\<close>.
\<close>

definition opencl_miner_run ::
  "nat \<Rightarrow> ((nat \<times> nat) list \<Rightarrow> (nat \<times> nat) list) \<Rightarrow> gpu_options \<Rightarrow> gpu_poll \<Rightarrow>
   byte list \<Rightarrow> byte list \<Rightarrow> u64 option \<Rightarrow> u64 option \<Rightarrow> gpu_outcome option option" where
  "opencl_miner_run fuel order opt p op0 rnd hc ihc =
     (case hdata_env_init None (g_my_address opt) (g_seed opt) (hdata_env_new op0) of
        None \<Rightarrow> None
      | Some H \<Rightarrow> Some (gpu_run fuel order opt p H rnd hc ihc))"

section \<open>One launch\<close>

definition gpu_hit :: "gpu_options \<Rightarrow> hdata_env \<Rightarrow> byte list \<Rightarrow> u64 \<Rightarrow> nat \<Rightarrow> bool" where
  "gpu_hit opt H rdata nonce vcpu \<longleftrightarrow>
     memcmp_less (sha256 (hdata_env_as_slice (mine_result_env H rdata nonce vcpu (g_expire_base opt))))
       (g_complexity opt)"

definition dev_init :: dev_hash_result where
  "dev_init = \<lparr>dev_nonce = - 1, dev_vcpu = - 1, dev_found = 0\<rparr>"

definition item_hits :: "u64 \<Rightarrow> msg_data \<Rightarrow> nat \<times> nat \<Rightarrow> bool" where
  "item_hits start msg item \<longleftrightarrow>
     kernel_below (kernel_state msg (snd item) (start + of_nat (fst item))) (msg_target msg)"

text \<open>
  Whatever the order of the work items: nothing is written when none hits, and otherwise
  the result is that of some hitting item, even if the hit counter wraps around.
\<close>

lemma launch_result:
  "(fold (bitcredit_gpu_hash start msg) items dev_init = dev_init \<and> (\<forall>it \<in> set items. \<not> item_hits start msg it)) \<or>
   (\<exists>it \<in> set items. item_hits start msg it \<and>
      dev_nonce (fold (bitcredit_gpu_hash start msg) items dev_init) = start + of_nat (fst it) \<and>
      dev_vcpu (fold (bitcredit_gpu_hash start msg) items dev_init) = of_nat (snd it))"
proof (induction items rule: rev_induct)
  case Nil
  show ?case by simp
next
  case (snoc it items)
  obtain idx vcpu where it: "it = (idx, vcpu)" by (cases it)
  from snoc show ?case
    by (auto simp: it bitcredit_gpu_hash_def item_hits_def Let_def dev_init_def)
qed

lemma set_nd_range: "set (nd_range n m) = {..<n} \<times> {..<m}"
  by (auto simp: nd_range_def)

lemma scan_hash_cases:
  assumes "mset (order (nd_range (unat (threads div ucast gt)) (unat gt)))
           = mset (nd_range (unat (threads div ucast gt)) (unat gt))" "unat gt \<le> 16"
    and r_def: "r = scan_hash order msg gt threads start_nonce"
    and start_def: "start = start_nonce div ucast gt"
  shows "(hr_nonce r = - 1 \<and> hr_vcpu r = - 1 \<and>
            (\<forall>idx < unat (threads div ucast gt). \<forall>vcpu < unat gt. \<not> item_hits start msg (idx, vcpu))) \<or>
         (\<exists>idx vcpu. idx < unat (threads div ucast gt) \<and> vcpu < unat gt \<and> item_hits start msg (idx, vcpu) \<and>
            hr_nonce r = start + of_nat idx \<and> hr_vcpu r = of_nat vcpu \<and> hr_vcpu r \<noteq> - 1)"
proof -
  let ?items = "order (nd_range (unat (threads div ucast gt)) (unat gt))"
  let ?d = "fold (bitcredit_gpu_hash start msg) ?items dev_init"
  have set: "set ?items = {..<unat (threads div ucast gt)} \<times> {..<unat gt}"
    using mset_eq_setD [OF assms(1)] by (simp add: set_nd_range)
  have r: "r = \<lparr>hr_nonce = dev_nonce ?d, hr_vcpu = (if dev_vcpu ?d = - 1 then - 1 else ucast (dev_vcpu ?d))\<rparr>"
    by (simp add: r_def start_def scan_hash_def dev_init_def Let_def)
  from launch_result [of start msg ?items] show ?thesis
  proof
    assume "?d = dev_init \<and> (\<forall>it \<in> set ?items. \<not> item_hits start msg it)"
    then show ?thesis unfolding r set by (auto simp: dev_init_def)
  next
    assume "\<exists>it \<in> set ?items. item_hits start msg it \<and> dev_nonce ?d = start + of_nat (fst it) \<and>
      dev_vcpu ?d = of_nat (snd it)"
    then obtain idx vcpu where it: "idx < unat (threads div ucast gt)" "vcpu < unat gt"
      "item_hits start msg (idx, vcpu)" "dev_nonce ?d = start + of_nat idx" "dev_vcpu ?d = of_nat vcpu"
      unfolding set by auto
    with assms(2) have v: "unat (of_nat vcpu :: u32) = vcpu" "unat (of_nat vcpu :: u64) = vcpu"
      by (simp_all add: unat_of_nat)
    have "vcpu < 16" using it(2) assms(2) by linarith
    then have "(of_nat vcpu :: u32) \<noteq> - 1" "(of_nat vcpu :: u64) \<noteq> - 1"
      using v arg_cong [of "of_nat vcpu :: u32" "- 1" unat] arg_cong [of "of_nat vcpu :: u64" "- 1" unat]
      unfolding v unat_max by auto
    moreover have "(ucast (of_nat vcpu :: u32) :: u64) = of_nat vcpu"
      using v(1) by (metis of_nat_unat)
    ultimately show ?thesis
      unfolding r using it by auto
  qed
qed

section \<open>The whole run\<close>

text \<open>
  What the run relies on: a well-formed message and target, one 32 byte start nonce for each
  of at most sixteen virtual CPUs (\<open>MAX_GPU_THREADS\<close>), and a device that runs every work
  item exactly once.
\<close>

definition gpu_setup :: "((nat \<times> nat) list \<Rightarrow> (nat \<times> nat) list) \<Rightarrow> gpu_options \<Rightarrow> hdata_env \<Rightarrow> byte list \<Rightarrow> bool" where
  "gpu_setup order opt H rdata \<longleftrightarrow>
     wf_hdata (body H) \<and> length (g_complexity opt) = 32 \<and> length rdata = 32 * unat (g_gpu_threads opt) \<and>
     0 < unat (g_gpu_threads opt) \<and> unat (g_gpu_threads opt) \<le> 16 \<and>
     (\<forall>n m. mset (order (nd_range n m)) = mset (nd_range n m))"

definition gpu_msg :: "gpu_options \<Rightarrow> hdata_env \<Rightarrow> byte list \<Rightarrow> msg_data" where
  "gpu_msg opt H rdata =
     bitcredit_prepare_msg (unat (g_gpu_threads opt)) (g_expire_base opt) (hdata_env_as_slice H)
       (g_complexity opt) rdata"

lemma item_hits_gpu_hit:
  assumes "gpu_setup order opt H rdata" "vcpu < unat (g_gpu_threads opt)"
  shows "item_hits start (gpu_msg opt H rdata) (idx, vcpu) \<longleftrightarrow> gpu_hit opt H rdata (start + of_nat idx) vcpu"
  using assms kernel_hit_iff [of H vcpu "unat (g_gpu_threads opt)" rdata "g_complexity opt"]
  by (simp add: gpu_setup_def item_hits_def gpu_hit_def gpu_msg_def)

lemma build_mine_result_iff:
  "build_mine_result (g_complexity opt) H rdata nonce vcpu (g_expire_base opt) =
     (if gpu_hit opt H rdata nonce vcpu
      then Some (hdata_as_slice (body (mine_result_env H rdata nonce vcpu (g_expire_base opt)))) else None)"
  by (simp add: build_mine_result_def gpu_hit_def Let_def)

lemma gpu_loop_found:
  "gpu_loop fuel order opt p msg H rdata throughput k i hc ihc = Some (GpuFound b hc' ihc') \<Longrightarrow>
     \<exists>nonce vcpu. gpu_hit opt H rdata nonce vcpu \<and>
       b = hdata_as_slice (body (mine_result_env H rdata nonce vcpu (g_expire_base opt)))"
  by (induction fuel arbitrary: k i hc ihc)
    (auto simp: Let_def build_mine_result_iff split: if_splits)

text \<open>The signed counter and the device's start nonce do not wrap while below 2^63.\<close>

lemma sint_of_nat64: "n < 2 ^ 63 \<Longrightarrow> sint (of_nat n :: u64) = int n"
  by (simp add: signed_of_nat signed_take_bit_int_eq_self)

lemma guard_of_nat64: "n < 2 ^ 63 \<Longrightarrow> 0 \<le> m \<Longrightarrow> sint (of_nat n :: u64) < m \<longleftrightarrow> n < nat m"
  by (simp add: sint_of_nat64) linarith

lemma unat_of_nat64: "n < 2 ^ 63 \<Longrightarrow> unat (of_nat n :: u64) = n"
  by (simp add: unat_of_nat)

lemma of_nat64_div:
  assumes "n < 2 ^ 63"
  shows "(of_nat n :: u64) div ucast (g :: u32) = of_nat (n div unat g)"
proof -
  have "unat g < 2 ^ LENGTH(32)" by (rule unsigned_less)
  then have "unat (ucast g :: u64) = unat g"
    by (simp add: unsigned_ucast_eq take_bit_nat_eq_self)
  then show ?thesis
    using assms by (simp add: word_arith_nat_div unat_of_nat)
qed

lemma launch_no_hit:
  assumes ok: "gpu_setup order opt H rdata" and T: "T = unat throughput"
    and n: "n + T < 2 ^ 63"
    and r: "r = scan_hash order (gpu_msg opt H rdata) (g_gpu_threads opt) throughput (of_nat n)"
  shows "(hr_nonce r \<noteq> - 1 \<and> hr_vcpu r \<noteq> - 1 \<and> gpu_hit opt H rdata (hr_nonce r) (unat (hr_vcpu r))) \<or>
    (hr_nonce r = - 1 \<and> (\<forall>idx < T div unat (g_gpu_threads opt). \<forall>vcpu < unat (g_gpu_threads opt).
       \<not> gpu_hit opt H rdata (of_nat (n div unat (g_gpu_threads opt) + idx)) vcpu))"
proof -
  let ?g = "unat (g_gpu_threads opt)"
  have start: "(of_nat n :: u64) div ucast (g_gpu_threads opt) = of_nat (n div ?g)"
    using n by (intro of_nat64_div) simp
  have "throughput = of_nat T" by (simp add: T)
  then have cnt: "unat (throughput div ucast (g_gpu_threads opt)) = T div ?g"
    using n of_nat64_div [of T "g_gpu_threads opt"] unat_of_nat64 [of "T div ?g"] div_le_dividend [of T ?g]
    by simp
  have nonce: "(of_nat (n div ?g + idx) :: u64) \<noteq> - 1" if "idx < T div ?g" for idx
  proof -
    have "n div ?g + idx < 2 ^ 63" using that n div_le_dividend [of n ?g] div_le_dividend [of T ?g] by linarith
    moreover from unat_of_nat64 [OF this] have "n div ?g + idx = 0xFFFFFFFFFFFFFFFF"
      if "(of_nat (n div ?g + idx) :: u64) = - 1"
      using that unat_max(2) by (simp only:)
    ultimately show ?thesis by auto
  qed
  have perm: "mset (order (nd_range (unat (throughput div ucast (g_gpu_threads opt))) ?g))
      = mset (nd_range (unat (throughput div ucast (g_gpu_threads opt))) ?g)" and g16: "?g \<le> 16"
    using ok by (simp_all add: gpu_setup_def)
  from scan_hash_cases [OF perm g16 r refl] show ?thesis
    unfolding start cnt
  proof
    assume "hr_nonce r = - 1 \<and> hr_vcpu r = - 1 \<and> (\<forall>idx < T div ?g. \<forall>vcpu < ?g.
        \<not> item_hits (of_nat (n div ?g)) (gpu_msg opt H rdata) (idx, vcpu))"
    then show ?thesis by (simp add: item_hits_gpu_hit [OF ok])
  next
    assume "\<exists>idx vcpu. idx < T div ?g \<and> vcpu < ?g \<and>
        item_hits (of_nat (n div ?g)) (gpu_msg opt H rdata) (idx, vcpu) \<and>
        hr_nonce r = of_nat (n div ?g) + of_nat idx \<and> hr_vcpu r = of_nat vcpu \<and> hr_vcpu r \<noteq> - 1"
    then obtain idx vcpu where it: "idx < T div ?g" "vcpu < ?g" "hr_nonce r = of_nat (n div ?g + idx)"
      "hr_vcpu r = of_nat vcpu" "hr_vcpu r \<noteq> - 1" "gpu_hit opt H rdata (hr_nonce r) vcpu"
      by (auto simp: item_hits_gpu_hit [OF ok])
    moreover have "unat (hr_vcpu r) = vcpu"
      using it(2,4) g16 by (simp add: unat_of_nat)
    ultimately show ?thesis using nonce by auto
  qed
qed

lemma gpu_loop_step:
  assumes "sint i < g_max_iterations opt" "r = scan_hash order msg (g_gpu_threads opt) throughput i"
    "\<not> g_cancelled p k \<and> \<not> g_timed_out p k"
    "gpu_loop (Suc fuel) order opt p msg H rdata throughput k i hc ihc = Some (GpuDone hc' ihc')"
  shows "\<not> (hr_nonce r \<noteq> - 1 \<and> hr_vcpu r \<noteq> - 1 \<and> gpu_hit opt H rdata (hr_nonce r) (unat (hr_vcpu r)))"
    and "\<exists>hc1 ihc1. gpu_loop fuel order opt p msg H rdata throughput (Suc k) (i + throughput) hc1 ihc1
           = Some (GpuDone hc' ihc')"
  using assms(1,3,4)
  by (auto simp: Let_def build_mine_result_iff assms(2) [symmetric] split: if_splits)

lemma gpu_loop_exhaustive:
  assumes ok: "gpu_setup order opt H rdata" and T: "T = unat throughput" "0 < T"
    and M: "0 \<le> g_max_iterations opt" "nat (g_max_iterations opt) + T < 2 ^ 63"
    and quiet: "\<And>j. \<not> g_cancelled p j \<and> \<not> g_timed_out p j"
  shows "k * T < nat (g_max_iterations opt) + T \<Longrightarrow>
     gpu_loop fuel order opt p (gpu_msg opt H rdata) H rdata throughput k (of_nat (k * T)) hc ihc
       = Some (GpuDone hc' ihc') \<Longrightarrow>
     k \<le> j \<Longrightarrow> j * T < nat (g_max_iterations opt) \<Longrightarrow> idx < T div unat (g_gpu_threads opt) \<Longrightarrow>
     vcpu < unat (g_gpu_threads opt) \<Longrightarrow>
     \<not> gpu_hit opt H rdata (of_nat (j * T div unat (g_gpu_threads opt) + idx)) vcpu"
proof (induction fuel arbitrary: k hc ihc)
  case 0
  then show ?case by simp
next
  case (Suc fuel)
  have kT: "k * T \<le> j * T" using Suc.prems(3) by simp
  then have lt: "k * T < nat (g_max_iterations opt)" using Suc.prems(4) by linarith
  with M have guard: "sint (of_nat (k * T) :: u64) < g_max_iterations opt"
    by (subst guard_of_nat64) linarith+
  define r where "r = scan_hash order (gpu_msg opt H rdata) (g_gpu_threads opt) throughput (of_nat (k * T))"
  have "k * T + T < 2 ^ 63" using lt M by linarith
  note cases = launch_no_hit [OF ok T(1) this r_def]
  note step = gpu_loop_step [OF guard r_def quiet Suc.prems(2)]
  show ?case
  proof (cases "j = k")
    case True
    with cases step(1) Suc.prems(5,6) show ?thesis by auto
  next
    case False
    have eq: "of_nat (k * T) + throughput = of_nat (Suc k * T)" by (simp add: T(1))
    from step(2) obtain hc1 ihc1 where "gpu_loop fuel order opt p (gpu_msg opt H rdata) H rdata throughput
        (Suc k) (of_nat (Suc k * T)) hc1 ihc1 = Some (GpuDone hc' ihc')"
      unfolding eq by blast
    from Suc.IH [OF _ this] False lt Suc.prems(3-6) show ?thesis by simp
  qed
qed

lemma gpu_loop_enough_fuel:
  assumes T: "T = unat throughput" "0 < T"
    and M: "0 \<le> g_max_iterations opt" "nat (g_max_iterations opt) + T < 2 ^ 63"
  shows "k * T < nat (g_max_iterations opt) + T \<Longrightarrow> nat (g_max_iterations opt) \<le> (k + fuel) * T \<Longrightarrow>
     \<exists>out. gpu_loop (Suc fuel) order opt p msg H rdata throughput k (of_nat (k * T)) hc ihc = Some out"
proof (induction fuel arbitrary: k hc ihc)
  case 0
  then have "\<not> sint (of_nat (k * T) :: u64) < g_max_iterations opt"
    using M by (subst guard_of_nat64) simp_all
  then show ?case by simp
next
  case (Suc fuel)
  have step: "of_nat (k * T) + throughput = of_nat (Suc k * T)" by (simp add: T(1))
  show ?case
  proof (cases "k * T < nat (g_max_iterations opt)")
    case False
    then have "\<not> sint (of_nat (k * T) :: u64) < g_max_iterations opt"
      using M Suc.prems(1) by (subst guard_of_nat64) linarith+
    then show ?thesis by simp
  next
    case True
    have "\<exists>out. gpu_loop (Suc fuel) order opt p msg H rdata throughput (Suc k) (of_nat (Suc k * T)) hc1 ihc1 = Some out"
      for hc1 ihc1
      using True Suc.prems(2) by (intro Suc.IH) simp_all
    then show ?thesis
      unfolding gpu_loop.simps(2) [of "Suc fuel"] step Let_def
      by (auto split: option.split)
  qed
qed

lemma gpu_throughput_min:
  assumes "1 \<le> unat (g_factor opt)" "unat (g_factor opt) \<le> 16384" "0 \<le> g_max_iterations opt"
    "g_max_iterations opt < 2 ^ 63"
  shows "unat (gpu_throughput opt) = min (nat (g_max_iterations opt)) (2 ^ 19 * unat (g_factor opt))"
proof -
  have f: "unat (524288 * g_factor opt) = 2 ^ 19 * unat (g_factor opt)"
    using assms(2) by (simp add: unat_word_ariths)
  have m: "unat (word_of_int (g_max_iterations opt) :: u64) = nat (g_max_iterations opt)"
    using assms(3,4) by (simp add: unsigned_of_int nat_take_bit_eq take_bit_nat_eq_self)
  show ?thesis
    by (auto simp: gpu_throughput_def Let_def word_less_nat_alt f m)
qed

lemma nonce_in_launch:
  fixes g T M nonce :: nat
  assumes "0 < g" "0 < T" "T = M \<or> g dvd T" "g \<le> T" "nonce < M div g"
  obtains j idx where "j * T < M" "idx < T div g" "nonce = j * T div g + idx"
proof (cases "T = M")
  case True
  with assms show ?thesis by (intro that [of 0 nonce]) simp_all
next
  case False
  with assms(3) obtain q where q: "T = g * q" by blast
  with assms have q0: "0 < q" by simp
  have "(nonce div q) * T \<le> nonce * g"
    using q0 times_div_less_eq_dividend [of q nonce] by (simp add: q mult.commute)
  also have "\<dots> < M"
  proof -
    have "Suc nonce * g \<le> (M div g) * g" using assms(5) by (intro mult_le_mono1) simp
    also have "\<dots> \<le> M" by simp
    finally show ?thesis using assms(1) by simp
  qed
  finally have "(nonce div q) * T < M" .
  moreover have "nonce mod q < T div g" using q q0 assms(1) by simp
  moreover have "nonce = (nonce div q) * T div g + nonce mod q"
    using q assms(1) by (simp add: mult.left_commute)
  ultimately show ?thesis by (rule that)
qed

lemma gpu_run_exhaustive:
  assumes ok: "gpu_setup order opt H rdata" and g: "unat (g_gpu_threads opt) dvd 2 ^ 19"
    and f: "1 \<le> unat (g_factor opt)" "unat (g_factor opt) \<le> 16384"
    and M: "0 < g_max_iterations opt" "g_max_iterations opt < 2 ^ 62"
    and quiet: "\<And>j. \<not> g_cancelled p j \<and> \<not> g_timed_out p j"
    and fuel: "nat (g_max_iterations opt) < fuel"
  shows "\<exists>out. gpu_run fuel order opt p H rdata hc ihc = Some out \<and>
    (case out of
       GpuFound b hc' ihc' \<Rightarrow>
         \<exists>nonce vcpu. gpu_hit opt H rdata nonce vcpu \<and>
           b = hdata_as_slice (body (mine_result_env H rdata nonce vcpu (g_expire_base opt)))
     | GpuDone hc' ihc' \<Rightarrow>
         \<forall>nonce < nat (g_max_iterations opt) div unat (g_gpu_threads opt).
           \<forall>vcpu < unat (g_gpu_threads opt). \<not> gpu_hit opt H rdata (of_nat nonce) vcpu)"
proof -
  let ?M = "nat (g_max_iterations opt)" and ?g = "unat (g_gpu_threads opt)" and ?T = "unat (gpu_throughput opt)"
  have T: "?T = min ?M (2 ^ 19 * unat (g_factor opt))"
    using f M by (intro gpu_throughput_min) simp_all
  then have T0: "0 < ?T" and MT: "?M + ?T < 2 ^ 63" using f M by (auto simp: min_def)
  have run: "gpu_run fuel order opt p H rdata hc ihc = gpu_loop fuel order opt p (gpu_msg opt H rdata) H rdata
      (gpu_throughput opt) 0 (of_nat (0 * ?T)) hc (map_option (\<lambda>h. gpu_throughput opt) ihc)"
    by (simp add: gpu_run_def gpu_msg_def Let_def)
  obtain fl where fl: "fuel = Suc fl" "?M \<le> fl" using fuel by (cases fuel) auto
  have "fl * 1 \<le> fl * ?T" by (rule mult_le_mono2) (use T0 in simp)
  with fl(2) have "?M \<le> (0 + fl) * ?T" unfolding mult_1_right add_0 by (rule order_trans)
  moreover have "0 * ?T < ?M + ?T" "0 \<le> g_max_iterations opt" using T0 M(1) by simp_all
  ultimately obtain out where out: "gpu_run fuel order opt p H rdata hc ihc = Some out"
    using gpu_loop_enough_fuel [OF refl T0 _ MT] unfolding fl(1) run [unfolded fl(1)] by blast
  show ?thesis
  proof (cases out)
    case (GpuFound b hc' ihc')
    with out gpu_loop_found show ?thesis unfolding run by fastforce
  next
    case (GpuDone hc' ihc')
    have "\<not> gpu_hit opt H rdata (of_nat nonce) vcpu" if nv: "nonce < ?M div ?g" "vcpu < ?g" for nonce vcpu
    proof -
      have T_or: "?T = ?M \<or> ?g dvd ?T" using T g by (auto simp: min_def)
      have g0: "0 < ?g" using ok by (simp add: gpu_setup_def)
      have "?g \<le> ?M" using nv(1) by (cases "?g \<le> ?M") simp_all
      then have gT: "?g \<le> ?T" using ok f(1) T by (auto simp: min_def gpu_setup_def)
      obtain j idx where "j * ?T < ?M" "idx < ?T div ?g" "nonce = j * ?T div ?g + idx"
        by (rule nonce_in_launch [OF g0 T0 T_or gT nv(1)])
      with gpu_loop_exhaustive [OF ok refl T0 _ MT quiet, of 0] out GpuDone M(1) T0 nv(2) show ?thesis
        unfolding run by simp
    qed
    with out GpuDone show ?thesis by simp
  qed
qed

end
