(* ===== verification/BigInt.thy ===== *)
theory BigInt
  imports Prelude
begin

text \<open>
  The integers of the virtual machine: \<open>td::BigInt256\<close> of \<open>common/bigint.hpp\<close> behind the
  operators of \<open>common/refint.cpp\<close>. A number is a vector of at most five balanced 52-bit digits;
  it is modelled by the integer it denotes, and NaN (the empty vector) by \<open>None\<close>. Sums and
  products that do not fit five digits become NaN in the code; they lie outside the
  257-bit range, and the machine treats both the same way when it pushes a result, so the
  integer is kept here. Shifts and the bitwise operations handle NaN and zero in their own
  ways, which are written out. Reduction modulo a power of two looks at the digits, and is
  modelled on them.
\<close>

section \<open>Values\<close>

type_synonym bigint = "int option"

definition int257 :: "int \<Rightarrow> bool" where
  "int257 x \<longleftrightarrow> - (2 ^ 256) \<le> x \<and> x < 2 ^ 256"

fun bigint_ok :: "bigint \<Rightarrow> bool" where
  "bigint_ok None = True"
| "bigint_ok (Some x) = int257 x"

definition sgn_int :: "int \<Rightarrow> int" where
  "sgn_int x = (if x > 0 then 1 else if x < 0 then - 1 else 0)"

definition cmp_int :: "int \<Rightarrow> int \<Rightarrow> int" where
  "cmp_int x y = (if x < y then - 1 else if x > y then 1 else 0)"

fun signed_fits_bits :: "bigint \<Rightarrow> nat \<Rightarrow> bool" where
  "signed_fits_bits None n = False"
| "signed_fits_bits (Some x) n = (if n = 0 then x = 0 else - (2 ^ (n - 1)) \<le> x \<and> x < 2 ^ (n - 1))"

fun unsigned_fits_bits :: "bigint \<Rightarrow> nat \<Rightarrow> bool" where
  "unsigned_fits_bits None n = False"
| "unsigned_fits_bits (Some x) n = (0 \<le> x \<and> x < 2 ^ n)"

text \<open>The number of binary digits of a natural number (\<open>64 - count_leading_zeroes64\<close> for a word).\<close>

fun nat_bits :: "nat \<Rightarrow> nat" where
  "nat_bits n = (if n = 0 then 0 else 1 + nat_bits (n div 2))"

declare nat_bits.simps [simp del]

fun bit_size :: "bool \<Rightarrow> bigint \<Rightarrow> int" where
  "bit_size sgnd None = 0x7fffffff"
| "bit_size sgnd (Some x) =
     (if x = 0 then 0
      else if x > 0 then int (nat_bits (nat x)) + (if sgnd then 1 else 0)
      else if sgnd then int (nat_bits (nat (- x - 1))) + 1
      else 0x7fffffff)"

text \<open>\<open>to_long\<close>: a number outside 64 bits, and NaN, give the smallest 64-bit integer.\<close>

fun to_long :: "bigint \<Rightarrow> int" where
  "to_long None = - (2 ^ 63)"
| "to_long (Some x) = (if - (2 ^ 63) \<le> x \<and> x < 2 ^ 63 then x else - (2 ^ 63))"

definition get_bit :: "int \<Rightarrow> nat \<Rightarrow> bool" where
  "get_bit x n \<longleftrightarrow> bit x n"

section \<open>Operators\<close>

fun lift2 :: "(int \<Rightarrow> int \<Rightarrow> int) \<Rightarrow> bigint \<Rightarrow> bigint \<Rightarrow> bigint" where
  "lift2 f (Some x) (Some y) = Some (f x y)"
| "lift2 f _ _ = None"

definition big_add :: "bigint \<Rightarrow> bigint \<Rightarrow> bigint" where "big_add = lift2 (+)"

definition big_sub :: "bigint \<Rightarrow> bigint \<Rightarrow> bigint" where "big_sub = lift2 (-)"

definition big_mul :: "bigint \<Rightarrow> bigint \<Rightarrow> bigint" where "big_mul = lift2 (*)"

definition big_neg :: "bigint \<Rightarrow> bigint" where "big_neg = map_option uminus"

definition big_not :: "bigint \<Rightarrow> bigint" where "big_not = map_option (\<lambda>x. - x - 1)"

text \<open>
  The rounding modes of \<open>mod_div\<close>: towards minus infinity (-1), to nearest with ties towards
  plus infinity (0), towards plus infinity (1). Division by zero gives NaN.
\<close>

definition div_round :: "int \<Rightarrow> int \<Rightarrow> int \<Rightarrow> int" where
  "div_round rm x y =
     (if rm < 0 then x div y else if rm = 0 then (2 * x + y) div (2 * y) else - ((- x) div y))"

fun big_divmod :: "bigint \<Rightarrow> bigint \<Rightarrow> int \<Rightarrow> bigint \<times> bigint" where
  "big_divmod (Some x) (Some y) rm =
     (if y = 0 then (None, None) else (Some (div_round rm x y), Some (x - y * div_round rm x y)))"
| "big_divmod _ _ rm = (None, None)"

definition big_div :: "bigint \<Rightarrow> bigint \<Rightarrow> int \<Rightarrow> bigint" where
  "big_div x y rm = fst (big_divmod x y rm)"

definition big_mod :: "bigint \<Rightarrow> bigint \<Rightarrow> int \<Rightarrow> bigint" where
  "big_mod x y rm = snd (big_divmod x y rm)"

text \<open>
  \<open>rshift_any\<close> does not test for NaN: a shift of the empty vector by more than twelve bits
  takes the branch for large exponents, where \<open>sgn()\<close> of NaN is negative, and a shorter one
  computes with zero.
\<close>

fun big_rshift :: "bigint \<Rightarrow> nat \<Rightarrow> int \<Rightarrow> bigint" where
  "big_rshift (Some x) n rm = Some (div_round rm x (2 ^ n))"
| "big_rshift None n rm =
     (if n = 0 then None else if n > 12 \<and> rm < 0 then Some (- 1) else Some 0)"

text \<open>
  \<open>lshift_any\<close> appends \<open>n div 52\<close> zero digits first, and fails when there are more than five:
  for zero this is so from 260 bits on; NaN turns into zero when digits are appended.
\<close>

fun big_lshift :: "bigint \<Rightarrow> nat \<Rightarrow> bigint" where
  "big_lshift (Some x) n = (if x = 0 \<and> 260 \<le> n then None else Some (x * 2 ^ n))"
| "big_lshift None n = (if 1 \<le> n div 52 \<and> n div 52 \<le> 5 then Some 0 else None)"

text \<open>\<open>log_op_any\<close>: an operand that absorbs the other one wins even against NaN.\<close>

fun big_and :: "bigint \<Rightarrow> bigint \<Rightarrow> bigint" where
  "big_and (Some x) (Some y) = Some (x AND y)"
| "big_and x y = (if x = Some 0 \<or> y = Some 0 then Some 0 else None)"

fun big_or :: "bigint \<Rightarrow> bigint \<Rightarrow> bigint" where
  "big_or (Some x) (Some y) = Some (x OR y)"
| "big_or x y = (if x = Some (- 1) \<or> y = Some (- 1) then Some (- 1) else None)"

fun big_xor :: "bigint \<Rightarrow> bigint \<Rightarrow> bigint" where
  "big_xor (Some x) (Some y) = Some (x XOR y)"
| "big_xor _ _ = None"

section \<open>Digits and reduction modulo powers of two\<close>

abbreviation Base :: int where "Base \<equiv> 2 ^ 52"

abbreviation Half :: int where "Half \<equiv> 2 ^ 51"

text \<open>The normalised digits of a number, lowest first: each in \<open>[-Half, Half)\<close>, no zero on top.\<close>

function digits_of :: "int \<Rightarrow> int list" where
  "digits_of x =
     (if - Half \<le> x \<and> x < Half then [x]
      else let d = (x + Half) mod Base - Half in d # digits_of ((x - d) div Base))"
  by auto

lemma digit_step:
  fixes x :: int
  assumes "\<not> (- Half \<le> x \<and> x < Half)"
  shows "\<bar>(x - ((x + Half) mod Base - Half)) div Base\<bar> < \<bar>x\<bar>"
proof -
  let ?d = "(x + Half) mod Base - Half"
  have d: "- Half \<le> ?d" "?d < Half" by simp_all
  have "(x - ?d) div Base * Base = x - ?d"
  proof -
    have "x - ?d = (x + Half) div Base * Base"
      using div_mult_mod_eq [of "x + Half" Base] by linarith
    then show ?thesis by simp
  qed
  then show ?thesis using d assms by (auto simp: abs_if split: if_splits)
qed

termination digits_of
  by (relation "measure (\<lambda>x. nat \<bar>x\<bar>)") (use digit_step in auto)

declare digits_of.simps [simp del]

fun digits_val :: "int list \<Rightarrow> int" where
  "digits_val [] = 0"
| "digits_val (d # ds) = d + Base * digits_val ds"

text \<open>
  \<open>mod_pow2_any(exponent)\<close>, with the number of digits \<open>mx\<close> of the vector. The steps that cut
  off digits above the exponent and that add \<open>2^exponent\<close> to a negative number are the
  code's, with its tests of the size; \<open>None\<close> is an invalidated result.
\<close>

fun drop_top :: "int \<Rightarrow> int list \<Rightarrow> int \<times> int list" where
  "drop_top q [] = (q, [])"
| "drop_top q (d # ds) = (if q < 0 then drop_top (q + 52) ds else (q, d # ds))"

text \<open>\<open>pad_zeros q ds\<close> appends zero digits while \<open>q >= 52\<close>.\<close>

function pad_zeros :: "int \<Rightarrow> int list \<Rightarrow> int \<times> int list" where
  "pad_zeros q ds = (if q \<ge> 52 then pad_zeros (q - 52) (ds @ [0]) else (q, ds))"
  by auto
termination by (relation "measure (\<lambda>(q, ds). nat q)") auto

declare pad_zeros.simps [simp del]

definition set_last :: "int \<Rightarrow> int list \<Rightarrow> int list" where
  "set_last v ds = butlast ds @ [v]"

definition add_top_pow2 :: "nat \<Rightarrow> int \<Rightarrow> int list \<Rightarrow> int list" where
  "add_top_pow2 lim q ds =
     (if q = 51 \<and> length ds < lim then set_last (- Half) ds @ [1] else set_last (2 ^ nat q) ds)"

definition mod_pow2_any :: "nat \<Rightarrow> nat \<Rightarrow> int list \<Rightarrow> int list option" where
  "mod_pow2_any mx e ds =
     (if ds = [] then None
      else if e = 0 then Some [0]
      else
        let q = int e - (int (length ds) - 1) * 52
        in if q \<ge> 64 then
             (if last ds \<ge> 0 then Some ds
              else if e \<ge> mx * 52 then None
              else case pad_zeros q ds of (q', ds') \<Rightarrow> Some (add_top_pow2 mx q' ds'))
           else
             (case drop_top q (rev ds) of (q', rds) \<Rightarrow>
                let ds' = rev rds; v = last ds' mod 2 ^ nat q'
                in if v = 0 then
                     (let low = rev (dropWhile (\<lambda>d. d = 0) (rev (butlast ds')))
                      in if low = [] then Some [0]
                         else if last low > 0 then Some low
                         else if e \<ge> mx * 52 then None
                         else if q' \<ge> 52 then Some (set_last (2 ^ nat q') (set_last 0 ds' @ [2 ^ nat (q' - 52)]))
                         else Some (add_top_pow2 (mx - 1) q' ds'))
                   else if v \<ge> Half then
                     (if length ds' = mx - 1 then None
                      else Some (set_last (v mod Half - Half) ds' @ [2 ^ nat (q' - 52)]))
                   else Some (set_last v ds')))"

text \<open>
  \<open>mod_pow2_any(exponent, round_mode)\<close>. Rounding to nearest may subtract \<open>2^exponent\<close> with
  \<open>add_pow2_any\<close>, which shifts the 32-bit \<open>int\<close> -1 by \<open>exponent mod 52\<close>: from 32 on this is
  undefined (the outer \<open>None\<close>).
\<close>

definition add_pow2_any :: "nat \<Rightarrow> nat \<Rightarrow> int list \<Rightarrow> int list option option" where
  "add_pow2_any mx e ds =
     (if e \<ge> mx * 52 then Some None
      else if e mod 52 \<ge> 32 then None
      else let ds' = ds @ replicate (e div 52 + 1 - length ds) 0
           in Some (Some (ds'[e div 52 := ds' ! (e div 52) - 2 ^ (e mod 52)])))"

definition mod_pow2_round :: "nat \<Rightarrow> nat \<Rightarrow> int \<Rightarrow> int list \<Rightarrow> int list option option" where
  "mod_pow2_round mx e rm ds =
     (if rm < 0 then Some (mod_pow2_any mx e ds)
      else if ds = [] then Some None
      else if e = 0 then Some (Some [0])
      else if rm > 0 then Some (map_option (map uminus) (mod_pow2_any mx e (map uminus ds)))
      else if signed_fits_bits (Some (digits_val ds)) e then Some (Some ds)
      else case mod_pow2_any mx e ds of
             None \<Rightarrow> Some None
           | Some ds' \<Rightarrow>
               if unsigned_fits_bits (Some (digits_val ds')) (e - 1) then Some (Some ds')
               else add_pow2_any mx e ds')"

text \<open>\<open>x.write().mod_pow2(y, round_mode).normalize()\<close> on a normalised \<open>BigInt256\<close>.\<close>

definition big_mod_pow2 :: "bigint \<Rightarrow> nat \<Rightarrow> int \<Rightarrow> bigint option" where
  "big_mod_pow2 x e rm =
     (case x of None \<Rightarrow> Some None
      | Some v \<Rightarrow> map_option (map_option digits_val) (mod_pow2_round 5 e rm (digits_of v)))"

end
