(* ===== verification/BitStrings.thy ===== *)
theory BitStrings
  imports BigInt
begin

text \<open>
  Bit strings (\<open>common/bitstring.cpp\<close>): a string of bits is a list, the most significant bit of a
  number first. Here are the numbers they stand for, signed and unsigned, and the scans and
  comparisons that the cell slices use, as functions of the bits (not of the bytes
  they are packed in).
\<close>

section \<open>Numbers\<close>

type_synonym bits = "bool list"

definition bits_nat :: "bool list \<Rightarrow> nat" where
  "bits_nat bs = foldl (\<lambda>a b. 2 * a + (if b then 1 else 0)) 0 bs"

definition bits_int :: "bool list \<Rightarrow> int" where
  "bits_int bs = (case bs of [] \<Rightarrow> 0 | b # _ \<Rightarrow> int (bits_nat bs) - (if b then 2 ^ length bs else 0))"

text \<open>The \<open>n\<close> low bits of a number.\<close>

fun nat_bl :: "nat \<Rightarrow> nat \<Rightarrow> bits" where
  "nat_bl 0 x = []"
| "nat_bl (Suc n) x = nat_bl n (x div 2) @ [odd x]"

definition int_bl :: "nat \<Rightarrow> int \<Rightarrow> bits" where
  "int_bl n x = nat_bl n (nat (x mod 2 ^ n))"

lemma length_nat_bl [simp]: "length (nat_bl n x) = n"
  by (induction n arbitrary: x) simp_all

lemma length_int_bl [simp]: "length (int_bl n x) = n"
  by (simp add: int_bl_def)

lemma bits_nat_simps [simp]:
  "bits_nat [] = 0" "bits_nat (bs @ [b]) = 2 * bits_nat bs + (if b then 1 else 0)"
  by (simp_all add: bits_nat_def)

lemma bits_nat_less: "bits_nat bs < 2 ^ length bs"
  by (induction bs rule: rev_induct) auto

lemma bits_nat_append: "bits_nat (as @ bs) = bits_nat as * 2 ^ length bs + bits_nat bs"
  by (induction bs rule: rev_induct) (simp_all flip: append_assoc)

lemma bits_nat_Cons: "bits_nat (b # bs) = (if b then 2 ^ length bs else 0) + bits_nat bs"
  using bits_nat_append [of "[b]" bs] by (simp add: bits_nat_def)

lemma bits_nat_nat_bl: "bits_nat (nat_bl n x) = x mod 2 ^ n"
proof (induction n arbitrary: x)
  case (Suc n)
  have "x mod (2 * 2 ^ n) = 2 * (x div 2 mod 2 ^ n) + x mod 2" by (rule mod_mult2_eq [of x 2, simplified])
  then show ?case by (simp add: Suc odd_iff_mod_2_eq_one)
qed simp

lemma nat_bl_bits_nat: "nat_bl (length bs) (bits_nat bs) = bs"
  by (induction bs rule: rev_induct) auto

lemma bits_nat_inj: "length as = length bs \<Longrightarrow> bits_nat as = bits_nat bs \<Longrightarrow> as = bs"
  by (metis nat_bl_bits_nat)

lemma bits_nat_int_bl: "int (bits_nat (int_bl n x)) = x mod 2 ^ n"
proof -
  have "0 \<le> x mod 2 ^ n" "x mod 2 ^ n < 2 ^ n" by simp_all
  then have "nat (x mod 2 ^ n) < 2 ^ n" by (metis nat_int nat_less_iff of_nat_numeral of_nat_power)
  then show ?thesis by (simp add: int_bl_def bits_nat_nat_bl)
qed

text \<open>Numbers survive being written as bits and read back.\<close>

lemma uint_bl_roundtrip: "0 \<le> x \<Longrightarrow> x < 2 ^ n \<Longrightarrow> int (bits_nat (int_bl n x)) = x"
  by (simp add: bits_nat_int_bl)

lemma bits_int_mod: "bits_int bs mod 2 ^ length bs = int (bits_nat bs)"
proof (cases bs)
  case (Cons b cs)
  have "int (bits_nat bs) < 2 ^ length bs" using bits_nat_less [of bs] by (metis of_nat_less_iff of_nat_numeral of_nat_power)
  then have m: "int (bits_nat bs) mod 2 ^ length bs = int (bits_nat bs)" by simp
  have "(int (bits_nat bs) - 2 ^ length bs) mod 2 ^ length bs = int (bits_nat bs) mod 2 ^ length bs"
    by (simp only: minus_mod_self2)
  with m have "(int (bits_nat bs) - 2 ^ length bs) mod 2 ^ length bs = int (bits_nat bs)" by (simp only:)
  then have "bits_int bs mod 2 ^ length bs = int (bits_nat bs)" if b
    using that unfolding bits_int_def by (simp only: Cons list.case if_True)
  moreover from m have "bits_int bs mod 2 ^ length bs = int (bits_nat bs)" if "\<not> b"
    using that unfolding bits_int_def by (simp only: Cons list.case if_False diff_0_right)
  ultimately show ?thesis by blast
qed (simp add: bits_int_def)

lemma bits_int_Cons: "bits_int (b # cs) = int (bits_nat cs) - (if b then 2 ^ length cs else 0)"
  by (simp add: bits_int_def bits_nat_Cons)

lemma bits_int_bounds:
  assumes "bs \<noteq> []"
  shows "- (2 ^ (length bs - 1)) \<le> bits_int bs" "bits_int bs < 2 ^ (length bs - 1)"
proof -
  obtain b cs where bs: "bs = b # cs" using assms by (cases bs) auto
  define p :: int where "p = 2 ^ length cs"
  have "int (bits_nat cs) < p"
    unfolding p_def using bits_nat_less [of cs] by (metis of_nat_less_iff of_nat_numeral of_nat_power)
  moreover have "0 < p" by (simp add: p_def)
  moreover have "bits_int bs = int (bits_nat cs) - (if b then p else 0)" unfolding bs p_def by (rule bits_int_Cons)
  moreover have "(2 :: int) ^ (length bs - 1) = p" by (simp add: bs p_def)
  ultimately show "- (2 ^ (length bs - 1)) \<le> bits_int bs" "bits_int bs < 2 ^ (length bs - 1)"
    by (simp_all split: if_splits)
qed

lemma sint_bl_roundtrip:
  assumes "signed_fits_bits (Some x) n"
  shows "bits_int (int_bl n x) = x"
proof (cases n)
  case 0
  then show ?thesis using assms by (simp add: int_bl_def bits_int_def)
next
  case (Suc k)
  let ?y = "bits_int (int_bl n x)"
  have "int_bl n x \<noteq> []" using Suc by (metis length_int_bl list.size(3) nat.distinct(1))
  then have y: "- (2 ^ k) \<le> ?y" "?y < 2 ^ k" using bits_int_bounds [of "int_bl n x"] Suc by simp_all
  have x: "- (2 ^ k) \<le> x" "x < 2 ^ k" using assms Suc by simp_all
  have "?y mod 2 ^ n = x mod 2 ^ n" using bits_int_mod [of "int_bl n x"] by (simp add: bits_nat_int_bl)
  then have "(2 * 2 ^ k) dvd (?y - x)" using Suc by (simp add: mod_eq_dvd_iff)
  then obtain c where c: "?y - x = (2 * 2 ^ k) * c" ..
  have "\<bar>?y - x\<bar> < 2 * 2 ^ k" using x y by linarith
  then have "\<bar>c\<bar> * (2 * 2 ^ k) < 1 * (2 * 2 ^ k)" using c by (simp add: abs_mult mult.commute)
  then have "c = 0" by (simp only: mult_less_cancel_right) simp
  then show ?thesis using c by simp
qed

section \<open>Scans and comparisons\<close>

text \<open>The number of leading, and of trailing, bits equal to \<open>b\<close>.\<close>

definition bits_memscan :: "bits \<Rightarrow> bool \<Rightarrow> nat" where
  "bits_memscan bs b = length (takeWhile (\<lambda>c. c = b) bs)"

definition bits_memscan_rev :: "bits \<Rightarrow> bool \<Rightarrow> nat" where
  "bits_memscan_rev bs b = bits_memscan (rev bs) b"

text \<open>\<open>bits_memcmp\<close> on \<open>n\<close> bits: the sign of the first difference.\<close>

fun bits_memcmp :: "bits \<Rightarrow> bits \<Rightarrow> nat \<Rightarrow> int" where
  "bits_memcmp (a # as) (b # bs) (Suc n) = (if a = b then bits_memcmp as bs n else if b then - 1 else 1)"
| "bits_memcmp _ _ _ = 0"

definition bits_lexcmp :: "bits \<Rightarrow> bits \<Rightarrow> int" where
  "bits_lexcmp as bs =
     (let res = bits_memcmp as bs (min (length as) (length bs))
      in if res \<noteq> 0 \<or> length as = length bs then res else if length as < length bs then - 1 else 1)"

lemma bits_memscan_le: "bits_memscan bs b \<le> length bs" "bits_memscan_rev bs b \<le> length bs"
  by (simp_all add: bits_memscan_def bits_memscan_rev_def length_takeWhile_le order_trans [OF length_takeWhile_le])

lemma bits_memcmp_0: "n \<le> length as \<Longrightarrow> n \<le> length bs \<Longrightarrow> bits_memcmp as bs n = 0 \<longleftrightarrow> take n as = take n bs"
  by (induction as bs n rule: bits_memcmp.induct) auto

lemma bits_memcmp_range: "bits_memcmp as bs n \<in> {- 1, 0, 1}"
  by (induction as bs n rule: bits_memcmp.induct) auto

text \<open>\<open>bits_lexcmp\<close> is the dictionary order.\<close>

lemma bits_lexcmp_simps [simp]:
  "bits_lexcmp [] [] = 0" "bits_lexcmp [] (b # bs) = - 1" "bits_lexcmp (a # as) [] = 1"
  "bits_lexcmp (a # as) (b # bs) = (if a = b then bits_lexcmp as bs else if b then - 1 else 1)"
  by (simp_all add: bits_lexcmp_def Let_def)

lemma bits_lexcmp_lexord:
  "bits_lexcmp as bs = (if as = bs then 0 else if (as, bs) \<in> lexord {(False, True)} then - 1 else 1)"
proof (induction as arbitrary: bs)
  case Nil
  then show ?case by (cases bs) simp_all
next
  case (Cons a as)
  then show ?case by (cases bs) auto
qed

lemma bits_lexcmp_0: "bits_lexcmp as bs = 0 \<longleftrightarrow> as = bs"
  by (simp add: bits_lexcmp_lexord)

end
