(* ===== verification/Cells.thy ===== *)
theory Cells
  imports BitStrings
begin

text \<open>
  Cells (\<open>crypto/vm/cells\<close>): level masks (\<open>LevelMask.h\<close>), and the data cell (\<open>DataCell.h\<close>,
  \<open>DataCell.cpp\<close>) with its levels, depths and hashes, and the checks under which one is
  created. A cell is its data bits and references; what \<open>DataCell::create\<close> stores beside them
  (level mask, hashes, depths) is computed from these. Bytes are written as their bits. The hash
  \<open>sha\<close> is OpenSSL's SHA256, a parameter. Cells that stand for unloaded or virtualised ones
  are not part of the model, so that the virtualisation of every cell is 0.
\<close>

section \<open>Level masks\<close>

definition lm_level :: "nat \<Rightarrow> nat" where
  "lm_level m = nat_bits m"

fun lm_hash_i :: "nat \<Rightarrow> nat" where
  "lm_hash_i m = (if m = 0 then 0 else m mod 2 + lm_hash_i (m div 2))"

declare lm_hash_i.simps [simp del]

definition lm_hashes_count :: "nat \<Rightarrow> nat" where
  "lm_hashes_count m = lm_hash_i m + 1"

definition lm_apply :: "nat \<Rightarrow> nat \<Rightarrow> nat" where
  "lm_apply m level = m AND (2 ^ level - 1)"

definition lm_apply_or :: "nat \<Rightarrow> nat \<Rightarrow> nat" where
  "lm_apply_or m n = m OR n"

definition lm_shift_right :: "nat \<Rightarrow> nat" where
  "lm_shift_right m = drop_bit 1 m"

definition lm_is_significant :: "nat \<Rightarrow> nat \<Rightarrow> bool" where
  "lm_is_significant m level \<longleftrightarrow> level = 0 \<or> drop_bit (level - 1) m mod 2 \<noteq> 0"

definition lm_one_level :: "nat \<Rightarrow> nat" where
  "lm_one_level level = (if level = 0 then 0 else 2 ^ (level - 1))"

text \<open>The significant levels up to the level of the mask, in the order of the loops over them.\<close>

definition lm_levels :: "nat \<Rightarrow> nat list" where
  "lm_levels m = filter (lm_is_significant m) [0..<lm_level m + 1]"

section \<open>Special cells\<close>

datatype cell = Cell (cell_special: bool) (cell_bits: bits) (cell_refs: "cell list")

datatype cell_type = Ordinary | PrunnedBranch | Library | MerkleProof | MerkleUpdate | UnknownType

definition special_of_nat :: "nat \<Rightarrow> cell_type" where
  "special_of_nat n = (if n = 0 then Ordinary else if n = 1 then PrunnedBranch else if n = 2 then Library
     else if n = 3 then MerkleProof else if n = 4 then MerkleUpdate else UnknownType)"

definition special_type_of :: "bool \<Rightarrow> bits \<Rightarrow> cell_type" where
  "special_type_of sp bs = (if sp then special_of_nat (bits_nat (take 8 bs)) else Ordinary)"

definition special_type :: "cell \<Rightarrow> cell_type" where
  "special_type c = special_type_of (cell_special c) (cell_bits c)"

text \<open>The level mask that \<open>create\<close> computes from the masks of the references, and stores with three bits.\<close>

definition create_level_mask :: "cell_type \<Rightarrow> bits \<Rightarrow> nat list \<Rightarrow> nat" where
  "create_level_mask t bs ms =
     (case t of
        Ordinary \<Rightarrow> foldl lm_apply_or 0 ms
      | PrunnedBranch \<Rightarrow> bits_nat (take 8 (drop 8 bs))
      | MerkleProof \<Rightarrow> lm_shift_right (ms ! 0)
      | MerkleUpdate \<Rightarrow> lm_shift_right (lm_apply_or (ms ! 0) (ms ! 1))
      | _ \<Rightarrow> 0)"

fun get_level_mask :: "cell \<Rightarrow> nat" where
  "get_level_mask (Cell sp bs rs) = create_level_mask (special_type_of sp bs) bs (map get_level_mask rs) AND 7"

definition get_level :: "cell \<Rightarrow> nat" where
  "get_level c = lm_level (get_level_mask c)"

text \<open>
  The levels at which a hash and a depth are stored: all significant ones, but only the last
  for a pruned branch. A Merkle cell refers to its children one level higher.
\<close>

definition hash_count :: "cell_type \<Rightarrow> nat \<Rightarrow> nat" where
  "hash_count t m = (if t = PrunnedBranch then 1 else lm_hashes_count m)"

definition hash_levels :: "cell_type \<Rightarrow> nat \<Rightarrow> nat list" where
  "hash_levels t m = drop (lm_hashes_count m - hash_count t m) (lm_levels m)"

definition child_level :: "cell_type \<Rightarrow> nat \<Rightarrow> nat" where
  "child_level t l = (if t = MerkleProof \<or> t = MerkleUpdate then l + 1 else l)"

section \<open>Depths\<close>

definition load_depth :: "bits \<Rightarrow> nat" where
  "load_depth bs = bits_nat (take 16 bs)"

text \<open>\<open>do_get_depth\<close>: what is stored in a cell with type \<open>t\<close>, mask \<open>m\<close>, data \<open>bs\<close> and depths \<open>ds\<close>.\<close>

definition do_get_depth :: "cell_type \<Rightarrow> nat \<Rightarrow> bits \<Rightarrow> nat list \<Rightarrow> nat \<Rightarrow> nat" where
  "do_get_depth t m bs ds level =
     (let hash_i = lm_hash_i (lm_apply m level)
      in if t = PrunnedBranch then
           (if hash_i \<noteq> lm_hash_i m then load_depth (drop (8 * (2 + 32 * lm_hash_i m + hash_i * 2)) bs) else ds ! 0)
         else ds ! hash_i)"

definition calc_depth :: "nat list \<Rightarrow> nat" where
  "calc_depth cds = (if cds = [] then 0 else fold max cds 0 + 1)"

fun cell_depths :: "cell \<Rightarrow> nat list" where
  "cell_depths (Cell sp bs rs) =
     (let t = special_type_of sp bs
      in map (\<lambda>l. calc_depth
           (map (\<lambda>r. do_get_depth (special_type r) (get_level_mask r) (cell_bits r) (cell_depths r) (child_level t l)) rs))
         (hash_levels t (get_level_mask (Cell sp bs rs))))"

definition get_depth :: "cell \<Rightarrow> nat \<Rightarrow> nat" where
  "get_depth c level = do_get_depth (special_type c) (get_level_mask c) (cell_bits c) (cell_depths c) level"

section \<open>Hashes\<close>

definition do_get_hash :: "cell_type \<Rightarrow> nat \<Rightarrow> bits \<Rightarrow> bits list \<Rightarrow> nat \<Rightarrow> bits" where
  "do_get_hash t m bs hs level =
     (let hash_i = lm_hash_i (lm_apply m level)
      in if t = PrunnedBranch then
           (if hash_i \<noteq> lm_hash_i m then take 256 (drop (8 * (2 + 32 * hash_i)) bs) else hs ! 0)
         else hs ! hash_i)"

definition cell_d1 :: "nat \<Rightarrow> bool \<Rightarrow> nat \<Rightarrow> nat" where
  "cell_d1 n_refs sp m = (n_refs + 8 * (if sp then 1 else 0) + 32 * m) mod 256"

definition cell_d2 :: "nat \<Rightarrow> nat" where
  "cell_d2 n_bits = ((n_bits div 8) * 2 + (if n_bits mod 8 \<noteq> 0 then 1 else 0)) mod 256"

text \<open>The data in whole bytes: an incomplete byte is completed by a one and zeros.\<close>

definition padded_data :: "bits \<Rightarrow> bits" where
  "padded_data bs = (if length bs mod 8 = 0 then bs else bs @ True # replicate (7 - length bs mod 8) False)"

text \<open>
  What is hashed at one level: two descriptor bytes, the data or the hash of the level below,
  then the depths and the hashes of the children.
\<close>

definition level_input :: "bool \<Rightarrow> nat \<Rightarrow> bits \<Rightarrow> bits option \<Rightarrow> nat list \<Rightarrow> bits list \<Rightarrow> nat \<Rightarrow> bits" where
  "level_input sp m bs prev cds chs l =
     nat_bl 8 (cell_d1 (length chs) sp (lm_apply m l)) @ nat_bl 8 (cell_d2 (length bs))
     @ (case prev of None \<Rightarrow> padded_data bs | Some h \<Rightarrow> h)
     @ concat (map (nat_bl 16) cds) @ concat chs"

fun hash_loop :: "(bits \<Rightarrow> bits) \<Rightarrow> (bits option \<Rightarrow> nat \<Rightarrow> bits) \<Rightarrow> bits option \<Rightarrow> nat list \<Rightarrow> bits list" where
  "hash_loop sha inp prev [] = []"
| "hash_loop sha inp prev (l # ls) = (let h = sha (inp prev l) in h # hash_loop sha inp (Some h) ls)"

fun cell_hashes :: "(bits \<Rightarrow> bits) \<Rightarrow> cell \<Rightarrow> bits list" where
  "cell_hashes sha (Cell sp bs rs) =
     (let t = special_type_of sp bs; m = get_level_mask (Cell sp bs rs)
      in hash_loop sha
           (\<lambda>prev l. level_input sp m bs prev (map (\<lambda>r. get_depth r (child_level t l)) rs)
              (map (\<lambda>r. do_get_hash (special_type r) (get_level_mask r) (cell_bits r) (cell_hashes sha r) (child_level t l)) rs) l)
           None (hash_levels t m))"

definition get_hash :: "(bits \<Rightarrow> bits) \<Rightarrow> cell \<Rightarrow> nat \<Rightarrow> bits" where
  "get_hash sha c level = do_get_hash (special_type c) (get_level_mask c) (cell_bits c) (cell_hashes sha c) level"

section \<open>Creation\<close>

datatype cell_error =
    special_too_short | special_ordinary | prunned_has_refs | prunned_too_short | prunned_level | prunned_length
  | library_length | proof_length | proof_refs | proof_hash | proof_depth
  | update_length | update_refs | update_hash1 | update_hash2 | update_depth1 | update_depth2
  | unknown_special | too_many_bits | too_many_refs | depth_too_big

definition max_bits :: nat where "max_bits = 1023"

definition max_refs :: nat where "max_refs = 4"

definition max_level :: nat where "max_level = 3"

definition max_depth :: nat where "max_depth = 1024"

text \<open>The checks that depend on the type; \<open>None\<close> when all pass.\<close>

definition special_check :: "(bits \<Rightarrow> bits) \<Rightarrow> cell_type \<Rightarrow> bits \<Rightarrow> cell list \<Rightarrow> cell_error option" where
  "special_check sha t bs rs =
     (case t of
        Ordinary \<Rightarrow> None
      | PrunnedBranch \<Rightarrow>
          if rs \<noteq> [] then Some prunned_has_refs
          else if length bs < 16 then Some prunned_too_short
          else let m = bits_nat (take 8 (drop 8 bs)); level = lm_level m
               in if level > max_level \<or> level = 0 then Some prunned_level
                  else if length bs \<noteq> (2 + lm_hashes_count (lm_apply m (level - 1)) * (32 + 2)) * 8 then Some prunned_length
                  else None
      | Library \<Rightarrow> if length bs \<noteq> 8 + 32 * 8 then Some library_length else None
      | MerkleProof \<Rightarrow>
          if length bs \<noteq> 8 + (32 + 2) * 8 then Some proof_length
          else if length rs \<noteq> 1 then Some proof_refs
          else if take 256 (drop 8 bs) \<noteq> get_hash sha (rs ! 0) 0 then Some proof_hash
          else if bits_nat (take 16 (drop (8 + 256) bs)) \<noteq> get_depth (rs ! 0) 0 then Some proof_depth
          else None
      | MerkleUpdate \<Rightarrow>
          if length bs \<noteq> 8 + (32 + 2) * 8 * 2 then Some update_length
          else if length rs \<noteq> 2 then Some update_refs
          else if take 256 (drop 8 bs) \<noteq> get_hash sha (rs ! 0) 0 then Some update_hash1
          else if take 256 (drop (8 + 256) bs) \<noteq> get_hash sha (rs ! 1) 0 then Some update_hash2
          else if bits_nat (take 16 (drop (8 + 2 * 256) bs)) \<noteq> get_depth (rs ! 0) 0 then Some update_depth1
          else if bits_nat (take 16 (drop (8 + 2 * 256 + 16) bs)) \<noteq> get_depth (rs ! 1) 0 then Some update_depth2
          else None
      | UnknownType \<Rightarrow> Some unknown_special)"

text \<open>The check of the depth in the loop over the levels.\<close>

definition too_deep :: "nat list \<Rightarrow> bool" where
  "too_deep cds \<longleftrightarrow> cds \<noteq> [] \<and> fold max cds 0 \<ge> max_depth"

definition depths_ok :: "bool \<Rightarrow> bits \<Rightarrow> cell list \<Rightarrow> bool" where
  "depths_ok sp bs rs \<longleftrightarrow>
     (\<forall>l \<in> set (hash_levels (special_type_of sp bs) (get_level_mask (Cell sp bs rs))).
        \<not> too_deep (map (\<lambda>r. get_depth r (child_level (special_type_of sp bs) l)) rs))"

definition data_cell_create :: "(bits \<Rightarrow> bits) \<Rightarrow> bits \<Rightarrow> cell list \<Rightarrow> bool \<Rightarrow> cell_error + cell" where
  "data_cell_create sha bs rs special =
     (if special \<and> length bs < 8 then Inl special_too_short
      else if special \<and> special_type_of special bs = Ordinary then Inl special_ordinary
      else case special_check sha (special_type_of special bs) bs rs of
             Some e \<Rightarrow> Inl e
           | None \<Rightarrow>
               if length bs > max_bits then Inl too_many_bits
               else if length rs > max_refs then Inl too_many_refs
               else if \<not> depths_ok special bs rs then Inl depth_too_big
               else Inr (Cell special bs rs))"

section \<open>Level masks of three bits\<close>

lemma lm_apply_take_bit: "lm_apply m l = take_bit l m"
  by (simp add: lm_apply_def take_bit_eq_mask mask_eq_exp_minus_1)

lemma lm_apply_apply [simp]: "lm_apply (lm_apply m l) k = lm_apply m (min l k)"
  by (simp add: lm_apply_take_bit min.commute)

lemma lm_apply_le: "lm_apply m l \<le> m"
  by (simp add: lm_apply_take_bit)

lemma lm_apply_or_dist: "lm_apply (lm_apply_or m n) l = lm_apply_or (lm_apply m l) (lm_apply n l)"
  by (simp add: lm_apply_take_bit lm_apply_or_def)

lemma lm_apply_shift: "lm_apply (lm_shift_right m) l = lm_shift_right (lm_apply m (l + 1))"
  by (simp add: lm_apply_take_bit lm_shift_right_def take_bit_drop_bit)

lemma mask_cases: "(m :: nat) < 8 \<Longrightarrow> m \<in> {0, 1, 2, 3, 4, 5, 6, 7}"
  by auto

lemma lm_apply_big: "m < 8 \<Longrightarrow> 3 \<le> l \<Longrightarrow> lm_apply m l = m"
proof -
  assume "m < 8" "3 \<le> l"
  then have "m < 2 ^ 3" by simp
  also have "(2 :: nat) ^ 3 \<le> 2 ^ l" by (rule power_increasing) (use \<open>3 \<le> l\<close> in auto)
  finally show ?thesis by (simp add: lm_apply_take_bit take_bit_nat_eq_self)
qed

lemma mask_cases_pos: "(m :: nat) < 8 \<Longrightarrow> m \<noteq> 0 \<Longrightarrow> m \<in> {1, 2, 3, 4, 5, 6, 7}"
  by auto

text \<open>The facts on masks that the stored hashes rely on, checked for all masks and levels there are.\<close>

lemma lm_table:
  "\<forall>m \<in> {0, 1, 2, 3, 4, 5, 6, 7}. length (lm_levels m) = lm_hashes_count m \<and>
     (\<forall>l \<in> {0, 1, 2, 3}.
        lm_hash_i (lm_apply m l) < length (lm_levels m) \<and> lm_levels m ! lm_hash_i (lm_apply m l) = lm_level (lm_apply m l) \<and>
        lm_level (lm_apply m l) \<le> l \<and> lm_apply m (lm_level (lm_apply m l)) = lm_apply m l \<and>
        (lm_level (lm_apply m l) = 0 \<longleftrightarrow> lm_hash_i (lm_apply m l) = 0) \<and>
        (lm_level (lm_apply m l) \<noteq> 0 \<longrightarrow>
           lm_hash_i (lm_apply m (lm_level (lm_apply m l) - 1)) = lm_hash_i (lm_apply m l) - 1))"
  by code_simp

lemma lm_facts:
  assumes "m < 8"
  shows "length (lm_levels m) = lm_hashes_count m" "lm_hash_i (lm_apply m l) < length (lm_levels m)"
    "lm_levels m ! lm_hash_i (lm_apply m l) = lm_level (lm_apply m l)"
    "lm_level (lm_apply m l) \<le> l" "lm_apply m (lm_level (lm_apply m l)) = lm_apply m l"
    "lm_level (lm_apply m l) = 0 \<longleftrightarrow> lm_hash_i (lm_apply m l) = 0"
    "lm_level (lm_apply m l) \<noteq> 0 \<Longrightarrow> lm_hash_i (lm_apply m (lm_level (lm_apply m l) - 1)) = lm_hash_i (lm_apply m l) - 1"
proof -
  have m: "m \<in> {0, 1, 2, 3, 4, 5, 6, 7}" using assms by (rule mask_cases)
  define k where "k = min l 3"
  have k: "k \<in> {0, 1, 2, 3}" "k \<le> l" unfolding k_def by auto
  have a: "lm_apply m l = lm_apply m k"
  proof (cases "l \<le> 3")
    case False
    then have "lm_apply m l = m" "lm_apply m 3 = m" using lm_apply_big [OF assms] by simp_all
    then show ?thesis using False by (simp add: k_def)
  qed (simp add: k_def)
  note t = bspec [OF lm_table m]
  note tk = bspec [OF conjunct2 [OF t] k(1)]
  show "length (lm_levels m) = lm_hashes_count m" using t by blast
  show "lm_hash_i (lm_apply m l) < length (lm_levels m)"
    "lm_levels m ! lm_hash_i (lm_apply m l) = lm_level (lm_apply m l)"
    "lm_apply m (lm_level (lm_apply m l)) = lm_apply m l"
    "lm_level (lm_apply m l) = 0 \<longleftrightarrow> lm_hash_i (lm_apply m l) = 0"
    "lm_level (lm_apply m l) \<noteq> 0 \<Longrightarrow> lm_hash_i (lm_apply m (lm_level (lm_apply m l) - 1)) = lm_hash_i (lm_apply m l) - 1"
    using tk unfolding a by blast+
  show "lm_level (lm_apply m l) \<le> l" using tk k(2) unfolding a by (meson order_trans)
qed

lemma get_level_mask_less [simp]: "get_level_mask c < 8"
proof (cases c)
  case (Cell sp bs rs)
  have "x AND 7 = take_bit 3 x" for x :: nat by (simp add: take_bit_eq_mask mask_eq_exp_minus_1)
  then show ?thesis using Cell take_bit_nat_less_exp [of 3] by simp
qed

section \<open>Hashes and depths by recursion\<close>

text \<open>
  What is stored at level \<open>l\<close> belongs to the highest significant level below it. There the hash and
  the depth are computed from those of the children.
\<close>

definition eff_level :: "cell \<Rightarrow> nat \<Rightarrow> nat" where
  "eff_level c l = lm_level (lm_apply (get_level_mask c) l)"

lemma eff_level_le: "eff_level c l \<le> l"
  by (simp add: eff_level_def lm_facts)

lemma hash_levels_all: "t \<noteq> PrunnedBranch \<Longrightarrow> hash_levels t m = lm_levels m"
  by (simp add: hash_levels_def hash_count_def)

lemma length_hash_loop [simp]: "length (hash_loop sha inp prev ls) = length ls"
  by (induction ls arbitrary: prev) (simp_all add: Let_def)

lemma hash_loop_nth:
  "k < length ls \<Longrightarrow> hash_loop sha inp prev ls ! k =
     sha (inp (if k = 0 then prev else Some (hash_loop sha inp prev ls ! (k - 1))) (ls ! k))"
proof (induction ls arbitrary: prev k)
  case (Cons l ls)
  then show ?case by (cases k) (auto simp: Let_def nth_Cons')
qed simp

lemma get_depth_rec:
  assumes "special_type c \<noteq> PrunnedBranch"
  shows "get_depth c l = calc_depth (map (\<lambda>r. get_depth r (child_level (special_type c) (eff_level c l))) (cell_refs c))"
proof -
  obtain sp bs rs where c: "c = Cell sp bs rs" by (cases c)
  let ?m = "get_level_mask c" and ?t = "special_type c"
  let ?d = "\<lambda>l. calc_depth (map (\<lambda>r. get_depth r (child_level ?t l)) rs)"
  have ds: "cell_depths c = map ?d (lm_levels ?m)"
    using assms by (simp add: c special_type_def hash_levels_all get_depth_def Let_def del: get_level_mask.simps)
  have "get_depth c l = map ?d (lm_levels ?m) ! lm_hash_i (lm_apply ?m l)"
    unfolding ds [symmetric] using assms by (simp add: get_depth_def do_get_depth_def Let_def)
  also have "\<dots> = ?d (lm_levels ?m ! lm_hash_i (lm_apply ?m l))" by (rule nth_map, rule lm_facts(2)) simp
  also have "lm_levels ?m ! lm_hash_i (lm_apply ?m l) = eff_level c l" by (simp add: lm_facts eff_level_def)
  finally show ?thesis by (simp add: c)
qed

lemma get_hash_rec:
  assumes "special_type c \<noteq> PrunnedBranch"
  shows "get_hash sha c l =
    (let t = special_type c; k = eff_level c l
     in sha (level_input (cell_special c) (get_level_mask c) (cell_bits c) (if k = 0 then None else Some (get_hash sha c (k - 1)))
          (map (\<lambda>r. get_depth r (child_level t k)) (cell_refs c)) (map (\<lambda>r. get_hash sha r (child_level t k)) (cell_refs c)) k))"
proof -
  obtain sp bs rs where c: "c = Cell sp bs rs" by (cases c)
  let ?m = "get_level_mask c" and ?k = "eff_level c l"
  have t: "special_type_of sp bs \<noteq> PrunnedBranch" using assms by (simp add: c special_type_def)
  have h: "get_hash sha c i = cell_hashes sha c ! lm_hash_i (lm_apply ?m i)" for i
    using assms by (simp add: get_hash_def do_get_hash_def Let_def)
  define inp where "inp = (\<lambda>prev l. level_input sp ?m bs prev (map (\<lambda>r. get_depth r (child_level (special_type c) l)) rs)
      (map (\<lambda>r. get_hash sha r (child_level (special_type c) l)) rs) l)"
  have hs: "cell_hashes sha c = hash_loop sha inp None (lm_levels ?m)"
    unfolding inp_def using t by (simp add: c special_type_def hash_levels_all get_hash_def Let_def del: get_level_mask.simps)
  have "get_hash sha c l = sha (inp (if lm_hash_i (lm_apply ?m l) = 0 then None
      else Some (hash_loop sha inp None (lm_levels ?m) ! (lm_hash_i (lm_apply ?m l) - 1))) (lm_levels ?m ! lm_hash_i (lm_apply ?m l)))"
    unfolding h hs by (rule hash_loop_nth, rule lm_facts(2)) simp
  also have "\<dots> = sha (inp (if ?k = 0 then None else Some (get_hash sha c (?k - 1))) ?k)"
  proof (cases "?k = 0")
    case True
    then show ?thesis using lm_facts(3,6) [of ?m l] by (simp add: eff_level_def)
  next
    case False
    then have "lm_hash_i (lm_apply ?m (?k - 1)) = lm_hash_i (lm_apply ?m l) - 1" "lm_hash_i (lm_apply ?m l) \<noteq> 0"
      using lm_facts(6,7) [of ?m l] by (simp_all add: eff_level_def)
    then show ?thesis using False lm_facts(3) [of ?m l] by (simp only: h hs eff_level_def get_level_mask_less if_False)
  qed
  finally show ?thesis by (simp add: inp_def Let_def c)
qed

section \<open>Well-formed cells\<close>

text \<open>
  The height of the tree, and what all cells that \<open>create\<close> can return satisfy, whatever the hash
  function: the checks of \<open>create\<close> that do not involve hashes.
\<close>

fun cell_depth :: "cell \<Rightarrow> nat" where
  "cell_depth (Cell sp bs rs) = (if rs = [] then 0 else Suc (fold max (map cell_depth rs) 0))"

definition empty_cell :: cell where
  "empty_cell = Cell False [] []"

definition special_shape :: "cell_type \<Rightarrow> bits \<Rightarrow> cell list \<Rightarrow> bool" where
  "special_shape t bs rs =
     (case t of
        Ordinary \<Rightarrow> True
      | PrunnedBranch \<Rightarrow> rs = [] \<and> 16 \<le> length bs \<and>
          (let m = bits_nat (take 8 (drop 8 bs)) in 0 < m \<and> m < 8 \<and> length bs = (2 + lm_hash_i m * 34) * 8)
      | Library \<Rightarrow> length bs = 264
      | MerkleProof \<Rightarrow> length bs = 280 \<and> length rs = 1 \<and> bits_nat (take 16 (drop 264 bs)) = get_depth (rs ! 0) 0
      | MerkleUpdate \<Rightarrow> length bs = 552 \<and> length rs = 2 \<and> bits_nat (take 16 (drop 520 bs)) = get_depth (rs ! 0) 0 \<and>
          bits_nat (take 16 (drop 536 bs)) = get_depth (rs ! 1) 0
      | UnknownType \<Rightarrow> False)"

definition cell_shape :: "bool \<Rightarrow> bits \<Rightarrow> cell list \<Rightarrow> bool" where
  "cell_shape sp bs rs \<longleftrightarrow> (sp \<longrightarrow> 8 \<le> length bs \<and> special_type_of sp bs \<noteq> Ordinary) \<and>
     special_shape (special_type_of sp bs) bs rs \<and> length bs \<le> max_bits \<and> length rs \<le> max_refs \<and> depths_ok sp bs rs"

fun cell_ok :: "cell \<Rightarrow> bool" where
  "cell_ok (Cell sp bs rs) \<longleftrightarrow> (\<forall>r \<in> set rs. cell_ok r) \<and> cell_shape sp bs rs"

lemma cell_ok_sel: "cell_ok c \<longleftrightarrow> (\<forall>r \<in> set (cell_refs c). cell_ok r) \<and> cell_shape (cell_special c) (cell_bits c) (cell_refs c)"
  by (cases c) simp

lemma cell_ok_refs: "cell_ok c \<Longrightarrow> \<forall>r \<in> set (cell_refs c). cell_ok r"
  by (cases c) simp

lemma cell_ok_size: "cell_ok c \<Longrightarrow> length (cell_bits c) \<le> 1023 \<and> length (cell_refs c) \<le> 4"
  by (cases c) (simp add: cell_shape_def max_bits_def max_refs_def)

lemma lm_level_table:
  "\<forall>m \<in> {1, 2, 3, 4, 5, 6, 7}. lm_hashes_count (lm_apply m (lm_level m - 1)) = lm_hash_i m \<and> lm_level m \<noteq> 0 \<and> lm_level m \<le> 3"
  by code_simp

lemma lm_level_bound: "lm_level m \<le> 3 \<Longrightarrow> m < 8"
proof -
  have *: "m < 2 ^ nat_bits m" for m
  proof (induction m rule: nat_bits.induct)
    case (1 n)
    then show ?case by (subst nat_bits.simps) (auto simp: nat_bits.simps [of 0])
  qed
  assume "lm_level m \<le> 3"
  then have "(2 :: nat) ^ nat_bits m \<le> 2 ^ 3" unfolding lm_level_def by (intro power_increasing) auto
  with * [of m] show ?thesis by simp
qed

lemma special_check_shape:
  assumes "special_check sha t bs rs = None"
  shows "special_shape t bs rs"
proof (cases t)
  case PrunnedBranch
  let ?m = "bits_nat (take 8 (drop 8 bs))"
  have n: "(32 :: nat) + 2 = 34" by simp
  have h: "rs = []" "16 \<le> length bs" "lm_level ?m \<le> 3" "lm_level ?m \<noteq> 0"
    "length bs = (2 + lm_hashes_count (lm_apply ?m (lm_level ?m - 1)) * 34) * 8"
    using assms unfolding special_check_def PrunnedBranch cell_type.case Let_def max_level_def n
    by (metis (no_types, lifting) not_less option.distinct(1))+
  have "?m \<noteq> 0"
  proof
    assume "?m = 0"
    then have "lm_level ?m = 0" by (simp add: lm_level_def nat_bits.simps)
    with h(4) show False by simp
  qed
  moreover have "?m < 8" using h(3) by (rule lm_level_bound)
  ultimately have "lm_hashes_count (lm_apply ?m (lm_level ?m - 1)) = lm_hash_i ?m"
    using bspec [OF lm_level_table mask_cases_pos] by blast
  then show ?thesis
    using h \<open>?m \<noteq> 0\<close> \<open>?m < 8\<close> unfolding special_shape_def PrunnedBranch cell_type.case Let_def by (simp only: simp_thms neq0_conv)
qed (use assms in \<open>simp_all add: special_check_def special_shape_def split: if_splits\<close>)

text \<open>Creation succeeds only with a well-formed result, which has the contents asked for.\<close>

lemma data_cell_create_Inr:
  "data_cell_create sha bs rs sp = Inr c \<Longrightarrow> c = Cell sp bs rs \<and> cell_shape sp bs rs"
  by (auto simp: data_cell_create_def cell_shape_def special_check_shape split: if_splits option.splits)

lemma data_cell_create_ok: "data_cell_create sha bs rs sp = Inr c \<Longrightarrow> \<forall>r \<in> set rs. cell_ok r \<Longrightarrow> cell_ok c"
  using data_cell_create_Inr [of sha bs rs sp c] by auto

section \<open>The depth is the height of the tree\<close>

lemma lm_apply_self_table:
  "\<forall>m \<in> {0, 1, 2, 3, 4, 5, 6, 7}. lm_apply m (lm_level m) = m \<and> lm_level m \<le> lm_level (lm_shift_right m) + 1 \<and>
     (\<forall>n \<in> {0, 1, 2, 3, 4, 5, 6, 7}. lm_apply_or m n < 8 \<and> lm_level m \<le> lm_level (lm_apply_or m n) \<and>
        lm_level n \<le> lm_level (lm_apply_or m n)) \<and> lm_shift_right m < 8 \<and> m AND 7 = m"
  by code_simp

lemma lm_or_facts:
  assumes "m < 8" "n < 8"
  shows "lm_apply_or m n < 8" "lm_level m \<le> lm_level (lm_apply_or m n)" "lm_level n \<le> lm_level (lm_apply_or m n)"
  using bspec [OF conjunct1 [OF conjunct2 [OF conjunct2 [OF bspec [OF lm_apply_self_table mask_cases [OF assms(1)]]]]]
      mask_cases [OF assms(2)]] by blast+

lemma lm_level_facts:
  assumes "m < 8"
  shows "lm_apply m (lm_level m) = m" "lm_level m \<le> lm_level (lm_shift_right m) + 1" "lm_shift_right m < 8" "m AND 7 = m"
  using bspec [OF lm_apply_self_table mask_cases [OF assms]] by blast+

lemma lm_apply_id:
  assumes "m < 8" "lm_level m \<le> l"
  shows "lm_apply m l = m"
proof -
  have "lm_apply m l = lm_apply (lm_apply m (lm_level m)) l" using lm_level_facts(1) [OF assms(1)] by simp
  also have "\<dots> = lm_apply m (lm_level m)" using assms(2) by (simp only: lm_apply_apply min_absorb1)
  finally show ?thesis using lm_level_facts(1) [OF assms(1)] by simp
qed

lemma foldl_or_facts:
  "(\<forall>m \<in> set ms. m < 8) \<Longrightarrow> a < 8 \<Longrightarrow>
     foldl lm_apply_or a ms < 8 \<and> lm_level a \<le> lm_level (foldl lm_apply_or a ms) \<and>
     (\<forall>m \<in> set ms. lm_level m \<le> lm_level (foldl lm_apply_or a ms))"
proof (induction ms arbitrary: a)
  case (Cons n ms)
  have n: "n < 8" using Cons.prems(1) by simp
  from Cons.IH [of "lm_apply_or a n"] Cons.prems(1) lm_or_facts [OF Cons.prems(2) n]
  show ?case by (auto intro: order_trans)
qed simp

text \<open>At levels above its own, a cell has one depth and one hash.\<close>

lemma get_depth_high: "get_level c \<le> l \<Longrightarrow> get_depth c l = get_depth c max_level"
  unfolding get_depth_def do_get_depth_def get_level_def max_level_def
  by (simp only: lm_apply_id [OF get_level_mask_less] lm_apply_big [OF get_level_mask_less order_refl])

lemma get_hash_high: "get_level c \<le> l \<Longrightarrow> get_hash sha c l = get_hash sha c max_level"
  unfolding get_hash_def do_get_hash_def get_level_def max_level_def
  by (simp only: lm_apply_id [OF get_level_mask_less] lm_apply_big [OF get_level_mask_less order_refl])

text \<open>
  The references of a library cell do not count for its level, so their depth may be taken at a
  lower level than their own. All others do.
\<close>

fun library_leaf :: "cell \<Rightarrow> bool" where
  "library_leaf (Cell sp bs rs) \<longleftrightarrow> (special_type_of sp bs = Library \<longrightarrow> rs = []) \<and> (\<forall>r \<in> set rs. library_leaf r)"

lemma children_levels:
  assumes "special_shape (special_type_of sp bs) bs rs" "special_type_of sp bs \<noteq> Library" "r \<in> set rs"
  shows "get_level r \<le> child_level (special_type_of sp bs) (get_level (Cell sp bs rs))"
proof -
  let ?t = "special_type_of sp bs" and ?ms = "map get_level_mask rs"
  note sh = assms(1) and lib = assms(2) and r = assms(3)
  have shift: "lm_level m \<le> lm_level (lm_shift_right m AND 7) + 1" if "m < 8" for m
    using lm_level_facts(2,3) [OF that] lm_level_facts(4) [of "lm_shift_right m"] by (simp only:)
  show ?thesis
  proof (cases ?t)
    case Ordinary
    have "foldl lm_apply_or 0 ?ms < 8 \<and> (\<forall>m \<in> set ?ms. lm_level m \<le> lm_level (foldl lm_apply_or 0 ?ms))"
      using foldl_or_facts [of ?ms 0] by auto
    then show ?thesis using r Ordinary lm_level_facts(4) [of "foldl lm_apply_or 0 ?ms"]
      by (auto simp: get_level_def child_level_def create_level_mask_def)
  next
    case MerkleProof
    then obtain x where "rs = [x]" using sh by (auto simp: special_shape_def length_Suc_conv)
    then show ?thesis using r MerkleProof shift [of "get_level_mask x"]
      by (simp add: get_level_def child_level_def create_level_mask_def)
  next
    case MerkleUpdate
    then obtain x y where xy: "rs = [x, y]" using sh by (auto simp: special_shape_def length_Suc_conv numeral_2_eq_2)
    let ?m = "lm_apply_or (get_level_mask x) (get_level_mask y)"
    have "?m < 8" "lm_level (get_level_mask x) \<le> lm_level ?m" "lm_level (get_level_mask y) \<le> lm_level ?m"
      by (rule lm_or_facts; simp)+
    then show ?thesis using r MerkleUpdate shift [of ?m] xy
      by (auto simp: get_level_def child_level_def create_level_mask_def)
  qed (use sh lib r in \<open>simp_all add: special_shape_def\<close>)
qed

lemma child_level_bound:
  assumes "cell_ok c" "library_leaf c" "r \<in> set (cell_refs c)"
  shows "get_level r \<le> child_level (special_type c) (get_level c)"
  using assms by (cases c) (auto simp: special_type_def cell_shape_def intro!: children_levels)

lemma get_depth_prunned:
  assumes "special_type c = PrunnedBranch" "cell_refs c = []"
  shows "get_depth c max_level = 0"
proof -
  obtain sp bs where c: "c = Cell sp bs []" using assms(2) by (cases c) simp
  have "hash_levels PrunnedBranch (get_level_mask c) \<noteq> []"
    unfolding hash_levels_def using lm_facts(1) [OF get_level_mask_less] by (simp add: hash_count_def lm_hashes_count_def)
  then show ?thesis
    using assms(1) lm_apply_big [OF get_level_mask_less order_refl, of c]
    by (simp add: c get_depth_def do_get_depth_def special_type_def max_level_def calc_depth_def Let_def
        del: get_level_mask.simps)
qed

lemma get_depth_height:
  assumes "cell_ok c" "library_leaf c"
  shows "get_depth c max_level = cell_depth c"
  using assms
proof (induction c)
  case (Cell sp bs rs)
  let ?c = "Cell sp bs rs"
  show ?case
  proof (cases "special_type ?c = PrunnedBranch")
    case True
    then have "rs = []" using Cell.prems(1) by (simp add: special_type_def cell_shape_def special_shape_def)
    then show ?thesis using get_depth_prunned [OF True] by simp
  next
    case False
    let ?l = "child_level (special_type ?c) (get_level ?c)"
    have e: "eff_level ?c max_level = get_level ?c"
      unfolding eff_level_def get_level_def max_level_def by (simp only: lm_apply_big [OF get_level_mask_less order_refl])
    have "get_depth r ?l = cell_depth r" if "r \<in> set rs" for r
      using child_level_bound [OF Cell.prems] get_depth_high [of r ?l] Cell.IH Cell.prems that by simp
    then have eq: "map (\<lambda>r. get_depth r ?l) rs = map cell_depth rs" by simp
    show ?thesis unfolding get_depth_rec [OF False] e cell.sel eq by (simp add: calc_depth_def)
  qed
qed

lemma get_depth_bound:
  assumes "cell_ok c"
  shows "get_depth c max_level \<le> max_depth"
proof (cases "special_type c = PrunnedBranch")
  case True
  then have "cell_refs c = []"
    using assms by (cases c) (simp add: special_type_def cell_shape_def special_shape_def)
  then show ?thesis using get_depth_prunned [OF True] by simp
next
  case False
  obtain sp bs rs where c: "c = Cell sp bs rs" by (cases c)
  have d: "depths_ok sp bs rs" using assms by (simp add: c cell_shape_def)
  have t: "hash_levels (special_type_of sp bs) (get_level_mask c) = lm_levels (get_level_mask c)"
    using False by (simp add: c special_type_def hash_levels_all del: get_level_mask.simps)
  have "eff_level c max_level \<in> set (lm_levels (get_level_mask c))"
    unfolding eff_level_def using lm_facts(2,3) [OF get_level_mask_less] by (metis nth_mem)
  then have "\<not> too_deep (map (\<lambda>r. get_depth r (child_level (special_type c) (eff_level c max_level))) (cell_refs c))"
    using d t unfolding depths_ok_def by (simp add: c special_type_def del: get_level_mask.simps)
  then show ?thesis unfolding get_depth_rec [OF False] calc_depth_def too_deep_def by auto
qed

end
