(* ===== verification/CellSlices.thy ===== *)
theory CellSlices
  imports Cells "HOL-Library.Sublist"
begin

text \<open>
  Cell slices (\<open>CellSlice.h\<close>, \<open>CellSlice.cpp\<close>): what is left to read of a cell. The positions in
  the underlying cell are replaced by the bits and references between them; the buffer of
  preloaded bits, and the tree of used cells, are not part of the model. An operation that
  returns false without a change is \<open>None\<close>, and a null result is \<open>None\<close>.
\<close>

record slice =
  sl_bits :: bits
  sl_refs :: "cell list"

definition empty_slice :: slice where
  "empty_slice = \<lparr>sl_bits = [], sl_refs = []\<rparr>"

text \<open>The slice of all of a cell.\<close>

definition cell_slice :: "cell \<Rightarrow> slice" where
  "cell_slice c = \<lparr>sl_bits = cell_bits c, sl_refs = cell_refs c\<rparr>"

section \<open>Sizes and positions\<close>

definition sl_size :: "slice \<Rightarrow> nat" where "sl_size cs = length (sl_bits cs)"

definition sl_size_refs :: "slice \<Rightarrow> nat" where "sl_size_refs cs = length (sl_refs cs)"

definition size_ext :: "slice \<Rightarrow> nat" where "size_ext cs = sl_size cs + sl_size_refs cs * 2 ^ 16"

definition have_bits :: "nat \<Rightarrow> slice \<Rightarrow> bool" where "have_bits n cs \<longleftrightarrow> n \<le> sl_size cs"

definition have_refs :: "nat \<Rightarrow> slice \<Rightarrow> bool" where "have_refs n cs \<longleftrightarrow> n \<le> sl_size_refs cs"

definition have_both :: "nat \<Rightarrow> nat \<Rightarrow> slice \<Rightarrow> bool" where
  "have_both n r cs \<longleftrightarrow> n \<le> sl_size cs \<and> r \<le> sl_size_refs cs"

definition have_ext :: "nat \<Rightarrow> slice \<Rightarrow> bool" where
  "have_ext e cs = have_both (e mod 2 ^ 16) (e div 2 ^ 16) cs"

definition drop_bits :: "nat \<Rightarrow> slice \<Rightarrow> slice" where
  "drop_bits n cs = cs\<lparr>sl_bits := drop n (sl_bits cs)\<rparr>"

definition drop_refs :: "nat \<Rightarrow> slice \<Rightarrow> slice" where
  "drop_refs n cs = cs\<lparr>sl_refs := drop n (sl_refs cs)\<rparr>"

definition advance :: "nat \<Rightarrow> slice \<Rightarrow> slice option" where
  "advance n cs = (if have_bits n cs then Some (drop_bits n cs) else None)"

definition advance_refs :: "nat \<Rightarrow> slice \<Rightarrow> slice option" where
  "advance_refs n cs = (if have_refs n cs then Some (drop_refs n cs) else None)"

definition advance_ext :: "nat \<Rightarrow> nat \<Rightarrow> slice \<Rightarrow> slice option" where
  "advance_ext n r cs = (if have_bits n cs \<and> have_refs r cs then advance n (drop_refs r cs) else None)"

text \<open>
  The version with both sizes in one number takes the number of bits from the upper half and that
  of references from the lower, the other way round than \<open>size_ext\<close>, \<open>skip_ext\<close> and the rest.
\<close>

definition advance_ext_packed :: "nat \<Rightarrow> slice \<Rightarrow> slice option" where
  "advance_ext_packed bits_refs cs = advance_ext (bits_refs div 2 ^ 16) (bits_refs mod 2 ^ 16) cs"

section \<open>Reading numbers\<close>

definition fetch_ulong_eof :: nat where "fetch_ulong_eof = 2 ^ 64 - 1"

definition fetch_long_eof :: int where "fetch_long_eof = - (2 ^ 63)"

definition prefetch_ulong :: "nat \<Rightarrow> slice \<Rightarrow> nat" where
  "prefetch_ulong n cs =
     (if \<not> have_bits n cs \<or> n > 64 then fetch_ulong_eof else if n = 0 then 0 else bits_nat (take n (sl_bits cs)))"

definition fetch_ulong :: "nat \<Rightarrow> slice \<Rightarrow> nat \<times> slice" where
  "fetch_ulong n cs =
     (if \<not> have_bits n cs \<or> n > 64 then (fetch_ulong_eof, cs)
      else if n = 0 then (0, cs) else (bits_nat (take n (sl_bits cs)), drop_bits n cs))"

definition prefetch_long :: "nat \<Rightarrow> slice \<Rightarrow> int" where
  "prefetch_long n cs =
     (if \<not> have_bits n cs \<or> n > 64 then fetch_long_eof else if n = 0 then 0 else bits_int (take n (sl_bits cs)))"

definition fetch_long :: "nat \<Rightarrow> slice \<Rightarrow> int \<times> slice" where
  "fetch_long n cs =
     (if \<not> have_bits n cs \<or> n > 64 then (fetch_long_eof, cs)
      else if n = 0 then (0, cs) else (bits_int (take n (sl_bits cs)), drop_bits n cs))"

definition fetch_long_bool :: "nat \<Rightarrow> slice \<Rightarrow> (int \<times> slice) option" where
  "fetch_long_bool n cs = (if n > 64 \<or> \<not> have_bits n cs then None else Some (fetch_long n cs))"

definition prefetch_long_bool :: "nat \<Rightarrow> slice \<Rightarrow> int option" where
  "prefetch_long_bool n cs = (if n > 64 \<or> \<not> have_bits n cs then None else Some (prefetch_long n cs))"

definition fetch_ulong_bool :: "nat \<Rightarrow> slice \<Rightarrow> (nat \<times> slice) option" where
  "fetch_ulong_bool n cs = (if n > 64 \<or> \<not> have_bits n cs then None else Some (fetch_ulong n cs))"

definition prefetch_ulong_bool :: "nat \<Rightarrow> slice \<Rightarrow> nat option" where
  "prefetch_ulong_bool n cs = (if n > 64 \<or> \<not> have_bits n cs then None else Some (prefetch_ulong n cs))"

definition fetch_bool_to :: "slice \<Rightarrow> (bool \<times> slice) option" where
  "fetch_bool_to cs = (if \<not> have_bits 1 cs then None else case fetch_ulong 1 cs of (v, cs') \<Rightarrow> Some (v \<noteq> 0, cs'))"

text \<open>
  \<open>fetch_uint_to\<close> for an unsigned target of width \<open>w\<close>, and for a signed one: that one
  consumes the bits first, and then reports failure when the sign bit came out set.
\<close>

definition fetch_uint_to :: "nat \<Rightarrow> nat \<Rightarrow> slice \<Rightarrow> (nat \<times> slice) option" where
  "fetch_uint_to w n cs = (if n > w \<or> \<not> have_bits n cs then None else Some (fetch_ulong n cs))"

definition fetch_uint_to_signed :: "nat \<Rightarrow> nat \<Rightarrow> slice \<Rightarrow> bool \<times> int \<times> slice" where
  "fetch_uint_to_signed w n cs =
     (if n > w \<or> \<not> have_bits n cs then (False, 0, cs)
      else case fetch_ulong n cs of (v, cs') \<Rightarrow>
        let r = (if v \<ge> 2 ^ (w - 1) then int v - 2 ^ w else int v) in (r \<ge> 0, r, cs'))"

definition fetch_int_to :: "nat \<Rightarrow> nat \<Rightarrow> slice \<Rightarrow> (int \<times> slice) option" where
  "fetch_int_to w n cs = (if n > w \<or> \<not> have_bits n cs then None else Some (fetch_long n cs))"

text \<open>
  Numbers below (or up to) a bound, in as few bits as the bound needs. The bits are consumed also
  when the number turns out too large. \<open>mx\<close> is 31 for an \<open>int\<close> target and 32 for an unsigned one;
  \<open>upper_bound - 1\<close> wraps around at 0.
\<close>

definition fetch_uint_less :: "nat \<Rightarrow> nat \<Rightarrow> slice \<Rightarrow> bool \<times> nat \<times> slice" where
  "fetch_uint_less mx upper_bound cs =
     (let n = (if upper_bound = 0 then 32 else nat_bits (upper_bound - 1))
      in if upper_bound = 0 \<or> n > mx \<or> \<not> have_bits n cs then (False, 0, cs)
         else case fetch_ulong n cs of (v, cs') \<Rightarrow> (v < upper_bound, v, cs'))"

definition fetch_uint_leq :: "nat \<Rightarrow> nat \<Rightarrow> slice \<Rightarrow> bool \<times> nat \<times> slice" where
  "fetch_uint_leq mx upper_bound cs =
     (let n = nat_bits upper_bound
      in if n > mx \<or> \<not> have_bits n cs then (False, 0, cs)
         else case fetch_ulong n cs of (v, cs') \<Rightarrow> (v \<le> upper_bound, v, cs'))"

text \<open>\<open>bselect\<close>: which of the set bits of \<open>mask\<close> is the last one at or below the number read.\<close>

definition count_bits_upto :: "nat \<Rightarrow> nat \<Rightarrow> int" where
  "count_bits_upto msk n = int (length (filter (\<lambda>i. bit msk i) [0..<Suc n])) - 1"

definition bselect :: "nat \<Rightarrow> nat \<Rightarrow> slice \<Rightarrow> int" where
  "bselect n msk cs = (if n > 6 \<or> \<not> have_bits n cs then - 1 else count_bits_upto msk (prefetch_ulong n cs))"

definition bselect_ext :: "nat \<Rightarrow> nat \<Rightarrow> slice \<Rightarrow> int" where
  "bselect_ext n msk cs =
     (if n > 6 then - 1
      else count_bits_upto msk
        (if have_bits n cs then prefetch_ulong n cs else prefetch_ulong (sl_size cs) cs * 2 ^ (n - sl_size cs)))"

text \<open>The integers of the machine; a null reference when there are too few bits.\<close>

definition read_int :: "nat \<Rightarrow> bool \<Rightarrow> bits \<Rightarrow> int" where
  "read_int n sgnd bs = (if sgnd then bits_int (take n bs) else int (bits_nat (take n bs)))"

definition prefetch_int256 :: "nat \<Rightarrow> bool \<Rightarrow> slice \<Rightarrow> int option" where
  "prefetch_int256 n sgnd cs = (if \<not> have_bits n cs then None else Some (read_int n sgnd (sl_bits cs)))"

definition fetch_int256 :: "nat \<Rightarrow> bool \<Rightarrow> slice \<Rightarrow> (int \<times> slice) option" where
  "fetch_int256 n sgnd cs = (if \<not> have_bits n cs then None else Some (read_int n sgnd (sl_bits cs), drop_bits n cs))"

text \<open>
  \<open>prefetch_int256_zeroext\<close> for an unsigned number of \<open>n\<close> bits, at most 256: missing bits
  are zeros. For 52 bits or more an empty slice makes \<open>import_bits\<close> shift a 64-bit word by 64,
  which is undefined (\<open>None\<close>).
\<close>

definition prefetch_uint256_zeroext :: "nat \<Rightarrow> slice \<Rightarrow> bigint option" where
  "prefetch_uint256_zeroext n cs =
     (if n > 256 then Some None
      else let ld_bits = min n (sl_size cs)
           in if n \<ge> 52 \<and> ld_bits = 0 then None
              else Some (Some (int (bits_nat (take ld_bits (sl_bits cs))) * 2 ^ (n - ld_bits))))"

section \<open>Parts of a slice\<close>

definition fetch_bits :: "nat \<Rightarrow> slice \<Rightarrow> (bits \<times> slice) option" where
  "fetch_bits n cs = (if \<not> have_bits n cs then None else Some (take n (sl_bits cs), drop_bits n cs))"

definition prefetch_bits :: "nat \<Rightarrow> slice \<Rightarrow> bits option" where
  "prefetch_bits n cs = (if \<not> have_bits n cs then None else Some (take n (sl_bits cs)))"

definition first_part :: "nat \<Rightarrow> nat \<Rightarrow> slice \<Rightarrow> slice" where
  "first_part n r cs = \<lparr>sl_bits = take n (sl_bits cs), sl_refs = take r (sl_refs cs)\<rparr>"

definition prefetch_subslice :: "nat \<Rightarrow> nat \<Rightarrow> slice \<Rightarrow> slice option" where
  "prefetch_subslice n r cs = (if \<not> have_both n r cs then None else Some (first_part n r cs))"

definition fetch_subslice :: "nat \<Rightarrow> nat \<Rightarrow> slice \<Rightarrow> (slice \<times> slice) option" where
  "fetch_subslice n r cs =
     (if \<not> have_both n r cs then None else Some (first_part n r cs, drop_refs r (drop_bits n cs)))"

definition fetch_subslice_ext :: "nat \<Rightarrow> slice \<Rightarrow> (slice \<times> slice) option" where
  "fetch_subslice_ext e cs = fetch_subslice (e mod 2 ^ 16) (e div 2 ^ 16) cs"

definition prefetch_subslice_ext :: "nat \<Rightarrow> slice \<Rightarrow> slice option" where
  "prefetch_subslice_ext e cs = prefetch_subslice (e mod 2 ^ 16) (e div 2 ^ 16) cs"

definition prefetch_bytes :: "nat \<Rightarrow> slice \<Rightarrow> bits option" where
  "prefetch_bytes n cs = (if \<not> have_bits (n * 8) cs then None else prefetch_bits (n * 8) cs)"

definition fetch_bytes :: "nat \<Rightarrow> slice \<Rightarrow> (bits \<times> slice) option" where
  "fetch_bytes n cs = (case prefetch_bytes n cs of None \<Rightarrow> None | Some b \<Rightarrow> Some (b, drop_bits (n * 8) cs))"

definition prefetch_ref :: "nat \<Rightarrow> slice \<Rightarrow> cell option" where
  "prefetch_ref i cs = (if i < sl_size_refs cs then Some (sl_refs cs ! i) else None)"

definition fetch_ref :: "slice \<Rightarrow> (cell \<times> slice) option" where
  "fetch_ref cs = (if have_refs 1 cs then Some (sl_refs cs ! 0, drop_refs 1 cs) else None)"

text \<open>A bit that says whether a reference follows; the outer option is the failure.\<close>

definition prefetch_maybe_ref :: "slice \<Rightarrow> cell option option" where
  "prefetch_maybe_ref cs =
     (let z = prefetch_ulong 1 cs
      in if z = 0 then Some None else if z = 1 then map_option Some (prefetch_ref 0 cs) else None)"

definition fetch_maybe_ref :: "slice \<Rightarrow> (cell option \<times> slice) option" where
  "fetch_maybe_ref cs =
     (let z = prefetch_ulong 1 cs
      in if z = 0 then map_option (\<lambda>cs'. (None, cs')) (advance 1 cs)
         else if z = 1 then
           (case prefetch_ref 0 cs of None \<Rightarrow> None
            | Some r \<Rightarrow> map_option (\<lambda>cs'. (Some r, cs')) (advance_ext 1 1 cs))
         else None)"

text \<open>\<open>get_depth\<close>: as a 16-bit number.\<close>

definition refs_depth :: "cell list \<Rightarrow> nat" where
  "refs_depth rs = fold max (map (\<lambda>r. get_depth r max_level + 1) rs) 0 mod 2 ^ 16"

definition sl_get_depth :: "slice \<Rightarrow> nat" where
  "sl_get_depth cs = refs_depth (sl_refs cs)"

text \<open>The first \<open>n\<close> bits, fewer than 64, are those of \<open>v\<close>.\<close>

definition begins_with :: "nat \<Rightarrow> nat \<Rightarrow> slice \<Rightarrow> bool" where
  "begins_with n v cs \<longleftrightarrow> have_bits n cs \<and> take_bit n (prefetch_ulong n cs) = take_bit n v"

definition begins_with_skip :: "nat \<Rightarrow> nat \<Rightarrow> slice \<Rightarrow> slice option" where
  "begins_with_skip n v cs = (if begins_with n v cs then advance n cs else None)"

definition only_first :: "nat \<Rightarrow> nat \<Rightarrow> slice \<Rightarrow> slice option" where
  "only_first n r cs = (if \<not> have_both n r cs then None else Some (first_part n r cs))"

definition skip_first :: "nat \<Rightarrow> nat \<Rightarrow> slice \<Rightarrow> slice option" where
  "skip_first n r cs = (if \<not> have_both n r cs then None else advance n (drop_refs r cs))"

definition only_ext :: "nat \<Rightarrow> slice \<Rightarrow> slice option" where
  "only_ext e cs = only_first (e mod 2 ^ 16) (e div 2 ^ 16) cs"

definition skip_ext :: "nat \<Rightarrow> slice \<Rightarrow> slice option" where
  "skip_ext e cs = skip_first (e mod 2 ^ 16) (e div 2 ^ 16) cs"

definition only_last :: "nat \<Rightarrow> nat \<Rightarrow> slice \<Rightarrow> slice option" where
  "only_last n r cs =
     (if \<not> have_both n r cs then None else advance (sl_size cs - n) (drop_refs (sl_size_refs cs - r) cs))"

definition skip_last :: "nat \<Rightarrow> nat \<Rightarrow> slice \<Rightarrow> slice option" where
  "skip_last n r cs =
     (if \<not> have_both n r cs then None else Some (first_part (sl_size cs - n) (sl_size_refs cs - r) cs))"

definition cut_tail :: "slice \<Rightarrow> slice \<Rightarrow> slice option" where
  "cut_tail tail_cs cs = skip_last (sl_size tail_cs) (sl_size_refs tail_cs) cs"

section \<open>Comparisons\<close>

definition lex_cmp :: "slice \<Rightarrow> slice \<Rightarrow> int" where
  "lex_cmp cs cs2 = bits_lexcmp (sl_bits cs) (sl_bits cs2)"

definition is_prefix_of :: "slice \<Rightarrow> slice \<Rightarrow> bool" where
  "is_prefix_of cs cs2 \<longleftrightarrow> sl_size cs \<le> sl_size cs2 \<and> bits_memcmp (sl_bits cs) (sl_bits cs2) (sl_size cs) = 0"

definition is_suffix_of :: "slice \<Rightarrow> slice \<Rightarrow> bool" where
  "is_suffix_of cs cs2 \<longleftrightarrow> sl_size cs \<le> sl_size cs2 \<and>
     bits_memcmp (sl_bits cs) (drop (sl_size cs2 - sl_size cs) (sl_bits cs2)) (sl_size cs) = 0"

definition has_prefix :: "slice \<Rightarrow> slice \<Rightarrow> bool" where
  "has_prefix cs cs2 \<longleftrightarrow> sl_size cs \<ge> sl_size cs2 \<and> bits_memcmp (sl_bits cs) (sl_bits cs2) (sl_size cs2) = 0"

definition has_suffix :: "slice \<Rightarrow> slice \<Rightarrow> bool" where
  "has_suffix cs cs2 \<longleftrightarrow> sl_size cs \<ge> sl_size cs2 \<and>
     bits_memcmp (drop (sl_size cs - sl_size cs2) (sl_bits cs)) (sl_bits cs2) (sl_size cs2) = 0"

definition is_proper_prefix_of :: "slice \<Rightarrow> slice \<Rightarrow> bool" where
  "is_proper_prefix_of cs cs2 \<longleftrightarrow> sl_size cs < sl_size cs2 \<and> bits_memcmp (sl_bits cs) (sl_bits cs2) (sl_size cs) = 0"

definition is_proper_suffix_of :: "slice \<Rightarrow> slice \<Rightarrow> bool" where
  "is_proper_suffix_of cs cs2 \<longleftrightarrow> sl_size cs < sl_size cs2 \<and>
     bits_memcmp (sl_bits cs) (drop (sl_size cs2 - sl_size cs) (sl_bits cs2)) (sl_size cs) = 0"

fun same_upto :: "bits \<Rightarrow> bits \<Rightarrow> nat" where
  "same_upto (a # as) (b # bs) = (if a = b then Suc (same_upto as bs) else 0)"
| "same_upto _ _ = 0"

definition common_prefix_len :: "slice \<Rightarrow> slice \<Rightarrow> nat" where
  "common_prefix_len cs cs2 = same_upto (sl_bits cs) (sl_bits cs2)"

definition contents_equal :: "(bits \<Rightarrow> bits) \<Rightarrow> slice \<Rightarrow> slice \<Rightarrow> bool" where
  "contents_equal sha cs cs2 \<longleftrightarrow> sl_size cs = sl_size cs2 \<and> sl_size_refs cs = sl_size_refs cs2 \<and>
     bits_memcmp (sl_bits cs) (sl_bits cs2) (sl_size cs) = 0 \<and>
     map (\<lambda>r. get_hash sha r max_level) (sl_refs cs) = map (\<lambda>r. get_hash sha r max_level) (sl_refs cs2)"

definition count_leading :: "bool \<Rightarrow> slice \<Rightarrow> nat" where
  "count_leading b cs = bits_memscan (sl_bits cs) b"

definition count_trailing :: "bool \<Rightarrow> slice \<Rightarrow> nat" where
  "count_trailing b cs = bits_memscan_rev (sl_bits cs) b"

text \<open>\<open>remove_trailing\<close> takes off the completion tag: the last one and the zeros after it.\<close>

definition remove_trailing :: "slice \<Rightarrow> slice" where
  "remove_trailing cs =
     (if sl_size cs = 0 then cs
      else let trailing = bits_memscan_rev (sl_bits cs) False
           in first_part (if trailing = sl_size cs then 0 else sl_size cs - (trailing + 1)) (sl_size_refs cs) cs)"

section \<open>Well-formed slices\<close>

definition slice_ok :: "slice \<Rightarrow> bool" where
  "slice_ok cs \<longleftrightarrow> length (sl_bits cs) \<le> max_bits \<and> length (sl_refs cs) \<le> max_refs \<and> (\<forall>r \<in> set (sl_refs cs). cell_ok r)"

named_theorems slice_defs \<open>the operations on slices\<close>

lemmas [slice_defs] = sl_size_def sl_size_refs_def have_bits_def have_refs_def have_both_def drop_bits_def drop_refs_def
  advance_def advance_refs_def advance_ext_def first_part_def prefetch_subslice_def fetch_subslice_def fetch_ref_def
  prefetch_ref_def only_first_def skip_first_def only_last_def skip_last_def

lemma slice_ok_empty [simp]: "slice_ok empty_slice"
  by (simp add: slice_ok_def empty_slice_def)

lemma slice_ok_cell [simp]: "cell_ok c \<Longrightarrow> slice_ok (cell_slice c)"
  by (cases c) (simp add: slice_ok_def cell_slice_def cell_shape_def)

lemma slice_ok_parts [simp]:
  "slice_ok cs \<Longrightarrow> slice_ok (drop_bits n cs)" "slice_ok cs \<Longrightarrow> slice_ok (drop_refs r cs)"
  "slice_ok cs \<Longrightarrow> slice_ok (first_part n r cs)"
  by (auto simp: slice_ok_def slice_defs dest: in_set_takeD in_set_dropD)

lemma slice_ok_ops:
  assumes "slice_ok cs"
  shows "advance n cs = Some cs' \<Longrightarrow> slice_ok cs'" "advance_refs n cs = Some cs' \<Longrightarrow> slice_ok cs'"
    "advance_ext n r cs = Some cs' \<Longrightarrow> slice_ok cs'" "prefetch_subslice n r cs = Some cs' \<Longrightarrow> slice_ok cs'"
    "fetch_subslice n r cs = Some (cs1, cs2) \<Longrightarrow> slice_ok cs1 \<and> slice_ok cs2"
    "only_first n r cs = Some cs' \<Longrightarrow> slice_ok cs'" "skip_first n r cs = Some cs' \<Longrightarrow> slice_ok cs'"
    "only_last n r cs = Some cs' \<Longrightarrow> slice_ok cs'" "skip_last n r cs = Some cs' \<Longrightarrow> slice_ok cs'"
  using assms
  by (auto simp: advance_def advance_refs_def advance_ext_def prefetch_subslice_def fetch_subslice_def only_first_def
      skip_first_def only_last_def skip_last_def split: if_splits)

lemma slice_ok_ref: "slice_ok cs \<Longrightarrow> prefetch_ref i cs = Some c \<Longrightarrow> cell_ok c"
  "slice_ok cs \<Longrightarrow> fetch_ref cs = Some (c, cs') \<Longrightarrow> cell_ok c \<and> slice_ok cs'"
  by (auto simp: slice_defs slice_ok_def Suc_le_eq nth_mem split: if_splits dest!: in_set_dropD)

lemma slice_ok_remove_trailing [simp]: "slice_ok cs \<Longrightarrow> slice_ok (remove_trailing cs)"
  by (simp add: remove_trailing_def Let_def)

section \<open>What the operations do\<close>

text \<open>A slice is what its first part and the rest hold, and likewise for the last part.\<close>

lemma split_first:
  assumes "only_first n r cs = Some a" "skip_first n r cs = Some b"
  shows "sl_bits a @ sl_bits b = sl_bits cs \<and> sl_refs a @ sl_refs b = sl_refs cs \<and>
    length (sl_bits a) = n \<and> length (sl_refs a) = r"
  using assms by (auto simp: slice_defs split: if_splits)

lemma split_last:
  assumes "skip_last n r cs = Some a" "only_last n r cs = Some b"
  shows "sl_bits a @ sl_bits b = sl_bits cs \<and> sl_refs a @ sl_refs b = sl_refs cs \<and>
    length (sl_bits b) = n \<and> length (sl_refs b) = r"
  using assms by (auto simp: slice_defs split: if_splits)

lemma split_defined:
  "only_first n r cs \<noteq> None \<longleftrightarrow> have_both n r cs" "skip_first n r cs \<noteq> None \<longleftrightarrow> have_both n r cs"
  "only_last n r cs \<noteq> None \<longleftrightarrow> have_both n r cs" "skip_last n r cs \<noteq> None \<longleftrightarrow> have_both n r cs"
  by (auto simp: slice_defs)

lemma fetch_subslice_split:
  "fetch_subslice n r cs = (case only_first n r cs of None \<Rightarrow> None | Some a \<Rightarrow> map_option (Pair a) (skip_first n r cs))"
  by (auto simp: slice_defs)

text \<open>The comparisons are those of bit strings.\<close>

lemma lex_cmp_lexord:
  "lex_cmp cs cs2 = (if sl_bits cs = sl_bits cs2 then 0 else if (sl_bits cs, sl_bits cs2) \<in> lexord {(False, True)} then - 1 else 1)"
  by (simp add: lex_cmp_def bits_lexcmp_lexord)

lemma take_prefix: "prefix xs ys \<longleftrightarrow> length xs \<le> length ys \<and> xs = take (length xs) ys"
  by (metis append_eq_conv_conj append_take_drop_id prefix_def prefix_length_le)

lemma drop_suffix: "suffix xs ys \<longleftrightarrow> length xs \<le> length ys \<and> xs = drop (length ys - length xs) ys"
  by (metis suffix_drop suffix_length_le suffix_take append_eq_conv_conj append_take_drop_id)

lemma prefix_full: "length xs \<le> length ys \<Longrightarrow> xs = take (length xs) ys \<Longrightarrow> xs \<noteq> ys \<Longrightarrow> length xs < length ys"
  by (cases "length xs = length ys") auto

lemma suffix_full: "length xs \<le> length ys \<Longrightarrow> xs = drop (length ys - length xs) ys \<Longrightarrow> xs \<noteq> ys \<Longrightarrow> length xs < length ys"
  by (cases "length xs = length ys") auto

lemma is_prefix_of_prefix:
  "is_prefix_of cs cs2 \<longleftrightarrow> prefix (sl_bits cs) (sl_bits cs2)"
  "has_prefix cs cs2 \<longleftrightarrow> prefix (sl_bits cs2) (sl_bits cs)"
  "is_proper_prefix_of cs cs2 \<longleftrightarrow> strict_prefix (sl_bits cs) (sl_bits cs2)"
  using bits_memcmp_0 [of "length (sl_bits cs)" "sl_bits cs" "sl_bits cs2"]
    bits_memcmp_0 [of "length (sl_bits cs2)" "sl_bits cs" "sl_bits cs2"]
  by (auto simp: is_prefix_of_def has_prefix_def is_proper_prefix_of_def sl_size_def take_prefix strict_prefix_def intro: prefix_full)

lemma is_suffix_of_suffix:
  "is_suffix_of cs cs2 \<longleftrightarrow> suffix (sl_bits cs) (sl_bits cs2)"
  "has_suffix cs cs2 \<longleftrightarrow> suffix (sl_bits cs2) (sl_bits cs)"
  "is_proper_suffix_of cs cs2 \<longleftrightarrow> strict_suffix (sl_bits cs) (sl_bits cs2)"
  using bits_memcmp_0 [of "length (sl_bits cs)" "sl_bits cs" "drop (length (sl_bits cs2) - length (sl_bits cs)) (sl_bits cs2)"]
    bits_memcmp_0 [of "length (sl_bits cs2)" "drop (length (sl_bits cs) - length (sl_bits cs2)) (sl_bits cs)" "sl_bits cs2"]
  by (auto simp: is_suffix_of_def has_suffix_def is_proper_suffix_of_def sl_size_def drop_suffix strict_suffix_def intro: suffix_full)

text \<open>The completion tag that \<open>remove_trailing\<close> takes off.\<close>

lemma remove_trailing_tag:
  assumes "sl_bits cs = bs @ True # replicate k False"
  shows "remove_trailing cs = cs\<lparr>sl_bits := bs\<rparr>"
proof -
  have "takeWhile Not (replicate k False @ True # rev bs) = replicate k False"
    by (subst takeWhile_append2) simp_all
  then have "bits_memscan_rev (sl_bits cs) False = k"
    by (simp add: assms bits_memscan_rev_def bits_memscan_def)
  then show ?thesis using assms by (cases cs) (auto simp: remove_trailing_def Let_def slice_defs)
qed

lemma remove_trailing_zeros:
  assumes "\<forall>b \<in> set (sl_bits cs). \<not> b"
  shows "remove_trailing cs = cs\<lparr>sl_bits := []\<rparr>"
proof -
  have "takeWhile Not (rev (sl_bits cs)) = rev (sl_bits cs)" by (rule takeWhile_eq_all_conv [THEN iffD2]) (use assms in simp)
  then have t: "length (takeWhile Not (rev (sl_bits cs))) = length (sl_bits cs)" by (metis length_rev)
  then have "bits_memscan_rev (sl_bits cs) False = sl_size cs"
    by (simp add: bits_memscan_rev_def bits_memscan_def sl_size_def)
  then show ?thesis by (cases cs) (auto simp: remove_trailing_def Let_def slice_defs)
qed

text \<open>
  \<open>advance_ext\<close> of a size in the encoding of \<open>size_ext\<close> does not skip that size: with at
  least one reference and five bits it always fails.
\<close>

lemma advance_ext_packed_fails:
  assumes "slice_ok cs" "n < 2 ^ 16" "4 < n"
  shows "advance_ext_packed (n + r * 2 ^ 16) cs = None"
  using assms by (auto simp: advance_ext_packed_def advance_ext_def have_refs_def sl_size_refs_def slice_ok_def max_refs_def)

end
