(* ===== verification/CellBuilders.thy ===== *)
theory CellBuilders
  imports CellSlices
begin

text \<open>
  Cell builders (\<open>CellBuilder.h\<close>, \<open>CellBuilder.cpp\<close>): a cell in the making. The buffer of 128
  bytes with its bit count is the list of the bits stored. An operation that fails, by
  returning false or by throwing \<open>CellCreateError\<close>, is \<open>None\<close>. The versions that take part in a
  virtual machine (\<open>finalize\<close>, \<open>finalize_copy\<close>) charge gas before they create the cell; the
  machine's side is in the theory of the cell instructions.
\<close>

record builder =
  bl_bits :: bits
  bl_refs :: "cell list"

definition new_builder :: builder where
  "new_builder = \<lparr>bl_bits = [], bl_refs = []\<rparr>"

definition bl_size :: "builder \<Rightarrow> nat" where "bl_size b = length (bl_bits b)"

definition bl_size_refs :: "builder \<Rightarrow> nat" where "bl_size_refs b = length (bl_refs b)"

definition remaining_bits :: "builder \<Rightarrow> nat" where "remaining_bits b = max_bits - bl_size b"

definition remaining_refs :: "builder \<Rightarrow> nat" where "remaining_refs b = max_refs - bl_size_refs b"

definition can_extend_by :: "nat \<Rightarrow> nat \<Rightarrow> builder \<Rightarrow> bool" where
  "can_extend_by new_bits new_refs b \<longleftrightarrow> new_bits \<le> max_bits - bl_size b \<and> new_refs \<le> max_refs - bl_size_refs b"

definition can_extend_by_bits :: "nat \<Rightarrow> builder \<Rightarrow> bool" where
  "can_extend_by_bits new_bits b \<longleftrightarrow> new_bits \<le> max_bits - bl_size b"

section \<open>Storing\<close>

definition store_bits :: "bits \<Rightarrow> builder \<Rightarrow> builder option" where
  "store_bits bs b = (if can_extend_by_bits (length bs) b then Some (b\<lparr>bl_bits := bl_bits b @ bs\<rparr>) else None)"

definition store_bytes :: "bits \<Rightarrow> builder \<Rightarrow> builder option" where
  "store_bytes bs b = (if length bs \<le> 128 * 8 then store_bits bs b else None)"

text \<open>\<open>store_bits_same\<close> leaves the builder alone when there is no room.\<close>

definition store_bits_same_bool :: "nat \<Rightarrow> bool \<Rightarrow> builder \<Rightarrow> builder option" where
  "store_bits_same_bool n v b = store_bits (replicate n v) b"

definition store_bits_same :: "nat \<Rightarrow> bool \<Rightarrow> builder \<Rightarrow> builder" where
  "store_bits_same n v b = (case store_bits_same_bool n v b of None \<Rightarrow> b | Some b' \<Rightarrow> b')"

text \<open>\<open>store_long\<close> of the \<open>n\<close> low bits, from 1 to 64 of them.\<close>

definition store_long :: "int \<Rightarrow> nat \<Rightarrow> builder \<Rightarrow> builder option" where
  "store_long v n b = store_bits (int_bl n v) b"

definition store_long_bool :: "int \<Rightarrow> nat \<Rightarrow> builder \<Rightarrow> builder option" where
  "store_long_bool v n b = (if n > 64 \<or> \<not> can_extend_by_bits n b then None else store_long v n b)"

definition store_bool_bool :: "bool \<Rightarrow> builder \<Rightarrow> builder option" where
  "store_bool_bool v b = (if can_extend_by_bits 1 b then store_long (if v then 1 else 0) 1 b else None)"

definition store_long_rchk_bool :: "int \<Rightarrow> nat \<Rightarrow> builder \<Rightarrow> builder option" where
  "store_long_rchk_bool v n b =
     (if n > 64 \<or> \<not> can_extend_by_bits n b then None
      else if n < 64 \<and> (v < - (2 ^ (n - 1)) \<or> v \<ge> 2 ^ (n - 1)) then None
      else store_long v n b)"

definition store_ulong_rchk_bool :: "nat \<Rightarrow> nat \<Rightarrow> builder \<Rightarrow> builder option" where
  "store_ulong_rchk_bool v n b =
     (if n > 64 \<or> \<not> can_extend_by_bits n b then None
      else if n < 64 \<and> v \<ge> 2 ^ n then None
      else store_long (int v) n b)"

definition store_uint_less :: "nat \<Rightarrow> nat \<Rightarrow> builder \<Rightarrow> builder option" where
  "store_uint_less upper_bound v b =
     (if v < upper_bound then store_long_bool (int v) (nat_bits (upper_bound - 1)) b else None)"

definition store_uint_leq :: "nat \<Rightarrow> nat \<Rightarrow> builder \<Rightarrow> builder option" where
  "store_uint_leq upper_bound v b =
     (if v \<le> upper_bound then store_long_bool (int v) (nat_bits upper_bound) b else None)"

definition fits_bits :: "bigint \<Rightarrow> nat \<Rightarrow> bool \<Rightarrow> bool" where
  "fits_bits x n sgnd = (if sgnd then signed_fits_bits x n else unsigned_fits_bits x n)"

definition store_int256_bool :: "bigint \<Rightarrow> nat \<Rightarrow> bool \<Rightarrow> builder \<Rightarrow> builder option" where
  "store_int256_bool x n sgnd b =
     (if \<not> can_extend_by_bits n b then None
      else case x of None \<Rightarrow> None
           | Some v \<Rightarrow> if fits_bits x n sgnd then Some (b\<lparr>bl_bits := bl_bits b @ int_bl n v\<rparr>) else None)"

definition store_ref_bool :: "cell \<Rightarrow> builder \<Rightarrow> builder option" where
  "store_ref_bool c b = (if bl_size_refs b < max_refs then Some (b\<lparr>bl_refs := bl_refs b @ [c]\<rparr>) else None)"

definition bl_get_depth :: "builder \<Rightarrow> nat" where
  "bl_get_depth b = refs_depth (bl_refs b)"

text \<open>Appending bits and references together.\<close>

definition append_all :: "bits \<Rightarrow> cell list \<Rightarrow> builder \<Rightarrow> builder option" where
  "append_all bs rs b =
     (if can_extend_by (length bs) (length rs) b
      then Some \<lparr>bl_bits = bl_bits b @ bs, bl_refs = bl_refs b @ rs\<rparr> else None)"

definition append_data_cell_bool :: "cell \<Rightarrow> builder \<Rightarrow> builder option" where
  "append_data_cell_bool c b = append_all (cell_bits c) (cell_refs c) b"

definition append_builder_bool :: "builder \<Rightarrow> builder \<Rightarrow> builder option" where
  "append_builder_bool cb b = append_all (bl_bits cb) (bl_refs cb) b"

definition append_cellslice_bool :: "slice \<Rightarrow> builder \<Rightarrow> builder option" where
  "append_cellslice_bool cs b = append_all (sl_bits cs) (sl_refs cs) b"

definition append_cellslice_chk :: "slice \<Rightarrow> nat \<Rightarrow> builder \<Rightarrow> builder option" where
  "append_cellslice_chk cs e b = (if size_ext cs = e then append_cellslice_bool cs b else None)"

text \<open>\<open>cell_builder_add_slice_bool\<close> stores the references one by one, then the bits.\<close>

fun store_refs :: "cell list \<Rightarrow> builder \<Rightarrow> builder option" where
  "store_refs [] b = Some b"
| "store_refs (c # cs) b = (case store_ref_bool c b of None \<Rightarrow> None | Some b' \<Rightarrow> store_refs cs b')"

definition cell_builder_add_slice_bool :: "slice \<Rightarrow> builder \<Rightarrow> builder option" where
  "cell_builder_add_slice_bool cs b =
     (if \<not> can_extend_by (sl_size cs) (sl_size_refs cs) b then None
      else case store_refs (sl_refs cs) b of None \<Rightarrow> None | Some b' \<Rightarrow> store_bits (sl_bits cs) b')"

definition append_bitstring :: "bits \<Rightarrow> builder \<Rightarrow> builder option" where
  "append_bitstring bs b = store_bits bs b"

definition append_bitstring_chk :: "bits \<Rightarrow> nat \<Rightarrow> builder \<Rightarrow> builder option" where
  "append_bitstring_chk bs n b = (if length bs = n then store_bits bs b else None)"

definition store_maybe_ref :: "cell option \<Rightarrow> builder \<Rightarrow> builder option" where
  "store_maybe_ref c b =
     (case c of None \<Rightarrow> store_long_bool 0 1 b
      | Some r \<Rightarrow> (case store_long_bool 1 1 b of None \<Rightarrow> None | Some b' \<Rightarrow> store_ref_bool r b'))"

section \<open>The finished cell\<close>

text \<open>\<open>finalize_novm\<close>: creation fails with \<open>CellWriteError\<close>; the builder is empty afterwards.\<close>

definition finalize_novm :: "(bits \<Rightarrow> bits) \<Rightarrow> bool \<Rightarrow> builder \<Rightarrow> cell option" where
  "finalize_novm sha special b =
     (case data_cell_create sha (bl_bits b) (bl_refs b) special of Inl e \<Rightarrow> None | Inr c \<Rightarrow> Some c)"

text \<open>The serialisation: descriptor bytes (without level and special flag) and completed data.\<close>

definition bl_flush :: "builder \<Rightarrow> bits" where
  "bl_flush b = nat_bl 8 (bl_size_refs b) @ nat_bl 8 (2 * (bl_size b div 8) + (if bl_size b mod 8 \<noteq> 0 then 1 else 0))"

definition get_serialized_size :: "builder \<Rightarrow> nat" where
  "get_serialized_size b = (bl_size b + 23) div 8"

definition bl_serialize :: "builder \<Rightarrow> nat \<Rightarrow> bits" where
  "bl_serialize b buff_size =
     (if get_serialized_size b > buff_size then [] else bl_flush b @ padded_data (bl_bits b))"

definition bl_contents_equal :: "(bits \<Rightarrow> bits) \<Rightarrow> builder \<Rightarrow> slice \<Rightarrow> bool" where
  "bl_contents_equal sha b cs \<longleftrightarrow> bl_size b = sl_size cs \<and> bl_size_refs b = sl_size_refs cs \<and>
     bits_memcmp (bl_bits b) (sl_bits cs) (bl_size b) = 0 \<and>
     map (\<lambda>r. get_hash sha r max_level) (bl_refs b) = map (\<lambda>r. get_hash sha r max_level) (sl_refs cs)"

section \<open>Pruned branches and Merkle cells\<close>

fun store_list :: "(builder \<Rightarrow> builder option) list \<Rightarrow> builder \<Rightarrow> builder option" where
  "store_list [] b = Some b"
| "store_list (f # fs) b = (case f b of None \<Rightarrow> None | Some b' \<Rightarrow> store_list fs b')"

text \<open>
  A pruned branch stands for a cell: it holds the hashes and depths of its significant levels up
  to \<open>virt_level\<close>.
\<close>

definition do_create_pruned_branch :: "(bits \<Rightarrow> bits) \<Rightarrow> cell \<Rightarrow> nat \<Rightarrow> nat \<Rightarrow> cell option" where
  "do_create_pruned_branch sha c new_level virt_level =
     (let m = lm_apply (get_level_mask c) virt_level; level = lm_level m
      in if new_level < level + 1 then None
         else case store_list
                ([store_long 1 8, store_long (int (lm_apply_or m (lm_one_level new_level))) 8]
                 @ map (\<lambda>i. store_bytes (get_hash sha c i)) (lm_levels m)
                 @ map (\<lambda>i. store_long (int (get_depth c i)) 16) (lm_levels m)) new_builder of
                None \<Rightarrow> None
              | Some b \<Rightarrow> finalize_novm sha True b)"

text \<open>A small cell without references is kept as it is.\<close>

definition create_pruned_branch :: "(bits \<Rightarrow> bits) \<Rightarrow> cell \<Rightarrow> nat \<Rightarrow> nat \<Rightarrow> cell option" where
  "create_pruned_branch sha c new_level virt_level =
     (if get_level c \<le> virt_level \<and> cell_refs c = [] then Some c
      else do_create_pruned_branch sha c new_level virt_level)"

definition create_merkle_proof :: "(bits \<Rightarrow> bits) \<Rightarrow> cell \<Rightarrow> cell option" where
  "create_merkle_proof sha c =
     (case store_list [store_long 3 8, store_bytes (get_hash sha c 0), store_long (int (get_depth c 0)) 16, store_ref_bool c]
        new_builder of None \<Rightarrow> None | Some b \<Rightarrow> finalize_novm sha True b)"

definition create_merkle_update :: "(bits \<Rightarrow> bits) \<Rightarrow> cell \<Rightarrow> cell \<Rightarrow> cell option" where
  "create_merkle_update sha c1 c2 =
     (case store_list [store_long 4 8, store_bytes (get_hash sha c1 0), store_bytes (get_hash sha c2 0),
          store_long (int (get_depth c1 0)) 16, store_long (int (get_depth c2 0)) 16, store_ref_bool c1, store_ref_bool c2]
        new_builder of None \<Rightarrow> None | Some b \<Rightarrow> finalize_novm sha True b)"

section \<open>Well-formed builders\<close>

definition builder_ok :: "builder \<Rightarrow> bool" where
  "builder_ok b \<longleftrightarrow> length (bl_bits b) \<le> max_bits \<and> length (bl_refs b) \<le> max_refs \<and> (\<forall>r \<in> set (bl_refs b). cell_ok r)"

named_theorems builder_defs \<open>the operations on builders\<close>

lemmas [builder_defs] = bl_size_def bl_size_refs_def can_extend_by_def can_extend_by_bits_def store_bits_def store_bytes_def
  store_bits_same_bool_def store_long_def store_long_bool_def store_bool_bool_def store_ref_bool_def append_all_def

lemma builder_ok_new [simp]: "builder_ok new_builder"
  by (simp add: builder_ok_def new_builder_def)

text \<open>No operation makes a builder exceed 1023 bits or four references.\<close>

lemma builder_ok_store:
  assumes "builder_ok b"
  shows "store_bits bs b = Some b' \<Longrightarrow> builder_ok b'" "store_bytes bs b = Some b' \<Longrightarrow> builder_ok b'"
    "store_long v n b = Some b' \<Longrightarrow> builder_ok b'" "store_long_bool v n b = Some b' \<Longrightarrow> builder_ok b'"
    "store_int256_bool x n sgnd b = Some b' \<Longrightarrow> builder_ok b'"
    "store_ref_bool c b = Some b' \<Longrightarrow> cell_ok c \<Longrightarrow> builder_ok b'"
    "append_all bs rs b = Some b' \<Longrightarrow> \<forall>r \<in> set rs. cell_ok r \<Longrightarrow> builder_ok b'"
proof -
  have bits: "builder_ok (b\<lparr>bl_bits := bl_bits b @ cs\<rparr>)" if "can_extend_by_bits (length cs) b" for cs
    using assms that by (auto simp: builder_ok_def can_extend_by_bits_def bl_size_def)
  show "store_bits bs b = Some b' \<Longrightarrow> builder_ok b'" "store_bytes bs b = Some b' \<Longrightarrow> builder_ok b'"
    "store_long v n b = Some b' \<Longrightarrow> builder_ok b'" "store_long_bool v n b = Some b' \<Longrightarrow> builder_ok b'"
    "store_int256_bool x n sgnd b = Some b' \<Longrightarrow> builder_ok b'"
    unfolding store_bits_def store_bytes_def store_long_def store_long_bool_def store_int256_bool_def
    by (auto split: if_splits option.splits intro!: bits)
  show "store_ref_bool c b = Some b' \<Longrightarrow> cell_ok c \<Longrightarrow> builder_ok b'"
    using assms by (auto simp: store_ref_bool_def builder_ok_def bl_size_refs_def split: if_splits)
  show "append_all bs rs b = Some b' \<Longrightarrow> \<forall>r \<in> set rs. cell_ok r \<Longrightarrow> builder_ok b'"
    using assms by (auto simp: append_all_def can_extend_by_def builder_ok_def bl_size_def bl_size_refs_def split: if_splits)
qed

lemma builder_ok_append:
  assumes "builder_ok b"
  shows "append_data_cell_bool c b = Some b' \<Longrightarrow> cell_ok c \<Longrightarrow> builder_ok b'"
    "append_builder_bool cb b = Some b' \<Longrightarrow> builder_ok cb \<Longrightarrow> builder_ok b'"
    "append_cellslice_bool cs b = Some b' \<Longrightarrow> slice_ok cs \<Longrightarrow> builder_ok b'"
  unfolding append_data_cell_bool_def append_builder_bool_def append_cellslice_bool_def
  by (erule builder_ok_store(7) [OF assms], simp add: builder_ok_def slice_ok_def cell_ok_refs)+

lemma builder_ok_store_refs:
  "store_refs rs b = Some b' \<Longrightarrow> builder_ok b \<Longrightarrow> \<forall>r \<in> set rs. cell_ok r \<Longrightarrow> builder_ok b'"
  by (induction rs arbitrary: b) (auto split: option.splits dest: builder_ok_store(6))

lemma builder_ok_add_slice:
  "cell_builder_add_slice_bool cs b = Some b' \<Longrightarrow> builder_ok b \<Longrightarrow> slice_ok cs \<Longrightarrow> builder_ok b'"
  unfolding cell_builder_add_slice_bool_def
  by (auto simp: slice_ok_def split: if_splits option.splits dest: builder_ok_store_refs builder_ok_store(1))

text \<open>The two ways to add a slice agree, and so succeed together.\<close>

lemma store_refs_append:
  "length (bl_refs b) + length rs \<le> max_refs \<Longrightarrow> store_refs rs b = Some (b\<lparr>bl_refs := bl_refs b @ rs\<rparr>)"
  by (induction rs arbitrary: b) (simp_all add: builder_defs)

lemma add_slice_append:
  "length (bl_refs b) \<le> max_refs \<Longrightarrow> cell_builder_add_slice_bool cs b = append_cellslice_bool cs b"
proof -
  assume "length (bl_refs b) \<le> max_refs"
  then have "store_refs (sl_refs cs) b = Some (b\<lparr>bl_refs := bl_refs b @ sl_refs cs\<rparr>)"
    if "can_extend_by (sl_size cs) (sl_size_refs cs) b"
    by (intro store_refs_append) (use that in \<open>simp add: builder_defs slice_defs; arith\<close>)
  then show ?thesis
    by (cases b) (auto simp: cell_builder_add_slice_bool_def append_cellslice_bool_def builder_defs slice_defs split: option.split)
qed

lemma finalize_novm_ok: "finalize_novm sha sp b = Some c \<Longrightarrow> builder_ok b \<Longrightarrow> cell_ok c"
  unfolding finalize_novm_def builder_ok_def by (auto split: sum.splits dest: data_cell_create_ok)

lemma finalize_novm_Some:
  "finalize_novm sha sp b = Some c \<Longrightarrow> c = Cell sp (bl_bits b) (bl_refs b) \<and> cell_shape sp (bl_bits b) (bl_refs b)"
  unfolding finalize_novm_def by (auto split: sum.splits dest: data_cell_create_Inr)

section \<open>What is stored can be read back\<close>

text \<open>Numbers, after a builder with contents \<open>b\<close>: the slice of the bits added gives the number.\<close>

lemma store_int256_fetch:
  assumes "store_int256_bool (Some x) n sgnd b = Some b'" "sl_bits cs = drop (bl_size b) (bl_bits b') @ rest"
  shows "fetch_int256 n sgnd cs = Some (x, cs\<lparr>sl_bits := rest\<rparr>)"
proof -
  have f: "fits_bits (Some x) n sgnd" and b': "bl_bits b' = bl_bits b @ int_bl n x"
    using assms(1) by (auto simp: store_int256_bool_def split: if_splits)
  have "sl_bits cs = int_bl n x @ rest" using assms(2) b' by (simp add: bl_size_def)
  then show ?thesis
    using f sint_bl_roundtrip [of x n] uint_bl_roundtrip [of x n]
    by (auto simp: fetch_int256_def read_int_def fits_bits_def slice_defs)
qed

lemma store_maybe_ref_fetch:
  assumes "store_maybe_ref c b = Some b'" "sl_bits cs = drop (bl_size b) (bl_bits b') @ rest"
    "sl_refs cs = drop (bl_size_refs b) (bl_refs b') @ rest_refs"
  shows "fetch_maybe_ref cs = Some (c, \<lparr>sl_bits = rest, sl_refs = rest_refs\<rparr>)"
proof -
  have bl1: "int_bl 1 0 = [False]" "int_bl 1 1 = [True]" by (simp_all add: int_bl_def One_nat_def)
  show ?thesis
  proof (cases c)
    case None
    then have "sl_bits cs = False # rest" "sl_refs cs = rest_refs"
      using assms bl1 by (auto simp: store_maybe_ref_def builder_defs split: if_splits)
    then show ?thesis using None by (cases cs) (simp add: fetch_maybe_ref_def prefetch_ulong_def slice_defs bits_nat_Cons)
  next
    case (Some r)
    then have "sl_bits cs = True # rest" "sl_refs cs = r # rest_refs"
      using assms bl1 by (auto simp: store_maybe_ref_def builder_defs split: if_splits option.splits)
    then show ?thesis using Some by (cases cs) (simp add: fetch_maybe_ref_def prefetch_ulong_def slice_defs bits_nat_Cons)
  qed
qed

lemma nat_bits_bound: "n < 2 ^ nat_bits n"
proof (induction n rule: nat_bits.induct)
  case (1 n)
  then show ?case by (subst nat_bits.simps) (auto simp: nat_bits.simps [of 0])
qed

lemma store_uint_leq_fetch:
  assumes "store_uint_leq ub v b = Some b'" "sl_bits cs = drop (bl_size b) (bl_bits b') @ rest" "nat_bits ub \<le> mx"
  shows "fetch_uint_leq mx ub cs = (True, v, cs\<lparr>sl_bits := rest\<rparr>)"
proof -
  let ?n = "nat_bits ub"
  have v: "v \<le> ub" and n: "?n \<le> 64" and b': "bl_bits b' = bl_bits b @ int_bl ?n (int v)"
    using assms(1) by (auto simp: store_uint_leq_def builder_defs split: if_splits)
  have "int v < 2 ^ ?n" using v nat_bits_bound [of ub] by (metis le_less_trans of_nat_less_iff of_nat_numeral of_nat_power)
  then have "bits_nat (int_bl ?n (int v)) = v" using uint_bl_roundtrip [of "int v" ?n] by simp
  moreover have "sl_bits cs = int_bl ?n (int v) @ rest" using assms(2) b' by (simp add: bl_size_def)
  ultimately show ?thesis
    using v n assms(3) by (cases "?n = 0") (auto simp: fetch_uint_leq_def fetch_ulong_def slice_defs Let_def int_bl_def)
qed

end
