(* ===== verification/VmState.thy ===== *)
theory VmState
  imports CellBuilders
begin

text \<open>
  The data of the virtual machine (\<open>crypto/vm\<close>): stack entries,
  continuations and control registers (\<open>stack.hpp\<close>, \<open>continuation.h\<close>), the machine state with
  its gas counters (\<open>vm.h\<close>), and the results of operations. An operation maps a state to a
  value and a new state, to an exception that keeps the state reached so far, or to
  \<open>Undef\<close>: a step the C++ code leaves undefined, such as an index outside a vector or a
  null reference. The weakest precondition \<open>wp\<close> at the end is what the safety proofs use.
\<close>

section \<open>Stack entries, continuations, control registers\<close>

datatype stack_entry =
    Null
  | IntVal bigint
  | CellVal cell
  | BuilderVal builder
  | SliceVal slice
  | ContVal cont
  | TupleVal "stack_entry list"
and cont =
    QuitCont int
  | ExcQuitCont
  | PushIntCont int cont
  | RepeatCont cont cont int
  | AgainCont cont
  | UntilCont cont cont
  | WhileCont cont cont cont bool
  | ArgContExt control_data cont
  | OrdCont control_data "slice option"
and control_regs =
    CRegs (c0: "cont option") (c1: "cont option") (c2: "cont option") (c3: "cont option")
      (d0: "cell option") (d1: "cell option") (c7: "stack_entry list option")
and control_data =
    CData (cd_stack: "stack_entry list option") (cd_save: control_regs) (cd_nargs: int) (cd_cp: int)

type_synonym stack = "stack_entry list"

text \<open>The tags of \<open>StackEntry::type()\<close>.\<close>

datatype entry_type = t_null | t_int | t_cell | t_builder | t_slice | t_vmcont | t_tuple

fun entry_tp :: "stack_entry \<Rightarrow> entry_type" where
  "entry_tp Null = t_null"
| "entry_tp (IntVal _) = t_int"
| "entry_tp (CellVal _) = t_cell"
| "entry_tp (BuilderVal _) = t_builder"
| "entry_tp (SliceVal _) = t_slice"
| "entry_tp (ContVal _) = t_vmcont"
| "entry_tp (TupleVal _) = t_tuple"

fun get_cdata :: "cont \<Rightarrow> control_data option" where
  "get_cdata (ArgContExt d _) = Some d"
| "get_cdata (OrdCont d _) = Some d"
| "get_cdata _ = None"

definition has_c0 :: "cont \<Rightarrow> bool" where
  "has_c0 k = (case get_cdata k of None \<Rightarrow> False | Some d \<Rightarrow> c0 (cd_save d) \<noteq> None)"

definition cregs_clear :: control_regs where
  "cregs_clear = CRegs None None None None None None None"

definition cdata_new :: "int \<Rightarrow> control_data" where
  "cdata_new cp = CData None cregs_clear (- 1) cp"

section \<open>Exceptions\<close>

datatype excno =
    exc_none | exc_alt | stk_und | stk_ov | int_ov | range_chk | inv_opcode | type_chk
  | cell_ov | cell_und | dict_err | exc_unknown | exc_fatal | out_of_gas | virt_err

fun get_errno :: "excno \<Rightarrow> int" where
  "get_errno exc_none = 0" | "get_errno exc_alt = 1" | "get_errno stk_und = 2" | "get_errno stk_ov = 3"
| "get_errno int_ov = 4" | "get_errno range_chk = 5" | "get_errno inv_opcode = 6" | "get_errno type_chk = 7"
| "get_errno cell_ov = 8" | "get_errno cell_und = 9" | "get_errno dict_err = 10" | "get_errno exc_unknown = 11"
| "get_errno exc_fatal = 12" | "get_errno out_of_gas = 13" | "get_errno virt_err = 14"

datatype vm_exc = VmError excno | VmNoGas

section \<open>The machine state\<close>

record gas_limits =
  gas_max :: int
  gas_limit :: int
  gas_credit :: int
  gas_remaining :: int
  gas_base :: int

record committed_state =
  cs_c4 :: "cell option"
  cs_c5 :: "cell option"
  cs_committed :: bool

text \<open>
  \<open>sha256\<close>, \<open>lib_lookup\<close> and \<open>known_cps\<close> are not fields of \<open>VmState\<close>: they stand for
  the hash function under \<open>Cell::get_hash\<close>, for the lookup in the library collections, and for
  the codepages registered with \<open>DispatchTable\<close>.
\<close>

record vm_state =
  code :: "slice option"
  stk :: stack
  cr :: control_regs
  cstate :: committed_state
  cp :: int
  steps :: int
  gas :: gas_limits
  loaded_cells :: "bits list"
  sha256 :: "bits \<Rightarrow> bits"
  lib_lookup :: "bool list \<Rightarrow> cell option"
  known_cps :: "int \<Rightarrow> bool"

text \<open>A machine with nothing in it, for examples.\<close>

definition blank_vm :: vm_state where
  "blank_vm = \<lparr>code = None, stk = [], cr = cregs_clear,
     cstate = \<lparr>cs_c4 = None, cs_c5 = None, cs_committed = False\<rparr>, cp = - 1, steps = 0,
     gas = \<lparr>gas_max = 0, gas_limit = 0, gas_credit = 0, gas_remaining = 0, gas_base = 0\<rparr>,
     loaded_cells = [], sha256 = (\<lambda>x. []), lib_lookup = (\<lambda>h. None), known_cps = (\<lambda>n. n = 0)\<rparr>"

section \<open>Operations\<close>

datatype 'a vres = Ok 'a vm_state | Exc vm_exc vm_state | Undef

type_synonym 'a vm = "vm_state \<Rightarrow> 'a vres"

definition vret :: "'a \<Rightarrow> 'a vm" where
  "vret a = (\<lambda>s. Ok a s)"

definition vbind :: "'a vm \<Rightarrow> ('a \<Rightarrow> 'b vm) \<Rightarrow> 'b vm" where
  "vbind m f = (\<lambda>s. case m s of Ok a s' \<Rightarrow> f a s' | Exc e s' \<Rightarrow> Exc e s' | Undef \<Rightarrow> Undef)"

definition vthen :: "unit vm \<Rightarrow> 'b vm \<Rightarrow> 'b vm" where
  "vthen m n = vbind m (\<lambda>_. n)"

definition vthrow :: "excno \<Rightarrow> 'a vm" where
  "vthrow e = (\<lambda>s. Exc (VmError e) s)"

definition vundef :: "'a vm" where
  "vundef = (\<lambda>s. Undef)"

definition vget :: "(vm_state \<Rightarrow> 'a) \<Rightarrow> 'a vm" where
  "vget f = (\<lambda>s. Ok (f s) s)"

definition vmod :: "(vm_state \<Rightarrow> vm_state) \<Rightarrow> unit vm" where
  "vmod f = (\<lambda>s. Ok () (f s))"

definition vassert :: "excno \<Rightarrow> bool \<Rightarrow> unit vm" where
  "vassert e b = (if b then vret () else vthrow e)"

text \<open>A handler that runs some steps and returns 0.\<close>

fun vdo :: "unit vm list \<Rightarrow> int vm" where
  "vdo [] = vret 0"
| "vdo (m # ms) = vthen m (vdo ms)"

fun vrepeat :: "nat \<Rightarrow> (nat \<Rightarrow> unit vm) \<Rightarrow> unit vm" where
  "vrepeat 0 f = vret ()"
| "vrepeat (Suc n) f = vthen (vrepeat n f) (f n)"

section \<open>Weakest preconditions\<close>

definition wp :: "'a vm \<Rightarrow> ('a \<Rightarrow> vm_state \<Rightarrow> bool) \<Rightarrow> (vm_state \<Rightarrow> bool) \<Rightarrow> vm_state \<Rightarrow> bool" where
  "wp m Q R s = (case m s of Ok a s' \<Rightarrow> Q a s' | Exc e s' \<Rightarrow> R s' | Undef \<Rightarrow> False)"

named_theorems wp_rules

lemma wp_mono:
  assumes "wp m Q R s" "\<And>a s'. Q a s' \<Longrightarrow> Q' a s'" "\<And>s'. R s' \<Longrightarrow> R' s'"
  shows "wp m Q' R' s"
  using assms by (auto simp: wp_def split: vres.splits)

lemma wp_vret [wp_rules]: "Q a s \<Longrightarrow> wp (vret a) Q R s"
  by (simp add: wp_def vret_def)

lemma wp_vbind [wp_rules]: "wp m (\<lambda>a. wp (f a) Q R) R s \<Longrightarrow> wp (vbind m f) Q R s"
  by (auto simp: wp_def vbind_def split: vres.splits)

lemma wp_vthen [wp_rules]: "wp m (\<lambda>_. wp n Q R) R s \<Longrightarrow> wp (vthen m n) Q R s"
  unfolding vthen_def by (rule wp_vbind)

lemma wp_vthrow [wp_rules]: "R s \<Longrightarrow> wp (vthrow e) Q R s"
  by (simp add: wp_def vthrow_def)

lemma wp_vget [wp_rules]: "Q (f s) s \<Longrightarrow> wp (vget f) Q R s"
  by (simp add: wp_def vget_def)

lemma wp_vmod [wp_rules]: "Q () (f s) \<Longrightarrow> wp (vmod f) Q R s"
  by (simp add: wp_def vmod_def)

lemma wp_vassert [wp_rules]: "(b \<Longrightarrow> Q () s) \<Longrightarrow> (\<not> b \<Longrightarrow> R s) \<Longrightarrow> wp (vassert e b) Q R s"
  by (simp add: wp_def vassert_def vret_def vthrow_def)

lemma wp_if [wp_rules]:
  "(b \<Longrightarrow> wp m Q R s) \<Longrightarrow> (\<not> b \<Longrightarrow> wp n Q R s) \<Longrightarrow> wp (if b then m else n) Q R s"
  by simp

lemma wp_option [wp_rules]:
  "(x = None \<Longrightarrow> wp m Q R s) \<Longrightarrow> (\<And>a. x = Some a \<Longrightarrow> wp (f a) Q R s) \<Longrightarrow>
     wp (case x of None \<Rightarrow> m | Some a \<Rightarrow> f a) Q R s"
  by (cases x) simp_all

lemma wp_vdo_Nil [wp_rules]: "Q 0 s \<Longrightarrow> wp (vdo []) Q R s"
  by (simp add: wp_vret)

lemma wp_vdo_Cons [wp_rules]: "wp m (\<lambda>_. wp (vdo ms) Q R) R s \<Longrightarrow> wp (vdo (m # ms)) Q R s"
  by (simp add: wp_vthen)

lemma vbind_assoc: "vbind (vbind m f) g = vbind m (\<lambda>a. vbind (f a) g)"
  by (rule ext) (simp add: vbind_def split: vres.split)

lemma vbind_vret: "vbind (vret a) f = f a" "vbind m vret = m"
  by (rule ext, simp add: vbind_def vret_def split: vres.split)+

text \<open>
  The same with a condition for \<open>Undef\<close>: \<open>wp_unless\<close> allows it when \<open>U\<close> holds, and says as much as
  \<open>wp\<close> otherwise and whenever there is a result.
\<close>

definition wp_unless :: "bool \<Rightarrow> 'a vm \<Rightarrow> ('a \<Rightarrow> vm_state \<Rightarrow> bool) \<Rightarrow> (vm_state \<Rightarrow> bool) \<Rightarrow> vm_state \<Rightarrow> bool" where
  "wp_unless U m Q R s = (case m s of Ok a s' \<Rightarrow> Q a s' | Exc e s' \<Rightarrow> R s' | Undef \<Rightarrow> U)"

lemma wp_unless_wp: "wp m Q R s \<Longrightarrow> wp_unless U m Q R s"
  by (auto simp: wp_def wp_unless_def split: vres.splits)

lemma wp_unless_False: "wp_unless False m Q R s = wp m Q R s"
  by (simp add: wp_def wp_unless_def)

lemma wp_unless_mono:
  assumes "wp_unless U m Q R s" "\<And>a s'. Q a s' \<Longrightarrow> Q' a s'" "\<And>s'. R s' \<Longrightarrow> R' s'" "U \<Longrightarrow> U'"
  shows "wp_unless U' m Q' R' s"
  using assms by (auto simp: wp_unless_def split: vres.splits)

lemma wp_unless_vbind: "wp m (\<lambda>a. wp_unless U (f a) Q R) R s \<Longrightarrow> wp_unless U (vbind m f) Q R s"
  by (auto simp: wp_def wp_unless_def vbind_def split: vres.splits)

lemma wp_unless_vthen: "wp m (\<lambda>_. wp_unless U n Q R) R s \<Longrightarrow> wp_unless U (vthen m n) Q R s"
  unfolding vthen_def by (rule wp_unless_vbind)

lemma wp_unless_if:
  "(b \<Longrightarrow> wp_unless U m Q R s) \<Longrightarrow> (\<not> b \<Longrightarrow> wp_unless U n Q R s) \<Longrightarrow> wp_unless U (if b then m else n) Q R s"
  by simp

end
