(* ===== verification/VmStack.thy ===== *)
theory VmStack
  imports VmState
begin

text \<open>
  The operand stack (\<open>class Stack\<close> of \<open>stack.hpp\<close> and \<open>stack.cpp\<close>). The vector is modelled as
  a list whose head is its back, so that entry \<open>i\<close> from the top is element \<open>i\<close>. Access outside
  the vector is \<open>Undef\<close>; the checks that prevent it are the handlers' business.
\<close>

section \<open>Well-formed values\<close>

text \<open>
  What every value a handler can produce satisfies: integers are NaN or fit 257 bits, tuples
  have at most 255 entries, an ordinary continuation has code, the number of arguments
  of a continuation is -1 (unlimited) or more, and no exit code is -1: its complement is the
  value 0 that means "go on". Cells, slices and builders are well-formed: at most 1023 bits and
  four references, and every cell in them is one that \<open>DataCell::create\<close> accepts.
\<close>

fun entry_ok :: "stack_entry \<Rightarrow> bool"
  and cont_ok :: "cont \<Rightarrow> bool"
  and cregs_ok :: "control_regs \<Rightarrow> bool"
  and cdata_ok :: "control_data \<Rightarrow> bool" where
  "entry_ok (IntVal v) = bigint_ok v"
| "entry_ok (ContVal k) = cont_ok k"
| "entry_ok (TupleVal xs) = (length xs \<le> 255 \<and> (\<forall>x \<in> set xs. entry_ok x))"
| "entry_ok (CellVal c) = cell_ok c"
| "entry_ok (BuilderVal b) = builder_ok b"
| "entry_ok (SliceVal cs) = slice_ok cs"
| "entry_ok Null = True"
| "cont_ok (QuitCont n) = (n \<noteq> - 1)"
| "cont_ok ExcQuitCont = True"
| "cont_ok (PushIntCont n k) = (int257 n \<and> cont_ok k)"
| "cont_ok (RepeatCont b a n) = (cont_ok b \<and> cont_ok a)"
| "cont_ok (AgainCont b) = cont_ok b"
| "cont_ok (UntilCont b a) = (cont_ok b \<and> cont_ok a)"
| "cont_ok (WhileCont c b a f) = (cont_ok c \<and> cont_ok b \<and> cont_ok a)"
| "cont_ok (ArgContExt d k) = (cdata_ok d \<and> cont_ok k)"
| "cont_ok (OrdCont d co) = (cdata_ok d \<and> (case co of None \<Rightarrow> False | Some cs \<Rightarrow> slice_ok cs))"
| "cregs_ok (CRegs k0 k1 k2 k3 m0 m1 t7) =
     ((\<forall>k \<in> set_option k0. cont_ok k) \<and> (\<forall>k \<in> set_option k1. cont_ok k) \<and>
      (\<forall>k \<in> set_option k2. cont_ok k) \<and> (\<forall>k \<in> set_option k3. cont_ok k) \<and>
      (\<forall>c \<in> set_option m0. cell_ok c) \<and> (\<forall>c \<in> set_option m1. cell_ok c) \<and>
      (\<forall>xs \<in> set_option t7. length xs \<le> 255 \<and> (\<forall>x \<in> set xs. entry_ok x)))"
| "cdata_ok (CData st sv na cpg) =
     ((\<forall>xs \<in> set_option st. \<forall>x \<in> set xs. entry_ok x) \<and> cregs_ok sv \<and> - 1 \<le> na)"

definition stack_ok :: "stack \<Rightarrow> bool" where
  "stack_ok xs \<longleftrightarrow> (\<forall>x \<in> set xs. entry_ok x)"

lemma stack_ok_simps [simp]:
  "stack_ok []" "stack_ok (x # xs) \<longleftrightarrow> entry_ok x \<and> stack_ok xs"
  "stack_ok (xs @ ys) \<longleftrightarrow> stack_ok xs \<and> stack_ok ys" "stack_ok (rev xs) = stack_ok xs"
  by (auto simp: stack_ok_def)

lemma stack_ok_take [intro]: "stack_ok xs \<Longrightarrow> stack_ok (take n xs)"
  by (auto simp: stack_ok_def dest: in_set_takeD)

lemma stack_ok_drop [intro]: "stack_ok xs \<Longrightarrow> stack_ok (drop n xs)"
  by (auto simp: stack_ok_def dest: in_set_dropD)

lemma stack_ok_nth [intro]: "stack_ok xs \<Longrightarrow> i < length xs \<Longrightarrow> entry_ok (xs ! i)"
  by (auto simp: stack_ok_def)

lemma stack_ok_update [intro]: "stack_ok xs \<Longrightarrow> entry_ok x \<Longrightarrow> stack_ok (xs[i := x])"
  by (auto simp: stack_ok_def dest!: set_update_subset_insert [THEN subsetD])

section \<open>Raw access\<close>

definition depth :: "vm_state \<Rightarrow> int" where
  "depth s = int (length (stk s))"

definition check_underflow :: "int \<Rightarrow> unit vm" where
  "check_underflow n = (\<lambda>s. if depth s \<ge> n then Ok () s else Exc (VmError stk_und) s)"

definition check_underflow_p :: "int \<Rightarrow> unit vm" where
  "check_underflow_p n = (\<lambda>s. if depth s > n then Ok () s else Exc (VmError stk_und) s)"

definition fetch :: "int \<Rightarrow> stack_entry vm" where
  "fetch i = (\<lambda>s. if 0 \<le> i \<and> i < depth s then Ok (stk s ! nat i) s else Undef)"

definition push :: "stack_entry \<Rightarrow> unit vm" where
  "push x = vmod (\<lambda>s. s\<lparr>stk := x # stk s\<rparr>)"

definition pop :: "stack_entry vm" where
  "pop = (\<lambda>s. case stk s of [] \<Rightarrow> Undef | x # xs \<Rightarrow> Ok x (s\<lparr>stk := xs\<rparr>))"

text \<open>\<open>swap(stack[i], stack[j])\<close>\<close>

definition swap_list :: "nat \<Rightarrow> nat \<Rightarrow> 'a list \<Rightarrow> 'a list" where
  "swap_list i j xs = xs[i := xs ! j, j := xs ! i]"

definition swap :: "int \<Rightarrow> int \<Rightarrow> unit vm" where
  "swap i j = (\<lambda>s. if 0 \<le> i \<and> i < depth s \<and> 0 \<le> j \<and> j < depth s
     then Ok () (s\<lparr>stk := swap_list (nat i) (nat j) (stk s)\<rparr>) else Undef)"

text \<open>
  \<open>pop(stack[i])\<close>: the back entry is swapped with entry \<open>i\<close> and then removed, so that entry
  \<open>i\<close> receives the top.
\<close>

definition pop_to :: "int \<Rightarrow> unit vm" where
  "pop_to i = (\<lambda>s. if 0 \<le> i \<and> i < depth s
     then Ok () (s\<lparr>stk := tl (swap_list 0 (nat i) (stk s))\<rparr>) else Undef)"

definition pop_many :: "int \<Rightarrow> unit vm" where
  "pop_many n = (\<lambda>s. if 0 \<le> n \<and> n \<le> depth s then Ok () (s\<lparr>stk := drop (nat n) (stk s)\<rparr>) else Undef)"

definition pop_many_offs :: "int \<Rightarrow> int \<Rightarrow> unit vm" where
  "pop_many_offs n offs = (\<lambda>s. if 0 \<le> n \<and> 0 \<le> offs \<and> n + offs \<le> depth s
     then Ok () (s\<lparr>stk := take (nat offs) (stk s) @ drop (nat (n + offs)) (stk s)\<rparr>) else Undef)"

definition drop_bottom :: "int \<Rightarrow> unit vm" where
  "drop_bottom n = (\<lambda>s. if 0 \<le> n \<and> n \<le> depth s
     then Ok () (s\<lparr>stk := take (length (stk s) - nat n) (stk s)\<rparr>) else Undef)"

text \<open>\<open>std::reverse(from_top(x), from_top(y))\<close>: entries \<open>y\<close> up to but not including \<open>x\<close> from the top.\<close>

definition reverse_range :: "int \<Rightarrow> int \<Rightarrow> unit vm" where
  "reverse_range x y = (\<lambda>s. if 0 \<le> y \<and> y \<le> x \<and> x \<le> depth s
     then Ok () (s\<lparr>stk := take (nat y) (stk s) @ rev (take (nat x - nat y) (drop (nat y) (stk s)))
                         @ drop (nat x) (stk s)\<rparr>) else Undef)"

text \<open>\<open>split_top(top, drop)\<close>; a null result is \<open>Undef\<close>, since the callers check the depth first.\<close>

definition split_top :: "int \<Rightarrow> int \<Rightarrow> stack vm" where
  "split_top t dr = (\<lambda>s. if 0 \<le> t \<and> 0 \<le> dr \<and> t + dr \<le> depth s
     then Ok (take (nat t) (stk s)) (s\<lparr>stk := drop (nat (t + dr)) (stk s)\<rparr>) else Undef)"

section \<open>Typed pops and pushes\<close>

definition pop_chk :: "stack_entry vm" where
  "pop_chk = vthen (check_underflow 1) pop"

fun as_int :: "stack_entry \<Rightarrow> bigint option" where
  "as_int (IntVal v) = Some v" | "as_int _ = None"

fun as_cell :: "stack_entry \<Rightarrow> cell option" where
  "as_cell (CellVal v) = Some v" | "as_cell _ = None"

fun as_builder :: "stack_entry \<Rightarrow> builder option" where
  "as_builder (BuilderVal v) = Some v" | "as_builder _ = None"

fun as_slice :: "stack_entry \<Rightarrow> slice option" where
  "as_slice (SliceVal v) = Some v" | "as_slice _ = None"

fun as_cont :: "stack_entry \<Rightarrow> cont option" where
  "as_cont (ContVal v) = Some v" | "as_cont _ = None"

fun as_tuple :: "stack_entry \<Rightarrow> stack_entry list option" where
  "as_tuple (TupleVal v) = Some v" | "as_tuple _ = None"

definition as_tuple_range :: "nat \<Rightarrow> nat \<Rightarrow> stack_entry \<Rightarrow> stack_entry list option" where
  "as_tuple_range max_len min_len x =
     (case as_tuple x of None \<Rightarrow> None
      | Some t \<Rightarrow> if length t \<le> max_len \<and> length t \<ge> min_len then Some t else None)"

definition pop_as :: "(stack_entry \<Rightarrow> 'a option) \<Rightarrow> 'a vm" where
  "pop_as f = vbind pop_chk (\<lambda>x. case f x of None \<Rightarrow> vthrow type_chk | Some a \<Rightarrow> vret a)"

definition pop_null :: "unit vm" where
  "pop_null = vbind pop_chk (\<lambda>x. if x = Null then vret () else vthrow type_chk)"

definition pop_int :: "bigint vm" where "pop_int = pop_as as_int"

definition pop_int_finite :: "int vm" where
  "pop_int_finite = vbind pop_int (\<lambda>v. case v of None \<Rightarrow> vthrow int_ov | Some x \<Rightarrow> vret x)"

definition pop_bool :: "bool vm" where
  "pop_bool = vbind pop_int_finite (\<lambda>x. vret (sgn_int x \<noteq> 0))"

definition pop_long :: "int vm" where
  "pop_long = vbind pop_int (\<lambda>v. vret (to_long v))"

definition pop_long_range :: "int \<Rightarrow> int \<Rightarrow> int vm" where
  "pop_long_range mx mn = vbind pop_long (\<lambda>r. if r > mx \<or> r < mn then vthrow range_chk else vret r)"

definition pop_smallint_range :: "int \<Rightarrow> int \<Rightarrow> int vm" where
  "pop_smallint_range mx mn = pop_long_range mx mn"

definition pop_cell :: "cell vm" where "pop_cell = pop_as as_cell"

definition pop_maybe_cell :: "cell option vm" where
  "pop_maybe_cell = pop_as (\<lambda>x. if x = Null then Some None else map_option Some (as_cell x))"

definition pop_builder :: "builder vm" where "pop_builder = pop_as as_builder"

definition pop_cellslice :: "slice vm" where "pop_cellslice = pop_as as_slice"

definition pop_cont :: "cont vm" where "pop_cont = pop_as as_cont"

definition pop_tuple :: "stack_entry list vm" where "pop_tuple = pop_as as_tuple"

definition pop_tuple_range :: "nat \<Rightarrow> nat \<Rightarrow> stack_entry list vm" where
  "pop_tuple_range max_len min_len = pop_as (as_tuple_range max_len min_len)"

definition pop_maybe_tuple :: "stack_entry list option vm" where
  "pop_maybe_tuple = pop_as (\<lambda>x. if x = Null then Some None else map_option Some (as_tuple x))"

definition pop_maybe_tuple_range :: "nat \<Rightarrow> stack_entry list option vm" where
  "pop_maybe_tuple_range max_len =
     pop_as (\<lambda>x. if x = Null then Some None else map_option Some (as_tuple_range max_len 0 x))"

definition push_null :: "unit vm" where "push_null = push Null"

definition push_int :: "bigint \<Rightarrow> unit vm" where
  "push_int v = (if signed_fits_bits v 257 then push (IntVal v) else vthrow int_ov)"

definition push_int_quiet :: "bigint \<Rightarrow> bool \<Rightarrow> unit vm" where
  "push_int_quiet v quiet =
     (if signed_fits_bits v 257 then push (IntVal v)
      else if \<not> quiet then vthrow int_ov
      else if v \<noteq> None then push (IntVal None)
      else push (IntVal v))"

definition push_smallint :: "int \<Rightarrow> unit vm" where "push_smallint n = push (IntVal (Some n))"

definition push_bool :: "bool \<Rightarrow> unit vm" where "push_bool b = push_smallint (if b then - 1 else 0)"

definition push_cont :: "cont \<Rightarrow> unit vm" where "push_cont k = push (ContVal k)"

definition push_cellslice :: "slice \<Rightarrow> unit vm" where "push_cellslice cs = push (SliceVal cs)"

definition push_cell :: "cell \<Rightarrow> unit vm" where "push_cell c = push (CellVal c)"

definition push_builder :: "builder \<Rightarrow> unit vm" where "push_builder b = push (BuilderVal b)"

definition push_tuple :: "stack_entry list \<Rightarrow> unit vm" where "push_tuple t = push (TupleVal t)"

definition push_maybe_tuple :: "stack_entry list option \<Rightarrow> unit vm" where
  "push_maybe_tuple t = (case t of None \<Rightarrow> push_null | Some xs \<Rightarrow> push (TupleVal xs))"

section \<open>Rules\<close>

lemma length_swap_list [simp]: "length (swap_list i j xs) = length xs"
  by (simp add: swap_list_def)

lemma stack_ok_swap_list [intro]:
  "stack_ok xs \<Longrightarrow> i < length xs \<Longrightarrow> j < length xs \<Longrightarrow> stack_ok (swap_list i j xs)"
  unfolding swap_list_def by blast

lemma stack_ok_tl [intro]: "stack_ok xs \<Longrightarrow> stack_ok (tl xs)"
  by (cases xs) simp_all

lemma wp_check_underflow [wp_rules]:
  "(n \<le> depth s \<Longrightarrow> Q () s) \<Longrightarrow> R s \<Longrightarrow> wp (check_underflow n) Q R s"
  by (simp add: wp_def check_underflow_def)

lemma wp_check_underflow_p [wp_rules]:
  "(n < depth s \<Longrightarrow> Q () s) \<Longrightarrow> R s \<Longrightarrow> wp (check_underflow_p n) Q R s"
  by (simp add: wp_def check_underflow_p_def)

lemma wp_fetch [wp_rules]:
  assumes "stack_ok (stk s)" "0 \<le> i" "i < depth s" "\<And>x. entry_ok x \<Longrightarrow> Q x s"
  shows "wp (fetch i) Q R s"
  using assms(1-3) by (auto simp: wp_def fetch_def depth_def intro!: assms(4) stack_ok_nth)

text \<open>
  The other rules forget which entries the stack holds: the new stack is any well-formed
  one of the right depth.
\<close>

lemma wp_push [wp_rules]:
  assumes "stack_ok (stk s)" "entry_ok x"
    "\<And>xs. stack_ok xs \<Longrightarrow> int (length xs) = depth s + 1 \<Longrightarrow> Q () (s\<lparr>stk := xs\<rparr>)"
  shows "wp (push x) Q R s"
  using assms by (simp add: wp_def push_def vmod_def depth_def)

lemma wp_pop [wp_rules]:
  assumes "stack_ok (stk s)" "0 < depth s"
    "\<And>x xs. entry_ok x \<Longrightarrow> stack_ok xs \<Longrightarrow> int (length xs) = depth s - 1 \<Longrightarrow> Q x (s\<lparr>stk := xs\<rparr>)"
  shows "wp pop Q R s"
  using assms by (cases "stk s") (simp_all add: wp_def pop_def depth_def)

lemma wp_swap [wp_rules]:
  assumes "stack_ok (stk s)" "0 \<le> i" "i < depth s" "0 \<le> j" "j < depth s"
    "\<And>xs. stack_ok xs \<Longrightarrow> int (length xs) = depth s \<Longrightarrow> Q () (s\<lparr>stk := xs\<rparr>)"
  shows "wp (swap i j) Q R s"
  using assms(1-5) by (auto simp: wp_def swap_def depth_def intro!: assms(6) stack_ok_swap_list)

lemma wp_pop_to [wp_rules]:
  assumes "stack_ok (stk s)" "0 \<le> i" "i < depth s"
    "\<And>xs. stack_ok xs \<Longrightarrow> int (length xs) = depth s - 1 \<Longrightarrow> Q () (s\<lparr>stk := xs\<rparr>)"
  shows "wp (pop_to i) Q R s"
  using assms(1-3) by (auto simp: wp_def pop_to_def depth_def intro!: assms(4) stack_ok_swap_list stack_ok_tl)

lemma wp_pop_many [wp_rules]:
  assumes "stack_ok (stk s)" "0 \<le> n" "n \<le> depth s"
    "\<And>xs. stack_ok xs \<Longrightarrow> int (length xs) = depth s - n \<Longrightarrow> Q () (s\<lparr>stk := xs\<rparr>)"
  shows "wp (pop_many n) Q R s"
  using assms(1-3) by (auto simp: wp_def pop_many_def depth_def intro!: assms(4))

lemma wp_pop_many_offs [wp_rules]:
  assumes "stack_ok (stk s)" "0 \<le> n" "0 \<le> offs" "n + offs \<le> depth s"
    "\<And>xs. stack_ok xs \<Longrightarrow> int (length xs) = depth s - n \<Longrightarrow> Q () (s\<lparr>stk := xs\<rparr>)"
  shows "wp (pop_many_offs n offs) Q R s"
  using assms(1-4) by (auto simp: wp_def pop_many_offs_def depth_def nat_add_distrib intro!: assms(5))

lemma wp_drop_bottom [wp_rules]:
  assumes "stack_ok (stk s)" "0 \<le> n" "n \<le> depth s"
    "\<And>xs. stack_ok xs \<Longrightarrow> int (length xs) = depth s - n \<Longrightarrow> Q () (s\<lparr>stk := xs\<rparr>)"
  shows "wp (drop_bottom n) Q R s"
  using assms(1-3) by (auto simp: wp_def drop_bottom_def depth_def intro!: assms(4))

lemma wp_reverse_range [wp_rules]:
  assumes "stack_ok (stk s)" "0 \<le> y" "y \<le> x" "x \<le> depth s"
    "\<And>xs. stack_ok xs \<Longrightarrow> int (length xs) = depth s \<Longrightarrow> Q () (s\<lparr>stk := xs\<rparr>)"
  shows "wp (reverse_range x y) Q R s"
  using assms(1-4) by (auto simp: wp_def reverse_range_def depth_def intro!: assms(5) stack_ok_take stack_ok_drop)

lemma wp_split_top [wp_rules]:
  assumes "stack_ok (stk s)" "0 \<le> t" "0 \<le> d" "t + d \<le> depth s"
    "\<And>ys xs. stack_ok ys \<Longrightarrow> int (length ys) = t \<Longrightarrow> stack_ok xs \<Longrightarrow>
       int (length xs) = depth s - t - d \<Longrightarrow> Q ys (s\<lparr>stk := xs\<rparr>)"
  shows "wp (split_top t d) Q R s"
  using assms(1-4) by (auto simp: wp_def split_top_def depth_def intro!: assms(5))

lemma wp_pop_chk [wp_rules]:
  assumes "stack_ok (stk s)" "R s"
    "\<And>x xs. entry_ok x \<Longrightarrow> stack_ok xs \<Longrightarrow> int (length xs) = depth s - 1 \<Longrightarrow> Q x (s\<lparr>stk := xs\<rparr>)"
  shows "wp pop_chk Q R s"
  unfolding pop_chk_def by (intro wp_rules assms) (use assms in auto)

text \<open>A typed pop: the value's property \<open>P\<close> follows from the well-formedness of the entry.\<close>

lemma wp_pop_as:
  assumes "stack_ok (stk s)" "R s" "\<And>x a. entry_ok x \<Longrightarrow> f x = Some a \<Longrightarrow> P a"
    "\<And>xs. stack_ok xs \<Longrightarrow> R (s\<lparr>stk := xs\<rparr>)"
    "\<And>a xs. P a \<Longrightarrow> stack_ok xs \<Longrightarrow> int (length xs) = depth s - 1 \<Longrightarrow> Q a (s\<lparr>stk := xs\<rparr>)"
  shows "wp (pop_as f) Q R s"
  unfolding pop_as_def by (intro wp_rules) (use assms in auto)

lemma as_entry_ok:
  "entry_ok x \<Longrightarrow> as_int x = Some v \<Longrightarrow> bigint_ok v"
  "entry_ok x \<Longrightarrow> as_cont x = Some k \<Longrightarrow> cont_ok k"
  "entry_ok x \<Longrightarrow> as_tuple x = Some t \<Longrightarrow> length t \<le> 255 \<and> stack_ok t"
  "entry_ok x \<Longrightarrow> as_cell x = Some c \<Longrightarrow> cell_ok c"
  "entry_ok x \<Longrightarrow> as_builder x = Some b \<Longrightarrow> builder_ok b"
  "entry_ok x \<Longrightarrow> as_slice x = Some cs \<Longrightarrow> slice_ok cs"
  by (cases x; simp add: stack_ok_def)+

lemma as_tuple_range_ok:
  "entry_ok x \<Longrightarrow> as_tuple_range mx mn x = Some t \<Longrightarrow>
     stack_ok t \<and> mn \<le> length t \<and> length t \<le> mx \<and> length t \<le> 255"
  using as_entry_ok(3) [of x t] by (auto simp: as_tuple_range_def split: option.splits if_splits)

lemma wp_pop_int [wp_rules]:
  assumes "stack_ok (stk s)" "R s" "\<And>xs. stack_ok xs \<Longrightarrow> R (s\<lparr>stk := xs\<rparr>)"
    "\<And>v xs. bigint_ok v \<Longrightarrow> stack_ok xs \<Longrightarrow> int (length xs) = depth s - 1 \<Longrightarrow> Q v (s\<lparr>stk := xs\<rparr>)"
  shows "wp pop_int Q R s"
  unfolding pop_int_def by (rule wp_pop_as [where P = bigint_ok]) (use assms as_entry_ok in auto)

lemma wp_pop_int_finite [wp_rules]:
  assumes "stack_ok (stk s)" "R s" "\<And>xs. stack_ok xs \<Longrightarrow> R (s\<lparr>stk := xs\<rparr>)"
    "\<And>v xs. int257 v \<Longrightarrow> stack_ok xs \<Longrightarrow> int (length xs) = depth s - 1 \<Longrightarrow> Q v (s\<lparr>stk := xs\<rparr>)"
  shows "wp pop_int_finite Q R s"
  unfolding pop_int_finite_def by (intro wp_rules) (use assms in auto)

lemma wp_pop_bool [wp_rules]:
  assumes "stack_ok (stk s)" "R s" "\<And>xs. stack_ok xs \<Longrightarrow> R (s\<lparr>stk := xs\<rparr>)"
    "\<And>b xs. stack_ok xs \<Longrightarrow> int (length xs) = depth s - 1 \<Longrightarrow> Q b (s\<lparr>stk := xs\<rparr>)"
  shows "wp pop_bool Q R s"
  unfolding pop_bool_def by (intro wp_rules) (use assms in auto)

lemma wp_pop_smallint_range [wp_rules]:
  assumes "stack_ok (stk s)" "R s" "\<And>xs. stack_ok xs \<Longrightarrow> R (s\<lparr>stk := xs\<rparr>)"
    "\<And>n xs. mn \<le> n \<Longrightarrow> n \<le> mx \<Longrightarrow> stack_ok xs \<Longrightarrow> int (length xs) = depth s - 1 \<Longrightarrow> Q n (s\<lparr>stk := xs\<rparr>)"
  shows "wp (pop_smallint_range mx mn) Q R s"
  unfolding pop_smallint_range_def pop_long_range_def pop_long_def
  by (intro wp_rules) (use assms in auto)

lemma wp_pop_cont [wp_rules]:
  assumes "stack_ok (stk s)" "R s" "\<And>xs. stack_ok xs \<Longrightarrow> R (s\<lparr>stk := xs\<rparr>)"
    "\<And>k xs. cont_ok k \<Longrightarrow> stack_ok xs \<Longrightarrow> int (length xs) = depth s - 1 \<Longrightarrow> Q k (s\<lparr>stk := xs\<rparr>)"
  shows "wp pop_cont Q R s"
  unfolding pop_cont_def by (rule wp_pop_as [where P = cont_ok]) (use assms as_entry_ok in auto)

lemma wp_pop_cell [wp_rules]:
  assumes "stack_ok (stk s)" "R s" "\<And>xs. stack_ok xs \<Longrightarrow> R (s\<lparr>stk := xs\<rparr>)"
    "\<And>c xs. cell_ok c \<Longrightarrow> stack_ok xs \<Longrightarrow> int (length xs) = depth s - 1 \<Longrightarrow> Q c (s\<lparr>stk := xs\<rparr>)"
  shows "wp pop_cell Q R s"
  unfolding pop_cell_def by (rule wp_pop_as [where P = cell_ok]) (use assms as_entry_ok in auto)

lemma wp_pop_maybe_cell [wp_rules]:
  assumes "stack_ok (stk s)" "R s" "\<And>xs. stack_ok xs \<Longrightarrow> R (s\<lparr>stk := xs\<rparr>)"
    "\<And>c xs. (\<forall>x. c = Some x \<longrightarrow> cell_ok x) \<Longrightarrow> stack_ok xs \<Longrightarrow> int (length xs) = depth s - 1 \<Longrightarrow> Q c (s\<lparr>stk := xs\<rparr>)"
  shows "wp pop_maybe_cell Q R s"
  unfolding pop_maybe_cell_def
  by (rule wp_pop_as [where P = "\<lambda>c. \<forall>x. c = Some x \<longrightarrow> cell_ok x"]) (use assms in \<open>auto split: if_splits dest: as_entry_ok(4)\<close>)

lemma wp_pop_builder [wp_rules]:
  assumes "stack_ok (stk s)" "R s" "\<And>xs. stack_ok xs \<Longrightarrow> R (s\<lparr>stk := xs\<rparr>)"
    "\<And>b xs. builder_ok b \<Longrightarrow> stack_ok xs \<Longrightarrow> int (length xs) = depth s - 1 \<Longrightarrow> Q b (s\<lparr>stk := xs\<rparr>)"
  shows "wp pop_builder Q R s"
  unfolding pop_builder_def by (rule wp_pop_as [where P = builder_ok]) (use assms as_entry_ok in auto)

lemma wp_pop_cellslice [wp_rules]:
  assumes "stack_ok (stk s)" "R s" "\<And>xs. stack_ok xs \<Longrightarrow> R (s\<lparr>stk := xs\<rparr>)"
    "\<And>c xs. slice_ok c \<Longrightarrow> stack_ok xs \<Longrightarrow> int (length xs) = depth s - 1 \<Longrightarrow> Q c (s\<lparr>stk := xs\<rparr>)"
  shows "wp pop_cellslice Q R s"
  unfolding pop_cellslice_def by (rule wp_pop_as [where P = slice_ok]) (use assms as_entry_ok in auto)

lemma wp_pop_tuple_range [wp_rules]:
  assumes "stack_ok (stk s)" "R s" "\<And>xs. stack_ok xs \<Longrightarrow> R (s\<lparr>stk := xs\<rparr>)"
    "\<And>t xs. stack_ok t \<Longrightarrow> mn \<le> length t \<Longrightarrow> length t \<le> mx \<Longrightarrow> length t \<le> 255 \<Longrightarrow> stack_ok xs \<Longrightarrow>
       int (length xs) = depth s - 1 \<Longrightarrow> Q t (s\<lparr>stk := xs\<rparr>)"
  shows "wp (pop_tuple_range mx mn) Q R s"
  unfolding pop_tuple_range_def
  by (rule wp_pop_as [where P = "\<lambda>t. stack_ok t \<and> mn \<le> length t \<and> length t \<le> mx \<and> length t \<le> 255"])
    (use assms as_tuple_range_ok in auto)

lemma wp_pop_maybe_tuple_range [wp_rules]:
  assumes "stack_ok (stk s)" "R s" "\<And>xs. stack_ok xs \<Longrightarrow> R (s\<lparr>stk := xs\<rparr>)"
    "\<And>t xs. (\<forall>u. t = Some u \<longrightarrow> stack_ok u \<and> length u \<le> 255) \<Longrightarrow> stack_ok xs \<Longrightarrow>
       int (length xs) = depth s - 1 \<Longrightarrow> Q t (s\<lparr>stk := xs\<rparr>)"
  shows "wp (pop_maybe_tuple_range mx) Q R s"
  unfolding pop_maybe_tuple_range_def
  by (rule wp_pop_as [where P = "\<lambda>t. \<forall>u. t = Some u \<longrightarrow> stack_ok u \<and> length u \<le> 255"])
    (use assms in \<open>auto split: if_splits dest: as_tuple_range_ok\<close>)

lemma signed_fits_257: "signed_fits_bits v 257 \<Longrightarrow> bigint_ok v"
  by (cases v) (simp_all add: int257_def)

lemma wp_push_int [wp_rules]:
  assumes "stack_ok (stk s)" "R s"
    "\<And>xs. stack_ok xs \<Longrightarrow> int (length xs) = depth s + 1 \<Longrightarrow> Q () (s\<lparr>stk := xs\<rparr>)"
  shows "wp (push_int v) Q R s"
  unfolding push_int_def by (intro wp_rules) (use assms signed_fits_257 in auto)

lemma wp_push_int_quiet [wp_rules]:
  assumes "stack_ok (stk s)" "R s"
    "\<And>xs. stack_ok xs \<Longrightarrow> int (length xs) = depth s + 1 \<Longrightarrow> Q () (s\<lparr>stk := xs\<rparr>)"
  shows "wp (push_int_quiet v quiet) Q R s"
  unfolding push_int_quiet_def by (intro wp_rules) (use assms signed_fits_257 in auto)

text \<open>Pushes of a particular kind reduce to \<open>push\<close>.\<close>

lemmas push_defs = push_null_def push_smallint_def push_bool_def push_cont_def push_cellslice_def
  push_cell_def push_builder_def push_tuple_def push_maybe_tuple_def

end
