(* ===== verification/OpcTable.thy ===== *)
theory OpcTable
  imports VmStack
begin

text \<open>
  The machine invariant and the instruction table (\<open>opctable.h\<close>, \<open>opctable.cpp\<close>): how an
  instruction is registered with its range of 24-bit opcodes, how the table is completed and
  searched, and how the instruction found is charged and run. The disassembler half of an
  instruction (\<open>dump\<close>, \<open>instr_len\<close>) is not modelled.
\<close>

section \<open>The machine invariant\<close>

text \<open>
  All control registers are set (no null reference), all values are well-formed, library
  cells resolve to ordinary cells, and committed data are not too deep.
\<close>

definition regs_full :: "control_regs \<Rightarrow> bool" where
  "regs_full r \<longleftrightarrow> c0 r \<noteq> None \<and> c1 r \<noteq> None \<and> c2 r \<noteq> None \<and> c3 r \<noteq> None \<and>
     d0 r \<noteq> None \<and> d1 r \<noteq> None \<and> c7 r \<noteq> None"

text \<open>What has been committed is not too deep.\<close>

definition max_data_depth :: nat where "max_data_depth = 512"

definition commit_ok :: "committed_state \<Rightarrow> bool" where
  "commit_ok c \<longleftrightarrow> cs_committed c \<longrightarrow>
     (\<exists>x y. cs_c4 c = Some x \<and> cs_c5 c = Some y \<and> cell_ok x \<and> cell_ok y \<and>
        get_depth x max_level \<le> max_data_depth \<and> get_depth y max_level \<le> max_data_depth)"

definition vm_wf :: "vm_state \<Rightarrow> bool" where
  "vm_wf s \<longleftrightarrow> stack_ok (stk s) \<and> cregs_ok (cr s) \<and> regs_full (cr s) \<and> commit_ok (cstate s) \<and>
     (\<forall>h c. lib_lookup s h = Some c \<longrightarrow> cell_ok c \<and> \<not> cell_special c)"

text \<open>
  What a handler may do to a state \<open>s0\<close>: keep the invariant, use up gas, and leave the limits,
  the step counter and the parameters of the model alone.
\<close>

definition vm_inv :: "vm_state \<Rightarrow> vm_state \<Rightarrow> bool" where
  "vm_inv s0 s \<longleftrightarrow> vm_wf s \<and> gas_remaining (gas s) \<le> gas_remaining (gas s0) \<and>
     gas_base (gas s) = gas_base (gas s0) \<and> gas_max (gas s) = gas_max (gas s0) \<and>
     gas_limit (gas s) = gas_limit (gas s0) \<and> gas_credit (gas s) = gas_credit (gas s0) \<and>
     sha256 s = sha256 s0 \<and> lib_lookup s = lib_lookup s0 \<and> known_cps s = known_cps s0 \<and> steps s = steps s0"

lemma vm_inv_refl: "vm_wf s \<Longrightarrow> vm_inv s s"
  by (simp add: vm_inv_def)

lemma vm_inv_wf: "vm_inv s0 s \<Longrightarrow> vm_wf s"
  by (simp add: vm_inv_def)

lemma vm_inv_trans: "vm_inv s0 s1 \<Longrightarrow> vm_inv s1 s2 \<Longrightarrow> vm_inv s0 s2"
  by (auto simp: vm_inv_def)

lemma vm_inv_stk [simp]: "vm_inv s0 s \<Longrightarrow> stack_ok xs \<Longrightarrow> vm_inv s0 (s\<lparr>stk := xs\<rparr>)"
  by (simp add: vm_inv_def vm_wf_def)

lemma vm_inv_code [simp]: "vm_inv s0 (s\<lparr>code := c\<rparr>) = vm_inv s0 s"
  by (simp add: vm_inv_def vm_wf_def)

lemma vm_inv_cp [simp]: "vm_inv s0 (s\<lparr>cp := n\<rparr>) = vm_inv s0 s"
  by (simp add: vm_inv_def vm_wf_def)

lemma vm_inv_stack_ok [simp]: "vm_inv s0 s \<Longrightarrow> stack_ok (stk s)"
  by (simp add: vm_inv_def vm_wf_def)

definition has_code :: "vm_state \<Rightarrow> bool" where
  "has_code s \<longleftrightarrow> (case code s of None \<Rightarrow> False | Some cs \<Rightarrow> slice_ok cs)"

lemma has_code_simps [simp]:
  "has_code (s\<lparr>stk := xs\<rparr>) = has_code s" "has_code (s\<lparr>gas := g\<rparr>) = has_code s"
  "has_code (s\<lparr>cr := r\<rparr>) = has_code s" "has_code (s\<lparr>cp := n\<rparr>) = has_code s"
  "has_code (s\<lparr>code := Some c\<rparr>) = slice_ok c" "\<not> has_code (s\<lparr>code := None\<rparr>)"
  by (simp_all add: has_code_def)

lemma has_code_Some: "has_code s \<Longrightarrow> \<exists>cs. code s = Some cs \<and> slice_ok cs"
  by (cases "code s") (simp_all add: has_code_def)

text \<open>A safe handler never runs into \<open>Undef\<close>, and after a result 0 there is code to run.\<close>

definition vm_safe :: "int vm \<Rightarrow> bool" where
  "vm_safe m \<longleftrightarrow> (\<forall>s. vm_wf s \<and> has_code s \<longrightarrow>
     wp m (\<lambda>r s'. vm_inv s s' \<and> (r = 0 \<longrightarrow> has_code s')) (vm_inv s) s)"

definition vm_safe_unless :: "bool \<Rightarrow> int vm \<Rightarrow> bool" where
  "vm_safe_unless U m \<longleftrightarrow> (\<forall>s. vm_wf s \<and> has_code s \<longrightarrow>
     wp_unless U m (\<lambda>r s'. vm_inv s s' \<and> (r = 0 \<longrightarrow> has_code s')) (vm_inv s) s)"

lemma vm_safe_unless_safe: "vm_safe m \<Longrightarrow> vm_safe_unless U m"
  by (simp add: vm_safe_def vm_safe_unless_def wp_unless_wp)

lemma vm_safeI:
  assumes "\<And>s0. vm_inv s0 s0 \<Longrightarrow> has_code s0 \<Longrightarrow>
    wp m (\<lambda>r s'. vm_inv s0 s' \<and> (r = 0 \<longrightarrow> has_code s')) (vm_inv s0) s0"
  shows "vm_safe m"
  using assms by (simp add: vm_safe_def vm_inv_refl)

lemma vm_safeD:
  assumes "vm_safe m" "vm_inv s0 s" "has_code s"
  shows "wp m (\<lambda>r s'. vm_inv s0 s' \<and> (r = 0 \<longrightarrow> has_code s')) (vm_inv s0) s"
proof (rule wp_mono)
  show "wp m (\<lambda>r s'. vm_inv s s' \<and> (r = 0 \<longrightarrow> has_code s')) (vm_inv s) s"
    using assms(1,3) vm_inv_wf [OF assms(2)] by (simp add: vm_safe_def)
qed (use vm_inv_trans [OF assms(2)] in auto)

lemma vm_safe_unlessD:
  assumes "vm_safe_unless U m" "vm_inv s0 s" "has_code s"
  shows "wp_unless U m (\<lambda>r s'. vm_inv s0 s' \<and> (r = 0 \<longrightarrow> has_code s')) (vm_inv s0) s"
proof (rule wp_unless_mono)
  show "wp_unless U m (\<lambda>r s'. vm_inv s s' \<and> (r = 0 \<longrightarrow> has_code s')) (vm_inv s) s"
    using assms(1,3) vm_inv_wf [OF assms(2)] by (simp add: vm_safe_unless_def)
qed (use vm_inv_trans [OF assms(2)] in auto)

section \<open>Gas\<close>

definition consume_gas :: "int \<Rightarrow> unit vm" where
  "consume_gas n = vmod (\<lambda>s. s\<lparr>gas := (gas s)\<lparr>gas_remaining := gas_remaining (gas s) - n\<rparr>\<rparr>)"

text \<open>\<open>GasLimits::consume_chk\<close>\<close>

definition consume_gas_chk :: "int \<Rightarrow> unit vm" where
  "consume_gas_chk n = vthen (consume_gas n)
     (\<lambda>s. if gas_remaining (gas s) \<ge> 0 then Ok () s else Exc VmNoGas s)"

definition gas_check :: "unit vm" where
  "gas_check = (\<lambda>s. if gas_remaining (gas s) \<ge> 0 then Ok () s else Exc VmNoGas s)"

definition consume_tuple_gas :: "nat \<Rightarrow> unit vm" where
  "consume_tuple_gas n = consume_gas (int n * 1)"

definition free_stack_depth :: int where "free_stack_depth = 32"

definition consume_stack_gas :: "nat \<Rightarrow> unit vm" where
  "consume_stack_gas n = consume_gas ((max (int n) free_stack_depth - free_stack_depth) * 1)"

text \<open>Gas is only used up: what a new gas record may differ in.\<close>

definition gas_ok :: "gas_limits \<Rightarrow> gas_limits \<Rightarrow> bool" where
  "gas_ok g0 g \<longleftrightarrow> gas_remaining g \<le> gas_remaining g0 \<and> gas_base g = gas_base g0 \<and>
     gas_max g = gas_max g0 \<and> gas_limit g = gas_limit g0 \<and> gas_credit g = gas_credit g0"

lemma gas_ok_consume: "0 \<le> n \<Longrightarrow> gas_ok g (g\<lparr>gas_remaining := gas_remaining g - n\<rparr>)"
  by (simp add: gas_ok_def)

lemma gas_ok_trans: "gas_ok g0 g1 \<Longrightarrow> gas_ok g1 g2 \<Longrightarrow> gas_ok g0 g2"
  by (auto simp: gas_ok_def)

lemma vm_inv_gas [simp]: "vm_inv s0 s \<Longrightarrow> gas_ok (gas s) g \<Longrightarrow> vm_inv s0 (s\<lparr>gas := g\<rparr>)"
  by (auto simp: vm_inv_def vm_wf_def gas_ok_def)

lemma wp_consume_gas [wp_rules]:
  assumes "0 \<le> n" "\<And>g. gas_ok (gas s) g \<Longrightarrow> Q () (s\<lparr>gas := g\<rparr>)"
  shows "wp (consume_gas n) Q R s"
  using assms by (simp add: wp_def consume_gas_def vmod_def gas_ok_consume)

lemma wp_consume_gas_chk [wp_rules]:
  assumes "0 \<le> n" "\<And>g. gas_ok (gas s) g \<Longrightarrow> Q () (s\<lparr>gas := g\<rparr>)"
    "\<And>g. gas_ok (gas s) g \<Longrightarrow> R (s\<lparr>gas := g\<rparr>)"
  shows "wp (consume_gas_chk n) Q R s"
  using assms by (simp add: wp_def consume_gas_chk_def vthen_def vbind_def consume_gas_def vmod_def gas_ok_consume)

lemma wp_consume_tuple_gas [wp_rules]:
  assumes "\<And>g. gas_ok (gas s) g \<Longrightarrow> Q () (s\<lparr>gas := g\<rparr>)"
  shows "wp (consume_tuple_gas n) Q R s"
  unfolding consume_tuple_gas_def by (rule wp_consume_gas) (use assms in auto)

lemma wp_consume_stack_gas [wp_rules]:
  assumes "\<And>g. gas_ok (gas s) g \<Longrightarrow> Q () (s\<lparr>gas := g\<rparr>)"
  shows "wp (consume_stack_gas n) Q R s"
  unfolding consume_stack_gas_def free_stack_depth_def by (rule wp_consume_gas) (use assms in auto)

section \<open>Reading the code\<close>

definition code_bits :: "vm_state \<Rightarrow> bool list" where
  "code_bits s = (case code s of None \<Rightarrow> [] | Some cs \<Rightarrow> sl_bits cs)"

definition code_refs :: "vm_state \<Rightarrow> cell list" where
  "code_refs s = (case code s of None \<Rightarrow> [] | Some cs \<Rightarrow> sl_refs cs)"

text \<open>\<open>cs.advance(n)\<close> on the code slice: nothing happens when there are fewer bits.\<close>

definition code_advance :: "nat \<Rightarrow> unit vm" where
  "code_advance n = vmod (\<lambda>s. s\<lparr>code := map_option (\<lambda>cs. if n \<le> length (sl_bits cs)
     then cs\<lparr>sl_bits := drop n (sl_bits cs)\<rparr> else cs) (code s)\<rparr>)"

text \<open>\<open>cs.fetch_ref()\<close>; the result is null, here \<open>Undef\<close>, when there is no reference left.\<close>

definition code_fetch_ref :: "cell vm" where
  "code_fetch_ref = (\<lambda>s. case code s of
     None \<Rightarrow> Undef
   | Some cs \<Rightarrow> (case sl_refs cs of [] \<Rightarrow> Undef | c # rs \<Rightarrow> Ok c (s\<lparr>code := Some (cs\<lparr>sl_refs := rs\<rparr>)\<rparr>)))"

text \<open>\<open>cs.fetch_int256(n)\<close>, a signed number; the callers have checked the length.\<close>

definition code_fetch_int :: "nat \<Rightarrow> int vm" where
  "code_fetch_int n = vbind (vget (\<lambda>s. bits_int (take n (code_bits s)))) (\<lambda>x. vthen (code_advance n) (vret x))"

lemma wp_code_advance [wp_rules]:
  assumes "\<And>c. (has_code s \<Longrightarrow> has_code (s\<lparr>code := c\<rparr>)) \<Longrightarrow> (c \<noteq> None \<Longrightarrow> sl_refs (the c) = sl_refs (the (code s))) \<Longrightarrow>
    Q () (s\<lparr>code := c\<rparr>)"
  shows "wp (code_advance n) Q R s"
  unfolding code_advance_def by (rule wp_vmod) (rule assms; cases "code s"; auto simp: has_code_def slice_ok_def)

lemma wp_code_fetch_ref [wp_rules]:
  assumes "has_code s" "sl_refs (the (code s)) \<noteq> []"
    "\<And>r cs. cell_ok r \<Longrightarrow> slice_ok cs \<Longrightarrow> sl_refs cs = tl (sl_refs (the (code s))) \<Longrightarrow> Q r (s\<lparr>code := Some cs\<rparr>)"
  shows "wp code_fetch_ref Q R s"
  using has_code_Some [OF assms(1)] assms(2)
  by (auto simp: wp_def code_fetch_ref_def slice_ok_def split: list.split intro!: assms(3))

lemma wp_code_fetch_int [wp_rules]:
  assumes "\<And>x c. (has_code s \<Longrightarrow> has_code (s\<lparr>code := c\<rparr>)) \<Longrightarrow> Q x (s\<lparr>code := c\<rparr>)"
  shows "wp (code_fetch_int n) Q R s"
  unfolding code_fetch_int_def by (intro wp_rules) (rule assms)

section \<open>Instructions\<close>

text \<open>
  The three kinds in use: \<open>OpcodeInstrSimplest\<close>, \<open>OpcodeInstrFixed\<close> and \<open>OpcodeInstrExt\<close>, and
  the dummies that fill the gaps. An \<open>Ext\<close> handler reads the code itself.
\<close>

datatype opcode_exec =
    ExecDummy
  | ExecSimple "int vm"
  | ExecFixed "nat \<Rightarrow> int vm"
  | ExecExt "nat \<Rightarrow> nat \<Rightarrow> int vm"

datatype opcode_instr =
  OpInstr (op_min: nat) (op_max: nat) (op_bits: nat) (op_exec: opcode_exec)

definition top_opcode :: nat where "top_opcode = 2 ^ 24"

definition mkdummy :: "nat \<Rightarrow> nat \<Rightarrow> opcode_instr" where
  "mkdummy mn mx = OpInstr mn mx 0 ExecDummy"

definition mksimple :: "nat \<Rightarrow> nat \<Rightarrow> int vm \<Rightarrow> opcode_instr" where
  "mksimple opc bits ex = OpInstr (opc * 2 ^ (24 - bits)) ((opc + 1) * 2 ^ (24 - bits)) bits (ExecSimple ex)"

definition mkfixed :: "nat \<Rightarrow> nat \<Rightarrow> nat \<Rightarrow> (nat \<Rightarrow> int vm) \<Rightarrow> opcode_instr" where
  "mkfixed opc bits arg_bits ex =
     OpInstr (opc * 2 ^ (24 - bits)) ((opc + 1) * 2 ^ (24 - bits)) (bits + arg_bits) (ExecFixed ex)"

definition mkfixedrange :: "nat \<Rightarrow> nat \<Rightarrow> nat \<Rightarrow> nat \<Rightarrow> (nat \<Rightarrow> int vm) \<Rightarrow> opcode_instr" where
  "mkfixedrange mn mx tot_bits arg_bits ex =
     OpInstr (mn * 2 ^ (24 - tot_bits)) (mx * 2 ^ (24 - tot_bits)) tot_bits (ExecFixed ex)"

definition mkext :: "nat \<Rightarrow> nat \<Rightarrow> nat \<Rightarrow> (nat \<Rightarrow> nat \<Rightarrow> int vm) \<Rightarrow> opcode_instr" where
  "mkext opc bits arg_bits ex =
     OpInstr (opc * 2 ^ (24 - bits)) ((opc + 1) * 2 ^ (24 - bits)) (bits + arg_bits) (ExecExt ex)"

definition mkextrange :: "nat \<Rightarrow> nat \<Rightarrow> nat \<Rightarrow> nat \<Rightarrow> (nat \<Rightarrow> nat \<Rightarrow> int vm) \<Rightarrow> opcode_instr" where
  "mkextrange mn mx tot_bits arg_bits ex =
     OpInstr (mn * 2 ^ (24 - tot_bits)) (mx * 2 ^ (24 - tot_bits)) tot_bits (ExecExt ex)"

text \<open>The \<open>dispatch\<close> methods of the instruction classes.\<close>

definition dispatch_dummy :: "int vm" where
  "dispatch_dummy = vthen (consume_gas 10) (vthrow inv_opcode)"

definition dispatch_simplest :: "nat \<Rightarrow> int vm \<Rightarrow> nat \<Rightarrow> int vm" where
  "dispatch_simplest opc_bits exec_instr bits =
     vthen (consume_gas (10 + int opc_bits))
       (if bits < opc_bits then vthrow inv_opcode
        else vthen (code_advance opc_bits) exec_instr)"

definition dispatch_fixed :: "nat \<Rightarrow> (nat \<Rightarrow> int vm) \<Rightarrow> nat \<Rightarrow> nat \<Rightarrow> int vm" where
  "dispatch_fixed tot_bits exec_instr opcode bits =
     vthen (consume_gas (10 + int tot_bits))
       (if bits < tot_bits then vthrow inv_opcode
        else vthen (code_advance tot_bits) (exec_instr (opcode div 2 ^ (24 - tot_bits))))"

definition dispatch_ext :: "nat \<Rightarrow> (nat \<Rightarrow> nat \<Rightarrow> int vm) \<Rightarrow> nat \<Rightarrow> nat \<Rightarrow> int vm" where
  "dispatch_ext tot_bits exec_instr opcode bits =
     vthen (consume_gas (10 + int tot_bits))
       (if bits < tot_bits then vthrow inv_opcode
        else exec_instr (opcode div 2 ^ (24 - tot_bits)) tot_bits)"

definition instr_dispatch :: "opcode_instr \<Rightarrow> nat \<Rightarrow> nat \<Rightarrow> int vm" where
  "instr_dispatch i opcode bits =
     (case op_exec i of
        ExecDummy \<Rightarrow> dispatch_dummy
      | ExecSimple ex \<Rightarrow> dispatch_simplest (op_bits i) ex bits
      | ExecFixed ex \<Rightarrow> dispatch_fixed (op_bits i) ex opcode bits
      | ExecExt ex \<Rightarrow> dispatch_ext (op_bits i) ex opcode bits)"

lemmas dispatch_defs = dispatch_dummy_def dispatch_simplest_def dispatch_fixed_def dispatch_ext_def

text \<open>
  Two instructions reduce modulo a power of two with rounding to nearest, \<open>MODPOW2R\<close> and
  \<open>RSHIFTMODR\<close>. They run into an undefined shift for some exponents. Their opcodes are singled out
  here: with the exponent on the stack, or with a constant exponent that is affected. So are the
  instructions that preload 64 bits or more with zeros appended, \<open>PLDUZ\<close>, which do so for an empty slice, and those
  that look for the nearest, least or greatest key of a dictionary with integer keys, for keys of no bits.
\<close>

definition ub_opcode :: "nat \<Rightarrow> bool" where
  "ub_opcode opcode \<longleftrightarrow>
     opcode div 2 ^ 8 \<in> {0xa929, 0xa92d} \<or> opcode \<in> {0xb7a929, 0xb7a92d} \<or>
     (opcode div 2 ^ 8 \<in> {0xa939, 0xa93d} \<and> (opcode mod 2 ^ 8 + 1) mod 52 \<ge> 32) \<or>
     (0xd711 \<le> opcode div 2 ^ 8 \<and> opcode div 2 ^ 8 \<le> 0xd717) \<or>
     (0xf470 \<le> opcode div 2 ^ 8 \<and> opcode div 2 ^ 8 < 0xf480 \<and> bit (opcode div 2 ^ 8) 3) \<or>
     (0xf480 \<le> opcode div 2 ^ 8 \<and> opcode div 2 ^ 8 < 0xf4a0 \<and> bit (opcode div 2 ^ 8) 2)"

text \<open>
  An instruction is safe when its handler is for the opcodes of its range, with an undefined
  result only for those singled out.
\<close>

definition instr_safe :: "opcode_instr \<Rightarrow> bool" where
  "instr_safe i \<longleftrightarrow>
     (case op_exec i of
        ExecDummy \<Rightarrow> True
      | ExecSimple ex \<Rightarrow> vm_safe ex
      | ExecFixed ex \<Rightarrow>
          (\<forall>opcode. op_min i \<le> opcode \<and> opcode < op_max i \<longrightarrow>
             vm_safe_unless (ub_opcode opcode) (ex (opcode div 2 ^ (24 - op_bits i))))
      | ExecExt ex \<Rightarrow>
          (\<forall>opcode. op_min i \<le> opcode \<and> opcode < op_max i \<longrightarrow>
             vm_safe_unless (ub_opcode opcode) (ex (opcode div 2 ^ (24 - op_bits i)) (op_bits i))))"

lemma instr_safe_simple [simp]: "instr_safe (mkdummy a b)" "instr_safe (mksimple opc bits ex) = vm_safe ex"
  by (simp_all add: instr_safe_def mkdummy_def mksimple_def)

lemma instr_safe_args [intro]:
  "(\<And>args. vm_safe (exf args)) \<Longrightarrow> instr_safe (mkfixed opc bits n exf)"
  "(\<And>args. vm_safe (exf args)) \<Longrightarrow> instr_safe (mkfixedrange mn mx t n exf)"
  "(\<And>args pfx. vm_safe (exx args pfx)) \<Longrightarrow> instr_safe (mkext opc bits n exx)"
  "(\<And>args pfx. vm_safe (exx args pfx)) \<Longrightarrow> instr_safe (mkextrange mn mx t n exx)"
  by (simp_all add: instr_safe_def mkfixed_def mkfixedrange_def mkext_def mkextrange_def vm_safe_unless_safe)

lemma vm_safe_advance: "vm_safe m \<Longrightarrow> vm_safe (vthen (code_advance n) m)"
  by (rule vm_safeI, rule wp_vthen, rule wp_code_advance, rule vm_safeD) auto

lemma wp_unless_advance:
  assumes "vm_safe_unless U m" "vm_inv s0 s" "has_code s"
  shows "wp_unless U (vthen (code_advance n) m) (\<lambda>r s'. vm_inv s0 s' \<and> (r = 0 \<longrightarrow> has_code s')) (vm_inv s0) s"
  by (rule wp_unless_vthen, rule wp_code_advance, rule vm_safe_unlessD) (use assms in auto)

text \<open>
  Every instruction pays at least ten units of gas before it does anything, and running it
  is safe when its handler is.
\<close>

lemma instr_dispatch_safe:
  assumes "instr_safe i" "vm_wf s" "has_code s" "op_min i \<le> opcode" "opcode < op_max i"
  defines "s1 \<equiv> s\<lparr>gas := (gas s)\<lparr>gas_remaining := gas_remaining (gas s) - 10\<rparr>\<rparr>"
  shows "wp_unless (ub_opcode opcode) (instr_dispatch i opcode bits)
    (\<lambda>r s'. vm_inv s1 s' \<and> (r = 0 \<longrightarrow> has_code s')) (vm_inv s1) s"
proof -
  have inv: "vm_inv s1 (s\<lparr>gas := (gas s)\<lparr>gas_remaining := gas_remaining (gas s) - (10 + int n)\<rparr>\<rparr>)" for n
    using assms(2) by (simp add: vm_inv_def vm_wf_def s1_def)
  have go: "wp_unless U (vthen (consume_gas (10 + int n)) m) Q R s"
    if "wp_unless U m Q R (s\<lparr>gas := (gas s)\<lparr>gas_remaining := gas_remaining (gas s) - (10 + int n)\<rparr>\<rparr>)" for U m Q R n
    using that by (simp add: wp_unless_def vthen_def vbind_def consume_gas_def vmod_def)
  show ?thesis
  proof (cases "op_exec i")
    case ExecDummy
    then show ?thesis using inv [of 0]
      by (simp add: instr_dispatch_def dispatch_defs wp_unless_def vthen_def vbind_def consume_gas_def vmod_def vthrow_def)
  next
    case (ExecSimple ex)
    then show ?thesis using assms(1,3)
      by (auto simp: instr_dispatch_def dispatch_defs instr_safe_def
          intro!: go wp_unless_if wp_unless_wp [OF wp_vthrow] wp_unless_advance [OF vm_safe_unless_safe] inv)
  next
    case (ExecFixed ex)
    then show ?thesis using assms(1,3-5)
      by (auto simp: instr_dispatch_def dispatch_defs instr_safe_def
          intro!: go wp_unless_if wp_unless_wp [OF wp_vthrow] wp_unless_advance inv)
  next
    case (ExecExt ex)
    then show ?thesis using assms(1,3-5)
      by (auto simp: instr_dispatch_def dispatch_defs instr_safe_def
          intro!: go wp_unless_if wp_unless_wp [OF wp_vthrow] vm_safe_unlessD inv)
  qed
qed

end
