(* ===== verification/StackOps.thy ===== *)
theory StackOps
  imports OpcTable
begin

text \<open>
  The stack manipulation primitives of \<open>stackops.cpp\<close>: one definition per \<open>exec_\<close> function and
  the list of their opcodes. Every handler is shown safe: its underflow checks cover each
  access it makes, for every argument. The functional lemmas say what the block
  operations do to the stack.
\<close>

section \<open>Handlers\<close>

text \<open>\<open>args & 15\<close>, \<open>(args >> 4) & 15\<close>, \<open>(args >> 8) & 15\<close>, \<open>args & 255\<close>\<close>

definition lo4 :: "nat \<Rightarrow> int" where "lo4 args = int (args mod 16)"

definition mid4 :: "nat \<Rightarrow> int" where "mid4 args = int (args div 16 mod 16)"

definition hi4 :: "nat \<Rightarrow> int" where "hi4 args = int (args div 256 mod 16)"

definition lo8 :: "nat \<Rightarrow> int" where "lo8 args = int (args mod 256)"

definition push_fetch :: "int \<Rightarrow> unit vm" where "push_fetch i = vbind (fetch i) push"

definition exec_nop :: "int vm" where "exec_nop = vret 0"

definition exec_swap :: "int vm" where "exec_swap = vdo [check_underflow 2, swap 0 1]"

definition exec_xchg0 :: "nat \<Rightarrow> int vm" where
  "exec_xchg0 args = (let x = lo4 args in vdo [check_underflow_p x, swap 0 x])"

definition exec_xchg0_l :: "nat \<Rightarrow> int vm" where
  "exec_xchg0_l args = (let x = lo8 args in vdo [check_underflow_p x, swap 0 x])"

definition exec_xchg :: "nat \<Rightarrow> int vm" where
  "exec_xchg args =
     (let x = mid4 args; y = lo4 args
      in if x = 0 \<or> x \<ge> y then vthrow inv_opcode else vdo [check_underflow_p y, swap x y])"

text \<open>The \<open>assert(x >= 2)\<close> holds for the opcodes the handler is registered for.\<close>

definition exec_xchg1 :: "nat \<Rightarrow> int vm" where
  "exec_xchg1 args = (let x = lo4 args in if x < 2 then vundef else vdo [check_underflow_p x, swap 1 x])"

definition exec_dup :: "int vm" where "exec_dup = vdo [check_underflow 1, push_fetch 0]"

definition exec_over :: "int vm" where "exec_over = vdo [check_underflow 2, push_fetch 1]"

definition exec_push :: "nat \<Rightarrow> int vm" where
  "exec_push args = (let x = lo4 args in vdo [check_underflow_p x, push_fetch x])"

definition exec_push_l :: "nat \<Rightarrow> int vm" where
  "exec_push_l args = (let x = lo8 args in vdo [check_underflow_p x, push_fetch x])"

definition exec_drop :: "int vm" where
  "exec_drop = vthen (check_underflow 1) (vbind pop (\<lambda>_. vret 0))"

definition exec_nip :: "int vm" where "exec_nip = vdo [check_underflow 2, pop_to 1]"

definition exec_pop :: "nat \<Rightarrow> int vm" where
  "exec_pop args = (let x = lo4 args in vdo [check_underflow_p x, pop_to x])"

definition exec_pop_l :: "nat \<Rightarrow> int vm" where
  "exec_pop_l args = (let x = lo8 args in vdo [check_underflow_p x, pop_to x])"

definition exec_xchg2 :: "nat \<Rightarrow> int vm" where
  "exec_xchg2 args =
     (let x = mid4 args; y = lo4 args
      in vdo [check_underflow_p x, check_underflow_p y, check_underflow_p 1, swap 1 x, swap 0 y])"

definition exec_xcpu :: "nat \<Rightarrow> int vm" where
  "exec_xcpu args =
     (let x = mid4 args; y = lo4 args
      in vdo [check_underflow_p x, check_underflow_p y, swap 0 x, push_fetch y])"

definition exec_puxc :: "nat \<Rightarrow> int vm" where
  "exec_puxc args =
     (let x = mid4 args; y = lo4 args
      in vdo [check_underflow_p x, check_underflow y, push_fetch x, swap 0 1, swap 0 y])"

definition exec_push2 :: "nat \<Rightarrow> int vm" where
  "exec_push2 args =
     (let x = mid4 args; y = lo4 args
      in vdo [check_underflow_p x, check_underflow_p y, push_fetch x, push_fetch (y + 1)])"

definition exec_xchg3 :: "nat \<Rightarrow> int vm" where
  "exec_xchg3 args =
     (let x = hi4 args; y = mid4 args; z = lo4 args
      in vdo [check_underflow_p x, check_underflow_p y, check_underflow_p z, check_underflow_p 2,
              swap 2 x, swap 1 y, swap 0 z])"

definition exec_xc2pu :: "nat \<Rightarrow> int vm" where
  "exec_xc2pu args =
     (let x = hi4 args; y = mid4 args; z = lo4 args
      in vdo [check_underflow_p x, check_underflow_p y, check_underflow_p z, check_underflow_p 1,
              swap 1 x, swap 0 y, push_fetch z])"

definition exec_xcpuxc :: "nat \<Rightarrow> int vm" where
  "exec_xcpuxc args =
     (let x = hi4 args; y = mid4 args; z = lo4 args
      in vdo [check_underflow_p x, check_underflow_p y, check_underflow_p 1, check_underflow z,
              swap 1 x, push_fetch y, swap 0 1, swap 0 z])"

definition exec_xcpu2 :: "nat \<Rightarrow> int vm" where
  "exec_xcpu2 args =
     (let x = hi4 args; y = mid4 args; z = lo4 args
      in vdo [check_underflow_p x, check_underflow_p y, check_underflow_p z,
              swap 0 x, push_fetch y, push_fetch (z + 1)])"

definition exec_puxc2 :: "nat \<Rightarrow> int vm" where
  "exec_puxc2 args =
     (let x = hi4 args; y = mid4 args; z = lo4 args
      in vdo [check_underflow_p x, check_underflow_p 1, check_underflow y, check_underflow z,
              push_fetch x, swap 2 0, swap 1 y, swap 0 z])"

definition exec_puxcpu :: "nat \<Rightarrow> int vm" where
  "exec_puxcpu args =
     (let x = hi4 args; y = mid4 args; z = lo4 args
      in vdo [check_underflow_p x, check_underflow y, check_underflow z,
              push_fetch x, swap 0 1, swap 0 y, push_fetch z])"

definition exec_pu2xc :: "nat \<Rightarrow> int vm" where
  "exec_pu2xc args =
     (let x = hi4 args; y = mid4 args; z = lo4 args
      in vdo [check_underflow_p x, check_underflow y, check_underflow (z - 1),
              push_fetch x, swap 1 0, push_fetch y, swap 1 0, swap 0 z])"

definition exec_push3 :: "nat \<Rightarrow> int vm" where
  "exec_push3 args =
     (let x = hi4 args; y = mid4 args; z = lo4 args
      in vdo [check_underflow_p x, check_underflow_p y, check_underflow_p z,
              push_fetch x, push_fetch (y + 1), push_fetch (z + 2)])"

definition exec_blkswap :: "nat \<Rightarrow> int vm" where
  "exec_blkswap args =
     (let x = mid4 args + 1; y = lo4 args + 1
      in vdo [check_underflow (x + y), reverse_range (x + y) y, reverse_range y 0, reverse_range (x + y) 0])"

definition exec_rot :: "int vm" where "exec_rot = vdo [check_underflow 3, swap 1 2, swap 0 1]"

definition exec_rotrev :: "int vm" where "exec_rotrev = vdo [check_underflow 3, swap 0 1, swap 1 2]"

definition exec_2swap :: "int vm" where "exec_2swap = vdo [check_underflow 4, swap 1 3, swap 0 2]"

definition exec_2drop :: "int vm" where
  "exec_2drop = vthen (check_underflow 2) (vbind pop (\<lambda>_. vbind pop (\<lambda>_. vret 0)))"

definition exec_2dup :: "int vm" where "exec_2dup = vdo [check_underflow 2, push_fetch 1, push_fetch 1]"

definition exec_2over :: "int vm" where "exec_2over = vdo [check_underflow 4, push_fetch 3, push_fetch 3]"

definition exec_reverse :: "nat \<Rightarrow> int vm" where
  "exec_reverse args =
     (let x = mid4 args + 2; y = lo4 args in vdo [check_underflow (x + y), reverse_range (x + y) y])"

definition exec_blkdrop :: "nat \<Rightarrow> int vm" where
  "exec_blkdrop args = (let x = lo4 args in vdo [check_underflow x, pop_many x])"

definition exec_blkdrop2 :: "nat \<Rightarrow> int vm" where
  "exec_blkdrop2 args = (let x = mid4 args; y = lo4 args in vdo [check_underflow (x + y), pop_many_offs x y])"

definition exec_blkpush :: "nat \<Rightarrow> int vm" where
  "exec_blkpush args =
     (let x = mid4 args; y = lo4 args in vdo [check_underflow_p y, vrepeat (nat x) (\<lambda>_. push_fetch y)])"

definition exec_pick :: "int vm" where
  "exec_pick = vthen (check_underflow 1)
     (vbind (pop_smallint_range 255 0) (\<lambda>x. vdo [check_underflow_p x, push_fetch x]))"

definition exec_roll :: "int vm" where
  "exec_roll = vthen (check_underflow 1) (vbind (pop_smallint_range 255 0)
     (\<lambda>x. vdo [check_underflow_p x, vrepeat (nat x) (\<lambda>k. swap (x - 1 - int k) (x - int k))]))"

definition exec_rollrev :: "int vm" where
  "exec_rollrev = vthen (check_underflow 1) (vbind (pop_smallint_range 255 0)
     (\<lambda>x. vdo [check_underflow_p x, vrepeat (nat x) (\<lambda>i. swap (int i) (int i + 1))]))"

definition exec_blkswap_x :: "int vm" where
  "exec_blkswap_x = vthen (check_underflow 2) (vbind (pop_smallint_range 255 0) (\<lambda>y.
     vbind (pop_smallint_range 255 0) (\<lambda>x. vthen (check_underflow (x + y))
       (if x > 0 \<and> y > 0
        then vdo [reverse_range (x + y) y, reverse_range y 0, reverse_range (x + y) 0]
        else vret 0))))"

definition exec_reverse_x :: "int vm" where
  "exec_reverse_x = vthen (check_underflow 2) (vbind (pop_smallint_range 255 0) (\<lambda>y.
     vbind (pop_smallint_range 255 0) (\<lambda>x. vdo [check_underflow (x + y), reverse_range (x + y) y])))"

definition exec_drop_x :: "int vm" where
  "exec_drop_x = vthen (check_underflow 1)
     (vbind (pop_smallint_range 255 0) (\<lambda>x. vdo [check_underflow x, pop_many x]))"

definition exec_tuck :: "int vm" where "exec_tuck = vdo [check_underflow 2, swap 0 1, push_fetch 1]"

definition exec_xchg_x :: "int vm" where
  "exec_xchg_x = vthen (check_underflow 1)
     (vbind (pop_smallint_range 255 0) (\<lambda>x. vdo [check_underflow_p x, swap 0 x]))"

text \<open>\<open>depth()\<close> casts the size of the vector to a 32-bit \<open>int\<close>; no real stack is large enough to notice.\<close>

definition int32 :: "int \<Rightarrow> int" where "int32 n = (n + 2 ^ 31) mod 2 ^ 32 - 2 ^ 31"

definition exec_depth :: "int vm" where
  "exec_depth = vbind (vget depth) (\<lambda>n. vdo [push_smallint (int32 n)])"

definition exec_chkdepth :: "int vm" where
  "exec_chkdepth = vthen (check_underflow 1)
     (vbind (pop_smallint_range 255 0) (\<lambda>x. vdo [check_underflow x]))"

text \<open>\<open>stack[i] = std::move(stack[j])\<close>; the entry moved from becomes null.\<close>

definition move_entry :: "int \<Rightarrow> int \<Rightarrow> unit vm" where
  "move_entry i j = (\<lambda>s. if 0 \<le> i \<and> i < depth s \<and> 0 \<le> j \<and> j < depth s
     then Ok () (s\<lparr>stk := (stk s)[nat i := stk s ! nat j, nat j := Null]\<rparr>) else Undef)"

definition exec_onlytop_x :: "int vm" where
  "exec_onlytop_x = vthen (check_underflow 1) (vbind (pop_smallint_range 255 0) (\<lambda>x.
     vthen (check_underflow x) (vbind (vget depth) (\<lambda>n. let d = n - x in
       vdo [if d > 0 then vrepeat (nat x) (\<lambda>k. move_entry (n - 1 - int k) (n - 1 - int k - d)) else vret (),
            pop_many d]))))"

definition exec_only_x :: "int vm" where
  "exec_only_x = vthen (check_underflow 1) (vbind (pop_smallint_range 255 0) (\<lambda>x.
     vthen (check_underflow x) (vbind (vget depth) (\<lambda>n. vdo [pop_many (n - x)]))))"

section \<open>Opcodes\<close>

definition register_stack_ops :: "opcode_instr list" where
  "register_stack_ops =
    [mksimple 0x00 8 exec_nop,
     mksimple 0x01 8 exec_swap,
     mkfixedrange 0x02 0x10 8 4 exec_xchg0,
     mkfixed 0x10 8 8 exec_xchg,
     mkfixed 0x11 8 8 exec_xchg0_l,
     mkfixedrange 0x12 0x20 8 4 exec_xchg1,
     mksimple 0x20 8 exec_dup,
     mksimple 0x21 8 exec_over,
     mkfixedrange 0x22 0x30 8 4 exec_push,
     mksimple 0x30 8 exec_drop,
     mksimple 0x31 8 exec_nip,
     mkfixedrange 0x32 0x40 8 4 exec_pop,
     mkfixed 0x4 4 12 exec_xchg3,
     mkfixed 0x50 8 8 exec_xchg2,
     mkfixed 0x51 8 8 exec_xcpu,
     mkfixed 0x52 8 8 exec_puxc,
     mkfixed 0x53 8 8 exec_push2,
     mkfixed 0x540 12 12 exec_xchg3,
     mkfixed 0x541 12 12 exec_xc2pu,
     mkfixed 0x542 12 12 exec_xcpuxc,
     mkfixed 0x543 12 12 exec_xcpu2,
     mkfixed 0x544 12 12 exec_puxc2,
     mkfixed 0x545 12 12 exec_puxcpu,
     mkfixed 0x546 12 12 exec_pu2xc,
     mkfixed 0x547 12 12 exec_push3,
     mkfixed 0x55 8 8 exec_blkswap,
     mkfixed 0x56 8 8 exec_push_l,
     mkfixed 0x57 8 8 exec_pop_l,
     mksimple 0x58 8 exec_rot,
     mksimple 0x59 8 exec_rotrev,
     mksimple 0x5a 8 exec_2swap,
     mksimple 0x5b 8 exec_2drop,
     mksimple 0x5c 8 exec_2dup,
     mksimple 0x5d 8 exec_2over,
     mkfixed 0x5e 8 8 exec_reverse,
     mkfixed 0x5f0 12 4 exec_blkdrop,
     mkfixedrange 0x5f10 0x6000 16 8 exec_blkpush,
     mksimple 0x60 8 exec_pick,
     mksimple 0x61 8 exec_roll,
     mksimple 0x62 8 exec_rollrev,
     mksimple 0x63 8 exec_blkswap_x,
     mksimple 0x64 8 exec_reverse_x,
     mksimple 0x65 8 exec_drop_x,
     mksimple 0x66 8 exec_tuck,
     mksimple 0x67 8 exec_xchg_x,
     mksimple 0x68 8 exec_depth,
     mksimple 0x69 8 exec_chkdepth,
     mksimple 0x6a 8 exec_onlytop_x,
     mksimple 0x6b 8 exec_only_x,
     mkfixedrange 0x6c10 0x6d00 16 8 exec_blkdrop2]"

section \<open>Safety\<close>

lemma nibble_bounds:
  "0 \<le> lo4 a" "0 \<le> mid4 a" "0 \<le> hi4 a" "0 \<le> lo8 a" "lo4 a < 16" "mid4 a < 16" "hi4 a < 16" "lo8 a < 256"
  by (simp_all add: lo4_def mid4_def hi4_def lo8_def)

lemma int257_int32 [simp]: "int257 (int32 n)"
  using pos_mod_bound [of "2 ^ 32" "n + 2 ^ 31"] pos_mod_sign [of "2 ^ 32" "n + 2 ^ 31"]
  by (simp add: int257_def int32_def)

lemma wp_push_fetch [wp_rules]:
  assumes "stack_ok (stk s)" "0 \<le> i" "i < depth s"
    "\<And>xs. stack_ok xs \<Longrightarrow> int (length xs) = depth s + 1 \<Longrightarrow> Q () (s\<lparr>stk := xs\<rparr>)"
  shows "wp (push_fetch i) Q R s"
  unfolding push_fetch_def by (intro wp_rules) (use assms in auto)

lemma wp_move_entry [wp_rules]:
  assumes "stack_ok (stk s)" "0 \<le> i" "i < depth s" "0 \<le> j" "j < depth s"
    "\<And>xs. stack_ok xs \<Longrightarrow> int (length xs) = depth s \<Longrightarrow> Q () (s\<lparr>stk := xs\<rparr>)"
  shows "wp (move_entry i j) Q R s"
  using assms(1-5) by (auto simp: wp_def move_entry_def depth_def intro!: assms(6) stack_ok_update)

text \<open>A loop whose body changes only the stack, by \<open>d\<close> entries each time.\<close>

lemma wp_vrepeat_stk:
  assumes "stack_ok (stk s)"
    "\<And>k xs. k < n \<Longrightarrow> stack_ok xs \<Longrightarrow> int (length xs) = depth s + d * int k \<Longrightarrow>
       wp (f k) (\<lambda>_ s'. \<exists>ys. s' = s\<lparr>stk := ys\<rparr> \<and> stack_ok ys \<and> int (length ys) = depth s + d * int (Suc k)) R
         (s\<lparr>stk := xs\<rparr>)"
    "\<And>xs. stack_ok xs \<Longrightarrow> int (length xs) = depth s + d * int n \<Longrightarrow> Q () (s\<lparr>stk := xs\<rparr>)"
  shows "wp (vrepeat n f) Q R s"
proof -
  have "wp (vrepeat m f) (\<lambda>_ s'. \<exists>ys. s' = s\<lparr>stk := ys\<rparr> \<and> stack_ok ys \<and> int (length ys) = depth s + d * int m) R s"
    if "m \<le> n" for m
    using that
  proof (induction m)
    case 0
    show ?case
      unfolding vrepeat.simps by (intro wp_vret exI [of _ "stk s"]) (simp add: assms(1) depth_def)
  next
    case (Suc m)
    show ?case
      unfolding vrepeat.simps
    proof (rule wp_vthen, rule wp_mono [OF Suc.IH])
      fix a s'
      assume "\<exists>ys. s' = s\<lparr>stk := ys\<rparr> \<and> stack_ok ys \<and> int (length ys) = depth s + d * int m"
      then obtain ys where "s' = s\<lparr>stk := ys\<rparr>" "stack_ok ys" "int (length ys) = depth s + d * int m" by blast
      with assms(2) Suc.prems show "wp (f m) (\<lambda>_ s'. \<exists>ys. s' = s\<lparr>stk := ys\<rparr> \<and> stack_ok ys \<and>
          int (length ys) = depth s + d * int (Suc m)) R s'"
        by simp
    qed (use Suc.prems in auto)
  qed
  from this [OF order_refl] show ?thesis
    by (rule wp_mono) (use assms(3) in auto)
qed

lemma exec_nop_safe: "vm_safe exec_nop"
  unfolding exec_nop_def Let_def by (auto intro!: vm_safeI wp_rules simp: depth_def push_defs)

lemma exec_swap_safe: "vm_safe exec_swap"
  unfolding exec_swap_def Let_def by (auto intro!: vm_safeI wp_rules simp: depth_def push_defs)

lemma exec_xchg0_safe: "vm_safe (exec_xchg0 args)"
  using nibble_bounds [of args] unfolding exec_xchg0_def Let_def by (auto intro!: vm_safeI wp_rules simp: depth_def push_defs)

lemma exec_xchg0_l_safe: "vm_safe (exec_xchg0_l args)"
  using nibble_bounds [of args] unfolding exec_xchg0_l_def Let_def by (auto intro!: vm_safeI wp_rules simp: depth_def push_defs)

lemma exec_xchg_safe: "vm_safe (exec_xchg args)"
  using nibble_bounds [of args] unfolding exec_xchg_def Let_def by (auto intro!: vm_safeI wp_rules simp: depth_def push_defs)

lemma exec_dup_safe: "vm_safe exec_dup"
  unfolding exec_dup_def Let_def by (auto intro!: vm_safeI wp_rules simp: depth_def push_defs)

lemma exec_over_safe: "vm_safe exec_over"
  unfolding exec_over_def Let_def by (auto intro!: vm_safeI wp_rules simp: depth_def push_defs)

lemma exec_push_safe: "vm_safe (exec_push args)"
  using nibble_bounds [of args] unfolding exec_push_def Let_def by (auto intro!: vm_safeI wp_rules simp: depth_def push_defs)

lemma exec_push_l_safe: "vm_safe (exec_push_l args)"
  using nibble_bounds [of args] unfolding exec_push_l_def Let_def by (auto intro!: vm_safeI wp_rules simp: depth_def push_defs)

lemma exec_drop_safe: "vm_safe exec_drop"
  unfolding exec_drop_def Let_def by (auto intro!: vm_safeI wp_rules simp: depth_def push_defs)

lemma exec_nip_safe: "vm_safe exec_nip"
  unfolding exec_nip_def Let_def by (auto intro!: vm_safeI wp_rules simp: depth_def push_defs)

lemma exec_pop_safe: "vm_safe (exec_pop args)"
  using nibble_bounds [of args] unfolding exec_pop_def Let_def by (auto intro!: vm_safeI wp_rules simp: depth_def push_defs)

lemma exec_pop_l_safe: "vm_safe (exec_pop_l args)"
  using nibble_bounds [of args] unfolding exec_pop_l_def Let_def by (auto intro!: vm_safeI wp_rules simp: depth_def push_defs)

lemma exec_xchg2_safe: "vm_safe (exec_xchg2 args)"
  using nibble_bounds [of args] unfolding exec_xchg2_def Let_def by (auto intro!: vm_safeI wp_rules simp: depth_def push_defs)

lemma exec_xcpu_safe: "vm_safe (exec_xcpu args)"
  using nibble_bounds [of args] unfolding exec_xcpu_def Let_def by (auto intro!: vm_safeI wp_rules simp: depth_def push_defs)

lemma exec_puxc_safe: "vm_safe (exec_puxc args)"
  using nibble_bounds [of args] unfolding exec_puxc_def Let_def by (auto intro!: vm_safeI wp_rules simp: depth_def push_defs)

lemma exec_push2_safe: "vm_safe (exec_push2 args)"
  using nibble_bounds [of args] unfolding exec_push2_def Let_def by (auto intro!: vm_safeI wp_rules simp: depth_def push_defs)

lemma exec_xchg3_safe: "vm_safe (exec_xchg3 args)"
  using nibble_bounds [of args] unfolding exec_xchg3_def Let_def by (auto intro!: vm_safeI wp_rules simp: depth_def push_defs)

lemma exec_xc2pu_safe: "vm_safe (exec_xc2pu args)"
  using nibble_bounds [of args] unfolding exec_xc2pu_def Let_def by (auto intro!: vm_safeI wp_rules simp: depth_def push_defs)

lemma exec_xcpuxc_safe: "vm_safe (exec_xcpuxc args)"
  using nibble_bounds [of args] unfolding exec_xcpuxc_def Let_def by (auto intro!: vm_safeI wp_rules simp: depth_def push_defs)

lemma exec_xcpu2_safe: "vm_safe (exec_xcpu2 args)"
  using nibble_bounds [of args] unfolding exec_xcpu2_def Let_def by (auto intro!: vm_safeI wp_rules simp: depth_def push_defs)

lemma exec_puxc2_safe: "vm_safe (exec_puxc2 args)"
  using nibble_bounds [of args] unfolding exec_puxc2_def Let_def by (auto intro!: vm_safeI wp_rules simp: depth_def push_defs)

lemma exec_puxcpu_safe: "vm_safe (exec_puxcpu args)"
  using nibble_bounds [of args] unfolding exec_puxcpu_def Let_def by (auto intro!: vm_safeI wp_rules simp: depth_def push_defs)

lemma exec_pu2xc_safe: "vm_safe (exec_pu2xc args)"
  using nibble_bounds [of args] unfolding exec_pu2xc_def Let_def by (auto intro!: vm_safeI wp_rules simp: depth_def push_defs)

lemma exec_push3_safe: "vm_safe (exec_push3 args)"
  using nibble_bounds [of args] unfolding exec_push3_def Let_def by (auto intro!: vm_safeI wp_rules simp: depth_def push_defs)

lemma exec_blkswap_safe: "vm_safe (exec_blkswap args)"
  using nibble_bounds [of args] unfolding exec_blkswap_def Let_def by (auto intro!: vm_safeI wp_rules simp: depth_def push_defs)

lemma exec_rot_safe: "vm_safe exec_rot"
  unfolding exec_rot_def Let_def by (auto intro!: vm_safeI wp_rules simp: depth_def push_defs)

lemma exec_rotrev_safe: "vm_safe exec_rotrev"
  unfolding exec_rotrev_def Let_def by (auto intro!: vm_safeI wp_rules simp: depth_def push_defs)

lemma exec_2swap_safe: "vm_safe exec_2swap"
  unfolding exec_2swap_def Let_def by (auto intro!: vm_safeI wp_rules simp: depth_def push_defs)

lemma exec_2drop_safe: "vm_safe exec_2drop"
  unfolding exec_2drop_def Let_def by (auto intro!: vm_safeI wp_rules simp: depth_def push_defs)

lemma exec_2dup_safe: "vm_safe exec_2dup"
  unfolding exec_2dup_def Let_def by (auto intro!: vm_safeI wp_rules simp: depth_def push_defs)

lemma exec_2over_safe: "vm_safe exec_2over"
  unfolding exec_2over_def Let_def by (auto intro!: vm_safeI wp_rules simp: depth_def push_defs)

lemma exec_reverse_safe: "vm_safe (exec_reverse args)"
  using nibble_bounds [of args] unfolding exec_reverse_def Let_def by (auto intro!: vm_safeI wp_rules simp: depth_def push_defs)

lemma exec_blkdrop_safe: "vm_safe (exec_blkdrop args)"
  using nibble_bounds [of args] unfolding exec_blkdrop_def Let_def by (auto intro!: vm_safeI wp_rules simp: depth_def push_defs)

lemma exec_blkdrop2_safe: "vm_safe (exec_blkdrop2 args)"
  using nibble_bounds [of args] unfolding exec_blkdrop2_def Let_def by (auto intro!: vm_safeI wp_rules simp: depth_def push_defs)

lemma exec_pick_safe: "vm_safe exec_pick"
  unfolding exec_pick_def Let_def by (auto intro!: vm_safeI wp_rules simp: depth_def push_defs)

lemma exec_blkswap_x_safe: "vm_safe exec_blkswap_x"
  unfolding exec_blkswap_x_def Let_def by (auto intro!: vm_safeI wp_rules simp: depth_def push_defs)

lemma exec_reverse_x_safe: "vm_safe exec_reverse_x"
  unfolding exec_reverse_x_def Let_def by (auto intro!: vm_safeI wp_rules simp: depth_def push_defs)

lemma exec_drop_x_safe: "vm_safe exec_drop_x"
  unfolding exec_drop_x_def Let_def by (auto intro!: vm_safeI wp_rules simp: depth_def push_defs)

lemma exec_tuck_safe: "vm_safe exec_tuck"
  unfolding exec_tuck_def Let_def by (auto intro!: vm_safeI wp_rules simp: depth_def push_defs)

lemma exec_xchg_x_safe: "vm_safe exec_xchg_x"
  unfolding exec_xchg_x_def Let_def by (auto intro!: vm_safeI wp_rules simp: depth_def push_defs)

lemma exec_depth_safe: "vm_safe exec_depth"
  unfolding exec_depth_def Let_def by (auto intro!: vm_safeI wp_rules simp: depth_def push_defs)

lemma exec_chkdepth_safe: "vm_safe exec_chkdepth"
  unfolding exec_chkdepth_def Let_def by (auto intro!: vm_safeI wp_rules simp: depth_def push_defs)

lemma exec_only_x_safe: "vm_safe exec_only_x"
  unfolding exec_only_x_def Let_def by (auto intro!: vm_safeI wp_rules simp: depth_def push_defs)

lemma exec_xchg1_safe: "2 \<le> args mod 16 \<Longrightarrow> vm_safe (exec_xchg1 args)"
  using nibble_bounds [of args] unfolding exec_xchg1_def Let_def lo4_def
  by (auto intro!: vm_safeI wp_rules simp: depth_def)

lemma exec_blkpush_safe: "vm_safe (exec_blkpush args)"
  using nibble_bounds [of args] unfolding exec_blkpush_def Let_def
  by (auto intro!: vm_safeI wp_rules wp_vrepeat_stk [where d = 1] simp: depth_def)

lemma exec_roll_safe: "vm_safe exec_roll"
  unfolding exec_roll_def
  by (auto intro!: vm_safeI wp_rules wp_vrepeat_stk [where d = 0] simp: depth_def)

lemma exec_rollrev_safe: "vm_safe exec_rollrev"
  unfolding exec_rollrev_def
  by (auto intro!: vm_safeI wp_rules wp_vrepeat_stk [where d = 0] simp: depth_def)

lemma exec_onlytop_x_safe: "vm_safe exec_onlytop_x"
  unfolding exec_onlytop_x_def Let_def
  by (auto intro!: vm_safeI wp_rules wp_vrepeat_stk [where d = 0] simp: depth_def)

lemmas stack_ops_safe_rules =
  exec_nop_safe exec_swap_safe exec_xchg0_safe exec_xchg0_l_safe exec_xchg_safe
  exec_dup_safe exec_over_safe exec_push_safe exec_push_l_safe exec_drop_safe
  exec_nip_safe exec_pop_safe exec_pop_l_safe exec_xchg2_safe exec_xcpu_safe
  exec_puxc_safe exec_push2_safe exec_xchg3_safe exec_xc2pu_safe exec_xcpuxc_safe
  exec_xcpu2_safe exec_puxc2_safe exec_puxcpu_safe exec_pu2xc_safe exec_push3_safe
  exec_blkswap_safe exec_rot_safe exec_rotrev_safe exec_2swap_safe exec_2drop_safe
  exec_2dup_safe exec_2over_safe exec_reverse_safe exec_blkdrop_safe exec_blkdrop2_safe
  exec_pick_safe exec_blkswap_x_safe exec_reverse_x_safe exec_drop_x_safe exec_tuck_safe
  exec_xchg_x_safe exec_depth_safe exec_chkdepth_safe exec_only_x_safe exec_xchg1_safe
  exec_blkpush_safe exec_roll_safe exec_rollrev_safe exec_onlytop_x_safe

lemma exec_xchg1_range: "instr_safe (mkfixedrange 0x12 0x20 8 4 exec_xchg1)"
proof -
  have "vm_safe (exec_xchg1 (opcode div 2 ^ 16))" if "0x12 * 2 ^ 16 \<le> opcode" "opcode < 0x20 * 2 ^ 16" for opcode
  proof -
    define n where "n = opcode div 2 ^ 16"
    have "0x12 \<le> n" "n < 0x20" using that by (auto simp: n_def)
    then have "2 \<le> n mod 16" by presburger
    then have "2 \<le> opcode div 2 ^ 16 mod 16" by (simp only: n_def)
    then show ?thesis by (rule exec_xchg1_safe)
  qed
  then show ?thesis by (simp add: instr_safe_def mkfixedrange_def vm_safe_unless_safe)
qed

lemma register_stack_ops_safe: "\<forall>i \<in> set register_stack_ops. instr_safe i"
  unfolding register_stack_ops_def
  by (simp add: instr_safe_args exec_xchg1_range stack_ops_safe_rules)

section \<open>What the block operations do\<close>

text \<open>Three reversals exchange two adjacent blocks.\<close>

lemma three_reversals:
  assumes "stk s = ys @ xs @ zs" "length ys = y" "length xs = x"
  shows "vdo [reverse_range (int x + int y) (int y), reverse_range (int y) 0, reverse_range (int x + int y) 0] s
    = Ok 0 (s\<lparr>stk := xs @ ys @ zs\<rparr>)"
  using assms by (simp add: vthen_def vbind_def reverse_range_def depth_def vret_def nat_add_distrib)

lemma blkswap_blocks:
  assumes "x + y \<le> length (stk s)"
  shows "vdo [reverse_range (int x + int y) (int y), reverse_range (int y) 0, reverse_range (int x + int y) 0] s
    = Ok 0 (s\<lparr>stk := take x (drop y (stk s)) @ take y (stk s) @ drop (x + y) (stk s)\<rparr>)"
proof (rule three_reversals)
  show "stk s = take y (stk s) @ take x (drop y (stk s)) @ drop (x + y) (stk s)"
    by (metis append_take_drop_id drop_drop add.commute)
qed (use assms in auto)

lemma swap_list_adjacent:
  "length xs = i \<Longrightarrow> swap_list i (Suc i) (xs @ a # b # ys) = xs @ b # a # ys"
  by (simp add: swap_list_def nth_append list_update_append)

text \<open>The loops of \<open>ROLL\<close> and \<open>ROLLREV\<close> carry one entry over \<open>n\<close> others.\<close>

lemma roll_loop:
  assumes "m \<le> n" "stk s = xs @ a # zs" "length xs = n"
  shows "vrepeat m (\<lambda>k. swap (int n - 1 - int k) (int n - int k)) s =
    Ok () (s\<lparr>stk := take (n - m) xs @ a # drop (n - m) xs @ zs\<rparr>)"
  using assms(1)
proof (induction m)
  case 0
  have "s\<lparr>stk := xs @ a # zs\<rparr> = s" by (simp flip: assms(2))
  then show ?case using assms(3) by (simp add: vret_def)
next
  case (Suc m)
  then have m: "m < n" by simp
  let ?i = "n - Suc m"
  have i: "n - m = Suc ?i" "nat (int n - 1 - int m) = ?i" "nat (int n - int m) = Suc ?i" using m by auto
  have "take (n - m) xs = take ?i xs @ [xs ! ?i]"
    using assms(3) m by (simp add: i(1) take_Suc_conv_app_nth)
  moreover have "drop ?i xs = xs ! ?i # drop (n - m) xs"
    using assms(3) m by (simp add: i(1) Cons_nth_drop_Suc)
  moreover have "length (take ?i xs) = ?i" using assms(3) by simp
  ultimately have "swap_list ?i (Suc ?i) (take (n - m) xs @ a # drop (n - m) xs @ zs) =
      take ?i xs @ a # drop ?i xs @ zs"
    using swap_list_adjacent [of "take ?i xs" ?i "xs ! ?i" a] by simp
  then show ?case
    using Suc m assms(3) by (simp add: vthen_def vbind_def swap_def depth_def i(2,3))
qed

lemma rollrev_loop:
  assumes "m \<le> n" "stk s = a # xs @ zs" "length xs = n"
  shows "vrepeat m (\<lambda>k. swap (int k) (int k + 1)) s = Ok () (s\<lparr>stk := take m xs @ a # drop m xs @ zs\<rparr>)"
  using assms(1)
proof (induction m)
  case 0
  have "s\<lparr>stk := a # xs @ zs\<rparr> = s" by (simp flip: assms(2))
  then show ?case by (simp add: vret_def)
next
  case (Suc m)
  then have m: "m < n" by simp
  have "drop m xs = xs ! m # drop (Suc m) xs" using assms(3) m by (simp add: Cons_nth_drop_Suc)
  moreover have "length (take m xs) = m" using assms(3) m by simp
  ultimately have "swap_list m (Suc m) (take m xs @ a # drop m xs @ zs) =
      take (Suc m) xs @ a # drop (Suc m) xs @ zs"
    using swap_list_adjacent [of "take m xs" m a "xs ! m"] assms(3) m by (simp add: take_Suc_conv_app_nth)
  moreover have "nat (int m + 1) = Suc m" by simp
  ultimately show ?case
    using Suc m assms(3) by (simp add: vthen_def vbind_def swap_def depth_def)
qed

text \<open>The loop of \<open>ONLYTOPX\<close> moves the top \<open>x\<close> entries to the bottom.\<close>

lemma onlytop_loop:
  assumes "m \<le> x" "length (stk s) = n" "x < n"
  shows "\<exists>ys. vrepeat m (\<lambda>k. move_entry (int n - 1 - int k) (int n - 1 - int k - (int n - int x))) s
      = Ok () (s\<lparr>stk := ys @ drop (x - m) (take x (stk s))\<rparr>) \<and> length ys = n - m \<and>
      take (x - m) ys = take (x - m) (stk s)"
  using assms(1)
proof (induction m)
  case 0
  show ?case using assms by (auto simp: vret_def intro!: exI [of _ "stk s"])
next
  case (Suc m)
  then obtain ys where ys: "vrepeat m (\<lambda>k. move_entry (int n - 1 - int k) (int n - 1 - int k - (int n - int x))) s
      = Ok () (s\<lparr>stk := ys @ drop (x - m) (take x (stk s))\<rparr>)" "length ys = n - m"
      "take (x - m) ys = take (x - m) (stk s)" by auto
  let ?i = "n - Suc m" and ?j = "x - Suc m"
  have ij: "nat (int n - 1 - int m) = ?i" "nat (int n - 1 - int m - (int n - int x)) = ?j"
    "?i < length ys" "?j < ?i" "x - m = Suc ?j" using Suc.prems assms ys(2) by auto
  have top: "ys = take ?i ys @ [ys ! ?i]"
    using ij(3) ys(2) Suc.prems assms(3) take_Suc_conv_app_nth [of ?i ys] by simp
  have yj: "ys ! ?j = stk s ! ?j"
    using ys(3) ij(5) by (metis lessI nth_take)
  have dr: "drop ?j (take x (stk s)) = stk s ! ?j # drop (x - m) (take x (stk s))"
    using Suc.prems assms by (simp add: ij(5) Cons_nth_drop_Suc [symmetric])
  let ?ys = "(take ?i ys)[?j := Null]"
  have "(ys @ drop (x - m) (take x (stk s)))[?i := ys ! ?j, ?j := Null] = ?ys @ drop ?j (take x (stk s))"
    using ij by (subst top) (simp add: dr yj list_update_append)
  moreover have "(ys @ drop (x - m) (take x (stk s))) ! ?j = ys ! ?j" using ij by (simp add: nth_append)
  moreover have "length ?ys = n - Suc m" using ys(2) by simp
  moreover have "take ?j ?ys = take ?j (stk s)"
  proof -
    have "take ?j ?ys = take ?j (take (x - m) ys)" using ij by (simp add: min_def)
    also have "\<dots> = take ?j (stk s)" using ij unfolding ys(3) by (simp add: min_def)
    finally show ?thesis .
  qed
  ultimately show ?case
    using Suc.prems assms ys(1,2) ij
    by (intro exI [of _ ?ys]) (simp add: vthen_def vbind_def move_entry_def depth_def)
qed

lemma pop_smallint_Int:
  assumes "stk s = IntVal (Some n) # xs" "mn \<le> n" "n \<le> mx" "- (2 ^ 63) \<le> n" "n < 2 ^ 63"
  shows "pop_smallint_range mx mn s = Ok n (s\<lparr>stk := xs\<rparr>)"
  using assms
  by (simp add: pop_smallint_range_def pop_long_range_def pop_long_def pop_int_def pop_as_def pop_chk_def
      vthen_def vbind_def check_underflow_def depth_def pop_def vret_def)

lemma exec_blkswap_eq:
  assumes "x = nat (mid4 args) + 1" "y = nat (lo4 args) + 1"
  shows "exec_blkswap args s =
    (if x + y \<le> length (stk s)
     then Ok 0 (s\<lparr>stk := take x (drop y (stk s)) @ take y (stk s) @ drop (x + y) (stk s)\<rparr>)
     else Exc (VmError stk_und) s)"
proof -
  have n: "mid4 args + 1 = int x" "lo4 args + 1 = int y"
    using nibble_bounds [of args] by (simp_all add: assms)
  show ?thesis
  proof (cases "x + y \<le> length (stk s)")
    case True
    then have "check_underflow (int x + int y) s = Ok () s" by (simp add: check_underflow_def depth_def)
    with True blkswap_blocks [OF True] show ?thesis
      unfolding exec_blkswap_def Let_def n by (simp add: vthen_def vbind_def)
  next
    case False
    then show ?thesis
      unfolding exec_blkswap_def Let_def n by (simp add: vthen_def vbind_def check_underflow_def depth_def)
  qed
qed

lemma exec_roll_eq:
  assumes "stk s = IntVal (Some (int n)) # xs @ a # zs" "length xs = n" "n \<le> 255"
  shows "exec_roll s = Ok 0 (s\<lparr>stk := a # xs @ zs\<rparr>)"
proof -
  have "pop_smallint_range 255 0 s = Ok (int n) (s\<lparr>stk := xs @ a # zs\<rparr>)"
    using assms by (intro pop_smallint_Int) simp_all
  moreover have "vrepeat n (\<lambda>k. swap (int n - 1 - int k) (int n - int k)) (s\<lparr>stk := xs @ a # zs\<rparr>)
      = Ok () (s\<lparr>stk := a # xs @ zs\<rparr>)"
    using roll_loop [of n n "s\<lparr>stk := xs @ a # zs\<rparr>" xs a zs] assms by simp
  ultimately show ?thesis
    using assms by (simp add: exec_roll_def vthen_def vbind_def check_underflow_def check_underflow_p_def
        depth_def vret_def)
qed

lemma exec_rollrev_eq:
  assumes "stk s = IntVal (Some (int n)) # a # xs @ zs" "length xs = n" "n \<le> 255"
  shows "exec_rollrev s = Ok 0 (s\<lparr>stk := xs @ a # zs\<rparr>)"
proof -
  have "pop_smallint_range 255 0 s = Ok (int n) (s\<lparr>stk := a # xs @ zs\<rparr>)"
    using assms by (intro pop_smallint_Int) simp_all
  moreover have "vrepeat n (\<lambda>k. swap (int k) (int k + 1)) (s\<lparr>stk := a # xs @ zs\<rparr>)
      = Ok () (s\<lparr>stk := xs @ a # zs\<rparr>)"
    using rollrev_loop [of n n "s\<lparr>stk := a # xs @ zs\<rparr>" a xs zs] assms by simp
  ultimately show ?thesis
    using assms by (simp add: exec_rollrev_def vthen_def vbind_def check_underflow_def check_underflow_p_def
        depth_def vret_def)
qed

lemma exec_onlytop_eq:
  assumes "stk s = IntVal (Some (int n)) # xs @ zs" "length xs = n" "n \<le> 255"
  shows "exec_onlytop_x s = Ok 0 (s\<lparr>stk := xs\<rparr>)"
proof -
  let ?s = "s\<lparr>stk := xs @ zs\<rparr>" and ?N = "n + length zs"
  have p: "pop_smallint_range 255 0 s = Ok (int n) ?s"
    using assms by (intro pop_smallint_Int) simp_all
  show ?thesis
  proof (cases "zs = []")
    case True
    with p assms show ?thesis
      by (simp add: exec_onlytop_x_def vthen_def vbind_def check_underflow_def depth_def vret_def vget_def
          pop_many_def)
  next
    case False
    then have "n < ?N" by simp
    with onlytop_loop [of n n ?s ?N] obtain ys where ys: "vrepeat n (\<lambda>k. move_entry (int ?N - 1 - int k)
        (int ?N - 1 - int k - (int ?N - int n))) ?s = Ok () (?s\<lparr>stk := ys @ xs\<rparr>)" "length ys = ?N - n"
      using assms(2) by auto
    then show ?thesis
      using p assms False
      by (simp add: exec_onlytop_x_def Let_def vthen_def vbind_def check_underflow_def depth_def vret_def vget_def
          pop_many_def nat_diff_distrib)
  qed
qed

lemma exec_only_eq:
  assumes "stk s = IntVal (Some (int n)) # xs @ zs" "length zs = n" "n \<le> 255"
  shows "exec_only_x s = Ok 0 (s\<lparr>stk := zs\<rparr>)"
proof -
  have "pop_smallint_range 255 0 s = Ok (int n) (s\<lparr>stk := xs @ zs\<rparr>)"
    using assms by (intro pop_smallint_Int) simp_all
  with assms show ?thesis
    by (simp add: exec_only_x_def vthen_def vbind_def check_underflow_def depth_def vret_def vget_def pop_many_def)
qed

text \<open>
  C35: the block operations of the stack. \<open>BLKSWAP\<close> exchanges the two blocks its argument
  names, or fails with a stack underflow and no change; \<open>ROLL\<close> brings entry \<open>n\<close> to the top
  and \<open>ROLLREV\<close> buries the top below \<open>n\<close> entries; \<open>ONLYTOPX\<close> keeps exactly the top \<open>n\<close> and
  \<open>ONLYX\<close> the bottom \<open>n\<close> entries. All of them keep the other entries in order.
\<close>

theorem stack_block_ops:
  assumes "length xs = n" "length zs = m" "n \<le> 255" "m \<le> 255" "x = nat (mid4 args) + 1" "y = nat (lo4 args) + 1"
  shows "exec_blkswap args s =
      (if x + y \<le> length (stk s)
       then Ok 0 (s\<lparr>stk := take x (drop y (stk s)) @ take y (stk s) @ drop (x + y) (stk s)\<rparr>)
       else Exc (VmError stk_und) s)
    \<and> exec_roll (s\<lparr>stk := IntVal (Some (int n)) # xs @ a # zs\<rparr>) = Ok 0 (s\<lparr>stk := a # xs @ zs\<rparr>)
    \<and> exec_rollrev (s\<lparr>stk := IntVal (Some (int n)) # a # xs @ zs\<rparr>) = Ok 0 (s\<lparr>stk := xs @ a # zs\<rparr>)
    \<and> exec_onlytop_x (s\<lparr>stk := IntVal (Some (int n)) # xs @ zs\<rparr>) = Ok 0 (s\<lparr>stk := xs\<rparr>)
    \<and> exec_only_x (s\<lparr>stk := IntVal (Some (int m)) # xs @ zs\<rparr>) = Ok 0 (s\<lparr>stk := zs\<rparr>)"
proof (intro conjI)
  show "exec_roll (s\<lparr>stk := IntVal (Some (int n)) # xs @ a # zs\<rparr>) = Ok 0 (s\<lparr>stk := a # xs @ zs\<rparr>)"
    by (subst exec_roll_eq [where n = n and xs = xs]) (use assms in simp_all)
  show "exec_rollrev (s\<lparr>stk := IntVal (Some (int n)) # a # xs @ zs\<rparr>) = Ok 0 (s\<lparr>stk := xs @ a # zs\<rparr>)"
    by (subst exec_rollrev_eq [where n = n and xs = xs]) (use assms in simp_all)
  show "exec_onlytop_x (s\<lparr>stk := IntVal (Some (int n)) # xs @ zs\<rparr>) = Ok 0 (s\<lparr>stk := xs\<rparr>)"
    by (subst exec_onlytop_eq [where n = n and xs = xs]) (use assms in simp_all)
  show "exec_only_x (s\<lparr>stk := IntVal (Some (int m)) # xs @ zs\<rparr>) = Ok 0 (s\<lparr>stk := zs\<rparr>)"
    by (subst exec_only_eq [where n = m and zs = zs]) (use assms in simp_all)
qed (rule exec_blkswap_eq [OF assms(5,6)])

theorem stack_block_ops_witness:
  "exec_blkswap 0x10 (blank_vm\<lparr>stk := [Null, IntVal (Some 1), IntVal (Some 2)]\<rparr>)
      = Ok 0 (blank_vm\<lparr>stk := [IntVal (Some 1), IntVal (Some 2), Null]\<rparr>)
    \<and> exec_roll (blank_vm\<lparr>stk := [IntVal (Some 2), Null, IntVal None, IntVal (Some 7)]\<rparr>)
      = Ok 0 (blank_vm\<lparr>stk := [IntVal (Some 7), Null, IntVal None]\<rparr>)"
proof -
  note ops = stack_block_ops [where xs = "[Null, IntVal None]" and n = 2 and zs = "[]" and m = 0 and x = 2
      and args = "0x10" and y = 1 and s = "blank_vm\<lparr>stk := [Null, IntVal (Some 1), IntVal (Some 2)]\<rparr>"
      and a = "IntVal (Some 7)"]
  have args: "2 = nat (mid4 0x10) + 1" "1 = nat (lo4 0x10) + 1" by (simp_all add: mid4_def lo4_def)
  show ?thesis using ops [OF _ _ _ _ args] by (simp add: numeral_eq_Suc)
qed

end
