(* ===== verification/TupleOps.thy ===== *)
theory TupleOps
  imports StackOps
begin

text \<open>
  Tuples (\<open>tupleops.cpp\<close> and the helpers \<open>tuple_index\<close>, \<open>tuple_extend_index\<close>,
  \<open>tuple_extend_set_index\<close> of \<open>stack.cpp\<close>): every handler, the list of their opcodes, the
  proof that they are safe and keep tuples within 255 entries, and the laws that relate
  building, taking apart, reading and updating a tuple.
\<close>

section \<open>Helpers\<close>

definition tuple_index :: "stack_entry list \<Rightarrow> nat \<Rightarrow> stack_entry vm" where
  "tuple_index tup idx = (if idx \<ge> length tup then vthrow range_chk else vret (tup ! idx))"

definition tuple_extend_index :: "stack_entry list option \<Rightarrow> nat \<Rightarrow> stack_entry" where
  "tuple_extend_index tup idx =
     (case tup of None \<Rightarrow> Null | Some t \<Rightarrow> if idx \<ge> length t then Null else t ! idx)"

text \<open>
  The new tuple and the number of entries to pay for. A tuple that is too short is extended
  with nulls; storing a null beyond its end changes nothing unless \<open>force\<close>.
\<close>

definition tuple_extend_set_index ::
    "stack_entry list option \<Rightarrow> nat \<Rightarrow> stack_entry \<Rightarrow> bool \<Rightarrow> stack_entry list option \<times> nat" where
  "tuple_extend_set_index tup idx v force =
     (case tup of
        None \<Rightarrow>
          if v = Null \<and> \<not> force then (None, 0)
          else (Some ((replicate (idx + 1) Null)[idx := v]), idx + 1)
      | Some t \<Rightarrow>
          if length t \<le> idx then
            if v = Null \<and> \<not> force then (Some t, 0)
            else (Some ((t @ replicate (idx + 1 - length t) Null)[idx := v]), idx + 1)
          else (Some (t[idx := v]), length t))"

section \<open>Handlers\<close>

definition exec_push_null :: "int vm" where "exec_push_null = vdo [push Null]"

definition exec_is_null :: "int vm" where
  "exec_is_null = vbind pop_chk (\<lambda>x. vdo [push_bool (x = Null)])"

definition exec_null_swap_if :: "bool \<Rightarrow> nat \<Rightarrow> int vm" where
  "exec_null_swap_if cond dep =
     vthen (check_underflow (int dep + 1))
       (vbind pop_int_finite (\<lambda>x.
          vdo [if (sgn_int x = 0) \<noteq> cond
               then vthen (push Null) (vrepeat dep (\<lambda>i. swap (int i) (int i + 1)))
               else vret (),
               push_int (Some x)]))"

definition exec_null_swap_if_many :: "bool \<Rightarrow> nat \<Rightarrow> nat \<Rightarrow> int vm" where
  "exec_null_swap_if_many cond dep count =
     vthen (check_underflow (int dep + 1))
       (vbind pop_int_finite (\<lambda>x.
          vdo [if (sgn_int x = 0) \<noteq> cond
               then vthen (vrepeat count (\<lambda>i. push Null)) (vrepeat dep (\<lambda>i. swap (int i) (int i + int count)))
               else vret (),
               push_int (Some x)]))"

text \<open>The tuple gets the entries \<open>n - 1\<close> down to 0.\<close>

definition exec_mktuple_common :: "nat \<Rightarrow> int vm" where
  "exec_mktuple_common n =
     vthen (check_underflow (int n))
       (vbind (vget (\<lambda>s. rev (take n (stk s)))) (\<lambda>tuple.
          vdo [pop_many (int n), consume_tuple_gas n, push_tuple tuple]))"

definition exec_mktuple :: "nat \<Rightarrow> int vm" where
  "exec_mktuple args = exec_mktuple_common (args mod 16)"

definition exec_mktuple_var :: "int vm" where
  "exec_mktuple_var = vbind (pop_smallint_range 255 0) (\<lambda>n. exec_mktuple_common (nat n))"

definition exec_tuple_index_common :: "nat \<Rightarrow> int vm" where
  "exec_tuple_index_common n =
     vbind (pop_tuple_range 255 0) (\<lambda>tuple. vbind (tuple_index tuple n) (\<lambda>x. vdo [push x]))"

definition exec_tuple_index :: "nat \<Rightarrow> int vm" where
  "exec_tuple_index args = exec_tuple_index_common (args mod 16)"

definition exec_tuple_index_var :: "int vm" where
  "exec_tuple_index_var =
     vthen (check_underflow 2) (vbind (pop_smallint_range 254 0) (\<lambda>n. exec_tuple_index_common (nat n)))"

definition exec_tuple_quiet_index_common :: "nat \<Rightarrow> int vm" where
  "exec_tuple_quiet_index_common n =
     vbind (pop_maybe_tuple_range 255) (\<lambda>t. vdo [push (tuple_extend_index t n)])"

definition exec_tuple_quiet_index :: "nat \<Rightarrow> int vm" where
  "exec_tuple_quiet_index args = exec_tuple_quiet_index_common (args mod 16)"

definition exec_tuple_quiet_index_var :: "int vm" where
  "exec_tuple_quiet_index_var =
     vthen (check_underflow 2) (vbind (pop_smallint_range 254 0) (\<lambda>n. exec_tuple_quiet_index_common (nat n)))"

text \<open>An entry of a tuple outside its range is \<open>Undef\<close>, as in the vector.\<close>

definition do_explode_tuple :: "stack_entry list \<Rightarrow> nat \<Rightarrow> int vm" where
  "do_explode_tuple tuple n =
     vdo [vrepeat n (\<lambda>i. if i < length tuple then push (tuple ! i) else vundef), consume_tuple_gas n]"

definition exec_untuple_common :: "nat \<Rightarrow> int vm" where
  "exec_untuple_common n = vbind (pop_tuple_range n n) (\<lambda>t. do_explode_tuple t n)"

definition exec_untuple :: "nat \<Rightarrow> int vm" where
  "exec_untuple args = exec_untuple_common (args mod 16)"

definition exec_untuple_var :: "int vm" where
  "exec_untuple_var =
     vthen (check_underflow 2) (vbind (pop_smallint_range 255 0) (\<lambda>n. exec_untuple_common (nat n)))"

definition exec_untuple_first_common :: "nat \<Rightarrow> int vm" where
  "exec_untuple_first_common n = vbind (pop_tuple_range 255 n) (\<lambda>t. do_explode_tuple t n)"

definition exec_untuple_first :: "nat \<Rightarrow> int vm" where
  "exec_untuple_first args = exec_untuple_first_common (args mod 16)"

definition exec_untuple_first_var :: "int vm" where
  "exec_untuple_first_var =
     vthen (check_underflow 2) (vbind (pop_smallint_range 255 0) (\<lambda>n. exec_untuple_first_common (nat n)))"

definition exec_explode_tuple_common :: "nat \<Rightarrow> int vm" where
  "exec_explode_tuple_common n =
     vbind (pop_tuple_range n 0) (\<lambda>t.
       vbind (do_explode_tuple t (length t)) (\<lambda>_. vdo [push_smallint (int (length t))]))"

definition exec_explode_tuple :: "nat \<Rightarrow> int vm" where
  "exec_explode_tuple args = exec_explode_tuple_common (args mod 16)"

definition exec_explode_tuple_var :: "int vm" where
  "exec_explode_tuple_var =
     vthen (check_underflow 2) (vbind (pop_smallint_range 255 0) (\<lambda>n. exec_explode_tuple_common (nat n)))"

definition exec_tuple_set_index_common :: "nat \<Rightarrow> int vm" where
  "exec_tuple_set_index_common idx =
     vbind pop (\<lambda>x. vbind (pop_tuple_range 255 0) (\<lambda>tuple.
       if idx \<ge> length tuple then vthrow range_chk
       else vdo [consume_tuple_gas (length tuple), push (TupleVal (tuple[idx := x]))]))"

definition exec_tuple_set_index :: "nat \<Rightarrow> int vm" where
  "exec_tuple_set_index args = vthen (check_underflow 2) (exec_tuple_set_index_common (args mod 16))"

definition exec_tuple_set_index_var :: "int vm" where
  "exec_tuple_set_index_var =
     vthen (check_underflow 3) (vbind (pop_smallint_range 254 0) (\<lambda>n. exec_tuple_set_index_common (nat n)))"

definition exec_tuple_quiet_set_index_common :: "nat \<Rightarrow> int vm" where
  "exec_tuple_quiet_set_index_common idx =
     vbind pop (\<lambda>x. vbind (pop_maybe_tuple_range 255) (\<lambda>tuple.
       if idx \<ge> 255 then vthrow range_chk
       else case tuple_extend_set_index tuple idx x False of (tuple', tpay) \<Rightarrow>
         vdo [if tpay > 0 then consume_tuple_gas tpay else vret (), push_maybe_tuple tuple']))"

definition exec_tuple_quiet_set_index :: "nat \<Rightarrow> int vm" where
  "exec_tuple_quiet_set_index args =
     vthen (check_underflow 2) (exec_tuple_quiet_set_index_common (args mod 16))"

definition exec_tuple_quiet_set_index_var :: "int vm" where
  "exec_tuple_quiet_set_index_var =
     vthen (check_underflow 3) (vbind (pop_smallint_range 254 0) (\<lambda>n. exec_tuple_quiet_set_index_common (nat n)))"

definition exec_tuple_length :: "int vm" where
  "exec_tuple_length = vbind (pop_tuple_range 255 0) (\<lambda>t. vdo [push_smallint (int (length t))])"

definition exec_tuple_length_quiet :: "int vm" where
  "exec_tuple_length_quiet =
     vbind pop_chk (\<lambda>x. vdo [push_smallint (case as_tuple x of None \<Rightarrow> - 1 | Some t \<Rightarrow> int (length t))])"

definition exec_is_tuple :: "int vm" where
  "exec_is_tuple = vbind pop_chk (\<lambda>x. vdo [push_bool (entry_tp x = t_tuple)])"

definition exec_tuple_last :: "int vm" where
  "exec_tuple_last = vbind (pop_tuple_range 255 1) (\<lambda>t. vdo [push (last t)])"

definition exec_tuple_push :: "int vm" where
  "exec_tuple_push =
     vthen (check_underflow 2)
       (vbind pop (\<lambda>x. vbind (pop_tuple_range 254 0) (\<lambda>t.
          vdo [consume_tuple_gas (length (t @ [x])), push (TupleVal (t @ [x]))])))"

definition exec_tuple_pop :: "int vm" where
  "exec_tuple_pop =
     vbind (pop_tuple_range 255 1) (\<lambda>t.
       vdo [consume_tuple_gas (length (butlast t)), push (TupleVal (butlast t)), push (last t)])"

text \<open>An intermediate entry of \<open>INDEX2\<close> and \<open>INDEX3\<close>.\<close>

definition tuple_index_tuple :: "stack_entry list \<Rightarrow> nat \<Rightarrow> stack_entry list vm" where
  "tuple_index_tuple t i =
     vbind (tuple_index t i) (\<lambda>x.
       case as_tuple_range 255 0 x of None \<Rightarrow> vthrow type_chk | Some t1 \<Rightarrow> vret t1)"

definition exec_tuple_index2 :: "nat \<Rightarrow> int vm" where
  "exec_tuple_index2 args =
     (let i = args div 4 mod 4; j = args mod 4
      in vbind (pop_tuple_range 255 0) (\<lambda>t. vbind (tuple_index_tuple t i) (\<lambda>t1.
           vbind (tuple_index t1 j) (\<lambda>x. vdo [push x]))))"

definition exec_tuple_index3 :: "nat \<Rightarrow> int vm" where
  "exec_tuple_index3 args =
     (let i = args div 16 mod 4; j = args div 4 mod 4; k = args mod 4
      in vbind (pop_tuple_range 255 0) (\<lambda>t. vbind (tuple_index_tuple t i) (\<lambda>t1.
           vbind (tuple_index_tuple t1 j) (\<lambda>t2. vbind (tuple_index t2 k) (\<lambda>x. vdo [push x])))))"

definition register_tuple_ops :: "opcode_instr list" where
  "register_tuple_ops =
    [mksimple 0x6d 8 exec_push_null,
     mksimple 0x6e 8 exec_is_null,
     mkfixed 0x6f0 12 4 exec_mktuple,
     mkfixed 0x6f1 12 4 exec_tuple_index,
     mkfixed 0x6f2 12 4 exec_untuple,
     mkfixed 0x6f3 12 4 exec_untuple_first,
     mkfixed 0x6f4 12 4 exec_explode_tuple,
     mkfixed 0x6f5 12 4 exec_tuple_set_index,
     mkfixed 0x6f6 12 4 exec_tuple_quiet_index,
     mkfixed 0x6f7 12 4 exec_tuple_quiet_set_index,
     mksimple 0x6f80 16 exec_mktuple_var,
     mksimple 0x6f81 16 exec_tuple_index_var,
     mksimple 0x6f82 16 exec_untuple_var,
     mksimple 0x6f83 16 exec_untuple_first_var,
     mksimple 0x6f84 16 exec_explode_tuple_var,
     mksimple 0x6f85 16 exec_tuple_set_index_var,
     mksimple 0x6f86 16 exec_tuple_quiet_index_var,
     mksimple 0x6f87 16 exec_tuple_quiet_set_index_var,
     mksimple 0x6f88 16 exec_tuple_length,
     mksimple 0x6f89 16 exec_tuple_length_quiet,
     mksimple 0x6f8a 16 exec_is_tuple,
     mksimple 0x6f8b 16 exec_tuple_last,
     mksimple 0x6f8c 16 exec_tuple_push,
     mksimple 0x6f8d 16 exec_tuple_pop,
     mksimple 0x6fa0 16 (exec_null_swap_if True 0),
     mksimple 0x6fa1 16 (exec_null_swap_if False 0),
     mksimple 0x6fa2 16 (exec_null_swap_if True 1),
     mksimple 0x6fa3 16 (exec_null_swap_if False 1),
     mksimple 0x6fa4 16 (exec_null_swap_if_many True 0 2),
     mksimple 0x6fa5 16 (exec_null_swap_if_many False 0 2),
     mksimple 0x6fa6 16 (exec_null_swap_if_many True 1 2),
     mksimple 0x6fa7 16 (exec_null_swap_if_many False 1 2),
     mkfixed 0x6fb 12 4 exec_tuple_index2,
     mkfixed (0x6fc div 4) 10 6 exec_tuple_index3]"

section \<open>Safety\<close>

lemma wp_tuple_index [wp_rules]:
  assumes "stack_ok t" "\<And>x. entry_ok x \<Longrightarrow> Q x s" "R s"
  shows "wp (tuple_index t n) Q R s"
  unfolding tuple_index_def by (intro wp_rules) (use assms stack_ok_nth in auto)

lemma wp_tuple_index_tuple [wp_rules]:
  assumes "stack_ok t" "\<And>x. stack_ok x \<Longrightarrow> Q x s" "R s"
  shows "wp (tuple_index_tuple t n) Q R s"
  unfolding tuple_index_tuple_def by (intro wp_rules) (use assms as_tuple_range_ok in auto)

lemma tuple_extend_index_ok: "\<forall>u. t = Some u \<longrightarrow> stack_ok u \<and> length u \<le> 255 \<Longrightarrow> entry_ok (tuple_extend_index t n)"
  by (cases t) (auto simp: tuple_extend_index_def)

lemma stack_ok_nulls [simp]: "stack_ok (replicate n Null)"
  by (simp add: stack_ok_def)

lemma tuple_extend_set_index_ok:
  assumes "\<forall>u. t = Some u \<longrightarrow> stack_ok u \<and> length u \<le> 255" "\<not> 255 \<le> n" "entry_ok x"
    "tuple_extend_set_index t n x force = (Some v, pay)"
  shows "stack_ok v \<and> length v \<le> 255"
  using assms by (auto simp: tuple_extend_set_index_def simp del: replicate_Suc list_update.simps
      split: option.splits if_splits)

lemma entry_ok_Tuple [simp]: "entry_ok (TupleVal t) \<longleftrightarrow> length t \<le> 255 \<and> stack_ok t"
  by (simp add: stack_ok_def)

declare entry_ok.simps(3) [simp del]

lemma stack_ok_last: "stack_ok t \<Longrightarrow> 1 \<le> length t \<Longrightarrow> entry_ok (last t)"
  by (cases t rule: rev_cases) simp_all

lemma stack_ok_butlast [intro]: "stack_ok t \<Longrightarrow> stack_ok (butlast t)"
  by (auto simp: stack_ok_def dest: in_set_butlastD)

lemma exec_push_null_safe: "vm_safe exec_push_null"
  unfolding exec_push_null_def by (auto intro!: vm_safeI wp_rules)

lemma exec_is_null_safe: "vm_safe exec_is_null"
  unfolding exec_is_null_def by (auto intro!: vm_safeI wp_rules simp: push_defs int257_def)

lemma wp_prod:
  "(\<And>a b. p = (a, b) \<Longrightarrow> wp (f a b) Q R s) \<Longrightarrow> wp (case p of (a, b) \<Rightarrow> f a b) Q R s"
  by (cases p) simp

lemma wp_push_maybe_tuple:
  assumes "stack_ok (stk s)" "\<And>u. t = Some u \<Longrightarrow> stack_ok u \<and> length u \<le> 255"
    "\<And>xs. stack_ok xs \<Longrightarrow> int (length xs) = depth s + 1 \<Longrightarrow> Q () (s\<lparr>stk := xs\<rparr>)"
  shows "wp (push_maybe_tuple t) Q R s"
  unfolding push_defs by (intro wp_rules) (use assms in auto)

lemma wp_push_nulls [wp_rules]:
  assumes "stack_ok (stk s)"
    "\<And>xs. stack_ok xs \<Longrightarrow> int (length xs) = depth s + int n \<Longrightarrow> Q () (s\<lparr>stk := xs\<rparr>)"
  shows "wp (vrepeat n (\<lambda>i. push Null)) Q R s"
  by (rule wp_vrepeat_stk [where d = 1]) (use assms in \<open>auto intro!: wp_rules simp: depth_def\<close>)

lemma wp_swaps [wp_rules]:
  assumes "stack_ok (stk s)" "0 \<le> m" "int n + m \<le> depth s"
    "\<And>xs. stack_ok xs \<Longrightarrow> int (length xs) = depth s \<Longrightarrow> Q () (s\<lparr>stk := xs\<rparr>)"
  shows "wp (vrepeat n (\<lambda>i. swap (int i) (int i + m))) Q R s"
  by (rule wp_vrepeat_stk [where d = 0]) (use assms in \<open>auto intro!: wp_rules simp: depth_def\<close>)

lemma exec_null_swap_if_safe: "vm_safe (exec_null_swap_if c d)"
  unfolding exec_null_swap_if_def by (auto intro!: vm_safeI wp_rules simp: depth_def)

lemma exec_null_swap_if_many_safe: "vm_safe (exec_null_swap_if_many c d n)"
  unfolding exec_null_swap_if_many_def by (auto intro!: vm_safeI wp_rules simp: depth_def)

text \<open>The common parts of the handlers, from any state within the invariant.\<close>

lemma exec_mktuple_common_safe: "n \<le> 255 \<Longrightarrow> vm_safe (exec_mktuple_common n)"
  unfolding exec_mktuple_common_def
  by (auto intro!: vm_safeI wp_rules stack_ok_take simp: depth_def push_defs)

lemma exec_mktuple_safe: "vm_safe (exec_mktuple args)"
  unfolding exec_mktuple_def by (rule exec_mktuple_common_safe) (use mod_less_divisor [of 16 args] in linarith)

lemma vm_safe_var:
  assumes "\<And>n. 0 \<le> n \<Longrightarrow> n \<le> mx \<Longrightarrow> vm_safe (f n)"
  shows "vm_safe (vbind (pop_smallint_range mx 0) f)"
  by (auto intro!: vm_safeI wp_vbind wp_pop_smallint_range vm_safeD [OF assms])

lemma vm_safe_check: "vm_safe m \<Longrightarrow> vm_safe (vthen (check_underflow n) m)"
  by (rule vm_safeI, rule wp_vthen, rule wp_check_underflow, rule vm_safeD) auto

lemma exec_mktuple_var_safe: "vm_safe exec_mktuple_var"
  unfolding exec_mktuple_var_def by (intro vm_safe_var exec_mktuple_common_safe) simp

lemma exec_tuple_index_common_safe: "vm_safe (exec_tuple_index_common n)"
  unfolding exec_tuple_index_common_def by (auto intro!: vm_safeI wp_rules)

lemma exec_tuple_quiet_index_common_safe: "vm_safe (exec_tuple_quiet_index_common n)"
  unfolding exec_tuple_quiet_index_common_def by (auto intro!: vm_safeI wp_rules tuple_extend_index_ok)

lemma vm_safe_index:
  "vm_safe (exec_tuple_index args)" "vm_safe exec_tuple_index_var"
  "vm_safe (exec_tuple_quiet_index args)" "vm_safe exec_tuple_quiet_index_var"
  unfolding exec_tuple_index_def exec_tuple_index_var_def exec_tuple_quiet_index_def exec_tuple_quiet_index_var_def
  by (intro vm_safe_var vm_safe_check exec_tuple_index_common_safe exec_tuple_quiet_index_common_safe)+

lemma wp_do_explode_tuple [wp_rules]:
  assumes "stack_ok (stk s)" "stack_ok t" "n \<le> length t"
    "\<And>xs g. stack_ok xs \<Longrightarrow> gas_ok (gas s) g \<Longrightarrow> Q 0 (s\<lparr>stk := xs, gas := g\<rparr>)"
  shows "wp (do_explode_tuple t n) Q R s"
  unfolding do_explode_tuple_def
  by (intro wp_rules, rule wp_vrepeat_stk [where d = 1])
    (use assms in \<open>auto intro!: wp_rules simp: depth_def\<close>)

lemma exec_untuple_common_safe: "vm_safe (exec_untuple_common n)"
  unfolding exec_untuple_common_def by (auto intro!: vm_safeI wp_rules)

lemma exec_untuple_first_common_safe: "vm_safe (exec_untuple_first_common n)"
  unfolding exec_untuple_first_common_def by (auto intro!: vm_safeI wp_rules)

lemma exec_explode_tuple_common_safe: "vm_safe (exec_explode_tuple_common n)"
  unfolding exec_explode_tuple_common_def
  by (auto intro!: vm_safeI wp_rules simp: push_defs int257_def)

lemma vm_safe_untuple:
  "vm_safe (exec_untuple args)" "vm_safe exec_untuple_var"
  "vm_safe (exec_untuple_first args)" "vm_safe exec_untuple_first_var"
  "vm_safe (exec_explode_tuple args)" "vm_safe exec_explode_tuple_var"
  unfolding exec_untuple_def exec_untuple_var_def exec_untuple_first_def exec_untuple_first_var_def
    exec_explode_tuple_def exec_explode_tuple_var_def
  by (intro vm_safe_var vm_safe_check exec_untuple_common_safe exec_untuple_first_common_safe
      exec_explode_tuple_common_safe)+

text \<open>The two store operations pop without a check of their own: their callers have checked.\<close>

lemma wp_tuple_set_index [wp_rules]:
  assumes "vm_inv s0 s" "has_code s" "2 \<le> depth s"
  shows "wp (exec_tuple_set_index_common n) (\<lambda>r s'. vm_inv s0 s' \<and> (r = 0 \<longrightarrow> has_code s')) (vm_inv s0) s"
  unfolding exec_tuple_set_index_common_def using assms
  by (auto intro!: wp_rules simp: depth_def push_defs)

lemma wp_tuple_quiet_set_index [wp_rules]:
  assumes "vm_inv s0 s" "has_code s" "2 \<le> depth s"
  shows "wp (exec_tuple_quiet_set_index_common n) (\<lambda>r s'. vm_inv s0 s' \<and> (r = 0 \<longrightarrow> has_code s')) (vm_inv s0) s"
  unfolding exec_tuple_quiet_set_index_common_def using assms
  by (intro wp_rules wp_prod) (auto simp: depth_def intro!: wp_rules wp_push_maybe_tuple dest: tuple_extend_set_index_ok)

lemma vm_safe_set_index:
  "vm_safe (exec_tuple_set_index args)" "vm_safe exec_tuple_set_index_var"
  "vm_safe (exec_tuple_quiet_set_index args)" "vm_safe exec_tuple_quiet_set_index_var"
  unfolding exec_tuple_set_index_def exec_tuple_set_index_var_def exec_tuple_quiet_set_index_def
    exec_tuple_quiet_set_index_var_def
  by (auto intro!: vm_safeI wp_rules simp: depth_def)

lemma int257_minus1: "int257 (- 1)"
  by (simp add: int257_def)

lemma int257_length [simp]: "n \<le> 255 \<Longrightarrow> int257 (int n)"
  by (simp add: int257_def)

lemma int257_tuple: "entry_ok x \<Longrightarrow> as_tuple x = Some t \<Longrightarrow> int257 (int (length t))"
  by (drule (1) as_entry_ok(3)) simp

lemma exec_tuple_length_safe: "vm_safe exec_tuple_length"
  unfolding exec_tuple_length_def by (auto intro!: vm_safeI wp_rules simp: push_defs)

lemma exec_tuple_length_quiet_safe: "vm_safe exec_tuple_length_quiet"
  unfolding exec_tuple_length_quiet_def
  by (auto intro!: vm_safeI wp_rules simp: push_defs int257_minus1 int257_tuple split: option.split)

lemma exec_is_tuple_safe: "vm_safe exec_is_tuple"
  unfolding exec_is_tuple_def by (auto intro!: vm_safeI wp_rules simp: push_defs int257_def)

lemma exec_tuple_last_safe: "vm_safe exec_tuple_last"
  unfolding exec_tuple_last_def by (auto intro!: vm_safeI wp_rules stack_ok_last)

lemma exec_tuple_push_safe: "vm_safe exec_tuple_push"
  unfolding exec_tuple_push_def by (auto intro!: vm_safeI wp_rules simp: depth_def)

lemma exec_tuple_pop_safe: "vm_safe exec_tuple_pop"
  unfolding exec_tuple_pop_def by (auto intro!: vm_safeI wp_rules stack_ok_last)

lemma exec_tuple_index2_safe: "vm_safe (exec_tuple_index2 args)"
  unfolding exec_tuple_index2_def Let_def by (auto intro!: vm_safeI wp_rules)

lemma exec_tuple_index3_safe: "vm_safe (exec_tuple_index3 args)"
  unfolding exec_tuple_index3_def Let_def by (auto intro!: vm_safeI wp_rules)

lemmas tuple_ops_safe_rules = exec_push_null_safe exec_is_null_safe exec_null_swap_if_safe
  exec_null_swap_if_many_safe exec_mktuple_safe exec_mktuple_var_safe vm_safe_index vm_safe_untuple
  vm_safe_set_index exec_tuple_length_safe exec_tuple_length_quiet_safe exec_is_tuple_safe
  exec_tuple_last_safe exec_tuple_push_safe exec_tuple_pop_safe exec_tuple_index2_safe exec_tuple_index3_safe

lemma register_tuple_ops_safe: "\<forall>i \<in> set register_tuple_ops. instr_safe i"
  unfolding register_tuple_ops_def by (simp add: instr_safe_args tuple_ops_safe_rules)

section \<open>Building, taking apart, reading, updating\<close>

text \<open>A state after \<open>n\<close> units of gas are used.\<close>

definition spend :: "int \<Rightarrow> vm_state \<Rightarrow> vm_state" where
  "spend n s = s\<lparr>gas := (gas s)\<lparr>gas_remaining := gas_remaining (gas s) - n\<rparr>\<rparr>"

lemma consume_tuple_gas_eq: "consume_tuple_gas n s = Ok () (spend (int n) s)"
  by (simp add: consume_tuple_gas_def consume_gas_def vmod_def spend_def)

lemma spend_stk [simp]: "spend n (s\<lparr>stk := xs\<rparr>) = (spend n s)\<lparr>stk := xs\<rparr>"
  by (simp add: spend_def)

lemma pop_tuple_range_eq:
  assumes "stk s = TupleVal t # zs"
  shows "pop_tuple_range mx mn s =
    (if mn \<le> length t \<and> length t \<le> mx then Ok t (s\<lparr>stk := zs\<rparr>) else Exc (VmError type_chk) (s\<lparr>stk := zs\<rparr>))"
  using assms
  by (simp add: pop_tuple_range_def pop_as_def pop_chk_def vthen_def vbind_def check_underflow_def depth_def pop_def
      as_tuple_range_def vret_def vthrow_def)

text \<open>Pushing the entries of a tuple one by one puts them on the stack in reverse.\<close>

lemma explode_loop:
  "m \<le> length t \<Longrightarrow>
     vrepeat m (\<lambda>i. if i < length t then push (t ! i) else vundef) s = Ok () (s\<lparr>stk := rev (take m t) @ stk s\<rparr>)"
proof (induction m)
  case (Suc m)
  then show ?case
    by (simp add: vthen_def vbind_def push_def vmod_def take_Suc_conv_app_nth)
qed (simp add: vret_def)

lemma do_explode_tuple_eq:
  "n \<le> length t \<Longrightarrow> do_explode_tuple t n s = Ok 0 (spend (int n) (s\<lparr>stk := rev (take n t) @ stk s\<rparr>))"
  by (simp add: do_explode_tuple_def vthen_def vbind_def explode_loop consume_tuple_gas_eq vret_def)

lemma exec_mktuple_common_eq:
  "exec_mktuple_common (length xs) (s\<lparr>stk := xs @ zs\<rparr>) = Ok 0 (spend (int (length xs)) (s\<lparr>stk := TupleVal (rev xs) # zs\<rparr>))"
  by (simp add: exec_mktuple_common_def vthen_def vbind_def check_underflow_def depth_def vget_def pop_many_def
      consume_tuple_gas_eq push_tuple_def push_def vmod_def vret_def)

text \<open>
  C33: tuples round-trip. \<open>TUPLE n\<close> replaces the top \<open>n\<close> entries by one tuple that holds them
  in order, \<open>UNTUPLE n\<close> undoes it exactly and fails with a type error on a tuple of another
  length, \<open>EXPLODE\<close> also pushes the number of entries; each costs one unit of gas per entry.
\<close>

theorem tuple_round_trip:
  assumes "length xs = n" "n \<le> mx" "n \<noteq> m"
  shows "exec_mktuple_common n (s\<lparr>stk := xs @ zs\<rparr>) = Ok 0 (spend (int n) (s\<lparr>stk := TupleVal (rev xs) # zs\<rparr>))
    \<and> exec_untuple_common n (s\<lparr>stk := TupleVal (rev xs) # zs\<rparr>) = Ok 0 (spend (int n) (s\<lparr>stk := xs @ zs\<rparr>))
    \<and> exec_untuple_common m (s\<lparr>stk := TupleVal (rev xs) # zs\<rparr>) = Exc (VmError type_chk) (s\<lparr>stk := zs\<rparr>)
    \<and> exec_explode_tuple_common mx (s\<lparr>stk := TupleVal (rev xs) # zs\<rparr>)
        = Ok 0 (spend (int n) (s\<lparr>stk := IntVal (Some (int n)) # xs @ zs\<rparr>))"
  using assms exec_mktuple_common_eq [where xs = xs and s = s and zs = zs]
  by (auto simp: exec_untuple_common_def exec_explode_tuple_common_def vbind_def vthen_def pop_tuple_range_eq
      do_explode_tuple_eq push_smallint_def push_def vmod_def vret_def)

theorem tuple_round_trip_witness:
  "exec_untuple_common 2 (blank_vm\<lparr>stk := [TupleVal [Null, IntVal (Some 5)]]\<rparr>)
     = Ok 0 (spend 2 (blank_vm\<lparr>stk := [IntVal (Some 5), Null]\<rparr>))"
  using tuple_round_trip [where xs = "[IntVal (Some 5), Null]" and n = 2 and mx = 15 and m = 3 and s = blank_vm
      and zs = "[]"] by simp

text \<open>The entry that \<open>push_maybe_tuple\<close> pushes.\<close>

definition maybe_tuple_entry :: "stack_entry list option \<Rightarrow> stack_entry" where
  "maybe_tuple_entry t = (case t of None \<Rightarrow> Null | Some xs \<Rightarrow> TupleVal xs)"

lemma push_maybe_tuple_eq: "push_maybe_tuple t s = Ok () (s\<lparr>stk := maybe_tuple_entry t # stk s\<rparr>)"
  by (cases t) (simp_all add: push_maybe_tuple_def push_null_def push_def vmod_def maybe_tuple_entry_def)

lemma pop_maybe_tuple_range_eq:
  assumes "stk s = maybe_tuple_entry t # zs" "\<forall>u. t = Some u \<longrightarrow> length u \<le> mx"
  shows "pop_maybe_tuple_range mx s = Ok t (s\<lparr>stk := zs\<rparr>)"
  using assms
  by (cases t) (simp_all add: pop_maybe_tuple_range_def pop_as_def pop_chk_def vthen_def vbind_def check_underflow_def
      depth_def pop_def as_tuple_range_def vret_def maybe_tuple_entry_def)

lemma tuple_extend_set_get:
  "tuple_extend_index (fst (tuple_extend_set_index t i v force)) j = (if j = i then v else tuple_extend_index t j)"
  by (cases t)
    (auto simp: tuple_extend_index_def tuple_extend_set_index_def nth_list_update nth_append
      simp del: replicate_Suc list_update.simps)

lemma tuple_extend_set_length:
  assumes "\<forall>u. t = Some u \<longrightarrow> length u \<le> 255" "i < 255" "fst (tuple_extend_set_index t i v force) = Some u"
  shows "length u \<le> 255"
  using assms by (cases t) (auto simp: tuple_extend_set_index_def simp del: replicate_Suc list_update.simps split: if_splits)

text \<open>
  C34: \<open>SETINDEXQ\<close> and \<open>INDEXQ\<close> read and write a tuple like an array of 255 cells that are
  null until written: after storing \<open>v\<close> at \<open>i\<close> in a tuple or null, reading \<open>j\<close> gives \<open>v\<close>
  when \<open>j = i\<close> and what was there before otherwise; the store fails only for \<open>i >= 255\<close>.
\<close>

theorem tuple_quiet_set_get:
  assumes "\<forall>u. t = Some u \<longrightarrow> length u \<le> 255" "i < 255"
  shows "\<exists>t' s'. exec_tuple_quiet_set_index_common i (s\<lparr>stk := v # maybe_tuple_entry t # zs\<rparr>)
        = Ok 0 (s'\<lparr>stk := maybe_tuple_entry t' # zs\<rparr>)
    \<and> gas_remaining (gas s) - 255 \<le> gas_remaining (gas s') \<and> gas_remaining (gas s') \<le> gas_remaining (gas s)
    \<and> (\<forall>j r. exec_tuple_quiet_index_common j (r\<lparr>stk := maybe_tuple_entry t' # zs\<rparr>)
        = Ok 0 (r\<lparr>stk := (if j = i then v else tuple_extend_index t j) # zs\<rparr>))"
proof -
  obtain t' pay where e: "tuple_extend_set_index t i v False = (t', pay)" by (cases "tuple_extend_set_index t i v False")
  have l: "\<forall>u. t' = Some u \<longrightarrow> length u \<le> 255" using tuple_extend_set_length [OF assms] e by (metis fst_conv)
  have pay: "pay \<le> 255"
    using e assms by (cases t) (auto simp: tuple_extend_set_index_def split: if_splits)
  have "exec_tuple_quiet_set_index_common i (s\<lparr>stk := v # maybe_tuple_entry t # zs\<rparr>)
      = Ok 0 ((spend (int pay) s)\<lparr>stk := maybe_tuple_entry t' # zs\<rparr>)"
    using assms e
    by (auto simp: exec_tuple_quiet_set_index_common_def vbind_def vthen_def pop_def pop_maybe_tuple_range_eq
        push_maybe_tuple_eq vret_def consume_tuple_gas_eq spend_def)
  moreover have "exec_tuple_quiet_index_common j (r\<lparr>stk := maybe_tuple_entry t' # zs\<rparr>)
        = Ok 0 (r\<lparr>stk := (if j = i then v else tuple_extend_index t j) # zs\<rparr>)" for j r
    using tuple_extend_set_get [of t i v False j] l e
    by (simp add: exec_tuple_quiet_index_common_def vbind_def vthen_def pop_maybe_tuple_range_eq push_def vmod_def vret_def)
  ultimately show ?thesis
    using pay by (intro exI [of _ t'] exI [of _ "spend (int pay) s"]) (auto simp: spend_def)
qed

theorem tuple_quiet_set_get_witness:
  "\<exists>t' s'. exec_tuple_quiet_set_index_common 3 (blank_vm\<lparr>stk := [IntVal (Some 9), TupleVal [Null]]\<rparr>)
        = Ok 0 (s'\<lparr>stk := [maybe_tuple_entry t']\<rparr>)
    \<and> exec_tuple_quiet_index_common 3 (blank_vm\<lparr>stk := [maybe_tuple_entry t']\<rparr>)
        = Ok 0 (blank_vm\<lparr>stk := [IntVal (Some 9)]\<rparr>)"
proof -
  have e: "maybe_tuple_entry (Some [Null]) = TupleVal [Null]" by (simp add: maybe_tuple_entry_def)
  show ?thesis
    using tuple_quiet_set_get [where t = "Some [Null]" and i = 3 and s = blank_vm and v = "IntVal (Some 9)" and zs = "[]"]
    unfolding e by fastforce
qed

end
