(* ===== verification/ArithOps.thy ===== *)
theory ArithOps
  imports TupleOps
begin

text \<open>
  Integer primitives (\<open>arithops.cpp\<close>): constants, addition and multiplication, division with
  the three roundings, shifts and bitwise operations, range checks, comparisons. The quiet
  variants (\<open>quiet\<close>) produce NaN where the others raise an integer overflow. The
  handlers with a double-length intermediate result (\<open>exec_muldivmod\<close>, \<open>exec_mulshrmod\<close>,
  \<open>exec_shldivmod\<close>) are not modelled.
\<close>

section \<open>Constants\<close>

text \<open>\<open>(signed char)args\<close> and \<open>(short)args\<close>\<close>

definition as_int8 :: "nat \<Rightarrow> int" where
  "as_int8 args = (let b = int (args mod 256) in if b \<ge> 128 then b - 256 else b)"

definition as_int16 :: "nat \<Rightarrow> int" where
  "as_int16 args = (let b = int (args mod 65536) in if b \<ge> 32768 then b - 65536 else b)"

definition exec_push_tinyint4 :: "nat \<Rightarrow> int vm" where
  "exec_push_tinyint4 args = (let x = int ((args + 5) mod 16) - 5 in vdo [push_smallint x])"

definition exec_push_tinyint8 :: "nat \<Rightarrow> int vm" where
  "exec_push_tinyint8 args = vdo [push_smallint (as_int8 args)]"

definition exec_push_smallint :: "nat \<Rightarrow> int vm" where
  "exec_push_smallint args = vdo [push_smallint (as_int16 args)]"

definition exec_push_int :: "nat \<Rightarrow> nat \<Rightarrow> int vm" where
  "exec_push_int args pfx_bits =
     (let l = args mod 32 + 2
      in vbind (vget code_bits) (\<lambda>bits.
           if \<not> pfx_bits + 3 + l * 8 \<le> length bits then vthrow inv_opcode
           else vthen (code_advance pfx_bits)
             (vbind (code_fetch_int (3 + l * 8)) (\<lambda>x. vdo [push_int (Some x)]))))"

definition exec_push_pow2 :: "nat \<Rightarrow> int vm" where
  "exec_push_pow2 args = (let x = args mod 256 + 1 in vdo [push (IntVal (Some (2 ^ x)))])"

definition exec_push_nan :: "int vm" where
  "exec_push_nan = vdo [push (IntVal None)]"

definition exec_push_pow2dec :: "nat \<Rightarrow> int vm" where
  "exec_push_pow2dec args = (let x = args mod 256 + 1 in vdo [push (IntVal (Some (2 ^ x - 1)))])"

definition exec_push_negpow2 :: "nat \<Rightarrow> int vm" where
  "exec_push_negpow2 args = (let x = args mod 256 + 1 in vdo [push (IntVal (Some (- (2 ^ x))))])"

definition register_int_const_ops :: "opcode_instr list" where
  "register_int_const_ops =
    [mkfixed 0x7 4 4 exec_push_tinyint4,
     mkfixed 0x80 8 8 exec_push_tinyint8,
     mkfixed 0x81 8 16 exec_push_smallint,
     mkextrange (0x82 * 32) (0x82 * 32 + 31) 13 5 exec_push_int,
     mkfixedrange 0x8300 0x83ff 16 8 exec_push_pow2,
     mksimple 0x83ff 16 exec_push_nan,
     mkfixed 0x84 8 8 exec_push_pow2dec,
     mkfixed 0x85 8 8 exec_push_negpow2]"

section \<open>Addition and multiplication\<close>

definition exec_add :: "bool \<Rightarrow> int vm" where
  "exec_add quiet =
     vthen (check_underflow 2)
       (vbind pop_int (\<lambda>y. vbind pop_int (\<lambda>x. vdo [push_int_quiet (big_add x y) quiet])))"

definition exec_sub :: "bool \<Rightarrow> int vm" where
  "exec_sub quiet =
     vthen (check_underflow 2)
       (vbind pop_int (\<lambda>y. vbind pop_int (\<lambda>x. vdo [push_int_quiet (big_sub x y) quiet])))"

definition exec_subr :: "bool \<Rightarrow> int vm" where
  "exec_subr quiet =
     vthen (check_underflow 2)
       (vbind pop_int (\<lambda>y. vbind pop_int (\<lambda>x. vdo [push_int_quiet (big_sub y x) quiet])))"

definition exec_negate :: "bool \<Rightarrow> int vm" where
  "exec_negate quiet =
     vthen (check_underflow 1) (vbind pop_int (\<lambda>x. vdo [push_int_quiet (big_neg x) quiet]))"

definition exec_inc :: "bool \<Rightarrow> int vm" where
  "exec_inc quiet =
     vthen (check_underflow 1) (vbind pop_int (\<lambda>x. vdo [push_int_quiet (big_add x (Some 1)) quiet]))"

definition exec_dec :: "bool \<Rightarrow> int vm" where
  "exec_dec quiet =
     vthen (check_underflow 1) (vbind pop_int (\<lambda>x. vdo [push_int_quiet (big_sub x (Some 1)) quiet]))"

definition exec_add_tinyint8 :: "bool \<Rightarrow> nat \<Rightarrow> int vm" where
  "exec_add_tinyint8 quiet args =
     vthen (check_underflow 1)
       (vbind pop_int (\<lambda>x. vdo [push_int_quiet (big_add x (Some (as_int8 args))) quiet]))"

definition exec_mul_tinyint8 :: "bool \<Rightarrow> nat \<Rightarrow> int vm" where
  "exec_mul_tinyint8 quiet args =
     vthen (check_underflow 1)
       (vbind pop_int (\<lambda>x. vdo [push_int_quiet (big_mul x (Some (as_int8 args))) quiet]))"

definition exec_mul :: "bool \<Rightarrow> int vm" where
  "exec_mul quiet =
     vthen (check_underflow 2)
       (vbind pop_int (\<lambda>y. vbind pop_int (\<lambda>x. vdo [push_int_quiet (big_mul x y) quiet])))"

definition register_add_mul_ops :: "opcode_instr list" where
  "register_add_mul_ops =
    [mksimple 0xa0 8 (exec_add False),
     mksimple 0xa1 8 (exec_sub False),
     mksimple 0xa2 8 (exec_subr False),
     mksimple 0xa3 8 (exec_negate False),
     mksimple 0xa4 8 (exec_inc False),
     mksimple 0xa5 8 (exec_dec False),
     mkfixed 0xa6 8 8 (exec_add_tinyint8 False),
     mkfixed 0xa7 8 8 (exec_mul_tinyint8 False),
     mksimple 0xa8 8 (exec_mul False),
     mksimple 0xb7a0 16 (exec_add True),
     mksimple 0xb7a1 16 (exec_sub True),
     mksimple 0xb7a2 16 (exec_subr True),
     mksimple 0xb7a3 16 (exec_negate True),
     mksimple 0xb7a4 16 (exec_inc True),
     mksimple 0xb7a5 16 (exec_dec True),
     mkfixed 0xb7a6 16 8 (exec_add_tinyint8 True),
     mkfixed 0xb7a7 16 8 (exec_mul_tinyint8 True),
     mksimple 0xb7a8 16 (exec_mul True)]"

section \<open>Division\<close>

definition exec_divmod :: "bool \<Rightarrow> nat \<Rightarrow> int vm" where
  "exec_divmod quiet args =
     (let round_mode = int (args mod 4) - 1; d = args div 4 mod 4
      in if d = 0 \<or> round_mode = 2 then vthrow inv_opcode
         else vthen (check_underflow 2)
           (vbind pop_int (\<lambda>y. vbind pop_int (\<lambda>x.
              if d = 1 then vdo [push_int_quiet (big_div x y round_mode) quiet]
              else if d = 2 then vdo [push_int_quiet (big_mod x y round_mode) quiet]
              else case big_divmod x y round_mode of (q, r) \<Rightarrow>
                vdo [push_int_quiet q quiet, push_int_quiet r quiet]))))"

text \<open>\<open>x.write().mod_pow2(y, round_mode).normalize()\<close>, undefined where the shift of an \<open>int\<close> is.\<close>

definition int_mod_pow2 :: "bigint \<Rightarrow> int \<Rightarrow> int \<Rightarrow> bigint vm" where
  "int_mod_pow2 x y rm = (case big_mod_pow2 x (nat y) rm of None \<Rightarrow> vundef | Some r \<Rightarrow> vret r)"

definition exec_shrmod :: "nat \<Rightarrow> nat \<Rightarrow> int vm" where
  "exec_shrmod mode args0 =
     (let imm = (mode div 2 mod 2 = 1);
          quiet = (mode mod 2 = 1);
          y0 = int (args0 mod 256) + 1;
          args = (if imm then args0 div 256 else args0);
          round_mode0 = int (args mod 4) - 1;
          d = args div 4 mod 4
      in if d = 0 \<or> round_mode0 = 2 then vthrow inv_opcode
         else vbind
           (if \<not> imm then vthen (check_underflow 2) (pop_smallint_range 256 0)
            else vthen (check_underflow 1) (vret y0))
           (\<lambda>y. let round_mode = (if y = 0 then - 1 else round_mode0)
             in vbind pop_int (\<lambda>x.
               if d = 1 then vdo [push_int_quiet (big_rshift x (nat y) round_mode) quiet]
               else vthen
                 (if d = 3 then push_int_quiet (big_rshift x (nat y) round_mode) quiet else vret ())
                 (vbind (int_mod_pow2 x y round_mode) (\<lambda>r. vdo [push_int_quiet r quiet])))))"

text \<open>The registrations of \<open>register_div_ops\<close> whose handlers are modelled.\<close>

definition register_div_ops :: "opcode_instr list" where
  "register_div_ops =
    [mkfixed 0xa90 12 4 (exec_divmod False),
     mkfixed 0xa92 12 4 (exec_shrmod 0),
     mkfixed 0xa93 12 12 (exec_shrmod 2),
     mkfixed 0xb7a90 20 4 (exec_divmod True),
     mkfixed 0xb7a92 20 4 (exec_shrmod 1)]"

section \<open>Shifts, logic, ranges\<close>

definition exec_lshift_tinyint8 :: "bool \<Rightarrow> nat \<Rightarrow> int vm" where
  "exec_lshift_tinyint8 quiet args =
     (let x = args mod 256 + 1
      in vthen (check_underflow 1) (vbind pop_int (\<lambda>v. vdo [push_int_quiet (big_lshift v x) quiet])))"

definition exec_rshift_tinyint8 :: "bool \<Rightarrow> nat \<Rightarrow> int vm" where
  "exec_rshift_tinyint8 quiet args =
     (let x = args mod 256 + 1
      in vthen (check_underflow 1) (vbind pop_int (\<lambda>v. vdo [push_int_quiet (big_rshift v x (- 1)) quiet])))"

definition exec_lshift :: "bool \<Rightarrow> int vm" where
  "exec_lshift quiet =
     vthen (check_underflow 2)
       (vbind (pop_smallint_range 1023 0) (\<lambda>x. vbind pop_int (\<lambda>v.
          vdo [push_int_quiet (big_lshift v (nat x)) quiet])))"

definition exec_rshift :: "bool \<Rightarrow> int vm" where
  "exec_rshift quiet =
     vthen (check_underflow 2)
       (vbind (pop_smallint_range 1023 0) (\<lambda>x. vbind pop_int (\<lambda>v.
          vdo [push_int_quiet (big_rshift v (nat x) (- 1)) quiet])))"

definition exec_pow2 :: "bool \<Rightarrow> int vm" where
  "exec_pow2 quiet =
     vthen (check_underflow 1)
       (vbind (pop_smallint_range 1023 0) (\<lambda>x.
          vdo [push_int_quiet (if x \<ge> 5 * 52 then None else Some (2 ^ nat x)) quiet]))"

definition exec_and :: "bool \<Rightarrow> int vm" where
  "exec_and quiet =
     vthen (check_underflow 2)
       (vbind pop_int (\<lambda>y. vbind pop_int (\<lambda>x. vdo [push_int_quiet (big_and x y) quiet])))"

definition exec_or :: "bool \<Rightarrow> int vm" where
  "exec_or quiet =
     vthen (check_underflow 2)
       (vbind pop_int (\<lambda>y. vbind pop_int (\<lambda>x. vdo [push_int_quiet (big_or x y) quiet])))"

definition exec_xor :: "bool \<Rightarrow> int vm" where
  "exec_xor quiet =
     vthen (check_underflow 2)
       (vbind pop_int (\<lambda>y. vbind pop_int (\<lambda>x. vdo [push_int_quiet (big_xor x y) quiet])))"

definition exec_not :: "bool \<Rightarrow> int vm" where
  "exec_not quiet =
     vthen (check_underflow 1) (vbind pop_int (\<lambda>x. vdo [push_int_quiet (big_not x) quiet]))"

definition exec_fits_tinyint8 :: "bool \<Rightarrow> nat \<Rightarrow> int vm" where
  "exec_fits_tinyint8 quiet args =
     (let y = args mod 256 + 1
      in vthen (check_underflow 1) (vbind pop_int (\<lambda>x.
           vdo [push_int_quiet (if \<not> signed_fits_bits x y then None else x) quiet])))"

definition exec_ufits_tinyint8 :: "bool \<Rightarrow> nat \<Rightarrow> int vm" where
  "exec_ufits_tinyint8 quiet args =
     (let y = args mod 256 + 1
      in vthen (check_underflow 1) (vbind pop_int (\<lambda>x.
           vdo [push_int_quiet (if \<not> unsigned_fits_bits x y then None else x) quiet])))"

definition exec_fits :: "bool \<Rightarrow> int vm" where
  "exec_fits quiet =
     vthen (check_underflow 2) (vbind (pop_smallint_range 1023 0) (\<lambda>y. vbind pop_int (\<lambda>x.
       vdo [push_int_quiet (if \<not> signed_fits_bits x (nat y) then None else x) quiet])))"

definition exec_ufits :: "bool \<Rightarrow> int vm" where
  "exec_ufits quiet =
     vthen (check_underflow 2) (vbind (pop_smallint_range 1023 0) (\<lambda>y. vbind pop_int (\<lambda>x.
       vdo [push_int_quiet (if \<not> unsigned_fits_bits x (nat y) then None else x) quiet])))"

definition exec_bitsize :: "bool \<Rightarrow> bool \<Rightarrow> int vm" where
  "exec_bitsize sgnd quiet =
     vthen (check_underflow 1) (vbind pop_int (\<lambda>x.
       let y = bit_size sgnd x
       in if y < 0x7fffffff then vdo [push_smallint y]
          else if \<not> quiet then vthrow range_chk
          else vdo [push_int_quiet None quiet]))"

definition register_shift_logic_ops :: "opcode_instr list" where
  "register_shift_logic_ops =
    [mkfixed 0xaa 8 8 (exec_lshift_tinyint8 False),
     mkfixed 0xab 8 8 (exec_rshift_tinyint8 False),
     mksimple 0xac 8 (exec_lshift False),
     mksimple 0xad 8 (exec_rshift False),
     mksimple 0xae 8 (exec_pow2 False),
     mksimple 0xb0 8 (exec_and False),
     mksimple 0xb1 8 (exec_or False),
     mksimple 0xb2 8 (exec_xor False),
     mksimple 0xb3 8 (exec_not False),
     mkfixed 0xb4 8 8 (exec_fits_tinyint8 False),
     mkfixed 0xb5 8 8 (exec_ufits_tinyint8 False),
     mksimple 0xb600 16 (exec_fits False),
     mksimple 0xb601 16 (exec_ufits False),
     mksimple 0xb602 16 (exec_bitsize True False),
     mksimple 0xb603 16 (exec_bitsize False False),
     mkfixed 0xb7aa 16 8 (exec_lshift_tinyint8 True),
     mkfixed 0xb7ab 16 8 (exec_rshift_tinyint8 True),
     mksimple 0xb7ac 16 (exec_lshift True),
     mksimple 0xb7ad 16 (exec_rshift True),
     mksimple 0xb7ae 16 (exec_pow2 True),
     mksimple 0xb7b0 16 (exec_and True),
     mksimple 0xb7b1 16 (exec_or True),
     mksimple 0xb7b2 16 (exec_xor True),
     mksimple 0xb7b3 16 (exec_not True),
     mkfixed 0xb7b4 16 8 (exec_fits_tinyint8 True),
     mkfixed 0xb7b5 16 8 (exec_ufits_tinyint8 True),
     mksimple 0xb7b600 24 (exec_fits True),
     mksimple 0xb7b601 24 (exec_ufits True),
     mksimple 0xb7b602 24 (exec_bitsize True True),
     mksimple 0xb7b603 24 (exec_bitsize False True)]"

section \<open>Minimum, absolute value, comparison\<close>

text \<open>The operands of \<open>exec_minmax\<close> in order, NaN in both places when one of them is NaN.\<close>

definition minmax_pair :: "bigint \<Rightarrow> bigint \<Rightarrow> bigint \<times> bigint" where
  "minmax_pair x y =
     (case x of None \<Rightarrow> (x, x)
      | Some a \<Rightarrow> (case y of None \<Rightarrow> (y, y) | Some b \<Rightarrow> if cmp_int a b > 0 then (y, x) else (x, y)))"

definition exec_minmax :: "nat \<Rightarrow> int vm" where
  "exec_minmax mode =
     vthen (check_underflow 2)
       (vbind pop_int (\<lambda>x0. vbind pop_int (\<lambda>y0.
          case minmax_pair x0 y0 of (x, y) \<Rightarrow>
            vdo [if mode div 2 mod 2 = 1 then push_int_quiet x (mode mod 2 = 1) else vret (),
                 if mode div 4 mod 2 = 1 then push_int_quiet y (mode mod 2 = 1) else vret ()])))"

definition exec_abs :: "bool \<Rightarrow> int vm" where
  "exec_abs quiet =
     vthen (check_underflow 1)
       (vbind pop_int (\<lambda>x.
          case x of
            Some v \<Rightarrow> if sgn_int v < 0 then vdo [push_int_quiet (big_neg x) quiet] else vdo [push_int_quiet x quiet]
          | None \<Rightarrow> vdo [push_int_quiet x quiet]))"

definition register_other_arith_ops :: "opcode_instr list" where
  "register_other_arith_ops =
    [mksimple 0xb608 16 (exec_minmax 2),
     mksimple 0xb609 16 (exec_minmax 4),
     mksimple 0xb60a 16 (exec_minmax 6),
     mksimple 0xb60b 16 (exec_abs False),
     mksimple 0xb7b608 24 (exec_minmax 3),
     mksimple 0xb7b609 24 (exec_minmax 5),
     mksimple 0xb7b60a 24 (exec_minmax 7),
     mksimple 0xb7b60b 24 (exec_abs True)]"

text \<open>\<open>((mode >> (4 + z * 4)) & 15) - 8\<close>: the answer for less, equal, greater in three nibbles.\<close>

definition cmp_result :: "nat \<Rightarrow> int \<Rightarrow> int" where
  "cmp_result mode z = int (mode div 2 ^ nat (4 + z * 4) mod 16) - 8"

definition exec_sgn :: "nat \<Rightarrow> bool \<Rightarrow> int vm" where
  "exec_sgn mode quiet =
     vthen (check_underflow 1)
       (vbind pop_int (\<lambda>x.
          case x of None \<Rightarrow> vdo [push_int_quiet x quiet]
          | Some v \<Rightarrow> vdo [push_smallint (cmp_result mode (sgn_int v))]))"

text \<open>When either operand is NaN, the first one is pushed.\<close>

definition exec_cmp :: "nat \<Rightarrow> bool \<Rightarrow> int vm" where
  "exec_cmp mode quiet =
     vthen (check_underflow 2)
       (vbind pop_int (\<lambda>y. vbind pop_int (\<lambda>x.
          case x of None \<Rightarrow> vdo [push_int_quiet x quiet]
          | Some a \<Rightarrow> (case y of None \<Rightarrow> vdo [push_int_quiet x quiet]
             | Some b \<Rightarrow> vdo [push_smallint (cmp_result mode (cmp_int a b))]))))"

definition exec_cmp_int :: "nat \<Rightarrow> bool \<Rightarrow> nat \<Rightarrow> int vm" where
  "exec_cmp_int mode quiet args =
     vthen (check_underflow 1)
       (vbind pop_int (\<lambda>x.
          case x of None \<Rightarrow> vdo [push_int_quiet x quiet]
          | Some a \<Rightarrow> vdo [push_smallint (cmp_result mode (cmp_int a (as_int8 args)))]))"

definition exec_is_nan :: "int vm" where
  "exec_is_nan =
     vthen (check_underflow 1) (vbind pop_int (\<lambda>x. vdo [push_smallint (if x \<noteq> None then 0 else - 1)]))"

definition exec_chk_nan :: "int vm" where
  "exec_chk_nan = vthen (check_underflow 1) (vbind pop_int (\<lambda>x. vdo [push_int x]))"

definition register_int_cmp_ops :: "opcode_instr list" where
  "register_int_cmp_ops =
    [mksimple 0xb8 8 (exec_sgn 0x987 False),
     mksimple 0xb9 8 (exec_cmp 0x887 False),
     mksimple 0xba 8 (exec_cmp 0x878 False),
     mksimple 0xbb 8 (exec_cmp 0x877 False),
     mksimple 0xbc 8 (exec_cmp 0x788 False),
     mksimple 0xbd 8 (exec_cmp 0x787 False),
     mksimple 0xbe 8 (exec_cmp 0x778 False),
     mksimple 0xbf 8 (exec_cmp 0x987 False),
     mkfixed 0xc0 8 8 (exec_cmp_int 0x878 False),
     mkfixed 0xc1 8 8 (exec_cmp_int 0x887 False),
     mkfixed 0xc2 8 8 (exec_cmp_int 0x788 False),
     mkfixed 0xc3 8 8 (exec_cmp_int 0x787 False),
     mksimple 0xc4 8 exec_is_nan,
     mksimple 0xc5 8 exec_chk_nan,
     mksimple 0xb7b8 16 (exec_sgn 0x987 True),
     mksimple 0xb7b9 16 (exec_cmp 0x887 True),
     mksimple 0xb7ba 16 (exec_cmp 0x878 True),
     mksimple 0xb7bb 16 (exec_cmp 0x877 True),
     mksimple 0xb7bc 16 (exec_cmp 0x788 True),
     mksimple 0xb7bd 16 (exec_cmp 0x787 True),
     mksimple 0xb7be 16 (exec_cmp 0x778 True),
     mksimple 0xb7bf 16 (exec_cmp 0x987 True),
     mkfixed 0xb7c0 16 8 (exec_cmp_int 0x878 True),
     mkfixed 0xb7c1 16 8 (exec_cmp_int 0x887 True),
     mkfixed 0xb7c2 16 8 (exec_cmp_int 0x788 True),
     mkfixed 0xb7c3 16 8 (exec_cmp_int 0x787 True)]"

definition register_arith_ops :: "opcode_instr list" where
  "register_arith_ops =
     register_int_const_ops @ register_add_mul_ops @ register_div_ops @ register_shift_logic_ops
     @ register_other_arith_ops @ register_int_cmp_ops"

section \<open>Safety\<close>

lemma int257_pow2: "n \<le> 255 \<Longrightarrow> int257 (2 ^ n)" "n \<le> 256 \<Longrightarrow> int257 (2 ^ n - 1)" "n \<le> 256 \<Longrightarrow> int257 (- (2 ^ n))"
proof -
  have p: "(2::int) ^ n \<le> 2 ^ m" if "n \<le> m" for m using that by (simp add: power_increasing)
  have pos: "(1::int) \<le> 2 ^ n" and big: "(2::int) ^ 255 < 2 ^ 256" by simp_all
  show "n \<le> 255 \<Longrightarrow> int257 (2 ^ n)" using p [of 255] pos big unfolding int257_def by linarith
  show "n \<le> 256 \<Longrightarrow> int257 (2 ^ n - 1)" using p [of 256] pos unfolding int257_def by linarith
  show "n \<le> 256 \<Longrightarrow> int257 (- (2 ^ n))" using p [of 256] pos unfolding int257_def by linarith
qed

lemma int257_small: "- 100000 \<le> x \<Longrightarrow> x \<le> 3000000000 \<Longrightarrow> int257 x"
  by (simp add: int257_def)

lemma as_int8_bounds: "- 128 \<le> as_int8 n" "as_int8 n \<le> 127"
  using mod_less_divisor [of 256 n] by (auto simp: as_int8_def Let_def)

lemma as_int16_bounds: "- 32768 \<le> as_int16 n" "as_int16 n \<le> 32767"
  using mod_less_divisor [of 65536 n] by (auto simp: as_int16_def Let_def)

lemma cmp_result_bounds: "- 8 \<le> cmp_result m z" "cmp_result m z \<le> 7"
proof -
  have "m div 2 ^ nat (4 + z * 4) mod 16 < 16" by simp
  then show "- 8 \<le> cmp_result m z" "cmp_result m z \<le> 7" by (simp_all add: cmp_result_def)
qed

lemma int257_cmp [simp]: "int257 (cmp_result m z)" "int257 (as_int8 n)" "int257 (as_int16 n)"
  using cmp_result_bounds [of m z] as_int8_bounds [of n] as_int16_bounds [of n] by (auto intro!: int257_small)

lemma int_const_safe:
  "vm_safe (exec_push_tinyint4 n)" "vm_safe (exec_push_tinyint8 n)" "vm_safe (exec_push_smallint n)"
  "vm_safe exec_push_nan" "vm_safe (exec_push_pow2dec n)" "vm_safe (exec_push_negpow2 n)"
  unfolding exec_push_tinyint4_def exec_push_tinyint8_def exec_push_smallint_def exec_push_nan_def
    exec_push_pow2dec_def exec_push_negpow2_def Let_def push_smallint_def
  by (auto intro!: vm_safeI wp_rules int257_small int257_pow2 simp del: power_Suc)

lemma exec_push_int_safe: "vm_safe (exec_push_int args pfx)"
  unfolding exec_push_int_def Let_def by (auto intro!: vm_safeI wp_rules)

lemma exec_push_pow2_safe: "n mod 256 \<noteq> 255 \<Longrightarrow> vm_safe (exec_push_pow2 n)"
  using mod_less_divisor [of 256 n]
  unfolding exec_push_pow2_def Let_def by (auto intro!: vm_safeI wp_rules int257_pow2 simp del: power_Suc)

lemma exec_push_pow2_range: "instr_safe (mkfixedrange 0x8300 0x83ff 16 8 exec_push_pow2)"
proof -
  have "vm_safe (exec_push_pow2 (opcode div 2 ^ 8))" if "0x8300 * 2 ^ 8 \<le> opcode" "opcode < 0x83ff * 2 ^ 8" for opcode
  proof -
    define n where "n = opcode div 2 ^ 8"
    have "0x8300 \<le> n" "n < 0x83ff" using that by (auto simp: n_def)
    then have "n div 256 = 0x83" by auto
    with \<open>n < 0x83ff\<close> have "n mod 256 \<noteq> 255" using div_mult_mod_eq [of n 256] by linarith
    then show ?thesis unfolding n_def by (rule exec_push_pow2_safe)
  qed
  then show ?thesis by (simp add: instr_safe_def mkfixedrange_def vm_safe_unless_safe)
qed

lemma add_mul_safe:
  "vm_safe (exec_add q)" "vm_safe (exec_sub q)" "vm_safe (exec_subr q)" "vm_safe (exec_negate q)"
  "vm_safe (exec_inc q)" "vm_safe (exec_dec q)" "vm_safe (exec_add_tinyint8 q n)"
  "vm_safe (exec_mul_tinyint8 q n)" "vm_safe (exec_mul q)"
  unfolding exec_add_def exec_sub_def exec_subr_def exec_negate_def exec_inc_def exec_dec_def
    exec_add_tinyint8_def exec_mul_tinyint8_def exec_mul_def
  by (auto intro!: vm_safeI wp_rules)

lemma exec_divmod_safe: "vm_safe (exec_divmod q n)"
  unfolding exec_divmod_def Let_def by (auto intro!: vm_safeI wp_rules wp_prod)

lemma big_mod_pow2_defined:
  assumes "rm \<noteq> 0 \<or> e mod 52 < 32"
  shows "big_mod_pow2 x e rm \<noteq> None"
  using assms by (cases x)
    (auto simp: big_mod_pow2_def mod_pow2_round_def add_pow2_any_def Let_def split: option.splits)

lemma wp_int_mod_pow2 [wp_rules]:
  assumes "rm \<noteq> 0 \<or> nat y mod 52 < 32" "\<And>r. Q r s"
  shows "wp (int_mod_pow2 x y rm) Q R s"
  unfolding int_mod_pow2_def using big_mod_pow2_defined [OF assms(1), of x] assms(2)
  by (auto intro!: wp_rules)

text \<open>The exponent is small where it would matter, or nothing is reduced with rounding to nearest.\<close>

lemma wp_shrmod_tail:
  fixes d :: nat and rm y :: int
  assumes "vm_inv s0 s" "has_code s" "rm \<noteq> 0 \<or> d < 2 \<or> nat y mod 52 < 32" "d \<noteq> 0"
  shows "wp (vbind pop_int (\<lambda>x.
      if d = 1 then vdo [push_int_quiet (big_rshift x (nat y) rm) quiet]
      else vthen (if d = 3 then push_int_quiet (big_rshift x (nat y) rm) quiet else vret ())
        (vbind (int_mod_pow2 x y rm) (\<lambda>r. vdo [push_int_quiet r quiet]))))
    (\<lambda>r s'. vm_inv s0 s' \<and> (r = 0 \<longrightarrow> has_code s')) (vm_inv s0) s"
proof -
  have ok: "rm \<noteq> 0 \<or> nat y mod 52 < 32" if "d \<noteq> 1" using assms(3,4) that by linarith
  show ?thesis
    by (intro wp_rules) (use assms(1,2) ok in \<open>simp_all\<close>)
qed

lemma exec_shrmod_safe:
  assumes "args mod 4 \<noteq> 1 \<or> args div 4 mod 4 < 2" "m < 2"
  shows "vm_safe (exec_shrmod m args)"
proof -
  have m: "(m div 2 mod 2 = 1) = False" using assms(2) by simp
  have r: "int (args mod 4) - 1 \<noteq> 0 \<or> args div 4 mod 4 < 2" using assms(1) by linarith
  show ?thesis
    unfolding exec_shrmod_def Let_def m if_False not_False_eq_True if_True
    by (intro vm_safeI wp_vbind wp_if wp_vthrow wp_vthen wp_check_underflow wp_pop_smallint_range wp_shrmod_tail)
      (use r in auto)
qed

lemma exec_shrmod_imm_safe:
  assumes "args div 256 mod 4 \<noteq> 1 \<or> args div 256 div 4 mod 4 < 2 \<or> (args mod 256 + 1) mod 52 < 32"
  shows "vm_safe (exec_shrmod 2 args)"
proof -
  have m: "((2::nat) div 2 mod 2 = 1) = True" by simp
  have n: "nat (int (args mod 256) + 1) = args mod 256 + 1" by simp
  have r: "int (args div 256 mod 4) - 1 \<noteq> 0 \<or> args div 256 div 4 mod 4 < 2 \<or> nat (int (args mod 256) + 1) mod 52 < 32"
    using assms unfolding n by linarith
  have y: "int (args mod 256) + 1 \<noteq> 0" by simp
  show ?thesis
    unfolding exec_shrmod_def Let_def m if_True not_True_eq_False if_False
    by (rule vm_safeI, rule wp_if, erule wp_vthrow, rule wp_vbind, rule wp_vthen, rule wp_check_underflow,
        rule wp_vret, rule wp_shrmod_tail)
      (use r y in \<open>simp_all only: if_False simp_thms de_Morgan_disj\<close>)
qed

text \<open>Whenever there is a result, it is a good one.\<close>

lemma exec_shrmod_unless: "vm_safe_unless U (exec_shrmod m args)" if "\<not> U \<Longrightarrow> vm_safe (exec_shrmod m args)"
proof (cases U)
  case True
  have pow2: "wp_unless True (int_mod_pow2 x y rm) Q R s" if "\<And>r. Q r s" for x y rm Q R s
    using that by (cases "big_mod_pow2 x (nat y) rm") (simp_all add: wp_unless_def int_mod_pow2_def vundef_def vret_def)
  have bind: "wp_unless True (vbind (int_mod_pow2 x y rm) f) Q R s" if "\<And>r. wp (f r) Q R s" for x y rm f Q R s
    using that pow2 [of "\<lambda>r. wp (f r) Q R" s x y rm R] by (auto simp: wp_def wp_unless_def vbind_def split: vres.splits)
  have tail: "wp_unless True (vbind pop_int (\<lambda>x.
      if d = 1 then vdo [push_int_quiet (big_rshift x (nat y) rm) quiet]
      else vthen (if d = 3 then push_int_quiet (big_rshift x (nat y) rm) quiet else vret ())
        (vbind (int_mod_pow2 x y rm) (\<lambda>r. vdo [push_int_quiet r quiet]))))
    (\<lambda>r s'. vm_inv s0 s' \<and> (r = 0 \<longrightarrow> has_code s')) (vm_inv s0) s"
    if inv: "vm_inv s0 s" "has_code s" for s0 s and d :: nat and y rm quiet
  proof (rule wp_unless_vbind, rule wp_pop_int)
    have push: "wp (vdo [push_int_quiet v q]) (\<lambda>r s'. vm_inv s0 s' \<and> (r = 0 \<longrightarrow> has_code s')) (vm_inv s0) s'"
      if "vm_inv s0 s'" "has_code s'" for v q s'
      by (intro wp_rules) (use that in auto)
    fix v xs
    assume "stack_ok xs"
    then show "wp_unless True (if d = 1 then vdo [push_int_quiet (big_rshift v (nat y) rm) quiet]
        else vthen (if d = 3 then push_int_quiet (big_rshift v (nat y) rm) quiet else vret ())
          (vbind (int_mod_pow2 v y rm) (\<lambda>r. vdo [push_int_quiet r quiet])))
      (\<lambda>r s'. vm_inv s0 s' \<and> (r = 0 \<longrightarrow> has_code s')) (vm_inv s0) (s\<lparr>stk := xs\<rparr>)"
      using inv by (intro wp_unless_if wp_unless_wp [OF push] wp_unless_vthen wp_if wp_push_int_quiet wp_vret bind push) auto
  qed (use inv in auto)
  have "vm_safe_unless True (exec_shrmod m args)"
    unfolding vm_safe_unless_def exec_shrmod_def Let_def
  proof (intro allI impI, rule wp_unless_if, rule wp_unless_wp [OF wp_vthrow], goal_cases)
    case (2 s)
    then have inv: "vm_inv s s" by (simp add: vm_inv_refl)
    show ?case
      by (rule wp_unless_vbind, intro wp_if wp_vthen wp_check_underflow wp_pop_smallint_range wp_vret tail)
        (use inv 2 in auto)
  qed (simp add: vm_inv_refl)
  then show ?thesis using True by simp
qed (use that vm_safe_unless_safe in auto)

lemma shrmod_instr_safe:
  "instr_safe (mkfixed 0xa92 12 4 (exec_shrmod 0))"
  "instr_safe (mkfixed 0xb7a92 20 4 (exec_shrmod 1))"
  "instr_safe (mkfixed 0xa93 12 12 (exec_shrmod 2))"
proof -
  note unless = exec_shrmod_unless
  have cases4: "n = 16 * b + 9 \<or> n = 16 * b + 13" if "n mod 4 = 1" "\<not> n div 4 mod 4 < 2" "n div 16 = b" for n b :: nat
  proof -
    have "n div 4 = 4 * b + n div 4 mod 4" using that(3) div_mult_mod_eq [of "n div 4" 4] by (simp add: div_mult2_eq [symmetric])
    moreover have "n div 4 mod 4 = 2 \<or> n div 4 mod 4 = 3" using that(2) mod_less_divisor [of 4 "n div 4"] by linarith
    ultimately show ?thesis using that(1) div_mult_mod_eq [of n 4] by linarith
  qed
  have "vm_safe (exec_shrmod 0 (opcode div 2 ^ 8))"
    if "0xa92 * 2 ^ 12 \<le> opcode" "opcode < 0xa93 * 2 ^ 12" "\<not> ub_opcode opcode" for opcode
  proof (rule exec_shrmod_safe)
    have "opcode div 2 ^ 8 div 16 = 0xa92" using that(1,2) by auto
    then show "opcode div 2 ^ 8 mod 4 \<noteq> 1 \<or> opcode div 2 ^ 8 div 4 mod 4 < 2"
      using cases4 [of "opcode div 2 ^ 8" "0xa92"] that(3) unfolding ub_opcode_def by auto
  qed simp
  then show "instr_safe (mkfixed 0xa92 12 4 (exec_shrmod 0))" by (simp add: instr_safe_def mkfixed_def unless)
  have "vm_safe (exec_shrmod 1 opcode)"
    if "0xb7a92 * 2 ^ 4 \<le> opcode" "opcode < 0xb7a93 * 2 ^ 4" "\<not> ub_opcode opcode" for opcode
  proof (rule exec_shrmod_safe)
    have "opcode div 16 = 0xb7a92" using that(1,2) by auto
    then show "opcode mod 4 \<noteq> 1 \<or> opcode div 4 mod 4 < 2"
      using cases4 [of opcode "0xb7a92"] that(3) unfolding ub_opcode_def by auto
  qed simp
  then show "instr_safe (mkfixed 0xb7a92 20 4 (exec_shrmod 1))" by (simp add: instr_safe_def mkfixed_def unless)
  have "vm_safe (exec_shrmod 2 opcode)"
    if "0xa93 * 2 ^ 12 \<le> opcode" "opcode < 0xa94 * 2 ^ 12" "\<not> ub_opcode opcode" for opcode
  proof (rule exec_shrmod_imm_safe)
    have "opcode div 2 ^ 8 div 16 = 0xa93" using that(1,2) by auto
    then show "opcode div 256 mod 4 \<noteq> 1 \<or> opcode div 256 div 4 mod 4 < 2 \<or> (opcode mod 256 + 1) mod 52 < 32"
      using cases4 [of "opcode div 2 ^ 8" "0xa93"] that(3) unfolding ub_opcode_def by auto
  qed
  then show "instr_safe (mkfixed 0xa93 12 12 (exec_shrmod 2))" by (simp add: instr_safe_def mkfixed_def unless)
qed

lemma shift_logic_safe:
  "vm_safe (exec_lshift_tinyint8 q n)" "vm_safe (exec_rshift_tinyint8 q n)" "vm_safe (exec_lshift q)"
  "vm_safe (exec_rshift q)" "vm_safe (exec_pow2 q)" "vm_safe (exec_and q)" "vm_safe (exec_or q)"
  "vm_safe (exec_xor q)" "vm_safe (exec_not q)" "vm_safe (exec_fits_tinyint8 q n)"
  "vm_safe (exec_ufits_tinyint8 q n)" "vm_safe (exec_fits q)" "vm_safe (exec_ufits q)"
  unfolding exec_lshift_tinyint8_def exec_rshift_tinyint8_def exec_lshift_def exec_rshift_def exec_pow2_def
    exec_and_def exec_or_def exec_xor_def exec_not_def exec_fits_tinyint8_def exec_ufits_tinyint8_def
    exec_fits_def exec_ufits_def Let_def
  by (auto intro!: vm_safeI wp_rules)

lemma exec_bitsize_safe: "vm_safe (exec_bitsize sgnd q)"
proof -
  have nb: "0 \<le> bit_size sgnd x" for x by (cases x) simp_all
  show ?thesis
    unfolding exec_bitsize_def Let_def
    by (auto simp: push_smallint_def intro!: vm_safeI wp_rules int257_small order_trans [OF _ nb])
qed

lemma other_arith_safe:
  "vm_safe (exec_minmax m)" "vm_safe (exec_abs q)" "vm_safe (exec_sgn m q)" "vm_safe (exec_cmp m q)"
  "vm_safe (exec_cmp_int m q n)" "vm_safe exec_is_nan" "vm_safe exec_chk_nan"
  unfolding exec_minmax_def exec_abs_def exec_sgn_def exec_cmp_def exec_cmp_int_def exec_is_nan_def
    exec_chk_nan_def push_smallint_def
  by (auto intro!: vm_safeI wp_rules wp_prod int257_small)

lemma register_arith_ops_safe: "\<forall>i \<in> set register_arith_ops. instr_safe i"
  unfolding register_arith_ops_def register_int_const_ops_def register_add_mul_ops_def register_div_ops_def
    register_shift_logic_ops_def register_other_arith_ops_def register_int_cmp_ops_def set_append ball_Un
  by (simp add: instr_safe_args int_const_safe exec_push_int_safe exec_push_pow2_range add_mul_safe
      exec_divmod_safe shrmod_instr_safe shrmod_instr_safe [unfolded One_nat_def] shift_logic_safe exec_bitsize_safe other_arith_safe)

section \<open>What the operations compute\<close>

lemma pop_int_eq: "stk s = IntVal v # zs \<Longrightarrow> pop_int s = Ok v (s\<lparr>stk := zs\<rparr>)"
  by (simp add: pop_int_def pop_as_def pop_chk_def vthen_def vbind_def check_underflow_def depth_def pop_def vret_def)

text \<open>
  The outcome of a non-quiet or quiet operation whose exact result is \<open>v\<close>: the result when it
  fits 257 bits, otherwise an overflow or NaN. The operands have been removed either way.
\<close>

definition int_outcome :: "bigint \<Rightarrow> bool \<Rightarrow> vm_state \<Rightarrow> int vres" where
  "int_outcome v quiet s =
     (if v \<noteq> None \<and> int257 (the v) then Ok 0 (s\<lparr>stk := IntVal v # stk s\<rparr>)
      else if quiet then Ok 0 (s\<lparr>stk := IntVal None # stk s\<rparr>)
      else Exc (VmError int_ov) s)"

lemma push_int_quiet_outcome: "vdo [push_int_quiet v quiet] s = int_outcome v quiet s"
  by (cases v) (auto simp: push_int_quiet_def int_outcome_def int257_def vthen_def vbind_def push_def vmod_def
      vthrow_def vret_def)


lemma unary_int_op:
  assumes "stk s = IntVal x # zs"
  shows "vthen (check_underflow 1) (vbind pop_int (\<lambda>x. vdo [push_int_quiet (f x) quiet])) s
    = int_outcome (f x) quiet (s\<lparr>stk := zs\<rparr>)"
proof -
  have "check_underflow 1 s = Ok () s" using assms by (simp add: check_underflow_def depth_def)
  then show ?thesis
    using assms by (simp add: vthen_def [of "check_underflow 1"] vbind_def pop_int_eq push_int_quiet_outcome del: vdo.simps)
qed














end
