(* ===== verification/VmCont.thy ===== *)
theory VmCont
  imports ArithOps
begin

text \<open>
  Continuations and control transfer: the control registers (\<open>continuation.h\<close>), what happens
  when a continuation of each kind is jumped to (\<open>continuation.cpp\<close>), and the operations of
  \<open>VmState\<close> that arrange the stack, the registers and the code for a jump, a call or a return
  (\<open>vm.cpp\<close>). The reference counts that let the code reuse an object it owns alone are not
  modelled: the copying and the reusing variant (\<open>jump\<close> and \<open>jump_w\<close>) have the same effect.
\<close>

section \<open>Control registers\<close>

definition cr_c0 :: "cont option \<Rightarrow> control_regs \<Rightarrow> control_regs" where
  "cr_c0 k r = CRegs k (c1 r) (c2 r) (c3 r) (d0 r) (d1 r) (c7 r)"

definition cr_c1 :: "cont option \<Rightarrow> control_regs \<Rightarrow> control_regs" where
  "cr_c1 k r = CRegs (c0 r) k (c2 r) (c3 r) (d0 r) (d1 r) (c7 r)"

definition cr_c2 :: "cont option \<Rightarrow> control_regs \<Rightarrow> control_regs" where
  "cr_c2 k r = CRegs (c0 r) (c1 r) k (c3 r) (d0 r) (d1 r) (c7 r)"

definition cr_c3 :: "cont option \<Rightarrow> control_regs \<Rightarrow> control_regs" where
  "cr_c3 k r = CRegs (c0 r) (c1 r) (c2 r) k (d0 r) (d1 r) (c7 r)"

definition cr_d0 :: "cell option \<Rightarrow> control_regs \<Rightarrow> control_regs" where
  "cr_d0 c r = CRegs (c0 r) (c1 r) (c2 r) (c3 r) c (d1 r) (c7 r)"

definition cr_d1 :: "cell option \<Rightarrow> control_regs \<Rightarrow> control_regs" where
  "cr_d1 c r = CRegs (c0 r) (c1 r) (c2 r) (c3 r) (d0 r) c (c7 r)"

definition cr_c7 :: "stack_entry list option \<Rightarrow> control_regs \<Rightarrow> control_regs" where
  "cr_c7 t r = CRegs (c0 r) (c1 r) (c2 r) (c3 r) (d0 r) (d1 r) t"

definition cr_c :: "nat \<Rightarrow> cont option \<Rightarrow> control_regs \<Rightarrow> control_regs" where
  "cr_c i k r = (if i = 0 then cr_c0 k r else if i = 1 then cr_c1 k r else if i = 2 then cr_c2 k r else cr_c3 k r)"

definition get_c :: "nat \<Rightarrow> control_regs \<Rightarrow> cont option" where
  "get_c i r = (if i = 0 then c0 r else if i = 1 then c1 r else if i = 2 then c2 r else if i = 3 then c3 r else None)"

definition valid_idx :: "nat \<Rightarrow> bool" where
  "valid_idx i \<longleftrightarrow> i < 4 \<or> (4 \<le> i \<and> i < 4 + 2) \<or> i = 7"

text \<open>
  \<open>ControlRegs::get\<close>; \<open>None\<close> is a stack entry made of a null reference, which nothing may use.
\<close>

definition creg_get :: "nat \<Rightarrow> control_regs \<Rightarrow> stack_entry option" where
  "creg_get i r =
     (if i < 4 then map_option ContVal (get_c i r)
      else if i = 4 then map_option CellVal (d0 r)
      else if i = 5 then map_option CellVal (d1 r)
      else if i = 7 then map_option TupleVal (c7 r)
      else Some Null)"

text \<open>\<open>ControlRegs::set\<close> and \<open>ControlRegs::define\<close>; \<open>None\<close> is the result \<open>false\<close> and no change.\<close>

definition creg_set :: "nat \<Rightarrow> stack_entry \<Rightarrow> control_regs \<Rightarrow> control_regs option" where
  "creg_set i v r =
     (if i < 4 then map_option (\<lambda>k. cr_c i (Some k) r) (as_cont v)
      else if i = 4 then map_option (\<lambda>c. cr_d0 (Some c) r) (as_cell v)
      else if i = 5 then map_option (\<lambda>c. cr_d1 (Some c) r) (as_cell v)
      else if i = 7 then map_option (\<lambda>t. cr_c7 (Some t) r) (as_tuple v)
      else None)"

definition creg_define :: "nat \<Rightarrow> stack_entry \<Rightarrow> control_regs \<Rightarrow> control_regs option" where
  "creg_define i v r =
     (if i < 4 then
        (case as_cont v of None \<Rightarrow> None
         | Some k \<Rightarrow> if get_c i r = None then Some (cr_c i (Some k) r) else None)
      else if i = 4 then
        (case as_cell v of None \<Rightarrow> None | Some c \<Rightarrow> if d0 r = None then Some (cr_d0 (Some c) r) else None)
      else if i = 5 then
        (case as_cell v of None \<Rightarrow> None | Some c \<Rightarrow> if d1 r = None then Some (cr_d1 (Some c) r) else None)
      else if i = 7 then
        (case as_tuple v of None \<Rightarrow> None | Some t \<Rightarrow> Some (if c7 r = None then cr_c7 (Some t) r else r))
      else None)"

definition define_c0 :: "cont option \<Rightarrow> control_regs \<Rightarrow> control_regs" where
  "define_c0 k r = (if c0 r = None then cr_c0 k r else r)"

definition define_c1 :: "cont option \<Rightarrow> control_regs \<Rightarrow> control_regs" where
  "define_c1 k r = (if c1 r = None then cr_c1 k r else r)"

definition define_c2 :: "cont option \<Rightarrow> control_regs \<Rightarrow> control_regs" where
  "define_c2 k r = (if c2 r = None then cr_c2 k r else r)"

text \<open>\<open>operator^=\<close> takes over what is saved, \<open>operator&=\<close> clears what is about to be taken over.\<close>

definition over :: "'a option \<Rightarrow> 'a option \<Rightarrow> 'a option" where
  "over x sv = (case sv of None \<Rightarrow> x | Some y \<Rightarrow> Some y)"

definition retain :: "'a option \<Rightarrow> 'b option \<Rightarrow> 'a option" where
  "retain x sv = (if sv = None then x else None)"

definition cr_adjust :: "control_regs \<Rightarrow> control_regs \<Rightarrow> control_regs" where
  "cr_adjust r sv = CRegs (over (c0 r) (c0 sv)) (over (c1 r) (c1 sv)) (over (c2 r) (c2 sv)) (over (c3 r) (c3 sv))
     (over (d0 r) (d0 sv)) (over (d1 r) (d1 sv)) (over (c7 r) (c7 sv))"

definition cr_preclear :: "control_regs \<Rightarrow> control_regs \<Rightarrow> control_regs" where
  "cr_preclear r sv = CRegs (retain (c0 r) (c0 sv)) (retain (c1 r) (c1 sv)) (retain (c2 r) (c2 sv))
     (retain (c3 r) (c3 sv)) (retain (d0 r) (d0 sv)) (retain (d1 r) (d1 sv)) (retain (c7 r) (c7 sv))"

section \<open>Continuation data\<close>

text \<open>\<open>force_cdata\<close>: a continuation without data of its own is wrapped.\<close>

definition force_cdata :: "cont \<Rightarrow> cont" where
  "force_cdata k = (if get_cdata k = None then ArgContExt (cdata_new (- 1)) k else k)"

fun map_cdata :: "(control_data \<Rightarrow> control_data) \<Rightarrow> cont \<Rightarrow> cont" where
  "map_cdata f (ArgContExt d k) = ArgContExt (f d) k"
| "map_cdata f (OrdCont d c) = OrdCont (f d) c"
| "map_cdata f k = k"

text \<open>The data of \<open>force_cdata k\<close>.\<close>

definition forced_cdata :: "cont \<Rightarrow> control_data" where
  "forced_cdata k = (case get_cdata k of None \<Rightarrow> cdata_new (- 1) | Some d \<Rightarrow> d)"

definition cd_with_save :: "(control_regs \<Rightarrow> control_regs) \<Rightarrow> control_data \<Rightarrow> control_data" where
  "cd_with_save f d = CData (cd_stack d) (f (cd_save d)) (cd_nargs d) (cd_cp d)"

text \<open>A change of \<open>force_cregs(cont)\<close>.\<close>

definition with_cregs :: "(control_regs \<Rightarrow> control_regs) \<Rightarrow> cont \<Rightarrow> cont" where
  "with_cregs f k = map_cdata (cd_with_save f) (force_cdata k)"

section \<open>Registers and code of the machine\<close>

text \<open>Reading a register for use: a null reference is \<open>Undef\<close>.\<close>

definition vm_get_c :: "nat \<Rightarrow> cont vm" where
  "vm_get_c i = (\<lambda>s. case get_c i (cr s) of None \<Rightarrow> Undef | Some k \<Rightarrow> Ok k s)"

definition vm_cr :: "(control_regs \<Rightarrow> control_regs) \<Rightarrow> unit vm" where
  "vm_cr f = vmod (\<lambda>s. s\<lparr>cr := f (cr s)\<rparr>)"

definition set_c0 :: "cont \<Rightarrow> unit vm" where "set_c0 k = vm_cr (cr_c0 (Some k))"

definition set_c1 :: "cont \<Rightarrow> unit vm" where "set_c1 k = vm_cr (cr_c1 (Some k))"

definition set_c2 :: "cont \<Rightarrow> unit vm" where "set_c2 k = vm_cr (cr_c2 (Some k))"

definition adjust_cr :: "control_regs \<Rightarrow> unit vm" where "adjust_cr sv = vm_cr (\<lambda>r. cr_adjust r sv)"

definition preclear_cr :: "control_regs \<Rightarrow> unit vm" where "preclear_cr sv = vm_cr (\<lambda>r. cr_preclear r sv)"

text \<open>\<open>force_cp\<close>: an unknown codepage is an invalid opcode.\<close>

definition force_cp :: "int \<Rightarrow> unit vm" where
  "force_cp n = (\<lambda>s. if n = cp s then Ok () s else if known_cps s n then Ok () (s\<lparr>cp := n\<rparr>)
     else Exc (VmError inv_opcode) s)"

definition set_code :: "slice option \<Rightarrow> int \<Rightarrow> unit vm" where
  "set_code c n = vthen (vmod (\<lambda>s. s\<lparr>code := c\<rparr>)) (force_cp n)"

text \<open>\<open>std::move(code)\<close>\<close>

definition take_code :: "slice option vm" where
  "take_code = (\<lambda>s. Ok (code s) (s\<lparr>code := None\<rparr>))"

definition move_from_stack :: "int \<Rightarrow> stack \<Rightarrow> stack vm" where
  "move_from_stack n dst = (\<lambda>s. if n > depth s then Exc (VmError stk_und) s
     else if n < 0 then Undef
     else Ok (take (nat n) (stk s) @ dst) (s\<lparr>stk := drop (nat n) (stk s)\<rparr>))"

definition set_stack :: "stack \<Rightarrow> unit vm" where
  "set_stack xs = vmod (\<lambda>s. s\<lparr>stk := xs\<rparr>)"

section \<open>Jumps\<close>

text \<open>
  What \<open>jump(cont, pass_args)\<close> does before it transfers control: the checks, then the new
  stack from the continuation's own and the arguments passed.
\<close>

definition jump_prep :: "control_data option \<Rightarrow> int \<Rightarrow> unit vm" where
  "jump_prep cdata pass_args =
     vbind (vget depth) (\<lambda>dp.
       case cdata of
         Some d \<Rightarrow>
           if pass_args > dp \<or> cd_nargs d > dp then vthrow stk_und
           else if cd_nargs d > pass_args \<and> pass_args \<ge> 0 then vthrow stk_und
           else vthen (preclear_cr (cd_save d))
             (let copy = (if pass_args \<ge> 0 \<and> cd_nargs d < 0 then pass_args else cd_nargs d)
              in case cd_stack d of
                   Some (x # xs) \<Rightarrow>
                     vbind (move_from_stack (if copy < 0 then dp else copy) (x # xs)) (\<lambda>new_stk.
                       vthen (consume_stack_gas (length new_stk)) (set_stack new_stk))
                 | _ \<Rightarrow>
                     if copy \<ge> 0 \<and> copy < dp
                     then vthen (drop_bottom (dp - copy)) (consume_stack_gas (nat copy))
                     else vret ())
       | None \<Rightarrow>
           if pass_args \<ge> 0 then
             (if pass_args > dp then vthrow stk_und
              else if pass_args < dp
              then vthen (drop_bottom (dp - pass_args)) (consume_stack_gas (nat pass_args))
              else vret ())
           else vret ())"

text \<open>The same for \<open>jump(cont)\<close>, which is simple when there is no stack and no argument count.\<close>

definition jump_pre :: "cont \<Rightarrow> unit vm" where
  "jump_pre k =
     (case get_cdata k of
        Some d \<Rightarrow> if cd_stack d \<noteq> None \<or> cd_nargs d \<ge> 0 then jump_prep (Some d) (- 1) else vret ()
      | None \<Rightarrow> vret ())"

text \<open>The result \<open>~n\<close>.\<close>

definition exit_result :: "int \<Rightarrow> int" where
  "exit_result n = - n - 1"

text \<open>\<open>ExcQuitCont::jump\<close> catches the errors of its own pop.\<close>

definition exc_quit_jump :: "int vm" where
  "exc_quit_jump = (\<lambda>s. case pop_smallint_range 0xffff 0 s of
       Ok n s' \<Rightarrow> Ok (exit_result n) s'
     | Exc (VmError e) s' \<Rightarrow> Ok (exit_result (get_errno e)) s'
     | Exc e s' \<Rightarrow> Exc e s'
     | Undef \<Rightarrow> Undef)"

text \<open>
  The \<open>jump\<close> methods of the continuation classes. Where one ends in \<open>st->jump(k)\<close>, that jump is an
  argument (\<open>go\<close>, with the name of \<open>k\<close>). A loop continuation installs itself in \<open>c0\<close> unless the body
  has its own.
\<close>

definition push_int_jump :: "int \<Rightarrow> int vm \<Rightarrow> int vm" where
  "push_int_jump n go_next = vthen (push_smallint n) go_next"

definition repeat_jump :: "cont \<Rightarrow> cont \<Rightarrow> int \<Rightarrow> int vm \<Rightarrow> int vm \<Rightarrow> int vm" where
  "repeat_jump body aft count go_body go_after =
     (if count \<le> 0 then go_after
      else if has_c0 body then go_body
      else vthen (set_c0 (RepeatCont body aft (count - 1))) go_body)"

definition again_jump :: "cont \<Rightarrow> int vm \<Rightarrow> int vm" where
  "again_jump body go_body = vthen (if \<not> has_c0 body then set_c0 (AgainCont body) else vret ()) go_body"

definition until_jump :: "cont \<Rightarrow> cont \<Rightarrow> int vm \<Rightarrow> int vm \<Rightarrow> int vm" where
  "until_jump body aft go_body go_after =
     vbind pop_bool (\<lambda>f.
       if f then go_after
       else vthen (if \<not> has_c0 body then set_c0 (UntilCont body aft) else vret ()) go_body)"

definition while_jump :: "cont \<Rightarrow> cont \<Rightarrow> cont \<Rightarrow> bool \<Rightarrow> int vm \<Rightarrow> int vm \<Rightarrow> int vm \<Rightarrow> int vm" where
  "while_jump cond body aft chkcond go_cond go_body go_after =
     (if chkcond then
        vbind pop_bool (\<lambda>f.
          if \<not> f then go_after
          else vthen (if \<not> has_c0 body then set_c0 (WhileCont cond body aft False) else vret ()) go_body)
      else
        vthen (if \<not> has_c0 cond then set_c0 (WhileCont cond body aft True) else vret ()) go_cond)"

definition arg_ext_jump :: "control_data \<Rightarrow> int vm \<Rightarrow> int vm" where
  "arg_ext_jump d jump_ext =
     vthen (adjust_cr (cd_save d))
       (vthen (if cd_cp d \<noteq> - 1 then force_cp (cd_cp d) else vret ()) jump_ext)"

definition ord_jump :: "control_data \<Rightarrow> slice option \<Rightarrow> int vm" where
  "ord_jump d c = vthen (adjust_cr (cd_save d)) (vthen (set_code c (cd_cp d)) (vret 0))"

text \<open>\<open>jump_to\<close>, the transfer itself. Nested jumps go to parts of the continuation, so this terminates.\<close>

fun jump_to :: "cont \<Rightarrow> int vm" where
  "jump_to (QuitCont n) = vret (exit_result n)"
| "jump_to ExcQuitCont = exc_quit_jump"
| "jump_to (PushIntCont n k) = push_int_jump n (vthen (jump_pre k) (jump_to k))"
| "jump_to (RepeatCont b a n) = repeat_jump b a n (vthen (jump_pre b) (jump_to b)) (vthen (jump_pre a) (jump_to a))"
| "jump_to (AgainCont b) = again_jump b (vthen (jump_pre b) (jump_to b))"
| "jump_to (UntilCont b a) = until_jump b a (vthen (jump_pre b) (jump_to b)) (vthen (jump_pre a) (jump_to a))"
| "jump_to (WhileCont c b a chk) =
     while_jump c b a chk (vthen (jump_pre c) (jump_to c)) (vthen (jump_pre b) (jump_to b)) (vthen (jump_pre a) (jump_to a))"
| "jump_to (ArgContExt d k) = arg_ext_jump d (jump_to k)"
| "jump_to (OrdCont d c) = ord_jump d c"

lemmas cont_jump_defs = push_int_jump_def repeat_jump_def again_jump_def until_jump_def while_jump_def
  arg_ext_jump_def ord_jump_def

definition jump :: "cont \<Rightarrow> int vm" where
  "jump k = vthen (jump_pre k) (jump_to k)"

definition jump_args :: "cont \<Rightarrow> int \<Rightarrow> int vm" where
  "jump_args k pass_args = vthen (jump_prep (get_cdata k) pass_args) (jump_to k)"

section \<open>Calls\<close>

text \<open>
  The return continuation: the rest of the current code, with the caller's \<open>c0\<close> saved in it.
  Then it becomes \<open>c0\<close>, and control goes to the continuation called.
\<close>

definition enter :: "cont option \<Rightarrow> stack option \<Rightarrow> int \<Rightarrow> cont \<Rightarrow> int vm" where
  "enter old_c0 old_stk ret_args k =
     vbind take_code (\<lambda>cd. vbind (vget cp) (\<lambda>n.
       vthen (set_c0 (OrdCont (CData old_stk (cr_c0 old_c0 cregs_clear) ret_args n) cd)) (jump_to k)))"

text \<open>\<open>std::move(cr.c[0])\<close>\<close>

definition take_c0 :: "cont option vm" where
  "take_c0 = (\<lambda>s. Ok (c0 (cr s)) (s\<lparr>cr := cr_c0 None (cr s)\<rparr>))"

text \<open>The new stack and what remains of the old one (\<open>None\<close> when all of it was passed).\<close>

definition call_stacks :: "stack option \<Rightarrow> int \<Rightarrow> int \<Rightarrow> (stack \<times> stack option) vm" where
  "call_stacks cont_stk copy skip =
     (case cont_stk of
        Some (x # xs) \<Rightarrow>
          vbind (vget depth) (\<lambda>dp.
            vbind (move_from_stack (if copy < 0 then dp else copy) (x # xs)) (\<lambda>new_stk.
              vthen (if skip > 0 then pop_many skip else vret ())
                (vthen (consume_stack_gas (length new_stk))
                  (vbind (vget stk) (\<lambda>rest. vret (new_stk, Some rest))))))
      | _ \<Rightarrow>
          if copy \<ge> 0 then
            vbind (split_top copy skip) (\<lambda>new_stk.
              vthen (consume_stack_gas (length new_stk)) (vbind (vget stk) (\<lambda>rest. vret (new_stk, Some rest))))
          else vbind (vget stk) (\<lambda>all. vret (all, None)))"

definition call_args :: "cont \<Rightarrow> int \<Rightarrow> int \<Rightarrow> int vm" where
  "call_args k pass_args ret_args =
     (case get_cdata k of
        Some d \<Rightarrow>
          if c0 (cd_save d) \<noteq> None then jump_args k pass_args
          else vbind (vget depth) (\<lambda>dp.
            if pass_args > dp \<or> cd_nargs d > dp then vthrow stk_und
            else if cd_nargs d > pass_args \<and> pass_args \<ge> 0 then vthrow stk_und
            else vbind take_c0 (\<lambda>old_c0.
              vthen (preclear_cr (cd_save d))
                (let skip = (if pass_args \<ge> 0 \<and> cd_nargs d \<ge> 0 then pass_args - cd_nargs d else 0);
                     copy = (if pass_args \<ge> 0 \<and> cd_nargs d < 0 then pass_args else cd_nargs d)
                 in vbind (call_stacks (cd_stack d) copy skip) (\<lambda>(new_stk, old_stk).
                      vthen (set_stack new_stk) (enter old_c0 old_stk ret_args k)))))
      | None \<Rightarrow>
          vbind (vget depth) (\<lambda>dp.
            if pass_args > dp then vthrow stk_und
            else vbind (call_stacks None pass_args 0) (\<lambda>(new_stk, old_stk).
              vbind take_c0 (\<lambda>old_c0. vthen (set_stack new_stk) (enter old_c0 old_stk ret_args k)))))"

definition call :: "cont \<Rightarrow> int vm" where
  "call k =
     (case get_cdata k of
        Some d \<Rightarrow>
          if c0 (cd_save d) \<noteq> None then jump k
          else if cd_stack d \<noteq> None \<or> cd_nargs d \<ge> 0 then call_args k (- 1) (- 1)
          else vbind take_c0 (\<lambda>old_c0. enter old_c0 None (- 1) k)
      | None \<Rightarrow> vbind take_c0 (\<lambda>old_c0. enter old_c0 None (- 1) k))"

section \<open>Returns, loops, exceptions\<close>

definition quit0 :: cont where "quit0 = QuitCont 0"

definition quit1 :: cont where "quit1 = QuitCont 1"

definition ret :: "int vm" where
  "ret = vbind (vm_get_c 0) (\<lambda>k. vthen (set_c0 quit0) (jump k))"

definition ret_args :: "int \<Rightarrow> int vm" where
  "ret_args n = vbind (vm_get_c 0) (\<lambda>k. vthen (set_c0 quit0) (jump_args k n))"

definition ret_alt :: "int vm" where
  "ret_alt = vbind (vm_get_c 1) (\<lambda>k. vthen (set_c1 quit1) (jump k))"

definition ret_alt_args :: "int \<Rightarrow> int vm" where
  "ret_alt_args n = vbind (vm_get_c 1) (\<lambda>k. vthen (set_c1 quit1) (jump_args k n))"

text \<open>
  \<open>extract_cc\<close>: the current continuation with the rest of the code; \<open>stack_copy\<close> top entries
  stay, the others go into it. Its bits of \<open>save_cr\<close> move \<open>c0\<close>, \<open>c1\<close>, \<open>c2\<close> into it; \<open>c2\<close> is left null.
\<close>

definition extract_cc :: "nat \<Rightarrow> int \<Rightarrow> int \<Rightarrow> cont vm" where
  "extract_cc save_cr stack_copy cc_args =
     vbind (vget depth) (\<lambda>dp.
       vbind
         (if stack_copy < 0 \<or> stack_copy = dp then vbind (vget stk) (\<lambda>xs. vret (xs, None))
          else if stack_copy > 0 then
            vthen (check_underflow stack_copy)
              (vbind (split_top stack_copy 0) (\<lambda>xs.
                 vthen (consume_stack_gas (length xs)) (vbind (vget stk) (\<lambda>rest. vret (xs, Some rest)))))
          else vbind (vget stk) (\<lambda>rest. vret ([], Some rest)))
         (\<lambda>(new_stk, old_stk).
            vbind take_code (\<lambda>cd. vbind (vget cp) (\<lambda>n. vbind (vget cr) (\<lambda>r.
              vthen (set_stack new_stk)
                (vthen (if save_cr mod 2 = 1 then set_c0 quit0 else vret ())
                  (vthen (if save_cr div 2 mod 2 = 1 then set_c1 quit1 else vret ())
                    (vthen (if save_cr div 4 mod 2 = 1 then vm_cr (cr_c2 None) else vret ())
                      (vret (OrdCont (CData old_stk
                         (CRegs (if save_cr mod 2 = 1 then c0 r else None)
                                (if save_cr div 2 mod 2 = 1 then c1 r else None)
                                (if save_cr div 4 mod 2 = 1 then c2 r else None) None None None None)
                         cc_args n) cd))))))))))"

definition c1_envelope :: "cont \<Rightarrow> bool \<Rightarrow> cont vm" where
  "c1_envelope k save =
     vbind (vget cr) (\<lambda>r.
       let k' = (if save then with_cregs (define_c0 (c0 r)) (with_cregs (define_c1 (c1 r)) k) else k)
       in vthen (set_c1 k') (vret k'))"

definition c1_envelope_if :: "bool \<Rightarrow> cont \<Rightarrow> cont vm" where
  "c1_envelope_if cond k = (if cond then c1_envelope k True else vret k)"

definition c1_save_set :: "bool \<Rightarrow> unit vm" where
  "c1_save_set save =
     vbind (vm_get_c 0) (\<lambda>k. vbind (vget cr) (\<lambda>r.
       if save then
         let k' = with_cregs (define_c1 (c1 r)) k in vthen (set_c0 k') (set_c1 k')
       else set_c1 k))"

definition vm_repeat :: "cont \<Rightarrow> cont \<Rightarrow> int \<Rightarrow> int vm" where
  "vm_repeat body aft count = (if count \<le> 0 then jump aft else jump (RepeatCont body aft count))"

definition again :: "cont \<Rightarrow> int vm" where
  "again body = jump (AgainCont body)"

definition vm_until :: "cont \<Rightarrow> cont \<Rightarrow> int vm" where
  "vm_until body aft =
     vthen (if \<not> has_c0 body then set_c0 (UntilCont body aft) else vret ()) (jump body)"

definition loop_while :: "cont \<Rightarrow> cont \<Rightarrow> cont \<Rightarrow> int vm" where
  "loop_while cnd body aft =
     vthen (if \<not> has_c0 cnd then set_c0 (WhileCont cnd body aft True) else vret ()) (jump cnd)"

definition exception_gas_price :: int where "exception_gas_price = 50"

definition throw_exception_arg :: "int \<Rightarrow> stack_entry \<Rightarrow> int vm" where
  "throw_exception_arg n arg =
     vthen (set_stack [IntVal (Some n), arg])
       (vthen (vmod (\<lambda>s. s\<lparr>code := None\<rparr>))
         (vthen (consume_gas_chk exception_gas_price) (vbind (vm_get_c 2) jump)))"

definition throw_exception :: "int \<Rightarrow> int vm" where
  "throw_exception n = throw_exception_arg n (IntVal (Some 0))"

section \<open>Loading cells\<close>

definition cell_load_gas_price :: int where "cell_load_gas_price = 100"

definition cell_reload_gas_price :: int where "cell_reload_gas_price = 25"

definition register_cell_load :: "bits \<Rightarrow> unit vm" where
  "register_cell_load h =
     vbind (vget (\<lambda>s. h \<in> set (loaded_cells s))) (\<lambda>seen.
       if seen then consume_gas cell_reload_gas_price
       else vthen (vmod (\<lambda>s. s\<lparr>loaded_cells := h # loaded_cells s\<rparr>)) (consume_gas cell_load_gas_price))"

text \<open>
  \<open>load_cell_slice_impl\<close>: a library cell (special, type byte 2) is replaced by the cell that the
  library collections hold under the hash it names, and this may go on. The recursion of the code has no
  bound; here it is cut off at \<open>n\<close> steps, and running out of them is \<open>Undef\<close>. Cells that
  are pruned or of an unknown special type are errors.
\<close>

fun load_cell_slice_impl :: "nat \<Rightarrow> cell \<Rightarrow> slice vm" where
  "load_cell_slice_impl 0 c = vundef"
| "load_cell_slice_impl (Suc n) c =
     vbind (vget (\<lambda>s. get_hash (sha256 s) c max_level)) (\<lambda>h.
       vthen (register_cell_load h)
         (if \<not> cell_special c then vret (cell_slice c)
          else if bits_nat (take 8 (cell_bits c)) = 2 then
            vbind (vget (\<lambda>s. lib_lookup s (drop 8 (cell_bits c)))) (\<lambda>l.
              case l of None \<Rightarrow> vthrow cell_und | Some c' \<Rightarrow> load_cell_slice_impl n c')
          else vthrow cell_und))"

definition load_cell_slice_ref :: "cell \<Rightarrow> slice vm" where
  "load_cell_slice_ref c = load_cell_slice_impl 256 c"

definition ref_to_cont :: "cell \<Rightarrow> cont vm" where
  "ref_to_cont c =
     vbind (load_cell_slice_ref c) (\<lambda>cs. vbind (vget cp) (\<lambda>n. vret (OrdCont (cdata_new n) (Some cs))))"

section \<open>Committing\<close>

text \<open>\<open>try_commit\<close>; the Boolean result says whether the data were committed.\<close>

definition try_commit :: "bool vm" where
  "try_commit = (\<lambda>s. case (d0 (cr s), d1 (cr s)) of
       (Some x, Some y) \<Rightarrow>
         if get_depth x max_level \<le> max_data_depth \<and> get_depth y max_level \<le> max_data_depth
         then Ok True (s\<lparr>cstate := \<lparr>cs_c4 = Some x, cs_c5 = Some y, cs_committed = True\<rparr>\<rparr>)
         else Ok False s
     | _ \<Rightarrow> Ok False s)"

definition force_commit :: "unit vm" where
  "force_commit = vbind try_commit (\<lambda>ok. if ok then vret () else vthrow cell_ov)"

section \<open>Registers within the invariant\<close>

lemma cregs_ok_sel:
  "cregs_ok r \<longleftrightarrow> (\<forall>k. c0 r = Some k \<longrightarrow> cont_ok k) \<and> (\<forall>k. c1 r = Some k \<longrightarrow> cont_ok k) \<and>
     (\<forall>k. c2 r = Some k \<longrightarrow> cont_ok k) \<and> (\<forall>k. c3 r = Some k \<longrightarrow> cont_ok k) \<and>
     (\<forall>c. d0 r = Some c \<longrightarrow> cell_ok c) \<and> (\<forall>c. d1 r = Some c \<longrightarrow> cell_ok c) \<and>
     (\<forall>t. c7 r = Some t \<longrightarrow> length t \<le> 255 \<and> stack_ok t)"
  by (cases r) (auto simp: stack_ok_def)

lemmas cr_defs = cr_c0_def cr_c1_def cr_c2_def cr_c3_def cr_d0_def cr_d1_def cr_c7_def

lemma cr_sel [simp]:
  "c0 (cr_c0 k r) = k" "c0 (cr_c1 k r) = c0 r" "c0 (cr_c2 k r) = c0 r" "c0 (cr_c3 k r) = c0 r"
  "c1 (cr_c0 k r) = c1 r" "c1 (cr_c1 k r) = k" "c1 (cr_c2 k r) = c1 r" "c1 (cr_c3 k r) = c1 r"
  "c2 (cr_c0 k r) = c2 r" "c2 (cr_c1 k r) = c2 r" "c2 (cr_c2 k r) = k" "c2 (cr_c3 k r) = c2 r"
  "c3 (cr_c0 k r) = c3 r" "c3 (cr_c1 k r) = c3 r" "c3 (cr_c2 k r) = c3 r" "c3 (cr_c3 k r) = k"
  by (simp_all add: cr_defs)

lemma cregs_ok_upd [simp]:
  "cregs_ok r \<Longrightarrow> (\<forall>j. k = Some j \<longrightarrow> cont_ok j) \<Longrightarrow> cregs_ok (cr_c0 k r)"
  "cregs_ok r \<Longrightarrow> (\<forall>j. k = Some j \<longrightarrow> cont_ok j) \<Longrightarrow> cregs_ok (cr_c1 k r)"
  "cregs_ok r \<Longrightarrow> (\<forall>j. k = Some j \<longrightarrow> cont_ok j) \<Longrightarrow> cregs_ok (cr_c2 k r)"
  "cregs_ok r \<Longrightarrow> (\<forall>j. k = Some j \<longrightarrow> cont_ok j) \<Longrightarrow> cregs_ok (cr_c3 k r)"
  "cregs_ok r \<Longrightarrow> (\<forall>x. c = Some x \<longrightarrow> cell_ok x) \<Longrightarrow> cregs_ok (cr_d0 c r)"
  "cregs_ok r \<Longrightarrow> (\<forall>x. c = Some x \<longrightarrow> cell_ok x) \<Longrightarrow> cregs_ok (cr_d1 c r)"
  "cregs_ok r \<Longrightarrow> (\<forall>t. x = Some t \<longrightarrow> length t \<le> 255 \<and> stack_ok t) \<Longrightarrow> cregs_ok (cr_c7 x r)"
  by (auto simp: cregs_ok_sel cr_defs)

lemma regs_full_upd [simp]:
  "regs_full r \<Longrightarrow> regs_full (cr_c0 (Some k) r)" "regs_full r \<Longrightarrow> regs_full (cr_c1 (Some k) r)"
  "regs_full r \<Longrightarrow> regs_full (cr_c2 (Some k) r)" "regs_full r \<Longrightarrow> regs_full (cr_c3 (Some k) r)"
  "regs_full r \<Longrightarrow> regs_full (cr_d0 (Some c) r)" "regs_full r \<Longrightarrow> regs_full (cr_d1 (Some c) r)"
  "regs_full r \<Longrightarrow> regs_full (cr_c7 (Some t) r)"
  by (auto simp: regs_full_def cr_defs)

lemma cregs_ok_clear [simp]: "cregs_ok cregs_clear"
  by (simp add: cregs_clear_def)

lemma cdata_new_ok [simp]: "cdata_ok (cdata_new n)" "cd_save (cdata_new n) = cregs_clear"
  "cd_stack (cdata_new n) = None" "cd_nargs (cdata_new n) = - 1"
  by (simp_all add: cdata_new_def)

lemma cregs_ok_adjust [simp]: "cregs_ok r \<Longrightarrow> cregs_ok sv \<Longrightarrow> cregs_ok (cr_adjust r sv)"
  by (auto simp: cregs_ok_sel cr_adjust_def over_def split: option.splits)

lemma cregs_ok_preclear [simp]: "cregs_ok r \<Longrightarrow> cregs_ok (cr_preclear r sv)"
  by (auto simp: cregs_ok_sel cr_preclear_def retain_def split: if_splits)

lemma adjust_clear [simp]: "cr_adjust r cregs_clear = r"
  by (cases r) (simp add: cr_adjust_def over_def cregs_clear_def)

lemma regs_full_adjust [simp]: "regs_full r \<Longrightarrow> regs_full (cr_adjust r sv)"
  by (auto simp: regs_full_def cr_adjust_def over_def split: option.splits)

lemma adjust_preclear [simp]: "cr_adjust (cr_preclear r sv) sv = cr_adjust r sv"
  by (auto simp: cr_adjust_def cr_preclear_def over_def retain_def split: option.splits)

text \<open>The part of the invariant that does not look at the registers.\<close>

definition vm_rest :: "vm_state \<Rightarrow> vm_state \<Rightarrow> bool" where
  "vm_rest s0 s \<longleftrightarrow> stack_ok (stk s) \<and> commit_ok (cstate s) \<and> (\<forall>h c. lib_lookup s h = Some c \<longrightarrow> cell_ok c \<and> \<not> cell_special c) \<and>
     gas_ok (gas s0) (gas s) \<and>
     sha256 s = sha256 s0 \<and> lib_lookup s = lib_lookup s0 \<and> known_cps s = known_cps s0 \<and> steps s = steps s0"

lemma vm_inv_split: "vm_inv s0 s \<longleftrightarrow> vm_rest s0 s \<and> cregs_ok (cr s) \<and> regs_full (cr s)"
  by (auto simp: vm_inv_def vm_rest_def vm_wf_def gas_ok_def)

lemma vm_rest_upd [simp]:
  "vm_rest s0 (s\<lparr>cr := r\<rparr>) = vm_rest s0 s" "vm_rest s0 (s\<lparr>code := c\<rparr>) = vm_rest s0 s"
  "vm_rest s0 (s\<lparr>cp := n\<rparr>) = vm_rest s0 s"
  "vm_rest s0 s \<Longrightarrow> stack_ok xs \<Longrightarrow> vm_rest s0 (s\<lparr>stk := xs\<rparr>)"
  "vm_rest s0 s \<Longrightarrow> gas_ok (gas s) g \<Longrightarrow> vm_rest s0 (s\<lparr>gas := g\<rparr>)"
  by (auto simp: vm_rest_def intro: gas_ok_trans)

lemma vm_rest_stack_ok [simp]: "vm_rest s0 s \<Longrightarrow> stack_ok (stk s)"
  by (simp add: vm_rest_def)

lemma vm_inv_cr [simp]:
  "vm_inv s0 s \<Longrightarrow> cregs_ok r \<Longrightarrow> regs_full r \<Longrightarrow> vm_inv s0 (s\<lparr>cr := r\<rparr>)"
  by (simp add: vm_inv_split)

lemma vm_inv_regs [simp]: "vm_inv s0 s \<Longrightarrow> cregs_ok (cr s)" "vm_inv s0 s \<Longrightarrow> regs_full (cr s)"
  unfolding vm_inv_split by simp_all

lemma wp_vm_get_c [wp_rules]:
  assumes "vm_inv s0 s" "i < 4" "\<And>k. cont_ok k \<Longrightarrow> Q k s"
  shows "wp (vm_get_c i) Q (vm_inv s0) s"
proof -
  have full: "regs_full (cr s)" and ok: "cregs_ok (cr s)" using assms(1) by simp_all
  have "i = 0 \<or> i = 1 \<or> i = 2 \<or> i = 3" using assms(2) by linarith
  then obtain k where k: "get_c i (cr s) = Some k"
    using full unfolding regs_full_def get_c_def by auto
  with ok have "cont_ok k" unfolding cregs_ok_sel get_c_def by (auto split: if_splits)
  then show ?thesis using assms(3) k by (simp add: wp_def vm_get_c_def)
qed

section \<open>Transfers are safe\<close>

text \<open>The registers a continuation restores when control passes to it.\<close>

definition save_of :: "cont \<Rightarrow> control_regs" where
  "save_of k = (case get_cdata k of None \<Rightarrow> cregs_clear | Some d \<Rightarrow> cd_save d)"

text \<open>
  What must hold at the moment of a transfer: registers may be null, as long as the
  continuation restores them.
\<close>

definition transfer_ok :: "vm_state \<Rightarrow> cont \<Rightarrow> vm_state \<Rightarrow> bool" where
  "transfer_ok s0 k s \<longleftrightarrow> cont_ok k \<and> vm_rest s0 s \<and> cregs_ok (cr s) \<and> regs_full (cr_adjust (cr s) (save_of k))"

lemma transfer_okI: "vm_inv s0 s \<Longrightarrow> cont_ok k \<Longrightarrow> transfer_ok s0 k s"
  unfolding transfer_ok_def vm_inv_split by simp

lemma cdata_ok_sel:
  "cdata_ok d \<longleftrightarrow> (\<forall>xs. cd_stack d = Some xs \<longrightarrow> stack_ok xs) \<and> cregs_ok (cd_save d) \<and> - 1 \<le> cd_nargs d"
  by (cases d) (auto simp: stack_ok_def)

lemma cont_ok_cdata: "cont_ok k \<Longrightarrow> get_cdata k = Some d \<Longrightarrow> cdata_ok d"
  by (cases k) auto

lemma wp_move_from_stack [wp_rules]:
  assumes "stack_ok (stk s)" "stack_ok dst" "0 \<le> n" "n \<le> depth s"
    "\<And>ys xs. stack_ok ys \<Longrightarrow> stack_ok xs \<Longrightarrow> int (length xs) = depth s - n \<Longrightarrow> Q ys (s\<lparr>stk := xs\<rparr>)"
  shows "wp (move_from_stack n dst) Q R s"
  using assms(1-4) by (auto simp: wp_def move_from_stack_def depth_def intro!: assms(5) stack_ok_take stack_ok_drop)

lemma wp_set_stack [wp_rules]: "Q () (s\<lparr>stk := xs\<rparr>) \<Longrightarrow> wp (set_stack xs) Q R s"
  unfolding set_stack_def by (rule wp_vmod)

lemma wp_vm_cr [wp_rules]: "Q () (s\<lparr>cr := f (cr s)\<rparr>) \<Longrightarrow> wp (vm_cr f) Q R s"
  unfolding vm_cr_def by (rule wp_vmod)

lemmas set_c_defs = set_c0_def set_c1_def set_c2_def adjust_cr_def preclear_cr_def

lemma wp_jump_prep:
  assumes inv: "vm_inv s0 s" and k: "cont_ok k" and R: "R s" and Q: "\<And>s'. transfer_ok s0 k s' \<Longrightarrow> Q () s'"
  shows "wp (jump_prep (get_cdata k) n) Q R s"
proof (cases "get_cdata k")
  case None
  then have sv: "save_of k = cregs_clear" by (simp add: save_of_def)
  have T: "transfer_ok s0 k s'" if "vm_rest s0 s'" "cr s' = cr s" for s'
    using that k inv unfolding vm_inv_split by (simp add: transfer_ok_def sv)
  have rest: "vm_rest s0 s" using inv unfolding vm_inv_split by simp
  show ?thesis
    unfolding jump_prep_def None option.case
    by (intro wp_rules) (use inv R rest in \<open>auto intro!: Q T simp: depth_def\<close>)
next
  case (Some d)
  then have sv: "save_of k = cd_save d" by (simp add: save_of_def)
  have d: "- 1 \<le> cd_nargs d" "\<And>xs. cd_stack d = Some xs \<Longrightarrow> stack_ok xs"
    using cont_ok_cdata [OF k Some] by (simp_all add: cdata_ok_sel)
  have rest: "vm_rest s0 s" using inv unfolding vm_inv_split by simp
  have T: "transfer_ok s0 k s'" if "vm_rest s0 s'" "cr s' = cr_preclear (cr s) (cd_save d)" for s'
    using that k inv unfolding vm_inv_split by (simp add: transfer_ok_def sv)
  show ?thesis
    unfolding jump_prep_def Some option.case Let_def preclear_cr_def
    by (intro wp_rules) (use inv R rest d in \<open>auto intro!: Q T wp_rules simp: depth_def split: option.split list.split\<close>)
qed

text \<open>The result of a transfer: the invariant, and code to run when the result is 0.\<close>

abbreviation post_ok :: "vm_state \<Rightarrow> int \<Rightarrow> vm_state \<Rightarrow> bool" where
  "post_ok s0 \<equiv> \<lambda>r s'. vm_inv s0 s' \<and> (r = 0 \<longrightarrow> has_code s')"

lemma wp_jump_pre:
  assumes "vm_inv s0 s" "cont_ok k" "R s" "\<And>s'. transfer_ok s0 k s' \<Longrightarrow> Q () s'"
  shows "wp (jump_pre k) Q R s"
proof (cases "get_cdata k")
  case (Some d)
  then show ?thesis
    unfolding jump_pre_def Some option.case
    using wp_jump_prep [of s0 s k R Q "- 1"] assms transfer_okI [OF assms(1,2)] by (auto simp: Some intro!: wp_if wp_vret)
qed (use assms transfer_okI in \<open>auto simp: jump_pre_def intro!: wp_vret\<close>)

lemma wp_jump_step:
  assumes "vm_inv s0 s" "cont_ok k" "\<And>s'. transfer_ok s0 k s' \<Longrightarrow> wp (jump_to k) (post_ok s0) (vm_inv s0) s'"
  shows "wp (vthen (jump_pre k) (jump_to k)) (post_ok s0) (vm_inv s0) s"
  by (rule wp_vthen, rule wp_jump_pre [OF assms(1,2)]) (use assms in auto)

text \<open>A loop continuation \<open>self\<close> goes to \<open>k\<close>, after it put itself in \<open>c0\<close> or not.\<close>

lemma wp_loop_step:
  assumes "vm_inv s0 s" "cont_ok k" "cont_ok self"
    "\<And>s'. transfer_ok s0 k s' \<Longrightarrow> wp (jump_to k) (post_ok s0) (vm_inv s0) s'"
  shows "wp (vthen (if b then set_c0 self else vret ()) (vthen (jump_pre k) (jump_to k))) (post_ok s0) (vm_inv s0) s"
  unfolding set_c0_def
  by (rule wp_vthen, rule wp_if; rule wp_vm_cr wp_vret; rule wp_jump_step) (use assms in auto)

lemma wp_force_cp [wp_rules]:
  assumes "Q () s" "\<And>n. Q () (s\<lparr>cp := n\<rparr>)" "R s"
  shows "wp (force_cp n) Q R s"
  using assms by (simp add: wp_def force_cp_def)

lemma exit_result_nz: "exit_result n = 0 \<longleftrightarrow> n = - 1"
  by (auto simp: exit_result_def)

lemma transfer_ok_nocdata:
  "get_cdata k = None \<Longrightarrow> transfer_ok s0 k s \<longleftrightarrow> cont_ok k \<and> vm_inv s0 s"
  unfolding transfer_ok_def save_of_def vm_inv_split by auto

lemma get_errno_nonneg: "get_errno e \<noteq> - 1"
  by (cases e) simp_all

lemma exc_quit_safe: "vm_inv s0 s \<Longrightarrow> wp exc_quit_jump (post_ok s0) (vm_inv s0) s"
proof -
  assume inv: "vm_inv s0 s"
  have "wp (pop_smallint_range 0xffff 0) (\<lambda>n s'. 0 \<le> n \<and> vm_inv s0 s') (vm_inv s0) s"
    by (rule wp_pop_smallint_range) (use inv in auto)
  then show ?thesis
    by (auto simp: wp_def exc_quit_jump_def exit_result_nz get_errno_nonneg split: vres.splits vm_exc.splits)
qed

lemma jump_to_safe:
  "transfer_ok s0 k s \<Longrightarrow> wp (jump_to k) (post_ok s0) (vm_inv s0) s"
proof (induction k arbitrary: s rule: jump_to.induct)
  case (1 n)
  then show ?case by (auto simp: transfer_ok_nocdata exit_result_nz intro!: wp_rules)
next
  case 2
  then show ?case by (simp add: transfer_ok_nocdata exc_quit_safe)
next
  case (3 n k)
  then show ?case
    unfolding jump_to.simps cont_jump_defs push_smallint_def
    by (intro wp_vthen wp_push wp_jump_step) (auto simp: transfer_ok_nocdata)
next
  case (4 b a n)
  then show ?case
    unfolding jump_to.simps cont_jump_defs set_c_defs
    by (auto simp: transfer_ok_nocdata intro!: wp_if wp_jump_step wp_vm_cr wp_vthen [of "vm_cr f" for f])
next
  case (5 b)
  then show ?case
    unfolding jump_to.simps cont_jump_defs by (intro wp_loop_step) (auto simp: transfer_ok_nocdata)
next
  case (6 b a)
  then show ?case
    unfolding jump_to.simps cont_jump_defs
    by (intro wp_vbind wp_pop_bool wp_if wp_loop_step wp_jump_step) (auto simp: transfer_ok_nocdata)
next
  case (7 c b a chk)
  then show ?case
    unfolding jump_to.simps cont_jump_defs
    by (intro wp_if wp_vbind wp_pop_bool wp_loop_step wp_jump_step) (auto simp: transfer_ok_nocdata)
next
  case (8 d k)
  then have inv: "vm_inv s0 (s\<lparr>cr := cr_adjust (cr s) (cd_save d)\<rparr>)"
    unfolding transfer_ok_def vm_inv_split by (simp add: save_of_def cdata_ok_sel)
  from 8 inv show ?case
    unfolding jump_to.simps cont_jump_defs set_c_defs
    by (auto intro!: wp_vthen wp_vm_cr wp_if wp_force_cp wp_vret 8(1) transfer_okI simp: transfer_ok_def)
next
  case (9 d c)
  then have inv: "vm_inv s0 (s\<lparr>cr := cr_adjust (cr s) (cd_save d)\<rparr>)"
    unfolding transfer_ok_def vm_inv_split by (simp add: save_of_def cdata_ok_sel)
  from 9 inv show ?case
    unfolding jump_to.simps cont_jump_defs set_c_defs set_code_def
    by (auto intro!: wp_rules simp: transfer_ok_def has_code_def)
qed

lemma wp_jump [wp_rules]:
  "vm_inv s0 s \<Longrightarrow> cont_ok k \<Longrightarrow> wp (jump k) (post_ok s0) (vm_inv s0) s"
  unfolding jump_def by (rule wp_jump_step) (auto intro: jump_to_safe)

lemma wp_jump_args [wp_rules]:
  "vm_inv s0 s \<Longrightarrow> cont_ok k \<Longrightarrow> wp (jump_args k n) (post_ok s0) (vm_inv s0) s"
  unfolding jump_args_def by (rule wp_vthen, rule wp_jump_prep) (auto intro: jump_to_safe)

lemma wp_take_c0 [wp_rules]: "Q (c0 (cr s)) (s\<lparr>cr := cr_c0 None (cr s)\<rparr>) \<Longrightarrow> wp take_c0 Q R s"
  by (simp add: wp_def take_c0_def)

lemma wp_take_code [wp_rules]: "Q (code s) (s\<lparr>code := None\<rparr>) \<Longrightarrow> wp take_code Q R s"
  by (simp add: wp_def take_code_def)

lemma wp_enter:
  assumes "vm_rest s0 s" "has_code s" "cregs_ok (cr s)" "cont_ok k" "\<forall>j. old_c0 = Some j \<longrightarrow> cont_ok j"
    "\<forall>xs. old_stk = Some xs \<longrightarrow> stack_ok xs" "- 1 \<le> n" "\<And>x. regs_full (cr_adjust (cr_c0 (Some x) (cr s)) (save_of k))"
  shows "wp (enter old_c0 old_stk n k) (post_ok s0) (vm_inv s0) s"
  unfolding enter_def set_c0_def
  by (intro wp_vbind wp_take_code wp_vget wp_vthen wp_vm_cr jump_to_safe)
    (use assms in \<open>simp add: transfer_ok_def has_code_def cdata_ok_sel\<close>)

lemma wp_call_stacks:
  assumes "stack_ok (stk s)" "\<forall>xs. st = Some xs \<longrightarrow> stack_ok xs" "copy + skip \<le> depth s" "0 \<le> skip"
    "copy < 0 \<Longrightarrow> skip = 0"
    "\<And>new old xs g. stack_ok new \<Longrightarrow> (\<forall>ys. old = Some ys \<longrightarrow> stack_ok ys) \<Longrightarrow> stack_ok xs \<Longrightarrow>
       g = gas s \<or> gas_ok (gas s) g \<Longrightarrow> Q (new, old) (s\<lparr>stk := xs, gas := g\<rparr>)"
  shows "wp (call_stacks st copy skip) Q R s"
proof -
  have same: "Q (stk s, None) s" using assms(6) [of "stk s" None "stk s" "gas s"] assms(1) by simp
  have Q1: "Q (new, Some xs) (s\<lparr>stk := xs, gas := g\<rparr>)" if "stack_ok new" "stack_ok xs" "gas_ok (gas s) g" for new xs g
    using assms(6) [of new "Some xs" xs g] that by simp
  show ?thesis
  proof (cases "\<exists>x xs. st = Some (x # xs)")
    case True
    then obtain x xs where st: "st = Some (x # xs)" by blast
    show ?thesis
      unfolding call_stacks_def st option.case list.case
      by (intro wp_rules) (use assms(1-5) st in \<open>auto simp: depth_def intro!: Q1\<close>)
  next
    case False
    then have "call_stacks st copy skip =
      (if copy \<ge> 0 then
         vbind (split_top copy skip) (\<lambda>new_stk.
           vthen (consume_stack_gas (length new_stk)) (vbind (vget stk) (\<lambda>rest. vret (new_stk, Some rest))))
       else vbind (vget stk) (\<lambda>all. vret (all, None)))"
      by (auto simp: call_stacks_def split: option.split list.split)
    then show ?thesis
      by (simp only:) (intro wp_rules; use assms(1-5) same in \<open>auto simp: depth_def intro!: Q1\<close>)
  qed
qed

lemma adjust_c0_full:
  assumes "regs_full r" "c0 sv = None"
  shows "regs_full (cr_adjust (cr_c0 (Some x) (cr_preclear (cr_c0 k r) sv)) sv)"
  using assms by (auto simp: regs_full_def cr_adjust_def cr_preclear_def over_def retain_def cr_c0_def split: option.splits)

lemma adjust_c0_full':
  assumes "regs_full r"
  shows "regs_full (cr_adjust (cr_c0 (Some x) (cr_c0 k r)) sv)"
  using assms by (auto simp: regs_full_def cr_adjust_def over_def cr_c0_def split: option.splits)

lemma wp_call_enter:
  assumes "vm_inv s0 s" "has_code s" "cont_ok k" "- 1 \<le> n" "gas_ok (gas s) g \<or> g = gas s"
    "stack_ok new" "\<forall>ys. old = Some ys \<longrightarrow> stack_ok ys" "stack_ok xs"
    "r = cr_preclear (cr_c0 None (cr s)) (save_of k) \<and> c0 (save_of k) = None \<or> r = cr_c0 None (cr s)"
  shows "wp (vthen (set_stack new) (enter (c0 (cr s)) old n k)) (post_ok s0) (vm_inv s0)
    (s\<lparr>stk := xs, gas := g, cr := r\<rparr>)"
proof (intro wp_vthen wp_set_stack wp_enter)
  have rest: "vm_rest s0 s" and ok: "cregs_ok (cr s)" and full: "regs_full (cr s)"
    using assms(1) unfolding vm_inv_split by simp_all
  show "vm_rest s0 (s\<lparr>stk := xs, gas := g, cr := r\<rparr>\<lparr>stk := new\<rparr>)"
    using rest assms(5,6) by auto
  show "cregs_ok (cr (s\<lparr>stk := xs, gas := g, cr := r\<rparr>\<lparr>stk := new\<rparr>))"
    using ok assms(9) by auto
  show "regs_full (cr_adjust (cr_c0 (Some x) (cr (s\<lparr>stk := xs, gas := g, cr := r\<rparr>\<lparr>stk := new\<rparr>))) (save_of k))" for x
    using full assms(9) by (auto intro: adjust_c0_full adjust_c0_full')
  show "\<forall>j. c0 (cr s) = Some j \<longrightarrow> cont_ok j" using ok by (simp add: cregs_ok_sel)
qed (use assms in auto)

lemma wp_call_args [wp_rules]:
  assumes inv: "vm_inv s0 s" and code: "has_code s" and k: "cont_ok k" and n: "- 1 \<le> n"
  shows "wp (call_args k pass n) (post_ok s0) (vm_inv s0) s"
proof (cases "get_cdata k")
  case None
  show ?thesis
    unfolding call_args_def None option.case
  proof (intro wp_vbind wp_vget wp_if wp_vthrow, rule inv, rule wp_call_stacks)
    fix new old xs g
    assume h: "stack_ok new" "\<forall>ys. old = Some ys \<longrightarrow> stack_ok ys" "stack_ok xs" "g = gas s \<or> gas_ok (gas s) g"
    show "wp (case (new, old) of (new_stk, old_stk) \<Rightarrow>
        vbind take_c0 (\<lambda>old_c0. vthen (set_stack new_stk) (enter old_c0 old_stk n k)))
      (post_ok s0) (vm_inv s0) (s\<lparr>stk := xs, gas := g\<rparr>)"
      unfolding prod.case
      by (rule wp_vbind, rule wp_take_c0)
        (use wp_call_enter [OF inv code k n _ h(1-3), of g "cr_c0 None (cr s)"] h(4) in auto)
  qed (use inv in \<open>auto simp: depth_def\<close>)
next
  case (Some d)
  have d: "- 1 \<le> cd_nargs d" "\<forall>xs. cd_stack d = Some xs \<longrightarrow> stack_ok xs" and sv: "save_of k = cd_save d"
    using cont_ok_cdata [OF k Some] Some by (simp_all add: cdata_ok_sel save_of_def)
  show ?thesis
    unfolding call_args_def Some option.case Let_def preclear_cr_def
  proof (rule wp_if, rule wp_jump_args [OF inv k], intro wp_vbind wp_vget wp_if wp_vthrow wp_take_c0 wp_vthen wp_vm_cr,
      rule inv, rule inv, rule wp_call_stacks)
    fix new old xs g
    assume c: "\<not> c0 (cd_save d) \<noteq> None"
      and h: "stack_ok new" "\<forall>ys. old = Some ys \<longrightarrow> stack_ok ys" "stack_ok xs"
      "g = gas (s\<lparr>cr := cr_c0 None (cr s)\<rparr>\<lparr>cr := cr_preclear (cr (s\<lparr>cr := cr_c0 None (cr s)\<rparr>)) (cd_save d)\<rparr>) \<or>
       gas_ok (gas (s\<lparr>cr := cr_c0 None (cr s)\<rparr>\<lparr>cr := cr_preclear (cr (s\<lparr>cr := cr_c0 None (cr s)\<rparr>)) (cd_save d)\<rparr>)) g"
    show "wp (case (new, old) of (new_stk, old_stk) \<Rightarrow>
        vthen (set_stack new_stk) (enter (c0 (cr s)) old_stk n k)) (post_ok s0) (vm_inv s0)
      (s\<lparr>cr := cr_c0 None (cr s)\<rparr>\<lparr>cr := cr_preclear (cr (s\<lparr>cr := cr_c0 None (cr s)\<rparr>)) (cd_save d)\<rparr>\<lparr>stk := xs, gas := g\<rparr>)"
      using wp_call_enter [OF inv code k n _ h(1-3), of g "cr_preclear (cr_c0 None (cr s)) (cd_save d)"] h(4) c
      by (cases s) (auto simp: sv)
  qed (use inv d in \<open>auto simp: depth_def\<close>)
qed

lemma wp_call [wp_rules]:
  assumes inv: "vm_inv s0 s" and code: "has_code s" and k: "cont_ok k"
  shows "wp (call k) (post_ok s0) (vm_inv s0) s"
proof -
  have e: "wp (vbind take_c0 (\<lambda>old_c0. enter old_c0 None (- 1) k)) (post_ok s0) (vm_inv s0) s"
  proof (intro wp_vbind wp_take_c0 wp_enter)
    show "\<forall>j. c0 (cr s) = Some j \<longrightarrow> cont_ok j" using vm_inv_regs(1) [OF inv] by (simp add: cregs_ok_sel)
    show "vm_rest s0 (s\<lparr>cr := cr_c0 None (cr s)\<rparr>)" using inv unfolding vm_inv_split by simp
  qed (use inv code k in \<open>auto intro: adjust_c0_full'\<close>)
  show ?thesis
    unfolding call_def
    by (intro wp_option wp_if) (use inv code k e in \<open>auto intro!: wp_jump wp_call_args\<close>)
qed

lemma wp_set_c [wp_rules]:
  "Q () (s\<lparr>cr := cr_c0 (Some k) (cr s)\<rparr>) \<Longrightarrow> wp (set_c0 k) Q R s"
  "Q () (s\<lparr>cr := cr_c1 (Some k) (cr s)\<rparr>) \<Longrightarrow> wp (set_c1 k) Q R s"
  "Q () (s\<lparr>cr := cr_c2 (Some k) (cr s)\<rparr>) \<Longrightarrow> wp (set_c2 k) Q R s"
  unfolding set_c_defs by (rule wp_vm_cr, assumption)+

lemma quit_ok [simp]: "cont_ok quit0" "cont_ok quit1"
  by (simp_all add: quit0_def quit1_def)

lemma wp_get_c_inv:
  assumes "vm_inv s0 s" "i < 4" "\<And>k. cont_ok k \<Longrightarrow> wp (f k) Q (vm_inv s0) s"
  shows "wp (vbind (vm_get_c i) f) Q (vm_inv s0) s"
  by (rule wp_vbind, rule wp_vm_get_c [OF assms(1,2)]) (rule assms(3))

lemma wp_ret [wp_rules]:
  assumes "vm_inv s0 s"
  shows "wp ret (post_ok s0) (vm_inv s0) s" "wp (ret_args n) (post_ok s0) (vm_inv s0) s"
    "wp ret_alt (post_ok s0) (vm_inv s0) s" "wp (ret_alt_args n) (post_ok s0) (vm_inv s0) s"
  unfolding ret_def ret_args_def ret_alt_def ret_alt_args_def
  by (rule wp_get_c_inv [OF assms]; (intro wp_vthen wp_set_c wp_jump wp_jump_args)?; use assms in simp)+

lemma wp_extract_stack:
  assumes "stack_ok (stk s)" "R s"
    "\<And>new old xs g. stack_ok new \<Longrightarrow> (\<forall>ys. old = Some ys \<longrightarrow> stack_ok ys) \<Longrightarrow> stack_ok xs \<Longrightarrow>
       g = gas s \<or> gas_ok (gas s) g \<Longrightarrow> Q (new, old) (s\<lparr>stk := xs, gas := g\<rparr>)"
  shows "wp (if n < 0 \<or> n = depth s then vbind (vget stk) (\<lambda>xs. vret (xs, None))
          else if n > 0 then
            vthen (check_underflow n)
              (vbind (split_top n 0) (\<lambda>xs.
                 vthen (consume_stack_gas (length xs)) (vbind (vget stk) (\<lambda>rest. vret (xs, Some rest)))))
          else vbind (vget stk) (\<lambda>rest. vret ([], Some rest))) Q R s"
proof -
  have same: "Q (stk s, None) s" "Q ([], Some (stk s)) s"
    using assms(3) [of "stk s" None "stk s" "gas s"] assms(3) [of "[]" "Some (stk s)" "stk s" "gas s"] assms(1) by simp_all
  have Q1: "Q (new, Some xs) (s\<lparr>stk := xs, gas := g\<rparr>)" if "stack_ok new" "stack_ok xs" "gas_ok (gas s) g" for new xs g
    using assms(3) [of new "Some xs" xs g] that by simp
  show ?thesis
    by (intro wp_rules) (use assms(1,2) same in \<open>auto simp: depth_def intro!: Q1\<close>)
qed

lemma wp_cr_if:
  "Q () (s\<lparr>cr := (if b then f (cr s) else cr s)\<rparr>) \<Longrightarrow> wp (if b then vm_cr f else vret ()) Q R s"
  by (auto simp: wp_def vm_cr_def vmod_def vret_def)

lemma cr_c2_twice [simp]: "cr_c2 k (cr_c2 j r) = cr_c2 k r"
  by (simp add: cr_c2_def)

text \<open>The registers that \<open>extract_cc\<close> saves.\<close>

lemma cc_saved_ok:
  "cregs_ok r \<Longrightarrow>
     cregs_ok (CRegs (if a then c0 r else None) (if b then c1 r else None) (if c then c2 r else None) None None None None)"
  by (simp add: cregs_ok_sel)

text \<open>
  After \<open>extract_cc\<close> the machine has no code, and no handler in \<open>c2\<close> if that was saved; the
  continuation made is well-formed.
\<close>

lemma wp_extract_cc_gen:
  assumes inv: "vm_inv s0 s" and code: "has_code s" and n: "- 1 \<le> cc_args" and R: "R s"
    and Q: "\<And>k s'. cont_ok k \<Longrightarrow> vm_rest s0 s' \<Longrightarrow> cregs_ok (cr s') \<Longrightarrow> (\<And>x. regs_full (cr_c2 (Some x) (cr s'))) \<Longrightarrow>
      (save_cr div 4 mod 2 \<noteq> 1 \<Longrightarrow> regs_full (cr s')) \<Longrightarrow> Q k s'"
  shows "wp (extract_cc save_cr m cc_args) Q R s"
proof -
  have rest: "vm_rest s0 s" and ok: "cregs_ok (cr s)" and full: "regs_full (cr s)"
    using inv unfolding vm_inv_split by simp_all
  show ?thesis
    unfolding extract_cc_def set_c_defs
  proof (intro wp_vbind wp_vget, rule wp_extract_stack)
    fix new old xs g
    assume h: "stack_ok new" "\<forall>ys. old = Some ys \<longrightarrow> stack_ok ys" "stack_ok xs" "g = gas s \<or> gas_ok (gas s) g"
    have r: "vm_rest s0 (s\<lparr>gas := g\<rparr>)" using rest h(4) by auto
    show "wp (case (new, old) of (new_stk, old_stk) \<Rightarrow>
            vbind take_code (\<lambda>cd. vbind (vget cp) (\<lambda>n. vbind (vget cr) (\<lambda>r.
              vthen (set_stack new_stk)
                (vthen (if save_cr mod 2 = 1 then vm_cr (cr_c0 (Some quit0)) else vret ())
                  (vthen (if save_cr div 2 mod 2 = 1 then vm_cr (cr_c1 (Some quit1)) else vret ())
                    (vthen (if save_cr div 4 mod 2 = 1 then vm_cr (cr_c2 None) else vret ())
                      (vret (OrdCont (CData old_stk
                         (CRegs (if save_cr mod 2 = 1 then c0 r else None)
                                (if save_cr div 2 mod 2 = 1 then c1 r else None)
                                (if save_cr div 4 mod 2 = 1 then c2 r else None) None None None None)
                         cc_args n) cd)))))))))
      Q R (s\<lparr>stk := xs, gas := g\<rparr>)"
      unfolding prod.case
      by (intro wp_vbind wp_vget wp_take_code wp_vthen wp_set_stack wp_cr_if wp_vret Q)
        (use r h code n ok full in \<open>simp_all add: cdata_ok_sel has_code_def cc_saved_ok del: cregs_ok.simps\<close>)
  qed (use inv R in simp_all)
qed

lemma wp_extract_cc [wp_rules]:
  assumes "vm_inv s0 s" "has_code s" "- 1 \<le> cc_args" "save_cr < 4"
    "\<And>k s'. cont_ok k \<Longrightarrow> vm_inv s0 s' \<Longrightarrow> Q k s'"
  shows "wp (extract_cc save_cr m cc_args) Q (vm_inv s0) s"
proof -
  have "save_cr div 4 mod 2 \<noteq> 1" using assms(4) by simp
  then show ?thesis
    by (intro wp_extract_cc_gen [where R = "vm_inv s0", OF assms(1-3) assms(1)] assms(5))
      (simp_all only: vm_inv_split simp_thms)
qed

lemma save_of_ok: "cont_ok k \<Longrightarrow> cregs_ok (save_of k)"
  by (cases "get_cdata k") (auto simp: save_of_def cdata_ok_sel dest: cont_ok_cdata)

lemma cd_with_save_sel [simp]:
  "cd_stack (cd_with_save f d) = cd_stack d" "cd_save (cd_with_save f d) = f (cd_save d)"
  "cd_nargs (cd_with_save f d) = cd_nargs d" "cd_cp (cd_with_save f d) = cd_cp d"
  by (simp_all add: cd_with_save_def)

lemma force_cdata_ok [simp]: "cont_ok (force_cdata k) = cont_ok k"
  by (simp add: force_cdata_def)

lemma with_cregs_ok:
  assumes "cont_ok k" "\<And>r. cregs_ok r \<Longrightarrow> cregs_ok (f r)"
  shows "cont_ok (with_cregs f k)"
proof -
  have "cont_ok (map_cdata (cd_with_save f) j)" if "cont_ok j" for j
    using that assms(2) by (cases j) (auto simp: cdata_ok_sel)
  then show ?thesis using assms(1) by (simp add: with_cregs_def)
qed

lemma define_ok:
  "cregs_ok r \<Longrightarrow> (\<forall>j. k = Some j \<longrightarrow> cont_ok j) \<Longrightarrow> cregs_ok (define_c0 k r)"
  "cregs_ok r \<Longrightarrow> (\<forall>j. k = Some j \<longrightarrow> cont_ok j) \<Longrightarrow> cregs_ok (define_c1 k r)"
  "cregs_ok r \<Longrightarrow> (\<forall>j. k = Some j \<longrightarrow> cont_ok j) \<Longrightarrow> cregs_ok (define_c2 k r)"
  by (simp_all add: define_c0_def define_c1_def define_c2_def)

lemma cregs_okD:
  "cregs_ok r \<Longrightarrow> c0 r = Some j \<Longrightarrow> cont_ok j" "cregs_ok r \<Longrightarrow> c1 r = Some j \<Longrightarrow> cont_ok j"
  "cregs_ok r \<Longrightarrow> c2 r = Some j \<Longrightarrow> cont_ok j" "cregs_ok r \<Longrightarrow> c3 r = Some j \<Longrightarrow> cont_ok j"
  by (simp_all add: cregs_ok_sel)

lemma wp_c1_envelope [wp_rules]:
  assumes "vm_inv s0 s" "cont_ok k" "\<And>k s'. cont_ok k \<Longrightarrow> vm_inv s0 s' \<Longrightarrow> Q k s'"
  shows "wp (c1_envelope k save) Q (vm_inv s0) s"
proof -
  have ok: "cregs_ok (cr s)" using assms(1) by simp
  have "cont_ok (if save then with_cregs (define_c0 (c0 (cr s))) (with_cregs (define_c1 (c1 (cr s))) k) else k)"
    using assms(2) ok by (auto intro!: with_cregs_ok define_ok dest: cregs_okD)
  then show ?thesis
    unfolding c1_envelope_def Let_def
    by (intro wp_vbind wp_vget wp_vthen wp_set_c wp_vret assms(3)) (use assms(1) in auto)
qed

lemma wp_c1_envelope_if [wp_rules]:
  assumes "vm_inv s0 s" "cont_ok k" "\<And>k s'. cont_ok k \<Longrightarrow> vm_inv s0 s' \<Longrightarrow> Q k s'"
  shows "wp (c1_envelope_if b k) Q (vm_inv s0) s"
  unfolding c1_envelope_if_def
  by (intro wp_if wp_c1_envelope [OF assms(1,2)] wp_vret) (use assms in auto)

lemma wp_c1_save_set [wp_rules]:
  assumes "vm_inv s0 s" "\<And>r. vm_inv s0 (s\<lparr>cr := r\<rparr>) \<Longrightarrow> Q () (s\<lparr>cr := r\<rparr>)"
  shows "wp (c1_save_set save) Q (vm_inv s0) s"
proof -
  have ok: "cregs_ok (cr s)" using assms(1) by simp
  have "cont_ok (with_cregs (define_c1 (c1 (cr s))) k)" if "cont_ok k" for k
    using that ok by (auto intro!: with_cregs_ok define_ok dest: cregs_okD)
  then show ?thesis
    unfolding c1_save_set_def Let_def
    by (intro wp_get_c_inv [OF assms(1)] wp_vbind [of "vget cr"] wp_vget wp_if wp_vthen wp_set_c) (use assms in auto)
qed

lemma wp_set_jump:
  assumes "vm_inv s0 s" "cont_ok k" "cont_ok self"
  shows "wp (vthen (if b then set_c0 self else vret ()) (jump k)) (post_ok s0) (vm_inv s0) s"
  by (rule wp_vthen, rule wp_if; rule wp_set_c wp_vret; rule wp_jump) (use assms in auto)

lemma wp_loops [wp_rules]:
  assumes "vm_inv s0 s"
  shows "cont_ok b \<Longrightarrow> cont_ok a \<Longrightarrow> wp (vm_repeat b a n) (post_ok s0) (vm_inv s0) s"
    "cont_ok b \<Longrightarrow> wp (again b) (post_ok s0) (vm_inv s0) s"
    "cont_ok b \<Longrightarrow> cont_ok a \<Longrightarrow> wp (vm_until b a) (post_ok s0) (vm_inv s0) s"
    "cont_ok c \<Longrightarrow> cont_ok b \<Longrightarrow> cont_ok a \<Longrightarrow> wp (loop_while c b a) (post_ok s0) (vm_inv s0) s"
  unfolding vm_repeat_def again_def vm_until_def loop_while_def
  by (intro wp_if wp_jump wp_set_jump assms; simp)+

lemma wp_throw_exception_arg [wp_rules]:
  assumes "vm_inv s0 s" "int257 n" "entry_ok x"
  shows "wp (throw_exception_arg n x) (post_ok s0) (vm_inv s0) s"
  unfolding throw_exception_arg_def exception_gas_price_def
  by (intro wp_vthen wp_set_stack wp_vmod wp_consume_gas_chk wp_get_c_inv wp_jump) (use assms in auto)

lemma wp_throw_exception [wp_rules]:
  "vm_inv s0 s \<Longrightarrow> int257 n \<Longrightarrow> wp (throw_exception n) (post_ok s0) (vm_inv s0) s"
  unfolding throw_exception_def by (rule wp_throw_exception_arg) (simp_all add: int257_def)

section \<open>Loading cells is safe\<close>

lemma vm_inv_loaded [simp]: "vm_inv s0 (s\<lparr>loaded_cells := l\<rparr>) = vm_inv s0 s"
  unfolding vm_inv_def vm_wf_def by simp

lemma has_code_loaded [simp]: "has_code (s\<lparr>loaded_cells := l\<rparr>) = has_code s"
  by (simp add: has_code_def)

lemma wp_register_cell_load:
  assumes "\<And>l g. gas_ok (gas s) g \<Longrightarrow> Q () (s\<lparr>loaded_cells := l, gas := g\<rparr>)"
  shows "wp (register_cell_load h) Q R s"
  unfolding register_cell_load_def cell_load_gas_price_def cell_reload_gas_price_def
proof (intro wp_vbind wp_vget wp_if wp_vthen wp_vmod wp_consume_gas)
  fix g
  assume "gas_ok (gas s) g"
  then show "Q () (s\<lparr>gas := g\<rparr>)" using assms [of g "loaded_cells s"] by (cases s) simp
qed (use assms in auto)

lemma wp_load_cell_slice_impl:
  assumes "vm_inv s0 s" "n = Suc (Suc m)" "\<And>s'. vm_inv s0 s' \<Longrightarrow> R s'" "cell_ok c"
    "\<And>sl l g. slice_ok sl \<Longrightarrow> vm_inv s0 (s\<lparr>loaded_cells := l, gas := g\<rparr>) \<Longrightarrow> Q sl (s\<lparr>loaded_cells := l, gas := g\<rparr>)"
  shows "wp (load_cell_slice_impl n c) Q R s"
proof -
  have lib: "cell_ok c' \<and> \<not> cell_special c'" if "lib_lookup s h = Some c'" for h c'
    using assms(1) that unfolding vm_inv_def vm_wf_def by auto
  have once: "wp (load_cell_slice_impl (Suc k) c') Q R (s\<lparr>loaded_cells := l, gas := g\<rparr>)"
    if "cell_ok c' \<and> \<not> cell_special c'" "gas_ok (gas s) g" for c' l g k
    unfolding load_cell_slice_impl.simps
    by (intro wp_vbind wp_vget wp_vthen wp_register_cell_load wp_if wp_vret)
      (use that assms(1) gas_ok_trans in \<open>auto intro!: assms(5)\<close>)
  show ?thesis
    unfolding assms(2) load_cell_slice_impl.simps(2) [of "Suc m"]
    by (intro wp_vbind wp_vget wp_vthen wp_register_cell_load wp_if wp_vret wp_option wp_vthrow once assms(3,5))
      (use assms(1,4) lib in auto)
qed

lemma wp_load_cell_slice_ref [wp_rules]:
  assumes "vm_inv s0 s" "cell_ok c"
    "\<And>sl l g. slice_ok sl \<Longrightarrow> vm_inv s0 (s\<lparr>loaded_cells := l, gas := g\<rparr>) \<Longrightarrow> Q sl (s\<lparr>loaded_cells := l, gas := g\<rparr>)"
  shows "wp (load_cell_slice_ref c) Q (vm_inv s0) s"
  unfolding load_cell_slice_ref_def
  by (rule wp_load_cell_slice_impl [OF assms(1), where m = 254]) (use assms in auto)

lemma wp_ref_to_cont [wp_rules]:
  assumes "vm_inv s0 s" "cell_ok c"
    "\<And>k l g. cont_ok k \<Longrightarrow> vm_inv s0 (s\<lparr>loaded_cells := l, gas := g\<rparr>) \<Longrightarrow> Q k (s\<lparr>loaded_cells := l, gas := g\<rparr>)"
  shows "wp (ref_to_cont c) Q (vm_inv s0) s"
  unfolding ref_to_cont_def
  by (rule wp_vbind, rule wp_load_cell_slice_ref [OF assms(1,2)], intro wp_vbind wp_vget wp_vret assms(3)) auto

lemma wp_try_commit [wp_rules]:
  assumes "vm_inv s0 s" "\<And>b c. vm_inv s0 (s\<lparr>cstate := c\<rparr>) \<Longrightarrow> Q b (s\<lparr>cstate := c\<rparr>)"
  shows "wp try_commit Q (vm_inv s0) s"
proof -
  have inv: "vm_inv s0 (s\<lparr>cstate := c\<rparr>)" if "commit_ok c" for c
    using assms(1) that unfolding vm_inv_def vm_wf_def by simp
  have Q: "Q b (s\<lparr>cstate := c\<rparr>)" if "commit_ok c" for b c by (rule assms(2)) (rule inv [OF that])
  have "commit_ok (cstate s)" using assms(1) unfolding vm_inv_def vm_wf_def by simp
  from Q [OF this] have "Q b s" for b by simp
  then show ?thesis using Q vm_inv_regs(1) [OF assms(1)]
    by (auto simp: wp_def try_commit_def commit_ok_def cregs_ok_sel split: option.split)
qed

end
