(* ===== verification/ContOps.thy ===== *)
theory ContOps
  imports VmCont
begin

text \<open>
  Continuation and control-flow primitives (\<open>contops.cpp\<close>): calls, jumps and returns,
  conditionals, loops, closures and control registers, dictionary jumps, exceptions and the
  codepage. Each handler is one definition, with the list of opcodes of each group; every
  handler is shown safe.
\<close>

section \<open>Jumps and calls\<close>

text \<open>\<open>((args + 1) & 15) - 1\<close>\<close>

definition lo4_minus1 :: "nat \<Rightarrow> int" where
  "lo4_minus1 args = int ((args + 1) mod 16) - 1"

text \<open>\<open>push_code\<close>: the rest of the code as a slice; null code is \<open>Undef\<close>.\<close>

definition push_code :: "unit vm" where
  "push_code = vbind (vget code) (\<lambda>c. case c of None \<Rightarrow> vundef | Some cs \<Rightarrow> push_cellslice cs)"

definition exec_execute :: "int vm" where
  "exec_execute = vbind pop_cont call"

definition exec_callx_args :: "nat \<Rightarrow> int vm" where
  "exec_callx_args args = vbind pop_cont (\<lambda>k. call_args k (mid4 args) (lo4 args))"

definition exec_callx_args_p :: "nat \<Rightarrow> int vm" where
  "exec_callx_args_p args = vbind pop_cont (\<lambda>k. call_args k (lo4 args) (- 1))"

definition exec_jmpx :: "int vm" where
  "exec_jmpx = vbind pop_cont jump"

definition exec_jmpx_args :: "nat \<Rightarrow> int vm" where
  "exec_jmpx_args args = vbind pop_cont (\<lambda>k. jump_args k (lo4 args))"

definition exec_ret :: "int vm" where
  "exec_ret = ret"

definition exec_ret_args :: "nat \<Rightarrow> int vm" where
  "exec_ret_args args = ret_args (lo4 args)"

definition exec_ret_alt :: "int vm" where
  "exec_ret_alt = ret_alt"

definition exec_ret_bool :: "int vm" where
  "exec_ret_bool = vbind pop_bool (\<lambda>b. if b then ret else ret_alt)"

definition exec_callcc :: "int vm" where
  "exec_callcc =
     vbind pop_cont (\<lambda>k. vbind (extract_cc 3 (- 1) (- 1)) (\<lambda>cc. vthen (push_cont cc) (jump k)))"

definition exec_jmpx_data :: "int vm" where
  "exec_jmpx_data = vbind pop_cont (\<lambda>k. vthen push_code (jump k))"

definition exec_callcc_args :: "nat \<Rightarrow> int vm" where
  "exec_callcc_args args =
     (let params = mid4 args; retvals = lo4_minus1 args
      in vthen (check_underflow (params + 1))
           (vbind pop_cont (\<lambda>k. vbind (extract_cc 3 params retvals) (\<lambda>cc. vthen (push_cont cc) (jump k)))))"

definition exec_callx_varargs :: "int vm" where
  "exec_callx_varargs =
     vthen (check_underflow 3)
       (vbind (pop_smallint_range 254 (- 1)) (\<lambda>retvals. vbind (pop_smallint_range 254 (- 1)) (\<lambda>params.
          vbind pop_cont (\<lambda>k. call_args k params retvals))))"

definition exec_ret_varargs :: "int vm" where
  "exec_ret_varargs = vbind (pop_smallint_range 254 (- 1)) ret_args"

definition exec_jmpx_varargs :: "int vm" where
  "exec_jmpx_varargs =
     vthen (check_underflow 2)
       (vbind (pop_smallint_range 254 (- 1)) (\<lambda>params.
          vthen (check_underflow (params + 1)) (vbind pop_cont (\<lambda>k. jump_args k params))))"

definition exec_callcc_varargs :: "int vm" where
  "exec_callcc_varargs =
     vthen (check_underflow 3)
       (vbind (pop_smallint_range 254 (- 1)) (\<lambda>retvals. vbind (pop_smallint_range 254 (- 1)) (\<lambda>params.
          vthen (check_underflow (params + 1))
            (vbind pop_cont (\<lambda>k. vbind (extract_cc 3 params retvals) (\<lambda>cc. vthen (push_cont cc) (jump k)))))))"

text \<open>The instructions that take a reference from the code.\<close>

definition exec_do_with_cell :: "(cell \<Rightarrow> int vm) \<Rightarrow> nat \<Rightarrow> int vm" where
  "exec_do_with_cell func pfx_bits =
     vbind (vget code_refs) (\<lambda>rs.
       if \<not> 1 \<le> length rs then vthrow inv_opcode
       else vthen (code_advance pfx_bits) (vbind code_fetch_ref func))"

definition exec_do_with_ref :: "(cont \<Rightarrow> int vm) \<Rightarrow> nat \<Rightarrow> int vm" where
  "exec_do_with_ref func pfx_bits =
     vbind (vget code_refs) (\<lambda>rs.
       if \<not> 1 \<le> length rs then vthrow inv_opcode
       else vthen (code_advance pfx_bits)
         (vbind code_fetch_ref (\<lambda>c. vbind (ref_to_cont c) func)))"

definition exec_ifelse_ref :: "bool \<Rightarrow> nat \<Rightarrow> int vm" where
  "exec_ifelse_ref mode pfx_bits =
     vbind (vget code_refs) (\<lambda>rs.
       if \<not> 1 \<le> length rs then vthrow inv_opcode
       else vthen (code_advance pfx_bits)
         (vbind code_fetch_ref (\<lambda>c.
            vthen (check_underflow 2)
              (vbind pop_cont (\<lambda>k. vbind pop_bool (\<lambda>b.
                 if b = mode then vbind (ref_to_cont c) call else call k))))))"

definition exec_ifref_elseref :: "nat \<Rightarrow> nat \<Rightarrow> int vm" where
  "exec_ifref_elseref args pfx_bits =
     vbind (vget code_refs) (\<lambda>rs.
       if \<not> 2 \<le> length rs then vthrow inv_opcode
       else vthen (code_advance pfx_bits)
         (vbind code_fetch_ref (\<lambda>cell1. vbind code_fetch_ref (\<lambda>cell2.
            vbind pop_bool (\<lambda>b. vbind (ref_to_cont (if \<not> b then cell2 else cell1)) call)))))"

definition exec_ret_data :: "int vm" where
  "exec_ret_data = vthen push_code ret"

definition register_continuation_jump_ops :: "opcode_instr list" where
  "register_continuation_jump_ops =
    [mksimple 0xd8 8 exec_execute,
     mksimple 0xd9 8 exec_jmpx,
     mkfixed 0xda 8 8 exec_callx_args,
     mkfixed 0xdb0 12 4 exec_callx_args_p,
     mkfixed 0xdb1 12 4 exec_jmpx_args,
     mkfixed 0xdb2 12 4 exec_ret_args,
     mksimple 0xdb30 16 exec_ret,
     mksimple 0xdb31 16 exec_ret_alt,
     mksimple 0xdb32 16 exec_ret_bool,
     mksimple 0xdb34 16 exec_callcc,
     mksimple 0xdb35 16 exec_jmpx_data,
     mkfixed 0xdb36 16 8 exec_callcc_args,
     mksimple 0xdb38 16 exec_callx_varargs,
     mksimple 0xdb39 16 exec_ret_varargs,
     mksimple 0xdb3a 16 exec_jmpx_varargs,
     mksimple 0xdb3b 16 exec_callcc_varargs,
     mkext 0xdb3c 16 0 (\<lambda>args. exec_do_with_ref call),
     mkext 0xdb3d 16 0 (\<lambda>args. exec_do_with_ref jump),
     mkext 0xdb3e 16 0 (\<lambda>args. exec_do_with_ref (\<lambda>k. vthen push_code (jump k))),
     mksimple 0xdb3f 16 exec_ret_data]"

section \<open>Conditionals\<close>

definition exec_if :: "int vm" where
  "exec_if =
     vthen (check_underflow 2) (vbind pop_cont (\<lambda>k. vbind pop_bool (\<lambda>b. if b then call k else vret 0)))"

definition exec_ifnot :: "int vm" where
  "exec_ifnot =
     vthen (check_underflow 2) (vbind pop_cont (\<lambda>k. vbind pop_bool (\<lambda>b. if \<not> b then call k else vret 0)))"

definition exec_if_jmp :: "int vm" where
  "exec_if_jmp =
     vthen (check_underflow 2) (vbind pop_cont (\<lambda>k. vbind pop_bool (\<lambda>b. if b then jump k else vret 0)))"

definition exec_ifnot_jmp :: "int vm" where
  "exec_ifnot_jmp =
     vthen (check_underflow 2) (vbind pop_cont (\<lambda>k. vbind pop_bool (\<lambda>b. if \<not> b then jump k else vret 0)))"

definition exec_ifret :: "int vm" where
  "exec_ifret = vbind pop_bool (\<lambda>b. if b then ret else vret 0)"

definition exec_ifnotret :: "int vm" where
  "exec_ifnotret = vbind pop_bool (\<lambda>b. if \<not> b then ret else vret 0)"

definition exec_if_else :: "int vm" where
  "exec_if_else =
     vthen (check_underflow 3)
       (vbind pop_cont (\<lambda>cont0. vbind pop_cont (\<lambda>cont1. vbind pop_bool (\<lambda>b.
          if b then call cont1 else call cont0))))"

definition exec_condsel :: "int vm" where
  "exec_condsel =
     vthen (check_underflow 3)
       (vbind pop (\<lambda>y. vbind pop (\<lambda>x. vbind pop_bool (\<lambda>b. vdo [push (if b then x else y)]))))"

definition exec_condsel_chk :: "int vm" where
  "exec_condsel_chk =
     vthen (check_underflow 3)
       (vbind pop (\<lambda>y. vbind pop (\<lambda>x.
          if entry_tp x \<noteq> entry_tp y then vthrow type_chk
          else vbind pop_bool (\<lambda>b. vdo [push (if b then x else y)]))))"

definition exec_ifretalt :: "int vm" where
  "exec_ifretalt = vbind pop_bool (\<lambda>b. if b then ret_alt else vret 0)"

definition exec_ifnotretalt :: "int vm" where
  "exec_ifnotretalt = vbind pop_bool (\<lambda>b. if \<not> b then ret_alt else vret 0)"

definition exec_if_bit_jmp :: "nat \<Rightarrow> int vm" where
  "exec_if_bit_jmp args =
     (let neg = (args div 32 mod 2 = 1); bit_no = args mod 32
      in vthen (check_underflow 2)
           (vbind pop_cont (\<lambda>k. vbind pop_int_finite (\<lambda>x.
              vthen (push_int (Some x)) (if get_bit x bit_no \<noteq> neg then jump k else vret 0)))))"

definition exec_if_bit_jmpref :: "nat \<Rightarrow> nat \<Rightarrow> int vm" where
  "exec_if_bit_jmpref args pfx_bits =
     vbind (vget code_refs) (\<lambda>rs.
       if rs = [] then vthrow inv_opcode
       else vthen (code_advance pfx_bits)
         (vbind code_fetch_ref (\<lambda>c.
            let neg = (args div 32 mod 2 = 1); bit_no = args mod 32
            in vbind pop_int_finite (\<lambda>x.
                 vthen (push_int (Some x))
                   (if get_bit x bit_no \<noteq> neg then vbind (ref_to_cont c) jump else vret 0)))))"

section \<open>Loops\<close>

definition exec_repeat :: "bool \<Rightarrow> int vm" where
  "exec_repeat brk =
     vthen (check_underflow 2)
       (vbind pop_cont (\<lambda>k. vbind (pop_smallint_range 0x7fffffff (- 0x80000000)) (\<lambda>c.
          if c \<le> 0 then vret 0
          else vbind (extract_cc 1 (- 1) (- 1)) (\<lambda>cc. vbind (c1_envelope_if brk cc) (\<lambda>aft. vm_repeat k aft c)))))"

definition exec_repeat_end :: "bool \<Rightarrow> int vm" where
  "exec_repeat_end brk =
     vthen (check_underflow 1)
       (vbind (pop_smallint_range 0x7fffffff (- 0x80000000)) (\<lambda>c.
          if c \<le> 0 then ret
          else vbind (extract_cc 0 (- 1) (- 1)) (\<lambda>k. vbind (vm_get_c 0) (\<lambda>r0.
            vbind (c1_envelope_if brk r0) (\<lambda>aft. vm_repeat k aft c)))))"

definition exec_until :: "bool \<Rightarrow> int vm" where
  "exec_until brk =
     vbind pop_cont (\<lambda>k. vbind (extract_cc 1 (- 1) (- 1)) (\<lambda>cc.
       vbind (c1_envelope_if brk cc) (\<lambda>aft. vm_until k aft)))"

definition exec_until_end :: "bool \<Rightarrow> int vm" where
  "exec_until_end brk =
     vbind (extract_cc 0 (- 1) (- 1)) (\<lambda>k. vbind (vm_get_c 0) (\<lambda>r0.
       vbind (c1_envelope_if brk r0) (\<lambda>aft. vm_until k aft)))"

definition exec_while :: "bool \<Rightarrow> int vm" where
  "exec_while brk =
     vthen (check_underflow 2)
       (vbind pop_cont (\<lambda>body. vbind pop_cont (\<lambda>cnd. vbind (extract_cc 1 (- 1) (- 1)) (\<lambda>cc.
          vbind (c1_envelope_if brk cc) (\<lambda>aft. loop_while cnd body aft)))))"

definition exec_while_end :: "bool \<Rightarrow> int vm" where
  "exec_while_end brk =
     vbind pop_cont (\<lambda>cnd. vbind (extract_cc 0 (- 1) (- 1)) (\<lambda>body. vbind (vm_get_c 0) (\<lambda>r0.
       vbind (c1_envelope_if brk r0) (\<lambda>aft. loop_while cnd body aft))))"

definition exec_again :: "bool \<Rightarrow> int vm" where
  "exec_again brk =
     vthen (if brk then vbind (extract_cc 3 (- 1) (- 1)) set_c1 else vret ()) (vbind pop_cont again)"

definition exec_again_end :: "bool \<Rightarrow> int vm" where
  "exec_again_end brk =
     vthen (if brk then c1_save_set True else vret ()) (vbind (extract_cc 0 (- 1) (- 1)) again)"

definition register_continuation_cond_loop_ops :: "opcode_instr list" where
  "register_continuation_cond_loop_ops =
    [mksimple 0xdc 8 exec_ifret,
     mksimple 0xdd 8 exec_ifnotret,
     mksimple 0xde 8 exec_if,
     mksimple 0xdf 8 exec_ifnot,
     mksimple 0xe0 8 exec_if_jmp,
     mksimple 0xe1 8 exec_ifnot_jmp,
     mksimple 0xe2 8 exec_if_else,
     mkext 0xe300 16 0 (\<lambda>args. exec_do_with_cell (\<lambda>c. vbind pop_bool (\<lambda>b. if b then vbind (ref_to_cont c) call else vret 0))),
     mkext 0xe301 16 0 (\<lambda>args. exec_do_with_cell (\<lambda>c. vbind pop_bool (\<lambda>b. if b then vret 0 else vbind (ref_to_cont c) call))),
     mkext 0xe302 16 0 (\<lambda>args. exec_do_with_cell (\<lambda>c. vbind pop_bool (\<lambda>b. if b then vbind (ref_to_cont c) jump else vret 0))),
     mkext 0xe303 16 0 (\<lambda>args. exec_do_with_cell (\<lambda>c. vbind pop_bool (\<lambda>b. if b then vret 0 else vbind (ref_to_cont c) jump))),
     mksimple 0xe304 16 exec_condsel,
     mksimple 0xe305 16 exec_condsel_chk,
     mksimple 0xe308 16 exec_ifretalt,
     mksimple 0xe309 16 exec_ifnotretalt,
     mkext 0xe30d 16 0 (\<lambda>args. exec_ifelse_ref True),
     mkext 0xe30e 16 0 (\<lambda>args. exec_ifelse_ref False),
     mkext 0xe30f 16 0 exec_ifref_elseref,
     mkfixed (0xe380 div 64) 10 6 exec_if_bit_jmp,
     mkext (0xe3c0 div 64) 10 6 exec_if_bit_jmpref,
     mksimple 0xe4 8 (exec_repeat False),
     mksimple 0xe5 8 (exec_repeat_end False),
     mksimple 0xe6 8 (exec_until False),
     mksimple 0xe7 8 (exec_until_end False),
     mksimple 0xe8 8 (exec_while False),
     mksimple 0xe9 8 (exec_while_end False),
     mksimple 0xea 8 (exec_again False),
     mksimple 0xeb 8 (exec_again_end False),
     mksimple 0xe314 16 (exec_repeat True),
     mksimple 0xe315 16 (exec_repeat_end True),
     mksimple 0xe316 16 (exec_until True),
     mksimple 0xe317 16 (exec_until_end True),
     mksimple 0xe318 16 (exec_while True),
     mksimple 0xe319 16 (exec_while_end True),
     mksimple 0xe31a 16 (exec_again True),
     mksimple 0xe31b 16 (exec_again_end True)]"

section \<open>Closures\<close>

definition cd_with_stack :: "stack option \<Rightarrow> control_data \<Rightarrow> control_data" where
  "cd_with_stack xs d = CData xs (cd_save d) (cd_nargs d) (cd_cp d)"

definition cd_with_nargs :: "int \<Rightarrow> control_data \<Rightarrow> control_data" where
  "cd_with_nargs n d = CData (cd_stack d) (cd_save d) n (cd_cp d)"

text \<open>
  The data of a closure continuation after \<open>copy\<close> entries of the stack were moved into it, and
  after the number of arguments it still expects was set to \<open>more\<close>.
\<close>

definition closure_copy :: "int \<Rightarrow> control_data \<Rightarrow> control_data vm" where
  "closure_copy copy d =
     (if copy > 0 then
        if cd_nargs d \<ge> 0 \<and> cd_nargs d < copy then vthrow stk_ov
        else vbind (case cd_stack d of None \<Rightarrow> split_top copy 0 | Some xs \<Rightarrow> move_from_stack copy xs) (\<lambda>new_stk.
          vthen (consume_stack_gas (length new_stk))
            (vret (cd_with_nargs (if cd_nargs d \<ge> 0 then cd_nargs d - copy else cd_nargs d)
                     (cd_with_stack (Some new_stk) d))))
      else vret d)"

definition closure_more :: "int \<Rightarrow> control_data \<Rightarrow> control_data" where
  "closure_more more_args d =
     (if more_args \<ge> 0 then
        if cd_nargs d > more_args then cd_with_nargs 0x40000000 d
        else if cd_nargs d < 0 then cd_with_nargs more_args d
        else d
      else d)"

definition exec_setcontargs_common :: "int \<Rightarrow> int \<Rightarrow> int vm" where
  "exec_setcontargs_common copy more_args =
     vthen (check_underflow (copy + 1))
       (vbind pop_cont (\<lambda>k.
          if copy \<noteq> 0 \<or> more_args \<ge> 0 then
            vbind (closure_copy copy (forced_cdata k)) (\<lambda>d.
              vdo [push_cont (map_cdata (\<lambda>_. closure_more more_args d) (force_cdata k))])
          else vdo [push_cont k]))"

definition exec_setcontargs :: "nat \<Rightarrow> int vm" where
  "exec_setcontargs args = exec_setcontargs_common (mid4 args) (lo4_minus1 args)"

definition exec_setcont_varargs :: "int vm" where
  "exec_setcont_varargs =
     vthen (check_underflow 2)
       (vbind (pop_smallint_range 255 (- 1)) (\<lambda>more_args. vbind (pop_smallint_range 255 0) (\<lambda>copy.
          exec_setcontargs_common copy more_args)))"

definition exec_setnum_varargs :: "int vm" where
  "exec_setnum_varargs =
     vthen (check_underflow 2)
       (vbind (pop_smallint_range 255 (- 1)) (\<lambda>more_args. exec_setcontargs_common 0 more_args))"

text \<open>All but the top \<open>count\<close> entries go into the return continuation.\<close>

definition exec_return_args_common :: "int \<Rightarrow> int vm" where
  "exec_return_args_common count =
     vthen (check_underflow count)
       (vbind (vget depth) (\<lambda>dp.
          if dp = count then vret 0
          else
            let copy = dp - count
            in vbind (split_top count 0) (\<lambda>top_stk. vbind (vget stk) (\<lambda>alt_stk.
                 vthen (set_stack top_stk)
                   (vbind (vm_get_c 0) (\<lambda>k.
                      let d = forced_cdata k
                      in if cd_nargs d \<ge> 0 \<and> cd_nargs d < copy then vthrow stk_ov
                         else
                           let new_stk = (case cd_stack d of None \<Rightarrow> alt_stk | Some xs \<Rightarrow> alt_stk @ xs)
                           in vdo [consume_stack_gas (length new_stk),
                                   set_c0 (map_cdata (\<lambda>_. cd_with_nargs
                                       (if cd_nargs d \<ge> 0 then cd_nargs d - copy else cd_nargs d)
                                       (cd_with_stack (Some new_stk) d)) (force_cdata k))]))))))"

definition exec_return_args :: "nat \<Rightarrow> int vm" where
  "exec_return_args args = exec_return_args_common (lo4 args)"

definition exec_return_varargs :: "int vm" where
  "exec_return_varargs = vbind (pop_smallint_range 255 0) exec_return_args_common"

definition exec_bless :: "int vm" where
  "exec_bless =
     vbind pop_cellslice (\<lambda>cs. vbind (vget cp) (\<lambda>n. vdo [push_cont (OrdCont (cdata_new n) (Some cs))]))"

definition exec_bless_args_common :: "int \<Rightarrow> int \<Rightarrow> int vm" where
  "exec_bless_args_common copy more_args =
     vthen (check_underflow (copy + 1))
       (vbind pop_cellslice (\<lambda>cs. vbind (split_top copy 0) (\<lambda>new_stk.
          vthen (consume_stack_gas (length new_stk))
            (vbind (vget cp) (\<lambda>n. vdo [push_cont (OrdCont (CData (Some new_stk) cregs_clear more_args n) (Some cs))])))))"

definition exec_bless_varargs :: "int vm" where
  "exec_bless_varargs =
     vthen (check_underflow 2)
       (vbind (pop_smallint_range 255 (- 1)) (\<lambda>more_args. vbind (pop_smallint_range 255 0) (\<lambda>copy.
          exec_bless_args_common copy more_args)))"

definition exec_bless_args :: "nat \<Rightarrow> int vm" where
  "exec_bless_args args = exec_bless_args_common (mid4 args) (lo4_minus1 args)"

section \<open>Control registers\<close>

text \<open>A register as a stack entry (a null register is \<open>Undef\<close>), and a register set from one.\<close>

definition vm_get :: "nat \<Rightarrow> stack_entry vm" where
  "vm_get i = (\<lambda>s. case creg_get i (cr s) of None \<Rightarrow> Undef | Some v \<Rightarrow> Ok v s)"

definition vm_set :: "nat \<Rightarrow> stack_entry \<Rightarrow> unit vm" where
  "vm_set i v = (\<lambda>s. case creg_set i v (cr s) of None \<Rightarrow> Exc (VmError type_chk) s | Some r \<Rightarrow> Ok () (s\<lparr>cr := r\<rparr>))"

text \<open>\<open>throw_typechk(force_cregs(cont)->define(idx, value))\<close> and the same without the check.\<close>

definition define_chk :: "nat \<Rightarrow> stack_entry \<Rightarrow> cont \<Rightarrow> cont vm" where
  "define_chk i v k =
     (case creg_define i v (cd_save (forced_cdata k)) of
        None \<Rightarrow> vthrow type_chk
      | Some r \<Rightarrow> vret (with_cregs (\<lambda>_. r) k))"

definition define_quiet :: "nat \<Rightarrow> stack_entry \<Rightarrow> cont \<Rightarrow> cont" where
  "define_quiet i v k = with_cregs (\<lambda>r. case creg_define i v r of None \<Rightarrow> r | Some r' \<Rightarrow> r') k"

definition exec_push_ctr :: "nat \<Rightarrow> int vm" where
  "exec_push_ctr args = vbind (vm_get (args mod 16)) (\<lambda>v. vdo [push v])"

definition exec_bless_pop_c3 :: "int vm" where
  "exec_bless_pop_c3 =
     vthen (check_underflow 1)
       (vbind pop_cell (\<lambda>c. vbind (load_cell_slice_ref c) (\<lambda>cs. vbind (vget cp) (\<lambda>n.
          vdo [vm_cr (cr_c3 (Some (OrdCont (cdata_new n) (Some cs))))]))))"

definition exec_pop_ctr :: "nat \<Rightarrow> int vm" where
  "exec_pop_ctr args = vbind pop_chk (\<lambda>v. vdo [vm_set (args mod 16) v])"

definition exec_setcont_ctr :: "nat \<Rightarrow> int vm" where
  "exec_setcont_ctr args =
     vthen (check_underflow 2)
       (vbind pop_cont (\<lambda>k. vbind pop_chk (\<lambda>v. vbind (define_chk (args mod 16) v k) (\<lambda>k'. vdo [push_cont k']))))"

definition exec_setret_ctr :: "nat \<Rightarrow> int vm" where
  "exec_setret_ctr args =
     vbind (vm_get_c 0) (\<lambda>k. vbind pop_chk (\<lambda>v. vbind (define_chk (args mod 16) v k) (\<lambda>k'. vdo [set_c0 k'])))"

definition exec_setalt_ctr :: "nat \<Rightarrow> int vm" where
  "exec_setalt_ctr args =
     vbind (vm_get_c 1) (\<lambda>k. vbind pop_chk (\<lambda>v. vbind (define_chk (args mod 16) v k) (\<lambda>k'. vdo [set_c1 k'])))"

definition exec_popsave_ctr :: "nat \<Rightarrow> int vm" where
  "exec_popsave_ctr args =
     (let idx = args mod 16
      in vbind pop_chk (\<lambda>v. vbind (vm_get_c 0) (\<lambda>k0.
           vthen (vassert type_chk (idx \<noteq> 0 \<or> entry_tp v = t_vmcont))
             (vbind (vm_get idx) (\<lambda>old.
                let k0' = define_quiet idx old k0
                in if idx = 0 then vdo [set_c0 k0', vm_set idx v] else vdo [vm_set idx v, set_c0 k0'])))))"

definition exec_save_ctr :: "nat \<Rightarrow> int vm" where
  "exec_save_ctr args =
     (let idx = args mod 16
      in vbind (vm_get_c 0) (\<lambda>k. vbind (vm_get idx) (\<lambda>v. vbind (define_chk idx v k) (\<lambda>k'. vdo [set_c0 k']))))"

definition exec_samealt :: "bool \<Rightarrow> int vm" where
  "exec_samealt save =
     vbind (vm_get_c 0) (\<lambda>k. vbind (vget cr) (\<lambda>r.
       if save then let k' = with_cregs (define_c1 (c1 r)) k in vdo [set_c0 k', set_c1 k']
       else vdo [set_c1 k]))"

definition exec_savealt_ctr :: "nat \<Rightarrow> int vm" where
  "exec_savealt_ctr args =
     (let idx = args mod 16
      in vbind (vm_get_c 1) (\<lambda>k. vbind (vm_get idx) (\<lambda>v. vbind (define_chk idx v k) (\<lambda>k'. vdo [set_c1 k']))))"

definition exec_saveboth_ctr :: "nat \<Rightarrow> int vm" where
  "exec_saveboth_ctr args =
     (let idx = args mod 16
      in vbind (vm_get_c 0) (\<lambda>k0. vbind (vm_get_c 1) (\<lambda>k1. vbind (vm_get idx) (\<lambda>v.
           vdo [set_c0 (define_quiet idx v k0), set_c1 (define_quiet idx v k1)]))))"

definition exec_push_ctr_var :: "int vm" where
  "exec_push_ctr_var =
     vbind (pop_smallint_range 16 0) (\<lambda>idx. vbind (vm_get (nat idx)) (\<lambda>v.
       vdo [vassert range_chk (v \<noteq> Null), push v]))"

definition exec_pop_ctr_var :: "int vm" where
  "exec_pop_ctr_var =
     vthen (check_underflow 2)
       (vbind (pop_smallint_range 16 0) (\<lambda>idx.
          vthen (vassert range_chk (valid_idx (nat idx))) (vbind pop_chk (\<lambda>v. vdo [vm_set (nat idx) v]))))"

definition exec_setcont_ctr_var :: "int vm" where
  "exec_setcont_ctr_var =
     vthen (check_underflow 3)
       (vbind (pop_smallint_range 16 0) (\<lambda>idx.
          vthen (vassert range_chk (valid_idx (nat idx)))
            (vbind pop_cont (\<lambda>k. vbind pop_chk (\<lambda>v. vbind (define_chk (nat idx) v k) (\<lambda>k'. vdo [push_cont k']))))))"

definition exec_compos :: "nat \<Rightarrow> int vm" where
  "exec_compos msk =
     vthen (check_underflow 2)
       (vbind pop_cont (\<lambda>v. vbind pop_cont (\<lambda>k.
          vdo [push_cont (with_cregs (\<lambda>r.
             if msk = 1 then define_c0 (Some v) r
             else if msk = 3 then define_c1 (Some v) (define_c0 (Some v) r)
             else if msk = 2 then define_c1 (Some v) r
             else r) k)])))"

definition exec_atexit :: "int vm" where
  "exec_atexit = vbind pop_cont (\<lambda>k. vbind (vget cr) (\<lambda>r. vdo [set_c0 (with_cregs (define_c0 (c0 r)) k)]))"

definition exec_atexit_alt :: "int vm" where
  "exec_atexit_alt = vbind pop_cont (\<lambda>k. vbind (vget cr) (\<lambda>r. vdo [set_c1 (with_cregs (define_c1 (c1 r)) k)]))"

definition exec_setexit_alt :: "int vm" where
  "exec_setexit_alt =
     vbind pop_cont (\<lambda>k. vbind (vget cr) (\<lambda>r.
       vdo [set_c1 (with_cregs (define_c1 (c1 r)) (with_cregs (define_c0 (c0 r)) k))]))"

definition exec_thenret :: "int vm" where
  "exec_thenret = vbind pop_cont (\<lambda>k. vbind (vget cr) (\<lambda>r. vdo [push_cont (with_cregs (define_c0 (c0 r)) k)]))"

definition exec_thenret_alt :: "int vm" where
  "exec_thenret_alt = vbind pop_cont (\<lambda>k. vbind (vget cr) (\<lambda>r. vdo [push_cont (with_cregs (define_c0 (c1 r)) k)]))"

definition exec_invert :: "int vm" where
  "exec_invert = vbind (vm_get_c 0) (\<lambda>k0. vbind (vm_get_c 1) (\<lambda>k1. vdo [set_c0 k1, set_c1 k0]))"

definition exec_booleval :: "int vm" where
  "exec_booleval =
     vbind pop_cont (\<lambda>k. vbind (extract_cc 3 (- 1) (- 1)) (\<lambda>cc.
       vthen (set_c0 (PushIntCont (- 1) cc)) (vthen (set_c1 (PushIntCont 0 cc)) (jump k))))"

definition reg_ctr_oprange :: "nat \<Rightarrow> (nat \<Rightarrow> int vm) \<Rightarrow> opcode_instr list" where
  "reg_ctr_oprange opcode ex =
     [mkfixedrange opcode (opcode + 4) 16 4 ex, mkfixedrange (opcode + 4) (opcode + 6) 16 4 ex,
      mkfixedrange (opcode + 7) (opcode + 8) 16 4 ex]"

definition register_continuation_change_ops :: "opcode_instr list" where
  "register_continuation_change_ops =
    [mkfixed 0xec 8 8 exec_setcontargs,
     mkfixed 0xed0 12 4 exec_return_args,
     mksimple 0xed10 16 exec_return_varargs,
     mksimple 0xed11 16 exec_setcont_varargs,
     mksimple 0xed12 16 exec_setnum_varargs,
     mksimple 0xed1e 16 exec_bless,
     mksimple 0xed1f 16 exec_bless_varargs]
    @ reg_ctr_oprange 0xed40 exec_push_ctr
    @ reg_ctr_oprange 0xed50 exec_pop_ctr
    @ reg_ctr_oprange 0xed60 exec_setcont_ctr
    @ reg_ctr_oprange 0xed70 exec_setret_ctr
    @ reg_ctr_oprange 0xed80 exec_setalt_ctr
    @ reg_ctr_oprange 0xed90 exec_popsave_ctr
    @ reg_ctr_oprange 0xeda0 exec_save_ctr
    @ reg_ctr_oprange 0xedb0 exec_savealt_ctr
    @ reg_ctr_oprange 0xedc0 exec_saveboth_ctr
    @ [mksimple 0xede0 16 exec_push_ctr_var,
     mksimple 0xede1 16 exec_pop_ctr_var,
     mksimple 0xede2 16 exec_setcont_ctr_var,
     mksimple 0xedf0 16 (exec_compos 1),
     mksimple 0xedf1 16 (exec_compos 2),
     mksimple 0xedf2 16 (exec_compos 3),
     mksimple 0xedf3 16 exec_atexit,
     mksimple 0xedf4 16 exec_atexit_alt,
     mksimple 0xedf5 16 exec_setexit_alt,
     mksimple 0xedf6 16 exec_thenret,
     mksimple 0xedf7 16 exec_thenret_alt,
     mksimple 0xedf8 16 exec_invert,
     mksimple 0xedf9 16 exec_booleval,
     mksimple 0xedfa 16 (exec_samealt False),
     mksimple 0xedfb 16 (exec_samealt True),
     mkfixed 0xee 8 8 exec_bless_args]"

section \<open>Dictionary jumps\<close>

definition exec_calldict_short :: "nat \<Rightarrow> int vm" where
  "exec_calldict_short args = vthen (push_smallint (int (args mod 256))) (vbind (vm_get_c 3) call)"

definition exec_calldict :: "nat \<Rightarrow> int vm" where
  "exec_calldict args = vthen (push_smallint (int (args mod 0x4000))) (vbind (vm_get_c 3) call)"

definition exec_jmpdict :: "nat \<Rightarrow> int vm" where
  "exec_jmpdict args = vthen (push_smallint (int (args mod 0x4000))) (vbind (vm_get_c 3) jump)"

definition exec_preparedict :: "nat \<Rightarrow> int vm" where
  "exec_preparedict args =
     vthen (push_smallint (int (args mod 0x4000))) (vbind (vm_get_c 3) (\<lambda>k. vdo [push_cont k]))"

definition register_continuation_dict_jump_ops :: "opcode_instr list" where
  "register_continuation_dict_jump_ops =
    [mkfixed 0xf0 8 8 exec_calldict_short,
     mkfixed (0xf100 div 64) 10 14 exec_calldict,
     mkfixed (0xf140 div 64) 10 14 exec_jmpdict,
     mkfixed (0xf180 div 64) 10 14 exec_preparedict]"

section \<open>Exceptions and codepages\<close>

text \<open>The masks are one less than a power of two, so \<open>args & msk\<close> is a remainder.\<close>

definition exec_throw_fixed :: "nat \<Rightarrow> nat \<Rightarrow> nat \<Rightarrow> int vm" where
  "exec_throw_fixed msk mode args =
     (let excno = int (args mod (msk + 1))
      in if mode = 0 then throw_exception excno
         else vbind pop_bool (\<lambda>b. if b \<noteq> (mode mod 2 = 1) then vret 0 else throw_exception excno))"

definition exec_throw_arg_fixed :: "nat \<Rightarrow> nat \<Rightarrow> nat \<Rightarrow> int vm" where
  "exec_throw_arg_fixed msk mode args =
     (let excno = int (args mod (msk + 1))
      in vthen (check_underflow (if mode \<noteq> 0 then 2 else 1))
           (if mode = 0 then vbind pop (throw_exception_arg excno)
            else vbind pop_bool (\<lambda>b.
              if b \<noteq> (mode mod 2 = 1) then vbind pop (\<lambda>_. vret 0)
              else vbind pop (throw_exception_arg excno))))"

definition exec_throw_any :: "nat \<Rightarrow> int vm" where
  "exec_throw_any args =
     (let has_param = (args mod 2 = 1);
          has_cond = (args div 2 mod 4 \<noteq> 0);
          throw_cond = (args div 2 mod 2 = 1)
      in vthen (check_underflow (1 + (if has_cond then 1 else 0) + (if has_param then 1 else 0)))
           (vbind (if has_cond then pop_bool else vret throw_cond) (\<lambda>flag.
              vbind (pop_smallint_range 0xffff 0) (\<lambda>excno.
                if flag \<noteq> throw_cond then (if has_param then vbind pop (\<lambda>_. vret 0) else vret 0)
                else if has_param then vbind pop (throw_exception_arg excno)
                else throw_exception excno))))"

definition exec_try :: "int \<Rightarrow> int vm" where
  "exec_try args =
     (let params = mid4 (nat args); retvals = lo4 (nat args)
      in vthen (check_underflow (if args \<ge> 0 then params + 2 else 2))
           (vbind pop_cont (\<lambda>handler_cont. vbind pop_cont (\<lambda>k. vbind (vm_get_c 2) (\<lambda>old_c2.
              vbind (if args \<ge> 0 then extract_cc 7 params retvals else extract_cc 7 (- 1) (- 1)) (\<lambda>cc.
                vthen (set_c0 cc)
                  (vthen (set_c2 (with_cregs (\<lambda>r. define_c0 (Some cc) (define_c2 (Some old_c2) r)) handler_cont))
                    (jump k))))))))"

definition register_exception_ops :: "opcode_instr list" where
  "register_exception_ops =
    [mkfixed (0xf200 div 64) 10 6 (exec_throw_fixed 63 0),
     mkfixed (0xf240 div 64) 10 6 (exec_throw_fixed 63 3),
     mkfixed (0xf280 div 64) 10 6 (exec_throw_fixed 63 2),
     mkfixed (0xf2c0 div 8) 13 11 (exec_throw_fixed 0x7ff 0),
     mkfixed (0xf2c8 div 8) 13 11 (exec_throw_arg_fixed 0x7ff 0),
     mkfixed (0xf2d0 div 8) 13 11 (exec_throw_fixed 0x7ff 3),
     mkfixed (0xf2d8 div 8) 13 11 (exec_throw_arg_fixed 0x7ff 3),
     mkfixed (0xf2e0 div 8) 13 11 (exec_throw_fixed 0x7ff 2),
     mkfixed (0xf2e8 div 8) 13 11 (exec_throw_arg_fixed 0x7ff 2),
     mkfixedrange 0xf2f0 0xf2f6 16 3 exec_throw_any,
     mksimple 0xf2ff 16 (exec_try (- 1)),
     mkfixed 0xf3 8 8 (\<lambda>args. exec_try (int args))]"

definition exec_set_cp_generic :: "int \<Rightarrow> int vm" where
  "exec_set_cp_generic new_codepage = vdo [force_cp new_codepage]"

definition exec_set_cp :: "nat \<Rightarrow> int vm" where
  "exec_set_cp args = exec_set_cp_generic (int ((args + 0x10) mod 256) - 0x10)"

definition exec_set_cp_any :: "int vm" where
  "exec_set_cp_any = vbind (pop_smallint_range 0x7fff (- 0x8000)) exec_set_cp_generic"

definition register_codepage_ops :: "opcode_instr list" where
  "register_codepage_ops =
    [mkfixedrange 0xff00 0xfff0 16 8 exec_set_cp,
     mkfixedrange 0xfff1 0x10000 16 8 exec_set_cp,
     mksimple 0xfff0 16 exec_set_cp_any]"

definition register_continuation_ops :: "opcode_instr list" where
  "register_continuation_ops =
     register_continuation_jump_ops @ register_continuation_cond_loop_ops @ register_continuation_change_ops
     @ register_continuation_dict_jump_ops @ register_exception_ops"

section \<open>Safety\<close>

lemma lo4_minus1_bounds: "- 1 \<le> lo4_minus1 n" "lo4_minus1 n \<le> 14"
proof -
  have "(n + 1) mod 16 < 16" by simp
  then show "- 1 \<le> lo4_minus1 n" "lo4_minus1 n \<le> 14" by (simp_all add: lo4_minus1_def)
qed

lemma wp_push_code [wp_rules]:
  assumes "stack_ok (stk s)" "has_code s"
    "\<And>xs. stack_ok xs \<Longrightarrow> int (length xs) = depth s + 1 \<Longrightarrow> Q () (s\<lparr>stk := xs\<rparr>)"
  shows "wp push_code Q R s"
  unfolding push_code_def push_cellslice_def using assms by (auto intro!: wp_rules simp: has_code_def)

lemmas nibbles = nibble_bounds(1-4) order_trans [OF _ nibble_bounds(1)] order_trans [OF _ nibble_bounds(2)]

lemma jump_ops_safe:
  "vm_safe exec_execute" "vm_safe (exec_callx_args n)" "vm_safe (exec_callx_args_p n)" "vm_safe exec_jmpx"
  "vm_safe (exec_jmpx_args n)" "vm_safe exec_ret" "vm_safe (exec_ret_args n)" "vm_safe exec_ret_alt"
  "vm_safe exec_ret_bool" "vm_safe exec_jmpx_data" "vm_safe exec_callx_varargs"
  "vm_safe exec_ret_varargs" "vm_safe exec_jmpx_varargs" "vm_safe exec_ret_data"
  unfolding exec_execute_def exec_callx_args_def exec_callx_args_p_def exec_jmpx_def exec_jmpx_args_def exec_ret_def
    exec_ret_args_def exec_ret_alt_def exec_ret_bool_def exec_jmpx_data_def exec_callx_varargs_def
    exec_ret_varargs_def exec_jmpx_varargs_def exec_ret_data_def
  by (rule vm_safeI; intro wp_rules; simp add: nibbles)+

lemma callcc_ops_safe:
  "vm_safe exec_callcc" "vm_safe (exec_callcc_args n)" "vm_safe exec_callcc_varargs"
  unfolding exec_callcc_def exec_callcc_args_def exec_callcc_varargs_def Let_def push_cont_def
  by (rule vm_safeI; intro wp_rules; simp add: lo4_minus1_bounds)+

lemma wp_advance_fetch:
  assumes "has_code s" "code_refs s \<noteq> []"
    "\<And>r cs. cell_ok r \<Longrightarrow> slice_ok cs \<Longrightarrow> length (sl_refs cs) = length (code_refs s) - 1 \<Longrightarrow> wp (f r) Q R (s\<lparr>code := Some cs\<rparr>)"
  shows "wp (vthen (code_advance n) (vbind code_fetch_ref f)) Q R s"
proof -
  obtain cs where cs: "code s = Some cs" "slice_ok cs" using has_code_Some [OF assms(1)] by blast
  then have ne: "sl_refs cs \<noteq> []" using assms(2) by (simp add: code_refs_def)
  show ?thesis
    by (intro wp_vthen wp_vbind wp_code_advance wp_code_fetch_ref)
      (use cs ne in \<open>auto simp: has_code_def code_refs_def split: option.splits intro!: assms(3)\<close>)
qed

lemma wp_fetch_ref_Some:
  assumes "sl_refs cs \<noteq> []" "slice_ok cs" "\<And>r cs'. cell_ok r \<Longrightarrow> slice_ok cs' \<Longrightarrow> wp (f r) Q R (s\<lparr>code := Some cs'\<rparr>)"
  shows "wp (vbind code_fetch_ref f) Q R (s\<lparr>code := Some cs\<rparr>)"
  by (intro wp_vbind wp_code_fetch_ref) (use assms in auto)

lemma exec_do_with_cell_safe:
  assumes "\<And>c s0 s. vm_inv s0 s \<Longrightarrow> has_code s \<Longrightarrow> cell_ok c \<Longrightarrow> wp (f c) (post_ok s0) (vm_inv s0) s"
  shows "vm_safe (exec_do_with_cell f pfx)"
  unfolding exec_do_with_cell_def
  by (intro vm_safeI wp_vbind [of "vget code_refs"] wp_vget wp_if wp_vthrow wp_advance_fetch assms) auto

lemma exec_do_with_ref_safe:
  assumes "\<And>k s0 s. vm_inv s0 s \<Longrightarrow> has_code s \<Longrightarrow> cont_ok k \<Longrightarrow> wp (f k) (post_ok s0) (vm_inv s0) s"
  shows "vm_safe (exec_do_with_ref f pfx)"
  unfolding exec_do_with_ref_def
  by (intro vm_safeI wp_vbind [of "vget code_refs"] wp_vget wp_if wp_vthrow wp_advance_fetch
      wp_vbind [of "ref_to_cont c" for c] wp_ref_to_cont assms) auto

lemma ref_ops_safe:
  "vm_safe (exec_do_with_ref call pfx)" "vm_safe (exec_do_with_ref jump pfx)"
  "vm_safe (exec_do_with_ref (\<lambda>k. vthen push_code (jump k)) pfx)"
  "vm_safe (exec_do_with_cell (\<lambda>c. vbind pop_bool (\<lambda>b. if b then vbind (ref_to_cont c) call else vret 0)) pfx)"
  "vm_safe (exec_do_with_cell (\<lambda>c. vbind pop_bool (\<lambda>b. if b then vret 0 else vbind (ref_to_cont c) call)) pfx)"
  "vm_safe (exec_do_with_cell (\<lambda>c. vbind pop_bool (\<lambda>b. if b then vbind (ref_to_cont c) jump else vret 0)) pfx)"
  "vm_safe (exec_do_with_cell (\<lambda>c. vbind pop_bool (\<lambda>b. if b then vret 0 else vbind (ref_to_cont c) jump)) pfx)"
  by (rule exec_do_with_ref_safe exec_do_with_cell_safe; intro wp_rules; simp)+

lemma exec_ifelse_ref_safe: "vm_safe (exec_ifelse_ref md pfx)"
  unfolding exec_ifelse_ref_def
  by (intro vm_safeI wp_vbind [of "vget code_refs"] wp_vget wp_if wp_vthrow wp_advance_fetch; (intro wp_rules)?; auto)

lemma exec_ifref_elseref_safe: "vm_safe (exec_ifref_elseref args pfx)"
  unfolding exec_ifref_elseref_def
  by (intro vm_safeI wp_vbind [of "vget code_refs"] wp_vget wp_if wp_vthrow wp_advance_fetch wp_fetch_ref_Some;
      (intro wp_rules)?; auto)

lemma cond_ops_safe:
  "vm_safe exec_if" "vm_safe exec_ifnot" "vm_safe exec_if_jmp" "vm_safe exec_ifnot_jmp" "vm_safe exec_ifret"
  "vm_safe exec_ifnotret" "vm_safe exec_if_else" "vm_safe exec_condsel" "vm_safe exec_condsel_chk"
  "vm_safe exec_ifretalt" "vm_safe exec_ifnotretalt" "vm_safe (exec_if_bit_jmp n)"
  unfolding exec_if_def exec_ifnot_def exec_if_jmp_def exec_ifnot_jmp_def exec_ifret_def exec_ifnotret_def
    exec_if_else_def exec_condsel_def exec_condsel_chk_def exec_ifretalt_def exec_ifnotretalt_def
    exec_if_bit_jmp_def Let_def
  by (rule vm_safeI; intro wp_rules; auto simp: depth_def)+

lemma exec_if_bit_jmpref_safe: "vm_safe (exec_if_bit_jmpref args pfx)"
  unfolding exec_if_bit_jmpref_def Let_def
  by (intro vm_safeI wp_vbind [of "vget code_refs"] wp_vget wp_if wp_vthrow wp_advance_fetch; (intro wp_rules)?; auto)

lemma loop_ops_safe:
  "vm_safe (exec_repeat brk)" "vm_safe (exec_repeat_end brk)" "vm_safe (exec_until brk)"
  "vm_safe (exec_until_end brk)" "vm_safe (exec_while brk)" "vm_safe (exec_while_end brk)"
  "vm_safe (exec_again brk)" "vm_safe (exec_again_end brk)"
  unfolding exec_repeat_def exec_repeat_end_def exec_until_def exec_until_end_def exec_while_def exec_while_end_def
    exec_again_def exec_again_end_def
  by (rule vm_safeI; intro wp_rules; simp)+

lemma cd_with_sel [simp]:
  "cd_stack (cd_with_stack xs d) = xs" "cd_save (cd_with_stack xs d) = cd_save d" "cd_nargs (cd_with_stack xs d) = cd_nargs d"
  "cd_stack (cd_with_nargs n d) = cd_stack d" "cd_save (cd_with_nargs n d) = cd_save d" "cd_nargs (cd_with_nargs n d) = n"
  by (simp_all add: cd_with_stack_def cd_with_nargs_def)

lemma forced_cdata_ok: "cont_ok k \<Longrightarrow> cdata_ok (forced_cdata k)"
  by (cases "get_cdata k") (auto simp: forced_cdata_def dest: cont_ok_cdata)

lemma map_cdata_ok: "cont_ok k \<Longrightarrow> cdata_ok d \<Longrightarrow> cont_ok (map_cdata (\<lambda>_. d) (force_cdata k))"
  by (cases k) (auto simp: force_cdata_def)

lemma closure_more_ok: "cdata_ok d \<Longrightarrow> cdata_ok (closure_more n d)"
  by (auto simp: closure_more_def cdata_ok_sel)

lemma wp_closure_copy [wp_rules]:
  assumes "cdata_ok d" "stack_ok (stk s)" "copy \<le> depth s" "R s"
    "\<And>d' xs g. cdata_ok d' \<Longrightarrow> stack_ok xs \<Longrightarrow> g = gas s \<or> gas_ok (gas s) g \<Longrightarrow> Q d' (s\<lparr>stk := xs, gas := g\<rparr>)"
  shows "wp (closure_copy copy d) Q R s"
proof -
  have same: "Q d s" using assms(5) [of d "stk s" "gas s"] assms(1,2) by simp
  have Q1: "Q d' (s\<lparr>stk := xs, gas := g\<rparr>)" if "cdata_ok d'" "stack_ok xs" "gas_ok (gas s) g" for d' xs g
    using assms(5) that by simp
  show ?thesis
    unfolding closure_copy_def
    by (intro wp_rules) (use assms(1-4) same in \<open>auto intro!: Q1 simp: cdata_ok_sel\<close>)
qed

lemma exec_setcontargs_common_safe: "0 \<le> copy \<Longrightarrow> vm_safe (exec_setcontargs_common copy m)"
  unfolding exec_setcontargs_common_def push_cont_def
  by (rule vm_safeI, intro wp_rules) (auto simp: depth_def intro!: forced_cdata_ok map_cdata_ok closure_more_ok)

lemma vm_safe_range:
  assumes "\<And>n. mn \<le> n \<Longrightarrow> n \<le> mx \<Longrightarrow> vm_safe (f n)"
  shows "vm_safe (vbind (pop_smallint_range mx mn) f)"
  by (auto intro!: vm_safeI wp_vbind wp_pop_smallint_range vm_safeD [OF assms])

lemma closure_ops_safe:
  "vm_safe (exec_setcontargs n)" "vm_safe exec_setcont_varargs" "vm_safe exec_setnum_varargs"
  unfolding exec_setcontargs_def exec_setcont_varargs_def exec_setnum_varargs_def
  by (intro vm_safe_check vm_safe_range exec_setcontargs_common_safe nibble_bounds; simp)+

lemma forced_cdata_sel:
  assumes "cont_ok k"
  shows "- 1 \<le> cd_nargs (forced_cdata k)" "cd_stack (forced_cdata k) = Some xs \<Longrightarrow> stack_ok xs"
    "cregs_ok (cd_save (forced_cdata k))"
  using forced_cdata_ok [OF assms] by (simp_all add: cdata_ok_sel)

lemma map_forced_ok:
  assumes "cont_ok k" "- 1 \<le> n" "stack_ok xs"
  shows "cont_ok (map_cdata (\<lambda>_. cd_with_nargs n (cd_with_stack (Some xs) (forced_cdata k))) (force_cdata k))"
  by (rule map_cdata_ok) (use assms forced_cdata_sel in \<open>auto simp: cdata_ok_sel\<close>)

lemma closure_stack_ok:
  assumes "cont_ok k" "stack_ok a"
  shows "stack_ok (case cd_stack (forced_cdata k) of None \<Rightarrow> a | Some xs \<Rightarrow> a @ xs)"
  using assms forced_cdata_sel(2) [OF assms(1)] by (auto split: option.split)

lemma exec_return_args_common_safe: "0 \<le> n \<Longrightarrow> vm_safe (exec_return_args_common n)"
  unfolding exec_return_args_common_def Let_def
  by (rule vm_safeI, intro wp_rules)
    (auto simp: depth_def forced_cdata_sel(1) closure_stack_ok map_forced_ok)

lemma return_ops_safe: "vm_safe (exec_return_args n)" "vm_safe exec_return_varargs"
  unfolding exec_return_args_def exec_return_varargs_def
  by (auto intro!: vm_safe_var exec_return_args_common_safe nibble_bounds(1))

lemma exec_bless_args_common_safe: "0 \<le> copy \<Longrightarrow> - 1 \<le> m \<Longrightarrow> vm_safe (exec_bless_args_common copy m)"
  unfolding exec_bless_args_common_def push_cont_def
  by (rule vm_safeI, intro wp_rules) (auto simp: depth_def cdata_ok_sel)

lemma bless_ops_safe: "vm_safe exec_bless" "vm_safe exec_bless_varargs" "vm_safe (exec_bless_args n)"
proof -
  show "vm_safe exec_bless"
    unfolding exec_bless_def push_cont_def by (rule vm_safeI, intro wp_rules) auto
  show "vm_safe exec_bless_varargs"
    unfolding exec_bless_varargs_def by (intro vm_safe_check vm_safe_range exec_bless_args_common_safe)
  show "vm_safe (exec_bless_args n)"
    unfolding exec_bless_args_def by (intro exec_bless_args_common_safe nibble_bounds lo4_minus1_bounds)
qed

section \<open>Safety of the register operations\<close>

lemma creg_get_ok:
  assumes "cregs_ok r" "regs_full r"
  shows "\<exists>v. creg_get i r = Some v \<and> entry_ok v"
proof -
  have "i < 4 \<Longrightarrow> \<exists>k. get_c i r = Some k \<and> cont_ok k"
    using assms by (auto simp: get_c_def regs_full_def cregs_ok_sel less_Suc_eq numeral_eq_Suc)
  then show ?thesis
    using assms by (auto simp: creg_get_def regs_full_def cregs_ok_sel)
qed

lemma wp_vm_get [wp_rules]:
  assumes "vm_inv s0 s" "\<And>v. entry_ok v \<Longrightarrow> Q v s"
  shows "wp (vm_get i) Q (vm_inv s0) s"
  using creg_get_ok [OF vm_inv_regs [OF assms(1)], of i] assms(2) by (auto simp: wp_def vm_get_def)

lemma creg_set_ok:
  assumes "creg_set i v r = Some r'" "entry_ok v" "cregs_ok r" "regs_full r"
  shows "cregs_ok r'" "regs_full r'"
  using assms as_entry_ok [of v] by (auto simp: creg_set_def cr_c_def split: if_splits)

lemma wp_vm_set [wp_rules]:
  assumes "vm_inv s0 s" "entry_ok v" "\<And>r. cregs_ok r \<Longrightarrow> regs_full r \<Longrightarrow> Q () (s\<lparr>cr := r\<rparr>)"
  shows "wp (vm_set i v) Q (vm_inv s0) s"
  using assms creg_set_ok [OF _ assms(2) vm_inv_regs [OF assms(1)], of i] by (auto simp: wp_def vm_set_def split: option.split)

lemma creg_define_ok:
  assumes "creg_define i v r = Some r'" "entry_ok v" "cregs_ok r"
  shows "cregs_ok r'"
  using assms as_entry_ok [of v] by (auto simp: creg_define_def cr_c_def split: if_splits option.splits)

lemma wp_define_chk [wp_rules]:
  assumes "cont_ok k" "entry_ok v" "R s" "\<And>k'. cont_ok k' \<Longrightarrow> Q k' s"
  shows "wp (define_chk i v k) Q R s"
  unfolding define_chk_def
  by (intro wp_rules assms(4) with_cregs_ok) (use assms forced_cdata_sel(3) [OF assms(1)] in \<open>auto intro: creg_define_ok\<close>)

lemma define_quiet_ok [simp]: "cont_ok k \<Longrightarrow> entry_ok v \<Longrightarrow> cont_ok (define_quiet i v k)"
  unfolding define_quiet_def by (rule with_cregs_ok) (auto dest: creg_define_ok split: option.split)

lemma with_define_ok [simp]:
  assumes "cont_ok k" "cregs_ok r"
  shows "cont_ok (with_cregs (define_c0 (c0 r)) k)" "cont_ok (with_cregs (define_c1 (c1 r)) k)"
    "cont_ok (with_cregs (define_c0 (c1 r)) k)"
  using assms by (auto intro!: with_cregs_ok define_ok dest: cregs_okD)

lemma ctr_ops_safe:
  "vm_safe (exec_push_ctr n)" "vm_safe exec_bless_pop_c3" "vm_safe (exec_pop_ctr n)" "vm_safe (exec_setcont_ctr n)"
  "vm_safe (exec_setret_ctr n)" "vm_safe (exec_setalt_ctr n)" "vm_safe (exec_popsave_ctr n)"
  "vm_safe (exec_save_ctr n)" "vm_safe (exec_samealt b)" "vm_safe (exec_savealt_ctr n)" "vm_safe (exec_saveboth_ctr n)"
  unfolding exec_push_ctr_def exec_bless_pop_c3_def exec_pop_ctr_def exec_setcont_ctr_def exec_setret_ctr_def
    exec_setalt_ctr_def exec_popsave_ctr_def exec_save_ctr_def exec_samealt_def exec_savealt_ctr_def
    exec_saveboth_ctr_def Let_def push_cont_def
  by (rule vm_safeI; intro wp_rules; simp)+

lemma ctr_var_ops_safe:
  "vm_safe exec_push_ctr_var" "vm_safe exec_pop_ctr_var" "vm_safe exec_setcont_ctr_var"
  unfolding exec_push_ctr_var_def exec_pop_ctr_var_def exec_setcont_ctr_var_def push_cont_def
  by (rule vm_safeI; intro wp_rules; simp)+

lemma compos_ops_safe:
  "vm_safe (exec_compos m)" "vm_safe exec_atexit" "vm_safe exec_atexit_alt" "vm_safe exec_setexit_alt"
  "vm_safe exec_thenret" "vm_safe exec_thenret_alt" "vm_safe exec_invert" "vm_safe exec_booleval"
proof -
  have c: "cont_ok (with_cregs (\<lambda>r. if m = 1 then define_c0 (Some v) r
             else if m = 3 then define_c1 (Some v) (define_c0 (Some v) r)
             else if m = 2 then define_c1 (Some v) r else r) k)" if "cont_ok v" "cont_ok k" for v k
    using that by (intro with_cregs_ok) (auto intro!: define_ok)
  show "vm_safe (exec_compos m)" "vm_safe exec_atexit" "vm_safe exec_atexit_alt" "vm_safe exec_setexit_alt"
    "vm_safe exec_thenret" "vm_safe exec_thenret_alt" "vm_safe exec_invert" "vm_safe exec_booleval"
    unfolding exec_compos_def exec_atexit_def exec_atexit_alt_def exec_setexit_alt_def exec_thenret_def
      exec_thenret_alt_def exec_invert_def exec_booleval_def push_cont_def
    by (rule vm_safeI; intro wp_rules; simp add: c [unfolded One_nat_def] int257_def)+
qed

section \<open>Safety of jumps through \<open>c3\<close>, exceptions, codepages\<close>

lemma int257_mod: "0 < b \<Longrightarrow> b \<le> 65536 \<Longrightarrow> int257 (int (a mod b))"
  using mod_less_divisor [of b a] by (intro int257_small) linarith+

lemma dict_jump_ops_safe:
  "vm_safe (exec_calldict_short n)" "vm_safe (exec_calldict n)" "vm_safe (exec_jmpdict n)" "vm_safe (exec_preparedict n)"
  unfolding exec_calldict_short_def exec_calldict_def exec_jmpdict_def exec_preparedict_def push_smallint_def push_cont_def
  by (rule vm_safeI; intro wp_rules; simp add: int257_mod)+

lemma throw_ops_safe:
  assumes "m < 65536"
  shows "vm_safe (exec_throw_fixed m md n)" "vm_safe (exec_throw_arg_fixed m md n)" "vm_safe (exec_throw_any n)"
proof -
  have e: "int257 (int (n mod (m + 1)))" using assms by (intro int257_mod) simp_all
  show "vm_safe (exec_throw_fixed m md n)"
    unfolding exec_throw_fixed_def Let_def by (rule vm_safeI; intro wp_rules) (use e in auto)
  show "vm_safe (exec_throw_arg_fixed m md n)"
    unfolding exec_throw_arg_fixed_def Let_def
    by (rule vm_safeI; intro wp_rules) (use e in \<open>auto simp: depth_def split: if_splits\<close>)
  show "vm_safe (exec_throw_any n)"
    unfolding exec_throw_any_def Let_def
    by (rule vm_safeI; intro wp_rules) (auto simp: depth_def int257_small split: if_splits)
qed

text \<open>\<open>TRY\<close> leaves \<open>c2\<close> null for a moment; the handler fills it before anything can fail.\<close>

lemma wp_try_tail:
  assumes "vm_rest s0 s" "cregs_ok (cr s)" "\<And>x. regs_full (cr_c2 (Some x) (cr s))"
    "cont_ok cc" "cont_ok h" "cont_ok o2" "cont_ok k"
  shows "wp (vthen (set_c0 cc)
      (vthen (set_c2 (with_cregs (\<lambda>r. define_c0 (Some cc) (define_c2 (Some o2) r)) h)) (jump k))) (post_ok s0) (vm_inv s0) s"
proof (intro wp_vthen wp_set_c wp_jump)
  have h: "cont_ok (with_cregs (\<lambda>r. define_c0 (Some cc) (define_c2 (Some o2) r)) h)"
    using assms(4-6) by (intro with_cregs_ok) (auto intro!: define_ok)
  have "regs_full (cr_c2 (Some x) (cr_c0 (Some cc) (cr s)))" for x
    using assms(3) [of x] by (simp add: regs_full_def cr_defs)
  then show "vm_inv s0 (s\<lparr>cr := cr_c0 (Some cc) (cr s)\<rparr>\<lparr>cr := cr_c2 (Some (with_cregs
      (\<lambda>r. define_c0 (Some cc) (define_c2 (Some o2) r)) h)) (cr (s\<lparr>cr := cr_c0 (Some cc) (cr s)\<rparr>))\<rparr>)"
    unfolding vm_inv_split using assms h by simp
qed (rule assms)

lemma exec_try_safe: "vm_safe (exec_try args)"
  unfolding exec_try_def Let_def
proof (rule vm_safeI, rule wp_vthen, rule wp_check_underflow, intro wp_vbind wp_pop_cont wp_vm_get_c)
  fix s0 k xs ka xsa o2
  assume inv: "vm_inv s0 s0" and code: "has_code s0" and ok: "cont_ok k" "stack_ok xs" "cont_ok ka" "stack_ok xsa" "cont_ok o2"
  let ?s = "s0\<lparr>stk := xs\<rparr>\<lparr>stk := xsa\<rparr>"
  have inv': "vm_inv s0 ?s" and code': "has_code ?s" using inv ok code by simp_all
  show "wp (if 0 \<le> args then extract_cc 7 (mid4 (nat args)) (lo4 (nat args)) else extract_cc 7 (- 1) (- 1))
      (\<lambda>cc. wp (vthen (set_c0 cc)
          (vthen (set_c2 (with_cregs (\<lambda>r. define_c0 (Some cc) (define_c2 (Some o2) r)) k)) (jump ka)))
        (post_ok s0) (vm_inv s0)) (vm_inv s0) ?s"
    by (intro wp_if wp_extract_cc_gen [OF inv' code', where R = "vm_inv s0"] wp_try_tail)
      (use ok inv' nibble_bounds in \<open>auto simp: nibbles\<close>)
qed (auto simp: depth_def)

lemma codepage_ops_safe: "vm_safe (exec_set_cp n)" "vm_safe exec_set_cp_any"
  unfolding exec_set_cp_def exec_set_cp_any_def exec_set_cp_generic_def
  by (rule vm_safeI; intro wp_rules; simp)+

lemmas cont_ops_safe_rules = jump_ops_safe callcc_ops_safe ref_ops_safe exec_ifelse_ref_safe exec_ifref_elseref_safe
  cond_ops_safe exec_if_bit_jmpref_safe loop_ops_safe closure_ops_safe return_ops_safe bless_ops_safe ctr_ops_safe
  ctr_var_ops_safe compos_ops_safe dict_jump_ops_safe throw_ops_safe exec_try_safe codepage_ops_safe

lemma register_continuation_ops_safe: "\<forall>i \<in> set register_continuation_ops. instr_safe i"
  unfolding register_continuation_ops_def register_continuation_jump_ops_def register_continuation_cond_loop_ops_def
    register_continuation_change_ops_def register_continuation_dict_jump_ops_def register_exception_ops_def
    reg_ctr_oprange_def set_append ball_Un
  by (simp add: instr_safe_args cont_ops_safe_rules compos_ops_safe(1) [of "Suc 0"] throw_ops_safe(3) [OF zero_less_numeral])

lemma register_codepage_ops_safe: "\<forall>i \<in> set register_codepage_ops. instr_safe i"
  unfolding register_codepage_ops_def by (simp add: instr_safe_args codepage_ops_safe)

end
