(* ===== verification/CellOps.thy ===== *)
theory CellOps
  imports ContOps
begin

text \<open>
  The instructions on cells, slices and builders (\<open>cellops.cpp\<close>), one definition per handler,
  and their registration. Handlers that read constants from the code take the prefix length
  as the last argument. An argument of a handler is tested bit by bit, as in the code. The
  disassembler functions (\<open>dump_...\<close>) are not modelled.
\<close>

section \<open>Constants\<close>

text \<open>Reading a constant slice from the code; the callers have checked that it is there.\<close>

definition code_fetch_subslice :: "nat \<Rightarrow> nat \<Rightarrow> slice vm" where
  "code_fetch_subslice n r = (\<lambda>s. case code s of
     None \<Rightarrow> Undef
   | Some cs \<Rightarrow> (case fetch_subslice n r cs of None \<Rightarrow> Undef | Some (sl, cs') \<Rightarrow> Ok sl (s\<lparr>code := Some cs'\<rparr>)))"

definition exec_push_ref :: "nat \<Rightarrow> nat \<Rightarrow> int vm" where
  "exec_push_ref md pfx_bits =
     vbind (vget code_refs) (\<lambda>rs.
       if \<not> 1 \<le> length rs then vthrow inv_opcode
       else vthen (code_advance pfx_bits) (vbind code_fetch_ref (\<lambda>c.
         if md = 1 then vbind (load_cell_slice_ref c) (\<lambda>cs. vdo [push_cellslice cs])
         else if md = 2 then
           vbind (load_cell_slice_ref c) (\<lambda>cs. vbind (vget cp) (\<lambda>n. vdo [push_cont (OrdCont (cdata_new n) (Some cs))]))
         else vdo [push_cell c])))"

text \<open>The checks and the reading that the instructions with a constant slice share.\<close>

definition with_const_slice :: "nat \<Rightarrow> nat \<Rightarrow> nat \<Rightarrow> (slice \<Rightarrow> int vm) \<Rightarrow> int vm" where
  "with_const_slice data_bits refs pfx_bits f =
     vbind (vget code_bits) (\<lambda>bs. vbind (vget code_refs) (\<lambda>rs.
       if \<not> pfx_bits + data_bits \<le> length bs then vthrow inv_opcode
       else if \<not> refs \<le> length rs then vthrow inv_opcode
       else vthen (code_advance pfx_bits) (vbind (code_fetch_subslice data_bits refs) f)))"

definition exec_push_slice_common :: "nat \<Rightarrow> nat \<Rightarrow> nat \<Rightarrow> int vm" where
  "exec_push_slice_common data_bits refs pfx_bits =
     with_const_slice data_bits refs pfx_bits (\<lambda>cs. vdo [push_cellslice (remove_trailing cs)])"

definition exec_push_slice :: "nat \<Rightarrow> nat \<Rightarrow> int vm" where
  "exec_push_slice args pfx_bits = exec_push_slice_common (args mod 16 * 8 + 4) 0 pfx_bits"

definition exec_push_slice_r :: "nat \<Rightarrow> nat \<Rightarrow> int vm" where
  "exec_push_slice_r args pfx_bits = exec_push_slice_common (args mod 32 * 8 + 1) (args div 32 mod 4 + 1) pfx_bits"

definition exec_push_slice_r2 :: "nat \<Rightarrow> nat \<Rightarrow> int vm" where
  "exec_push_slice_r2 args pfx_bits = exec_push_slice_common (args mod 128 * 8 + 6) (args div 128 mod 8) pfx_bits"

definition exec_push_cont :: "nat \<Rightarrow> nat \<Rightarrow> int vm" where
  "exec_push_cont args pfx_bits =
     with_const_slice (args mod 128 * 8) (args div 128 mod 4) pfx_bits (\<lambda>cs.
       vbind (vget cp) (\<lambda>n. vdo [push_cont (OrdCont (cdata_new n) (Some cs))]))"

definition exec_push_cont_simple :: "nat \<Rightarrow> nat \<Rightarrow> int vm" where
  "exec_push_cont_simple args pfx_bits =
     with_const_slice (args mod 16 * 8) 0 pfx_bits (\<lambda>cs.
       vbind (vget cp) (\<lambda>n. vdo [push_cont (OrdCont (cdata_new n) (Some cs))]))"

definition register_cell_const_ops :: "opcode_instr list" where
  "register_cell_const_ops =
     [mkext 0x88 8 0 (\<lambda>args. exec_push_ref 0), mkext 0x89 8 0 (\<lambda>args. exec_push_ref 1),
      mkext 0x8a 8 0 (\<lambda>args. exec_push_ref 2), mkext 0x8b 8 4 exec_push_slice, mkext 0x8c 8 7 exec_push_slice_r,
      mkextrange (0x8d * 8 * 2 ^ 7) ((0x8d * 8 + 5) * 2 ^ 7) 18 10 exec_push_slice_r2,
      mkext 0x47 7 9 exec_push_cont, mkext 9 4 4 exec_push_cont_simple]"

text \<open>How much of the code each instruction takes: bits, and references above bit 16; 0 if it does not fit.\<close>

definition compute_len_push_ref :: "slice \<Rightarrow> nat \<Rightarrow> nat" where
  "compute_len_push_ref cs pfx_bits = (if have_refs 1 cs then 2 ^ 16 + pfx_bits else 0)"

definition compute_len_push_ref2 :: "slice \<Rightarrow> nat \<Rightarrow> nat" where
  "compute_len_push_ref2 cs pfx_bits = (if have_refs 2 cs then 2 * 2 ^ 16 + pfx_bits else 0)"

definition compute_len_push_slice_common :: "slice \<Rightarrow> nat \<Rightarrow> nat \<Rightarrow> nat \<Rightarrow> nat" where
  "compute_len_push_slice_common cs data_bits refs pfx_bits =
     (if have_bits (pfx_bits + data_bits) cs \<and> have_refs refs cs then refs * 2 ^ 16 + (pfx_bits + data_bits) else 0)"

definition compute_len_push_slice :: "slice \<Rightarrow> nat \<Rightarrow> nat \<Rightarrow> nat" where
  "compute_len_push_slice cs args pfx_bits = compute_len_push_slice_common cs (args mod 16 * 8 + 4) 0 pfx_bits"

definition compute_len_push_slice_r :: "slice \<Rightarrow> nat \<Rightarrow> nat \<Rightarrow> nat" where
  "compute_len_push_slice_r cs args pfx_bits =
     compute_len_push_slice_common cs (args mod 32 * 8 + 1) (args div 32 mod 4 + 1) pfx_bits"

definition compute_len_push_slice_r2 :: "slice \<Rightarrow> nat \<Rightarrow> nat \<Rightarrow> nat" where
  "compute_len_push_slice_r2 cs args pfx_bits =
     compute_len_push_slice_common cs (args mod 128 * 8 + 6) (args div 128 mod 8) pfx_bits"

definition compute_len_push_cont :: "slice \<Rightarrow> nat \<Rightarrow> nat \<Rightarrow> nat" where
  "compute_len_push_cont cs args pfx_bits =
     compute_len_push_slice_common cs (args mod 128 * 8) (args div 128 mod 4) pfx_bits"

definition compute_len_push_cont_simple :: "slice \<Rightarrow> nat \<Rightarrow> nat \<Rightarrow> nat" where
  "compute_len_push_cont_simple cs args pfx_bits = compute_len_push_slice_common cs (args mod 16 * 8) 0 pfx_bits"

section \<open>Comparisons\<close>

definition exec_un_cs_cmp :: "(slice \<Rightarrow> bool) \<Rightarrow> int vm" where
  "exec_un_cs_cmp func =
     vthen (check_underflow 1) (vbind pop_cellslice (\<lambda>cs. vdo [push_smallint (if func cs then - 1 else 0)]))"

definition exec_iun_cs_cmp :: "(slice \<Rightarrow> int) \<Rightarrow> int vm" where
  "exec_iun_cs_cmp func = vthen (check_underflow 1) (vbind pop_cellslice (\<lambda>cs. vdo [push_smallint (func cs)]))"

definition exec_bin_cs_cmp :: "(slice \<Rightarrow> slice \<Rightarrow> bool) \<Rightarrow> int vm" where
  "exec_bin_cs_cmp func =
     vthen (check_underflow 2) (vbind pop_cellslice (\<lambda>cs2. vbind pop_cellslice (\<lambda>cs1.
       vdo [push_smallint (if func cs1 cs2 then - 1 else 0)])))"

definition exec_ibin_cs_cmp :: "(slice \<Rightarrow> slice \<Rightarrow> int) \<Rightarrow> int vm" where
  "exec_ibin_cs_cmp func =
     vthen (check_underflow 2) (vbind pop_cellslice (\<lambda>cs2. vbind pop_cellslice (\<lambda>cs1.
       vdo [push_smallint (func cs1 cs2)])))"

definition register_cell_cmp_ops :: "opcode_instr list" where
  "register_cell_cmp_ops =
     [mksimple 0xc700 16 (exec_un_cs_cmp (\<lambda>cs. sl_size cs = 0 \<and> sl_size_refs cs = 0)),
      mksimple 0xc701 16 (exec_un_cs_cmp (\<lambda>cs. sl_size cs = 0)),
      mksimple 0xc702 16 (exec_un_cs_cmp (\<lambda>cs. sl_size_refs cs = 0)),
      mksimple 0xc703 16 (exec_un_cs_cmp (\<lambda>cs. prefetch_long 1 cs = - 1)),
      mksimple 0xc704 16 (exec_ibin_cs_cmp lex_cmp),
      mksimple 0xc705 16 (exec_bin_cs_cmp (\<lambda>cs1 cs2. lex_cmp cs1 cs2 = 0)),
      mksimple 0xc708 16 (exec_bin_cs_cmp is_prefix_of),
      mksimple 0xc709 16 (exec_bin_cs_cmp (\<lambda>cs1 cs2. is_prefix_of cs2 cs1)),
      mksimple 0xc70a 16 (exec_bin_cs_cmp is_proper_prefix_of),
      mksimple 0xc70b 16 (exec_bin_cs_cmp (\<lambda>cs1 cs2. is_proper_prefix_of cs2 cs1)),
      mksimple 0xc70c 16 (exec_bin_cs_cmp is_suffix_of),
      mksimple 0xc70d 16 (exec_bin_cs_cmp (\<lambda>cs1 cs2. is_suffix_of cs2 cs1)),
      mksimple 0xc70e 16 (exec_bin_cs_cmp is_proper_suffix_of),
      mksimple 0xc70f 16 (exec_bin_cs_cmp (\<lambda>cs1 cs2. is_proper_suffix_of cs2 cs1)),
      mksimple 0xc710 16 (exec_iun_cs_cmp (\<lambda>cs. int (count_leading False cs))),
      mksimple 0xc711 16 (exec_iun_cs_cmp (\<lambda>cs. int (count_leading True cs))),
      mksimple 0xc712 16 (exec_iun_cs_cmp (\<lambda>cs. int (count_trailing False cs))),
      mksimple 0xc713 16 (exec_iun_cs_cmp (\<lambda>cs. int (count_trailing True cs)))]"

section \<open>Builders\<close>

definition cell_create_gas_price :: int where "cell_create_gas_price = 500"

text \<open>\<open>finalize_copy\<close> within the machine: the gas is charged first, a cell that cannot be created is an overflow.\<close>

definition finalize_copy :: "bool \<Rightarrow> builder \<Rightarrow> cell vm" where
  "finalize_copy special b =
     vthen (consume_gas cell_create_gas_price) (vbind (vget sha256) (\<lambda>sha.
       case data_cell_create sha (bl_bits b) (bl_refs b) special of Inl e \<Rightarrow> vthrow cell_ov | Inr c \<Rightarrow> vret c))"

definition exec_new_builder :: "int vm" where
  "exec_new_builder = vdo [push_builder new_builder]"

definition exec_builder_to_cell :: "int vm" where
  "exec_builder_to_cell =
     vthen (check_underflow 1) (vbind pop_builder (\<lambda>b. vbind (finalize_copy False b) (\<lambda>c. vdo [push_cell c])))"

definition exec_builder_to_special_cell :: "int vm" where
  "exec_builder_to_special_cell =
     vthen (check_underflow 2) (vbind pop_bool (\<lambda>special. vbind pop_builder (\<lambda>b.
       vbind (finalize_copy special b) (\<lambda>c. vdo [push_cell c]))))"

definition check_space :: "builder \<Rightarrow> nat \<Rightarrow> nat \<Rightarrow> unit vm" where
  "check_space b bits refs = (if \<not> can_extend_by bits refs b then vthrow cell_ov else vret ())"

text \<open>The end of the storing instructions: the new builder, and 0 in the quiet variants.\<close>

definition push_stored :: "bool \<Rightarrow> builder option \<Rightarrow> int vm" where
  "push_stored quiet r =
     (case r of None \<Rightarrow> vthrow cell_ov
      | Some b \<Rightarrow> if quiet then vdo [push_builder b, push_smallint 0] else vdo [push_builder b])"

definition store_int_common_fail :: "int \<Rightarrow> builder \<Rightarrow> bigint \<Rightarrow> nat \<Rightarrow> int vm" where
  "store_int_common_fail c b x args =
     (if \<not> bit args 1 then vdo [push_int_quiet x True, push_builder b, push_smallint c]
      else vdo [push_builder b, push_int_quiet x True, push_smallint c])"

definition store_int_args :: "nat \<Rightarrow> (builder \<times> bigint) vm" where
  "store_int_args args =
     (if \<not> bit args 1 then vbind pop_builder (\<lambda>b. vbind pop_int (\<lambda>x. vret (b, x)))
      else vbind pop_int (\<lambda>x. vbind pop_builder (\<lambda>b. vret (b, x))))"

definition exec_store_int_common :: "nat \<Rightarrow> nat \<Rightarrow> int vm" where
  "exec_store_int_common n args =
     vbind (store_int_args args) (\<lambda>(b, x).
       if \<not> can_extend_by_bits n b then
         (if bit args 2 then store_int_common_fail (- 1) b x args else vthrow cell_ov)
       else if \<not> fits_bits x n (\<not> bit args 0) then
         (if bit args 2 then store_int_common_fail 1 b x args else vthrow range_chk)
       else push_stored (bit args 2) (store_int256_bool x n (\<not> bit args 0) b))"

definition exec_store_int :: "nat \<Rightarrow> bool \<Rightarrow> int vm" where
  "exec_store_int args sgnd =
     vthen (check_underflow 2) (exec_store_int_common (args mod 256 + 1) (if sgnd then 0 else 1))"

definition exec_store_ref :: "bool \<Rightarrow> int vm" where
  "exec_store_ref quiet =
     vthen (check_underflow 2) (vbind pop_builder (\<lambda>b. vbind pop_cell (\<lambda>c.
       if \<not> can_extend_by 0 1 b then
         (if \<not> quiet then vthrow cell_ov else vdo [push_cell c, push_builder b, push_smallint (- 1)])
       else push_stored quiet (store_ref_bool c b))))"

definition exec_store_ref_rev :: "bool \<Rightarrow> int vm" where
  "exec_store_ref_rev quiet =
     vthen (check_underflow 2) (vbind pop_cell (\<lambda>c. vbind pop_builder (\<lambda>b.
       if \<not> can_extend_by 0 1 b then
         (if \<not> quiet then vthrow cell_ov else vdo [push_builder b, push_cell c, push_smallint (- 1)])
       else push_stored quiet (store_ref_bool c b))))"

definition exec_store_builder_as_ref :: "bool \<Rightarrow> int vm" where
  "exec_store_builder_as_ref quiet =
     vthen (check_underflow 2) (vbind pop_builder (\<lambda>b. vbind pop_builder (\<lambda>b2.
       if \<not> can_extend_by 0 1 b then
         (if \<not> quiet then vthrow cell_ov else vdo [push_builder b2, push_builder b, push_smallint (- 1)])
       else vbind (finalize_copy False b2) (\<lambda>c. push_stored quiet (store_ref_bool c b)))))"

definition exec_store_builder_as_ref_rev :: "bool \<Rightarrow> int vm" where
  "exec_store_builder_as_ref_rev quiet =
     vthen (check_underflow 2) (vbind pop_builder (\<lambda>b2. vbind pop_builder (\<lambda>b.
       if \<not> can_extend_by 0 1 b then
         (if \<not> quiet then vthrow cell_ov else vdo [push_builder b, push_builder b2, push_smallint (- 1)])
       else vbind (finalize_copy False b2) (\<lambda>c. push_stored quiet (store_ref_bool c b)))))"

definition exec_store_slice :: "bool \<Rightarrow> int vm" where
  "exec_store_slice quiet =
     vthen (check_underflow 2) (vbind pop_builder (\<lambda>b. vbind pop_cellslice (\<lambda>cs.
       if \<not> can_extend_by (sl_size cs) (sl_size_refs cs) b then
         (if \<not> quiet then vthrow cell_ov else vdo [push_cellslice cs, push_builder b, push_smallint (- 1)])
       else push_stored quiet (cell_builder_add_slice_bool cs b))))"

definition exec_store_slice_rev :: "bool \<Rightarrow> int vm" where
  "exec_store_slice_rev quiet =
     vthen (check_underflow 2) (vbind pop_cellslice (\<lambda>cs. vbind pop_builder (\<lambda>b.
       if \<not> can_extend_by (sl_size cs) (sl_size_refs cs) b then
         (if \<not> quiet then vthrow cell_ov else vdo [push_builder b, push_cellslice cs, push_smallint (- 1)])
       else push_stored quiet (cell_builder_add_slice_bool cs b))))"

definition exec_store_builder :: "bool \<Rightarrow> int vm" where
  "exec_store_builder quiet =
     vthen (check_underflow 2) (vbind pop_builder (\<lambda>b. vbind pop_builder (\<lambda>cb2.
       if \<not> can_extend_by (bl_size cb2) (bl_size_refs cb2) b then
         (if \<not> quiet then vthrow cell_ov else vdo [push_builder cb2, push_builder b, push_smallint (- 1)])
       else push_stored quiet (append_builder_bool cb2 b))))"

definition exec_store_builder_rev :: "bool \<Rightarrow> int vm" where
  "exec_store_builder_rev quiet =
     vthen (check_underflow 2) (vbind pop_builder (\<lambda>cb2. vbind pop_builder (\<lambda>b.
       if \<not> can_extend_by (bl_size cb2) (bl_size_refs cb2) b then
         (if \<not> quiet then vthrow cell_ov else vdo [push_builder b, push_builder cb2, push_smallint (- 1)])
       else push_stored quiet (append_builder_bool cb2 b))))"

definition exec_store_int_var :: "nat \<Rightarrow> int vm" where
  "exec_store_int_var args =
     vthen (check_underflow 3)
       (vbind (pop_smallint_range (256 + (if bit args 0 then 0 else 1)) 0) (\<lambda>n. exec_store_int_common (nat n) args))"

definition exec_store_int_fixed :: "nat \<Rightarrow> int vm" where
  "exec_store_int_fixed args =
     vthen (check_underflow 2) (exec_store_int_common (args mod 256 + 1) (args div 256))"

text \<open>References that follow in the code are stored one after the other.\<close>

fun store_code_refs :: "nat \<Rightarrow> builder \<Rightarrow> builder vm" where
  "store_code_refs 0 b = vret b"
| "store_code_refs (Suc n) b =
     vbind code_fetch_ref (\<lambda>c. case store_ref_bool c b of None \<Rightarrow> vthrow cell_ov | Some b' \<Rightarrow> store_code_refs n b')"

definition exec_store_const_ref :: "nat \<Rightarrow> nat \<Rightarrow> int vm" where
  "exec_store_const_ref args pfx_bits =
     vbind (vget code_refs) (\<lambda>rs.
       if \<not> args mod 2 + 1 \<le> length rs then vthrow inv_opcode
       else vthen (code_advance pfx_bits) (vthen (check_underflow 1) (vbind pop_builder (\<lambda>b.
         vthen (check_space b 0 (args mod 2 + 1))
           (vbind (store_code_refs (args mod 2 + 1) b) (\<lambda>b'. vdo [push_builder b']))))))"

definition compute_len_store_const_ref :: "slice \<Rightarrow> nat \<Rightarrow> nat \<Rightarrow> nat" where
  "compute_len_store_const_ref cs args pfx_bits =
     (if have_refs (args mod 2 + 1) cs then (args mod 2 + 1) * 2 ^ 16 + pfx_bits else 0)"

text \<open>Little-endian numbers: the bytes in reverse order.\<close>

function byte_rev :: "bits \<Rightarrow> bits" where
  "byte_rev bs = (if bs = [] then [] else byte_rev (drop 8 bs) @ take 8 bs)"
  by auto
termination by (relation "measure length") auto

declare byte_rev.simps [simp del]

definition export_bytes_lsb :: "bigint \<Rightarrow> nat \<Rightarrow> bool \<Rightarrow> bits option" where
  "export_bytes_lsb x len sgnd =
     (case x of None \<Rightarrow> None | Some v \<Rightarrow> if fits_bits x (8 * len) sgnd then Some (byte_rev (int_bl (8 * len) v)) else None)"

definition exec_store_le_int :: "nat \<Rightarrow> int vm" where
  "exec_store_le_int args =
     (let n = (if bit args 1 then 64 else 32)
      in vthen (check_underflow 2) (vbind pop_builder (\<lambda>b. vbind pop_int (\<lambda>x.
           vthen (check_space b n 0)
             (if \<not> fits_bits x n (\<not> bit args 0) then vthrow range_chk
              else case export_bytes_lsb x (n div 8) (\<not> bit args 0) of
                     None \<Rightarrow> vundef
                   | Some bs \<Rightarrow> push_stored False (store_bytes bs b))))))"

definition exec_int_builder_func :: "(builder \<Rightarrow> nat) \<Rightarrow> int vm" where
  "exec_int_builder_func func =
     vthen (check_underflow 1) (vbind pop_builder (\<lambda>b. vdo [push_smallint (int (func b))]))"

definition exec_2int_builder_func :: "(builder \<Rightarrow> nat \<times> nat) \<Rightarrow> int vm" where
  "exec_2int_builder_func func =
     vthen (check_underflow 1) (vbind pop_builder (\<lambda>b.
       vdo [push_smallint (int (fst (func b))), push_smallint (int (snd (func b)))]))"

definition exec_builder_chk_bits :: "nat \<Rightarrow> bool \<Rightarrow> int vm" where
  "exec_builder_chk_bits args quiet =
     vthen (check_underflow 1) (vbind pop_builder (\<lambda>b.
       if quiet then vdo [push_smallint (if can_extend_by_bits (args mod 256 + 1) b then - 1 else 0)]
       else vdo [check_space b (args mod 256 + 1) 0]))"

definition exec_builder_chk_bits_refs :: "nat \<Rightarrow> int vm" where
  "exec_builder_chk_bits_refs md =
     vthen (check_underflow (1 + (if bit md 0 then 1 else 0) + (if bit md 1 then 1 else 0)))
       (vbind (if bit md 1 then pop_smallint_range 7 0 else vret 0) (\<lambda>refs.
          vbind (if bit md 0 then pop_smallint_range 1023 0 else vret 0) (\<lambda>n.
            vbind pop_builder (\<lambda>b.
              if bit md 2 then vdo [push_smallint (if can_extend_by (nat n) (nat refs) b then - 1 else 0)]
              else vdo [check_space b (nat n) (nat refs)]))))"

definition exec_store_same :: "int \<Rightarrow> int vm" where
  "exec_store_same val =
     vthen (check_underflow (2 + (if val < 0 then 1 else 0)))
       (vbind (if val < 0 then pop_smallint_range 1 0 else vret val) (\<lambda>v.
          vbind (pop_smallint_range 1023 0) (\<lambda>n. vbind pop_builder (\<lambda>b.
            vthen (check_space b (nat n) 0) (vdo [push_builder (store_bits_same (nat n) (v \<noteq> 0) b)])))))"

definition exec_store_const_slice :: "nat \<Rightarrow> nat \<Rightarrow> int vm" where
  "exec_store_const_slice args pfx_bits =
     with_const_slice (args mod 8 * 8 + 2) (args div 8 mod 4) pfx_bits (\<lambda>cs.
       vbind pop_builder (\<lambda>b.
         vthen (check_space b (sl_size (remove_trailing cs)) (sl_size_refs (remove_trailing cs)))
           (push_stored False (cell_builder_add_slice_bool (remove_trailing cs) b))))"

definition compute_len_store_const_slice :: "slice \<Rightarrow> nat \<Rightarrow> nat \<Rightarrow> nat" where
  "compute_len_store_const_slice cs args pfx_bits =
     compute_len_push_slice_common cs (args mod 8 * 8 + 2) (args div 8 mod 4) pfx_bits"

definition register_cell_serialize_ops :: "opcode_instr list" where
  "register_cell_serialize_ops =
     [mksimple 0xc8 8 exec_new_builder, mksimple 0xc9 8 exec_builder_to_cell,
      mkfixed 0xca 8 8 (\<lambda>args. exec_store_int args True), mkfixed 0xcb 8 8 (\<lambda>args. exec_store_int args False),
      mksimple 0xcc 8 (exec_store_ref False), mksimple 0xcd 8 (exec_store_builder_as_ref_rev False),
      mksimple 0xce 8 (exec_store_slice False),
      mkfixed 0x19e0 13 3 exec_store_int_var, mkfixed 0x19e1 13 11 exec_store_int_fixed,
      mksimple 0xcf10 16 (exec_store_ref False), mksimple 0xcf11 16 (exec_store_builder_as_ref False),
      mksimple 0xcf12 16 (exec_store_slice False), mksimple 0xcf13 16 (exec_store_builder False),
      mksimple 0xcf14 16 (exec_store_ref_rev False), mksimple 0xcf15 16 (exec_store_builder_as_ref_rev False),
      mksimple 0xcf16 16 (exec_store_slice_rev False), mksimple 0xcf17 16 (exec_store_builder_rev False),
      mksimple 0xcf18 16 (exec_store_ref True), mksimple 0xcf19 16 (exec_store_builder_as_ref True),
      mksimple 0xcf1a 16 (exec_store_slice True), mksimple 0xcf1b 16 (exec_store_builder True),
      mksimple 0xcf1c 16 (exec_store_ref_rev True), mksimple 0xcf1d 16 (exec_store_builder_as_ref_rev True),
      mksimple 0xcf1e 16 (exec_store_slice_rev True), mksimple 0xcf1f 16 (exec_store_builder_rev True),
      mkextrange 0xcf20 0xcf22 16 1 exec_store_const_ref, mksimple 0xcf23 16 exec_builder_to_special_cell,
      mkfixed 0x33ca 14 2 exec_store_le_int,
      mksimple 0xcf30 16 (exec_int_builder_func bl_get_depth), mksimple 0xcf31 16 (exec_int_builder_func bl_size),
      mksimple 0xcf32 16 (exec_int_builder_func bl_size_refs),
      mksimple 0xcf33 16 (exec_2int_builder_func (\<lambda>b. (bl_size b, bl_size_refs b))),
      mksimple 0xcf35 16 (exec_int_builder_func remaining_bits), mksimple 0xcf36 16 (exec_int_builder_func remaining_refs),
      mksimple 0xcf37 16 (exec_2int_builder_func (\<lambda>b. (remaining_bits b, remaining_refs b))),
      mkfixed 0xcf38 16 8 (\<lambda>args. exec_builder_chk_bits args False), mksimple 0xcf39 16 (exec_builder_chk_bits_refs 1),
      mksimple 0xcf3a 16 (exec_builder_chk_bits_refs 2), mksimple 0xcf3b 16 (exec_builder_chk_bits_refs 3),
      mkfixed 0xcf3c 16 8 (\<lambda>args. exec_builder_chk_bits args True), mksimple 0xcf3d 16 (exec_builder_chk_bits_refs 5),
      mksimple 0xcf3e 16 (exec_builder_chk_bits_refs 6), mksimple 0xcf3f 16 (exec_builder_chk_bits_refs 7),
      mksimple 0xcf40 16 (exec_store_same 0), mksimple 0xcf41 16 (exec_store_same 1), mksimple 0xcf42 16 (exec_store_same (- 1)),
      mkext 0x19f 9 5 exec_store_const_slice]"

section \<open>Slices\<close>

definition exec_cell_to_slice :: "int vm" where
  "exec_cell_to_slice = vbind pop_cell (\<lambda>c. vbind (load_cell_slice_ref c) (\<lambda>cs. vdo [push_cellslice cs]))"

text \<open>Loading of any cell, special or not; library cells are not resolved.\<close>

definition load_cell_slice_ref_special :: "cell \<Rightarrow> (slice \<times> bool) vm" where
  "load_cell_slice_ref_special c =
     vbind (vget (\<lambda>s. get_hash (sha256 s) c max_level)) (\<lambda>h.
       vthen (register_cell_load h) (vret (cell_slice c, cell_special c)))"

definition exec_cell_to_slice_maybe_special :: "int vm" where
  "exec_cell_to_slice_maybe_special =
     vbind pop_cell (\<lambda>c. vbind (load_cell_slice_ref_special c) (\<lambda>(cs, is_special).
       vdo [push_cellslice cs, push_bool is_special]))"

definition exec_load_special_cell :: "bool \<Rightarrow> int vm" where
  "exec_load_special_cell quiet =
     vbind pop_cell (\<lambda>c. if quiet then vdo [push_cell c, push_bool True] else vdo [push_cell c])"

definition exec_slice_chk_empty :: "int vm" where
  "exec_slice_chk_empty =
     vbind pop_cellslice (\<lambda>cs. if sl_size cs \<noteq> 0 \<or> sl_size_refs cs \<noteq> 0 then vthrow cell_und else vret 0)"

definition exec_load_int_common :: "nat \<Rightarrow> nat \<Rightarrow> int vm" where
  "exec_load_int_common n md =
     vbind pop_cellslice (\<lambda>cs.
       if \<not> have_bits n cs then
         (if \<not> bit md 2 then vthrow cell_und
          else if \<not> bit md 1 then vdo [push_cellslice cs, push_smallint 0] else vdo [push_smallint 0])
       else
         vthen
           (if bit md 1 then
              (case prefetch_int256 n (\<not> bit md 0) cs of None \<Rightarrow> vundef | Some v \<Rightarrow> push_int (Some v))
            else
              (case fetch_int256 n (\<not> bit md 0) cs of None \<Rightarrow> vundef
               | Some (v, cs') \<Rightarrow> vthen (push_int (Some v)) (push_cellslice cs')))
           (if bit md 2 then vdo [push_smallint (- 1)] else vret 0))"

definition exec_load_int_fixed :: "nat \<Rightarrow> nat \<Rightarrow> int vm" where
  "exec_load_int_fixed args md = exec_load_int_common (args mod 256 + 1) md"

definition exec_preload_ref_fixed :: "nat \<Rightarrow> int vm" where
  "exec_preload_ref_fixed args =
     vbind pop_cellslice (\<lambda>cs. case prefetch_ref (args mod 4) cs of None \<Rightarrow> vthrow cell_und | Some c \<Rightarrow> vdo [push_cell c])"

definition exec_preload_ref :: "int vm" where
  "exec_preload_ref =
     vthen (check_underflow 2) (vbind (pop_smallint_range 3 0) (\<lambda>idx. vbind pop_cellslice (\<lambda>cs.
       case prefetch_ref (nat idx) cs of None \<Rightarrow> vthrow cell_und | Some c \<Rightarrow> vdo [push_cell c])))"

definition exec_load_ref :: "nat \<Rightarrow> int vm" where
  "exec_load_ref md =
     vbind pop_cellslice (\<lambda>cs.
       if \<not> have_refs 1 cs then (if \<not> bit md 2 then vthrow cell_und else vdo [push_smallint 0])
       else
         vthen
           (if bit md 1 then (case prefetch_ref 0 cs of None \<Rightarrow> vundef | Some c \<Rightarrow> push_cell c)
            else (case fetch_ref cs of None \<Rightarrow> vundef | Some (c, cs') \<Rightarrow> vthen (push_cell c) (push_cellslice cs')))
           (if bit md 2 then vdo [push_smallint (- 1)] else vret 0))"

definition exec_load_ref_rev_to_slice :: "nat \<Rightarrow> int vm" where
  "exec_load_ref_rev_to_slice md =
     vbind pop_cellslice (\<lambda>cs.
       if \<not> have_refs 1 cs then (if \<not> bit md 2 then vthrow cell_und else vdo [push_smallint 0])
       else
         vthen
           (if bit md 1 then
              (case prefetch_ref 0 cs of None \<Rightarrow> vundef | Some c \<Rightarrow> vbind (load_cell_slice_ref c) push_cellslice)
            else
              (case fetch_ref cs of None \<Rightarrow> vundef
               | Some (c, cs') \<Rightarrow> vthen (push_cellslice cs') (vbind (load_cell_slice_ref c) push_cellslice)))
           (if bit md 2 then vdo [push_smallint (- 1)] else vret 0))"

definition exec_load_slice_common :: "nat \<Rightarrow> nat \<Rightarrow> int vm" where
  "exec_load_slice_common n md =
     vbind pop_cellslice (\<lambda>cs.
       if \<not> have_bits n cs then
         (if \<not> bit md 1 then vthrow cell_und
          else if \<not> bit md 0 then vdo [push_cellslice cs, push_smallint 0] else vdo [push_smallint 0])
       else
         vthen
           (if bit md 0 then (case prefetch_subslice n 0 cs of None \<Rightarrow> vundef | Some x \<Rightarrow> push_cellslice x)
            else (case fetch_subslice n 0 cs of None \<Rightarrow> vundef | Some (x, cs') \<Rightarrow> vthen (push_cellslice x) (push_cellslice cs')))
           (if bit md 1 then vdo [push_smallint (- 1)] else vret 0))"

definition exec_load_slice_fixed :: "nat \<Rightarrow> int vm" where
  "exec_load_slice_fixed args = exec_load_slice_common (args mod 256 + 1) 0"

definition exec_load_int_var :: "nat \<Rightarrow> int vm" where
  "exec_load_int_var args =
     vthen (check_underflow 2)
       (vbind (pop_smallint_range (257 - (if bit args 0 then 1 else 0)) 0) (\<lambda>n. exec_load_int_common (nat n) (args mod 8)))"

definition exec_load_int_fixed2 :: "nat \<Rightarrow> int vm" where
  "exec_load_int_fixed2 args = exec_load_int_common (args mod 256 + 1) (args div 256 mod 8)"

definition exec_preload_uint_fixed_0e :: "nat \<Rightarrow> int vm" where
  "exec_preload_uint_fixed_0e args =
     vbind pop_cellslice (\<lambda>cs.
       case prefetch_uint256_zeroext ((args mod 8 + 1) * 32) cs of
         None \<Rightarrow> vundef
       | Some x \<Rightarrow> vdo [push_cellslice cs, push_int x])"

definition exec_load_slice :: "nat \<Rightarrow> int vm" where
  "exec_load_slice args =
     vthen (check_underflow 2) (vbind (pop_smallint_range 1023 0) (\<lambda>n. exec_load_slice_common (nat n) args))"

definition exec_load_slice_fixed2 :: "nat \<Rightarrow> int vm" where
  "exec_load_slice_fixed2 args = exec_load_slice_common (args mod 256 + 1) (args div 256)"

definition exec_slice_op_args :: "int \<Rightarrow> (nat \<Rightarrow> slice \<Rightarrow> slice option) \<Rightarrow> int vm" where
  "exec_slice_op_args max_arg1 func =
     vthen (check_underflow 2) (vbind (pop_smallint_range max_arg1 0) (\<lambda>x. vbind pop_cellslice (\<lambda>cs.
       case func (nat x) cs of None \<Rightarrow> vthrow cell_und | Some cs' \<Rightarrow> vdo [push_cellslice cs'])))"

definition exec_slice_op_args2 :: "int \<Rightarrow> int \<Rightarrow> (nat \<Rightarrow> nat \<Rightarrow> slice \<Rightarrow> slice option) \<Rightarrow> int vm" where
  "exec_slice_op_args2 max_arg1 max_arg2 func =
     vthen (check_underflow 3) (vbind (pop_smallint_range max_arg2 0) (\<lambda>y. vbind (pop_smallint_range max_arg1 0) (\<lambda>x.
       vbind pop_cellslice (\<lambda>cs.
         case func (nat x) (nat y) cs of None \<Rightarrow> vthrow cell_und | Some cs' \<Rightarrow> vdo [push_cellslice cs']))))"

definition exec_slice_begins_with_common :: "slice \<Rightarrow> bool \<Rightarrow> int vm" where
  "exec_slice_begins_with_common cs2 quiet =
     vbind pop_cellslice (\<lambda>cs.
       if \<not> has_prefix cs cs2 then (if \<not> quiet then vthrow cell_und else vdo [push_cellslice cs, push_smallint 0])
       else
         (case advance (sl_size cs2) cs of None \<Rightarrow> vundef
          | Some cs' \<Rightarrow> if quiet then vdo [push_cellslice cs', push_smallint (- 1)] else vdo [push_cellslice cs']))"

definition exec_slice_begins_with :: "bool \<Rightarrow> int vm" where
  "exec_slice_begins_with quiet =
     vthen (check_underflow 2) (vbind pop_cellslice (\<lambda>cs2. exec_slice_begins_with_common cs2 quiet))"

definition exec_slice_begins_with_const :: "nat \<Rightarrow> nat \<Rightarrow> int vm" where
  "exec_slice_begins_with_const args pfx_bits =
     with_const_slice (args mod 128 * 8 + 3) 0 pfx_bits (\<lambda>cs.
       exec_slice_begins_with_common (remove_trailing cs) (bit args 7))"

definition compute_len_slice_begins_with_const :: "slice \<Rightarrow> nat \<Rightarrow> nat \<Rightarrow> nat" where
  "compute_len_slice_begins_with_const cs args pfx_bits =
     compute_len_push_slice_common cs (args mod 128 * 8 + 3) 0 pfx_bits"

definition exec_subslice :: "int vm" where
  "exec_subslice =
     vthen (check_underflow 5) (vbind (pop_smallint_range 4 0) (\<lambda>r2. vbind (pop_smallint_range 1023 0) (\<lambda>l2.
       vbind (pop_smallint_range 4 0) (\<lambda>r1. vbind (pop_smallint_range 1023 0) (\<lambda>l1. vbind pop_cellslice (\<lambda>cs.
         case skip_first (nat l1) (nat r1) cs of
           None \<Rightarrow> vthrow cell_und
         | Some cs1 \<Rightarrow> (case only_first (nat l2) (nat r2) cs1 of None \<Rightarrow> vthrow cell_und | Some cs2 \<Rightarrow> vdo [push_cellslice cs2])))))))"

text \<open>\<open>SPLIT\<close>: the two parts are made by \<open>only_first\<close> and \<open>skip_first\<close>, whose results cannot fail after the check.\<close>

definition exec_split :: "bool \<Rightarrow> int vm" where
  "exec_split quiet =
     vthen (check_underflow 3) (vbind (pop_smallint_range 4 0) (\<lambda>refs. vbind (pop_smallint_range 1023 0) (\<lambda>n.
       vbind pop_cellslice (\<lambda>cs.
         if \<not> have_bits (nat n) cs \<or> \<not> have_refs (nat refs) cs then
           (if \<not> quiet then vthrow cell_und else vdo [push_cellslice cs, push_smallint 0])
         else
           (case only_first (nat n) (nat refs) cs of None \<Rightarrow> vundef
            | Some cs2 \<Rightarrow>
                (case skip_first (nat n) (nat refs) cs of None \<Rightarrow> vundef
                 | Some cs1 \<Rightarrow>
                     if quiet then vdo [push_cellslice cs2, push_cellslice cs1, push_smallint (- 1)]
                     else vdo [push_cellslice cs2, push_cellslice cs1]))))))"

definition exec_slice_chk_op_args :: "int \<Rightarrow> bool \<Rightarrow> (nat \<Rightarrow> slice \<Rightarrow> bool) \<Rightarrow> int vm" where
  "exec_slice_chk_op_args max_arg1 quiet func =
     vthen (check_underflow 2) (vbind (pop_smallint_range max_arg1 0) (\<lambda>x. vbind pop_cellslice (\<lambda>cs.
       if quiet then vdo [push_smallint (if func (nat x) cs then - 1 else 0)]
       else if \<not> func (nat x) cs then vthrow cell_und else vret 0)))"

definition exec_slice_chk_op_args2 :: "int \<Rightarrow> int \<Rightarrow> bool \<Rightarrow> (nat \<Rightarrow> nat \<Rightarrow> slice \<Rightarrow> bool) \<Rightarrow> int vm" where
  "exec_slice_chk_op_args2 max_arg1 max_arg2 quiet func =
     vthen (check_underflow 3) (vbind (pop_smallint_range max_arg2 0) (\<lambda>y. vbind (pop_smallint_range max_arg1 0) (\<lambda>x.
       vbind pop_cellslice (\<lambda>cs.
         if quiet then vdo [push_smallint (if func (nat x) (nat y) cs then - 1 else 0)]
         else if \<not> func (nat x) (nat y) cs then vthrow cell_und else vret 0))))"

definition exec_slice_bits_refs :: "nat \<Rightarrow> int vm" where
  "exec_slice_bits_refs md =
     vthen (check_underflow 1) (vbind pop_cellslice (\<lambda>cs.
       vthen (if bit md 0 then push_smallint (int (sl_size cs)) else vret ())
         (vthen (if bit md 1 then push_smallint (int (sl_size_refs cs)) else vret ()) (vret 0))))"

definition import_bytes_lsb :: "bits \<Rightarrow> bool \<Rightarrow> int" where
  "import_bytes_lsb bs sgnd = (if sgnd then bits_int (byte_rev bs) else int (bits_nat (byte_rev bs)))"

definition exec_load_le_int :: "nat \<Rightarrow> int vm" where
  "exec_load_le_int args =
     (let len = (if bit args 1 then 8 else 4)
      in vthen (check_underflow 1) (vbind pop_cellslice (\<lambda>cs.
           if \<not> have_bits (len * 8) cs then
             (if bit args 3 then
                (if \<not> bit args 2 then vdo [push_cellslice cs, push_smallint 0] else vdo [push_smallint 0])
              else vthrow cell_und)
           else
             (case prefetch_bytes len cs of None \<Rightarrow> vundef
              | Some bs \<Rightarrow>
                  vthen (push_int (Some (import_bytes_lsb bs (\<not> bit args 0))))
                    (vthen
                       (if \<not> bit args 2 then
                          (case advance (len * 8) cs of None \<Rightarrow> vundef | Some cs' \<Rightarrow> push_cellslice cs')
                        else vret ())
                       (if bit args 3 then vdo [push_smallint (- 1)] else vret 0))))))"

definition exec_load_same :: "int \<Rightarrow> int vm" where
  "exec_load_same x =
     vthen (check_underflow (1 + (if x < 0 then 1 else 0)))
       (vbind (if x < 0 then pop_smallint_range 1 0 else vret x) (\<lambda>v. vbind pop_cellslice (\<lambda>cs.
          case (if count_leading (v \<noteq> 0) cs > 0 then advance (count_leading (v \<noteq> 0) cs) cs else Some cs) of
            None \<Rightarrow> vundef
          | Some cs' \<Rightarrow> vdo [push_smallint (int (count_leading (v \<noteq> 0) cs)), push_cellslice cs'])))"

definition exec_cell_depth :: "int vm" where
  "exec_cell_depth =
     vbind pop_maybe_cell (\<lambda>c. vdo [push_smallint (case c of None \<Rightarrow> 0 | Some x \<Rightarrow> int (get_depth x max_level))])"

definition exec_slice_depth :: "int vm" where
  "exec_slice_depth = vbind pop_cellslice (\<lambda>cs. vdo [push_smallint (int (sl_get_depth cs))])"

text \<open>The substring of \<open>SDSUBSTR\<close>.\<close>

definition sd_substr :: "nat \<Rightarrow> nat \<Rightarrow> slice \<Rightarrow> slice option" where
  "sd_substr offs n cs = (case skip_first offs 0 cs of None \<Rightarrow> None | Some cs' \<Rightarrow> only_first n 0 cs')"

definition register_cell_deserialize_ops :: "opcode_instr list" where
  "register_cell_deserialize_ops =
     [mksimple 0xd0 8 exec_cell_to_slice, mksimple 0xd1 8 exec_slice_chk_empty,
      mkfixed 0xd2 8 8 (\<lambda>args. exec_load_int_fixed args 0), mkfixed 0xd3 8 8 (\<lambda>args. exec_load_int_fixed args 1),
      mksimple 0xd4 8 (exec_load_ref 0), mksimple 0xd5 8 (exec_load_ref_rev_to_slice 0), mkfixed 0xd6 8 8 exec_load_slice_fixed,
      mkfixed 0x1ae0 13 3 exec_load_int_var, mkfixed 0x1ae1 13 11 exec_load_int_fixed2,
      mkfixed 0x1ae2 13 3 exec_preload_uint_fixed_0e, mkfixed 0x35c6 14 2 exec_load_slice,
      mkfixed 0x35c7 14 10 exec_load_slice_fixed2,
      mksimple 0xd720 16 (exec_slice_op_args 1023 (\<lambda>n. only_first n 0)),
      mksimple 0xd721 16 (exec_slice_op_args 1023 (\<lambda>n. skip_first n 0)),
      mksimple 0xd722 16 (exec_slice_op_args 1023 (\<lambda>n. only_last n 0)),
      mksimple 0xd723 16 (exec_slice_op_args 1023 (\<lambda>n. skip_last n 0)),
      mksimple 0xd724 16 (exec_slice_op_args2 1023 1023 sd_substr),
      mksimple 0xd726 16 (exec_slice_begins_with False), mksimple 0xd727 16 (exec_slice_begins_with True),
      mkext 0x1ae5 13 8 exec_slice_begins_with_const,
      mksimple 0xd730 16 (exec_slice_op_args2 1023 4 only_first), mksimple 0xd731 16 (exec_slice_op_args2 1023 4 skip_first),
      mksimple 0xd732 16 (exec_slice_op_args2 1023 4 only_last), mksimple 0xd733 16 (exec_slice_op_args2 1023 4 skip_last),
      mksimple 0xd734 16 exec_subslice, mksimple 0xd736 16 (exec_split False), mksimple 0xd737 16 (exec_split True),
      mksimple 0xd739 16 exec_cell_to_slice_maybe_special, mksimple 0xd73a 16 (exec_load_special_cell False),
      mksimple 0xd73b 16 (exec_load_special_cell True),
      mksimple 0xd741 16 (exec_slice_chk_op_args 1023 False have_bits), mksimple 0xd742 16 (exec_slice_chk_op_args 1023 False have_refs),
      mksimple 0xd743 16 (exec_slice_chk_op_args2 1023 4 False (\<lambda>n r cs. have_bits n cs \<and> have_refs r cs)),
      mksimple 0xd745 16 (exec_slice_chk_op_args 1023 True have_bits), mksimple 0xd746 16 (exec_slice_chk_op_args 1023 True have_refs),
      mksimple 0xd747 16 (exec_slice_chk_op_args2 1023 4 True (\<lambda>n r cs. have_bits n cs \<and> have_refs r cs)),
      mksimple 0xd748 16 exec_preload_ref, mksimple 0xd749 16 (exec_slice_bits_refs 1), mksimple 0xd74a 16 (exec_slice_bits_refs 2),
      mksimple 0xd74b 16 (exec_slice_bits_refs 3), mkfixed 0x35d3 14 2 exec_preload_ref_fixed, mkfixed 0xd75 12 4 exec_load_le_int,
      mksimple 0xd760 16 (exec_load_same 0), mksimple 0xd761 16 (exec_load_same 1), mksimple 0xd762 16 (exec_load_same (- 1)),
      mksimple 0xd764 16 exec_slice_depth, mksimple 0xd765 16 exec_cell_depth]"

definition register_cell_ops :: "opcode_instr list" where
  "register_cell_ops =
     register_cell_const_ops @ register_cell_cmp_ops @ register_cell_serialize_ops @ register_cell_deserialize_ops"

section \<open>Safety\<close>

lemma wp_case_prod [wp_rules]: "(\<And>a b. p = (a, b) \<Longrightarrow> wp (f a b) Q R s) \<Longrightarrow> wp (case p of (a, b) \<Rightarrow> f a b) Q R s"
  by (cases p) simp

lemma wp_case_sum [wp_rules]:
  "(\<And>a. x = Inl a \<Longrightarrow> wp (f a) Q R s) \<Longrightarrow> (\<And>b. x = Inr b \<Longrightarrow> wp (g b) Q R s) \<Longrightarrow>
     wp (case x of Inl a \<Rightarrow> f a | Inr b \<Rightarrow> g b) Q R s"
  by (cases x) simp_all

lemma int257_consts [simp]: "int257 0" "int257 1" "int257 (- 1)"
  by (simp_all add: int257_def)

lemma int257_nat: "n \<le> 65536 \<Longrightarrow> int257 (int n)"
  unfolding int257_def by simp

lemma refs_depth_small: "int257 (int (refs_depth rs))"
proof -
  have "refs_depth rs < 2 ^ 16" unfolding refs_depth_def by (rule mod_less_divisor) simp
  then show ?thesis by (intro int257_nat) simp
qed

lemma slice_sizes:
  assumes "slice_ok cs"
  shows "sl_size cs \<le> 1023" "sl_size_refs cs \<le> 4" "int257 (int (sl_size cs))" "int257 (int (sl_size_refs cs))"
  using assms by (simp_all add: slice_ok_def sl_size_def sl_size_refs_def max_bits_def max_refs_def int257_nat)

lemma builder_sizes:
  assumes "builder_ok b"
  shows "int257 (int (bl_size b))" "int257 (int (bl_size_refs b))" "int257 (int (remaining_bits b))"
    "int257 (int (remaining_refs b))" "int257 (int (bl_get_depth b))"
  using assms unfolding builder_ok_def bl_size_def bl_size_refs_def remaining_bits_def remaining_refs_def max_bits_def
    max_refs_def bl_get_depth_def
  by - (rule int257_nat refs_depth_small, simp?)+

lemma wp_finalize_copy [wp_rules]:
  assumes "vm_inv s0 s" "builder_ok b" "\<And>c g. cell_ok c \<Longrightarrow> gas_ok (gas s) g \<Longrightarrow> Q c (s\<lparr>gas := g\<rparr>)"
  shows "wp (finalize_copy special b) Q (vm_inv s0) s"
  unfolding finalize_copy_def cell_create_gas_price_def
  by (intro wp_vthen wp_consume_gas wp_vbind wp_vget wp_case_sum wp_vthrow wp_vret assms(3))
    (use assms in \<open>auto simp: builder_ok_def dest: data_cell_create_ok\<close>)

lemma wp_push_stored [wp_rules]:
  assumes "vm_inv s0 s" "has_code s" "\<And>b. r = Some b \<Longrightarrow> builder_ok b"
  shows "wp (push_stored quiet r) (post_ok s0) (vm_inv s0) s"
  unfolding push_stored_def push_defs
  by (intro wp_rules) (use assms in \<open>auto simp: int257_def\<close>)

lemma wp_check_space [wp_rules]:
  assumes "can_extend_by n r b \<Longrightarrow> Q () s" "R s"
  shows "wp (check_space b n r) Q R s"
  unfolding check_space_def by (intro wp_rules) (use assms in auto)

lemma wp_code_fetch_subslice:
  assumes "code s = Some cs" "slice_ok cs" "n \<le> length (sl_bits cs)" "r \<le> length (sl_refs cs)"
    "\<And>sl cs'. slice_ok sl \<Longrightarrow> slice_ok cs' \<Longrightarrow> Q sl (s\<lparr>code := Some cs'\<rparr>)"
  shows "wp (code_fetch_subslice n r) Q R s"
proof -
  have "fetch_subslice n r cs = Some (first_part n r cs, drop_refs r (drop_bits n cs))"
    using assms(3,4) by (simp add: fetch_subslice_def have_both_def sl_size_def sl_size_refs_def)
  then show ?thesis using assms(1,2,5) by (simp add: wp_def code_fetch_subslice_def)
qed

text \<open>An instruction with a constant slice gets a well-formed slice, and leaves well-formed code.\<close>

lemma wp_with_const_slice:
  assumes "vm_inv s0 s" "has_code s"
    "\<And>sl cs'. slice_ok sl \<Longrightarrow> slice_ok cs' \<Longrightarrow> wp (f sl) Q (vm_inv s0) (s\<lparr>code := Some cs'\<rparr>)"
  shows "wp (with_const_slice n r pfx f) Q (vm_inv s0) s"
proof -
  obtain cs where cs: "code s = Some cs" "slice_ok cs" using has_code_Some [OF assms(2)] by blast
  have go: "wp (vthen (code_advance pfx) (vbind (code_fetch_subslice n r) f)) Q (vm_inv s0) s"
    if "pfx + n \<le> length (sl_bits cs)" "r \<le> length (sl_refs cs)"
  proof (rule wp_vthen)
    have "slice_ok (drop_bits pfx cs)" using cs(2) by simp
    then have "wp (vbind (code_fetch_subslice n r) f) Q (vm_inv s0) (s\<lparr>code := Some (drop_bits pfx cs)\<rparr>)"
      by (intro wp_vbind wp_code_fetch_subslice [where cs = "drop_bits pfx cs"]) (use that assms(3) in \<open>auto simp: drop_bits_def\<close>)
    then show "wp (code_advance pfx) (\<lambda>_. wp (vbind (code_fetch_subslice n r) f) Q (vm_inv s0)) (vm_inv s0) s"
      using cs that by (simp add: wp_def code_advance_def vmod_def drop_bits_def)
  qed
  show ?thesis
    unfolding with_const_slice_def
    by (intro wp_vbind [of "vget g" for g] wp_vget wp_if wp_vthrow go)
      (use assms(1) cs in \<open>auto simp: code_bits_def code_refs_def\<close>)
qed

lemma vm_safe_const_slice:
  assumes "\<And>sl s0 s. slice_ok sl \<Longrightarrow> vm_inv s0 s \<Longrightarrow> has_code s \<Longrightarrow> wp (f sl) (post_ok s0) (vm_inv s0) s"
  shows "vm_safe (with_const_slice n r pfx f)"
  by (rule vm_safeI, rule wp_with_const_slice) (use assms in auto)

lemma const_ops_safe:
  "vm_safe (exec_push_slice args pfx)" "vm_safe (exec_push_slice_r args pfx)" "vm_safe (exec_push_slice_r2 args pfx)"
  "vm_safe (exec_push_cont args pfx)" "vm_safe (exec_push_cont_simple args pfx)" "vm_safe (exec_store_const_slice args pfx)"
  unfolding exec_push_slice_def exec_push_slice_r_def exec_push_slice_r2_def exec_push_slice_common_def
    exec_push_cont_def exec_push_cont_simple_def exec_store_const_slice_def push_defs
  by (rule vm_safe_const_slice; intro wp_rules; auto dest: builder_ok_add_slice)+

lemma exec_push_ref_safe: "vm_safe (exec_push_ref md pfx)"
  unfolding exec_push_ref_def push_defs
  by (intro vm_safeI wp_vbind [of "vget code_refs"] wp_vget wp_if wp_vthrow wp_advance_fetch; (intro wp_rules)?; auto)

lemma cs_cmp_safe:
  "vm_safe (exec_un_cs_cmp p)" "vm_safe (exec_bin_cs_cmp p2)"
  "(\<And>cs. slice_ok cs \<Longrightarrow> int257 (f cs)) \<Longrightarrow> vm_safe (exec_iun_cs_cmp f)"
  "(\<And>cs cs2. int257 (f2 cs cs2)) \<Longrightarrow> vm_safe (exec_ibin_cs_cmp f2)"
  unfolding exec_un_cs_cmp_def exec_bin_cs_cmp_def exec_iun_cs_cmp_def exec_ibin_cs_cmp_def push_defs
  by (rule vm_safeI; intro wp_rules; auto)+

lemma builder_basic_safe:
  "vm_safe exec_new_builder" "vm_safe exec_builder_to_cell" "vm_safe exec_builder_to_special_cell"
  "vm_safe (exec_builder_chk_bits args quiet)" "vm_safe (exec_builder_chk_bits_refs md)"
  unfolding exec_new_builder_def exec_builder_to_cell_def exec_builder_to_special_cell_def exec_builder_chk_bits_def
    exec_builder_chk_bits_refs_def push_defs
  by (rule vm_safeI; intro wp_rules; auto)+

lemma store_ops_safe:
  "vm_safe (exec_store_ref q)" "vm_safe (exec_store_ref_rev q)" "vm_safe (exec_store_builder_as_ref q)"
  "vm_safe (exec_store_builder_as_ref_rev q)" "vm_safe (exec_store_slice q)" "vm_safe (exec_store_slice_rev q)"
  "vm_safe (exec_store_builder q)" "vm_safe (exec_store_builder_rev q)"
  unfolding exec_store_ref_def exec_store_ref_rev_def exec_store_builder_as_ref_def exec_store_builder_as_ref_rev_def
    exec_store_slice_def exec_store_slice_rev_def exec_store_builder_def exec_store_builder_rev_def push_defs
  by (rule vm_safeI; intro wp_rules; auto dest: builder_ok_store builder_ok_append builder_ok_add_slice)+

lemma wp_store_int_args [wp_rules]:
  assumes "2 \<le> depth s" "R = vm_inv s0" "vm_inv s0 s"
    "\<And>b x xs. builder_ok b \<Longrightarrow> bigint_ok x \<Longrightarrow> stack_ok xs \<Longrightarrow> Q (b, x) (s\<lparr>stk := xs\<rparr>)"
  shows "wp (store_int_args args) Q R s"
  unfolding store_int_args_def assms(2) by (intro wp_rules) (use assms in auto)

lemma wp_exec_store_int_common:
  assumes "2 \<le> depth s" "vm_inv s0 s" "has_code s"
  shows "wp (exec_store_int_common n args) (post_ok s0) (vm_inv s0) s"
  unfolding exec_store_int_common_def store_int_common_fail_def push_defs
  by (intro wp_rules) (use assms in \<open>auto dest: builder_ok_store\<close>)

lemma store_int_safe:
  "vm_safe (exec_store_int args sgnd)" "vm_safe (exec_store_int_fixed args)" "vm_safe (exec_store_int_var args)"
  unfolding exec_store_int_def exec_store_int_fixed_def exec_store_int_var_def
  by (rule vm_safeI; intro wp_rules; auto simp: depth_def intro!: wp_exec_store_int_common)+

lemma builder_func_safe:
  "(\<And>b. builder_ok b \<Longrightarrow> int257 (int (f b))) \<Longrightarrow> vm_safe (exec_int_builder_func f)"
  "(\<And>b. builder_ok b \<Longrightarrow> int257 (int (fst (g b))) \<and> int257 (int (snd (g b)))) \<Longrightarrow> vm_safe (exec_2int_builder_func g)"
  unfolding exec_int_builder_func_def exec_2int_builder_func_def push_defs
  by (rule vm_safeI; intro wp_rules; auto)+

lemma builder_ok_same: "builder_ok b \<Longrightarrow> can_extend_by n 0 b \<Longrightarrow> builder_ok (store_bits_same n v b)"
  by (auto simp: builder_ok_def store_bits_same_def builder_defs)

lemma exec_store_same_safe: "vm_safe (exec_store_same v)"
  unfolding exec_store_same_def push_defs
  by (rule vm_safeI; intro wp_rules; auto intro: builder_ok_same)

lemmas slice_ok_dest = slice_ok_ops slice_ok_ref

lemma wp_vundef: "False \<Longrightarrow> wp vundef Q R s"
  by simp

text \<open>After the checks of the handlers the reading functions have a result.\<close>

lemma slice_defined [simp]:
  "prefetch_int256 n sgnd cs = None \<longleftrightarrow> \<not> have_bits n cs" "fetch_int256 n sgnd cs = None \<longleftrightarrow> \<not> have_bits n cs"
  "prefetch_ref 0 cs = None \<longleftrightarrow> \<not> have_refs 1 cs" "fetch_ref cs = None \<longleftrightarrow> \<not> have_refs 1 cs"
  "prefetch_subslice n r cs = None \<longleftrightarrow> \<not> have_both n r cs" "fetch_subslice n r cs = None \<longleftrightarrow> \<not> have_both n r cs"
  "only_first n r cs = None \<longleftrightarrow> \<not> have_both n r cs" "skip_first n r cs = None \<longleftrightarrow> \<not> have_both n r cs"
  "advance n cs = None \<longleftrightarrow> \<not> have_bits n cs" "prefetch_bytes n cs = None \<longleftrightarrow> \<not> have_bits (8 * n) cs"
  by (auto simp: prefetch_int256_def fetch_int256_def prefetch_bytes_def prefetch_bits_def slice_defs Suc_le_eq)

lemma have_both_iff: "have_both n r cs \<longleftrightarrow> have_bits n cs \<and> have_refs r cs" "have_refs 0 cs"
  by (simp_all add: slice_defs)

lemma vm_inv_reload:
  "vm_inv s0 (s\<lparr>stk := xs, loaded_cells := l, gas := g\<rparr>) \<Longrightarrow> stack_ok ys \<Longrightarrow> vm_inv s0 (s\<lparr>loaded_cells := l, gas := g, stk := ys\<rparr>)"
  by (drule (1) vm_inv_stk) simp

declare wp_register_cell_load [wp_rules]

lemma slice_load_safe:
  "vm_safe exec_cell_to_slice" "vm_safe exec_cell_to_slice_maybe_special" "vm_safe (exec_load_special_cell q)"
  unfolding exec_cell_to_slice_def exec_cell_to_slice_maybe_special_def load_cell_slice_ref_special_def
    exec_load_special_cell_def push_defs
  subgoal by (rule vm_safeI; intro wp_rules; auto elim!: vm_inv_reload)
  subgoal by (rule vm_safeI; intro wp_rules; auto elim!: vm_inv_reload)
  subgoal by (rule vm_safeI; intro wp_rules; auto)
  done

lemma slice_simple_safe:
  "vm_safe exec_slice_chk_empty" "vm_safe (exec_preload_ref_fixed args)" "vm_safe exec_preload_ref"
  unfolding exec_slice_chk_empty_def exec_preload_ref_fixed_def exec_preload_ref_def push_defs
  by (rule vm_safeI; intro wp_rules; auto dest: slice_ok_dest)+

lemma slice_arg_safe:
  "(\<And>n cs cs'. slice_ok cs \<Longrightarrow> f n cs = Some cs' \<Longrightarrow> slice_ok cs') \<Longrightarrow> vm_safe (exec_slice_op_args m f)"
  "(\<And>n r cs cs'. slice_ok cs \<Longrightarrow> f2 n r cs = Some cs' \<Longrightarrow> slice_ok cs') \<Longrightarrow> vm_safe (exec_slice_op_args2 m m2 f2)"
  "vm_safe (exec_slice_chk_op_args m q p)" "vm_safe (exec_slice_chk_op_args2 m m2 q p2)"
  unfolding exec_slice_op_args_def exec_slice_op_args2_def exec_slice_chk_op_args_def exec_slice_chk_op_args2_def push_defs
  by (rule vm_safeI; intro wp_rules; auto)+

lemma slice_more_safe:
  "vm_safe exec_subslice" "vm_safe (exec_split q)" "vm_safe (exec_slice_bits_refs md)"
  unfolding exec_subslice_def exec_split_def exec_slice_bits_refs_def push_defs
  by (rule vm_safeI; intro wp_rules wp_vundef; auto simp: slice_sizes have_both_iff dest: slice_ok_dest)+

lemma fetch_int256_ok: "fetch_int256 n sgnd cs = Some (v, cs') \<Longrightarrow> slice_ok cs \<Longrightarrow> slice_ok cs'"
  by (auto simp: fetch_int256_def split: if_splits)

lemma load_int_safe: "vm_safe (exec_load_int_common n md)"
  unfolding exec_load_int_common_def push_smallint_def push_cellslice_def
  by (rule vm_safeI; intro wp_rules wp_vundef; auto dest: fetch_int256_ok)

lemma load_int_var_safe: "vm_safe (exec_load_int_var args)"
  unfolding exec_load_int_var_def
  by (rule vm_safeI; intro wp_rules; auto intro: vm_safeD [OF load_int_safe])

lemma load_slice_safe: "vm_safe (exec_load_slice_common n md)"
  unfolding exec_load_slice_common_def push_defs
  by (rule vm_safeI; intro wp_rules wp_vundef; auto simp: have_both_iff dest: slice_ok_dest)

lemma load_slice_var_safe: "vm_safe (exec_load_slice args)"
  unfolding exec_load_slice_def
  by (rule vm_safeI; intro wp_rules; auto intro: vm_safeD [OF load_slice_safe])

lemma load_ref_safe: "vm_safe (exec_load_ref md)"
  unfolding exec_load_ref_def push_defs
  by (rule vm_safeI; intro wp_rules wp_vundef; auto dest: slice_ok_dest)

lemma load_ref_rev_safe: "vm_safe (exec_load_ref_rev_to_slice md)"
  unfolding exec_load_ref_rev_to_slice_def push_defs
  by (rule vm_safeI; intro wp_rules wp_vundef; auto dest: slice_ok_dest elim!: vm_inv_reload)

lemma begins_with_common_safe: "slice_ok cs \<Longrightarrow> vm_safe (exec_slice_begins_with_common cs q)"
  unfolding exec_slice_begins_with_common_def push_defs
  by (rule vm_safeI; intro wp_rules wp_vundef; auto simp: has_prefix_def have_bits_def dest: slice_ok_dest)

lemma begins_with_safe: "vm_safe (exec_slice_begins_with q)" "vm_safe (exec_slice_begins_with_const args pfx)"
  unfolding exec_slice_begins_with_def exec_slice_begins_with_const_def
  by (rule vm_safeI vm_safe_const_slice; (intro wp_rules)?; auto intro: vm_safeD [OF begins_with_common_safe])+

lemma load_le_int_safe: "vm_safe (exec_load_le_int args)"
  unfolding exec_load_le_int_def push_smallint_def push_cellslice_def Let_def
  by (rule vm_safeI; intro wp_rules wp_vundef; auto simp: mult.commute dest: slice_ok_dest)

lemma count_leading_ok:
  "slice_ok cs \<Longrightarrow> int257 (int (count_leading b cs))" "slice_ok cs \<Longrightarrow> int257 (int (count_trailing b cs))"
  "have_bits (count_leading b cs) cs"
  using bits_memscan_le [of "sl_bits cs" b]
  by (auto simp: count_leading_def count_trailing_def have_bits_def sl_size_def slice_ok_def max_bits_def intro!: int257_nat)

lemma load_same_safe: "vm_safe (exec_load_same x)"
  unfolding exec_load_same_def push_defs
  by (rule vm_safeI; intro wp_rules wp_vundef; auto simp: count_leading_ok split: if_splits dest: slice_ok_dest)

lemma depth_safe: "vm_safe exec_cell_depth" "vm_safe exec_slice_depth"
proof -
  have "get_depth c max_level \<le> 65536" if "cell_ok c" for c
    using get_depth_bound [OF that] by (simp add: max_depth_def)
  then show "vm_safe exec_cell_depth"
    unfolding exec_cell_depth_def push_defs by (intro vm_safeI wp_rules) (auto split: option.split intro: int257_nat)
  show "vm_safe exec_slice_depth"
    unfolding exec_slice_depth_def push_defs sl_get_depth_def by (intro vm_safeI wp_rules) (auto simp: refs_depth_small)
qed

text \<open>References from the code: the check leaves enough of them for the loop.\<close>

lemma wp_store_code_refs:
  assumes "vm_inv s0 s" "has_code s" "n \<le> length (sl_refs (the (code s)))" "builder_ok b"
    "\<And>b' cs. builder_ok b' \<Longrightarrow> slice_ok cs \<Longrightarrow> Q b' (s\<lparr>code := Some cs\<rparr>)"
  shows "wp (store_code_refs n b) Q (vm_inv s0) s"
  using assms
proof (induction n arbitrary: b s)
  case 0
  then obtain cs where "code s = Some cs" "slice_ok cs" using has_code_Some by blast
  then have "Q b (s\<lparr>code := Some cs\<rparr>)" using 0 by blast
  also have "s\<lparr>code := Some cs\<rparr> = s" using \<open>code s = Some cs\<close> by (cases s) simp
  finally show ?case by (simp add: wp_vret)
next
  case (Suc n)
  show ?case
    unfolding store_code_refs.simps
  proof (intro wp_vbind wp_code_fetch_ref wp_option wp_vthrow)
    fix r cs b'
    assume c: "cell_ok r" "slice_ok cs" "sl_refs cs = tl (sl_refs (the (code s)))" "store_ref_bool r b = Some b'"
    show "wp (store_code_refs n b') Q (vm_inv s0) (s\<lparr>code := Some cs\<rparr>)"
      by (rule Suc.IH) (use Suc.prems c in \<open>auto dest: builder_ok_store\<close>)
  qed (use Suc.prems in auto)
qed

lemma store_const_ref_safe: "vm_safe (exec_store_const_ref args pfx)"
  unfolding exec_store_const_ref_def push_defs
proof (rule vm_safeI, goal_cases)
  case (1 s0)
  then obtain cs where "code s0 = Some cs" using has_code_Some by blast
  then show ?case
    by (intro wp_rules wp_store_code_refs) (use 1 in \<open>auto simp: code_refs_def has_code_def split: option.splits\<close>)
qed

lemma length_byte_rev [simp]: "length (byte_rev bs) = length bs"
  by (induction bs rule: byte_rev.induct) (subst byte_rev.simps, auto)

lemma export_bytes_lsb_None: "export_bytes_lsb x n sgnd = None \<longleftrightarrow> \<not> fits_bits x (8 * n) sgnd"
  unfolding export_bytes_lsb_def by (cases x) (simp_all add: fits_bits_def split: if_splits)

lemma store_le_int_safe: "vm_safe (exec_store_le_int args)"
  unfolding exec_store_le_int_def Let_def
  by (intro vm_safeI wp_rules wp_vundef) (auto simp: export_bytes_lsb_None split: if_splits dest: builder_ok_store)

lemma preload_zeroext_unless: "vm_safe_unless (args mod 8 \<noteq> 0) (exec_preload_uint_fixed_0e args)"
proof (cases "args mod 8 = 0")
  case True
  have small: "prefetch_uint256_zeroext 32 cs = None \<longleftrightarrow> False" for cs
    by (simp add: prefetch_uint256_zeroext_def Let_def)
  have "vm_safe (exec_preload_uint_fixed_0e args)"
    unfolding exec_preload_uint_fixed_0e_def push_cellslice_def
    by (intro vm_safeI wp_rules wp_vundef) (simp_all add: small True)
  then show ?thesis by (rule vm_safe_unless_safe)
next
  case False
  have opt: "wp_unless True (case x of None \<Rightarrow> vundef | Some y \<Rightarrow> f y) Q R s"
    if "\<And>y. x = Some y \<Longrightarrow> wp (f y) Q R s" for x and f :: "bigint \<Rightarrow> int vm" and Q R s
    using that by (cases x) (simp add: wp_unless_def vundef_def, simp add: wp_unless_wp)
  have "vm_safe_unless True (exec_preload_uint_fixed_0e args)"
    unfolding vm_safe_unless_def exec_preload_uint_fixed_0e_def push_cellslice_def
    by (intro allI impI wp_unless_vbind wp_pop_cellslice opt wp_rules) (auto dest: vm_inv_refl)
  then show ?thesis using False by simp
qed

lemma preload_zeroext_safe: "instr_safe (mkfixed 0x1ae2 13 3 exec_preload_uint_fixed_0e)"
proof -
  have "vm_safe_unless (ub_opcode opcode) (exec_preload_uint_fixed_0e (opcode div 2 ^ 8))"
    if "0x1ae2 * 2 ^ 11 \<le> opcode" "opcode < 0x1ae3 * 2 ^ 11" for opcode
  proof -
    have "opcode div 2 ^ 8 div 8 = 0x1ae2" using that by (simp add: div_mult2_eq [symmetric])
    then have "opcode div 2 ^ 8 = 0xd710 + opcode div 2 ^ 8 mod 8" using div_mult_mod_eq [of "opcode div 2 ^ 8" 8] by linarith
    then have "ub_opcode opcode" if "opcode div 2 ^ 8 mod 8 \<noteq> 0"
      unfolding ub_opcode_def using that mod_less_divisor [of 8 "opcode div 2 ^ 8"] by linarith
    then show ?thesis using preload_zeroext_unless [of "opcode div 2 ^ 8"] unfolding vm_safe_unless_def
      by (auto elim!: wp_unless_mono)
  qed
  then show ?thesis by (simp add: instr_safe_def mkfixed_def)
qed

lemma register_cell_ops_safe: "\<forall>i \<in> set register_cell_ops. instr_safe i"
proof -
  note safe = const_ops_safe exec_push_ref_safe cs_cmp_safe builder_basic_safe store_ops_safe store_int_safe builder_func_safe
    exec_store_same_safe slice_load_safe slice_simple_safe slice_arg_safe slice_more_safe load_int_safe load_int_var_safe load_slice_safe
    load_slice_var_safe load_ref_safe load_ref_rev_safe begins_with_safe load_le_int_safe load_same_safe depth_safe store_const_ref_safe
    store_le_int_safe
  have lex: "int257 (lex_cmp cs cs2)" for cs cs2 unfolding lex_cmp_lexord by simp
  have funs: "vm_safe (exec_ibin_cs_cmp lex_cmp)" "vm_safe (exec_iun_cs_cmp (\<lambda>cs. int (count_leading b cs)))"
    "vm_safe (exec_iun_cs_cmp (\<lambda>cs. int (count_trailing b cs)))" "vm_safe (exec_int_builder_func bl_get_depth)"
    "vm_safe (exec_int_builder_func bl_size)" "vm_safe (exec_int_builder_func bl_size_refs)"
    "vm_safe (exec_int_builder_func remaining_bits)" "vm_safe (exec_int_builder_func remaining_refs)"
    "vm_safe (exec_2int_builder_func (\<lambda>b. (bl_size b, bl_size_refs b)))"
    "vm_safe (exec_2int_builder_func (\<lambda>b. (remaining_bits b, remaining_refs b)))" for b
    by (rule cs_cmp_safe builder_func_safe; simp add: lex count_leading_ok builder_sizes)+
  have parts: "vm_safe (exec_slice_op_args m (\<lambda>n. only_first n 0))" "vm_safe (exec_slice_op_args m (\<lambda>n. skip_first n 0))"
    "vm_safe (exec_slice_op_args m (\<lambda>n. only_last n 0))" "vm_safe (exec_slice_op_args m (\<lambda>n. skip_last n 0))"
    "vm_safe (exec_slice_op_args2 m m2 sd_substr)" "vm_safe (exec_slice_op_args2 m m2 only_first)"
    "vm_safe (exec_slice_op_args2 m m2 skip_first)" "vm_safe (exec_slice_op_args2 m m2 only_last)"
    "vm_safe (exec_slice_op_args2 m m2 skip_last)" for m m2
    by (rule slice_arg_safe; auto simp: sd_substr_def split: option.splits dest: slice_ok_dest)+
  have loads: "vm_safe (exec_load_int_fixed args md)" "vm_safe (exec_load_slice_fixed args)" "vm_safe (exec_load_int_fixed2 args)"
    "vm_safe (exec_load_slice_fixed2 args)" for args md
    unfolding exec_load_int_fixed_def exec_load_slice_fixed_def exec_load_int_fixed2_def exec_load_slice_fixed2_def
    by (rule load_int_safe load_slice_safe)+
  show ?thesis
    unfolding register_cell_ops_def register_cell_const_ops_def register_cell_cmp_ops_def register_cell_serialize_ops_def
      register_cell_deserialize_ops_def set_append ball_Un
    by (simp add: instr_safe_args safe preload_zeroext_safe funs parts loads)
qed

end
