(* ===== verification/Dict.thy ===== *)
theory Dict
  imports CellOps
begin

text \<open>
  Dictionaries (\<open>dict.h\<close>, \<open>dict.cpp\<close>): binary trees of cells. The edge to a node carries a label, a bit
  string in one of three encodings; a node with a label as long as the remaining key is a leaf with the value, any
  other a fork with two references. A key is a list of bits, its length the code's \<open>n\<close>. Loading and
  making cells costs gas, so the operations run in the machine. A null reference is \<open>None\<close>. An exception of
  the cell builder is a cell overflow, as the interpreter makes it.
\<close>

section \<open>Labels\<close>

record label_parser =
  lp_remainder :: slice
  lp_same :: nat
  lp_bits :: nat

definition s_bits :: "label_parser \<Rightarrow> nat" where
  "s_bits lb = (if lp_same lb \<noteq> 0 then 0 else lp_bits lb)"

definition parse_label :: "slice \<Rightarrow> nat \<Rightarrow> label_parser option" where
  "parse_label cs max_label_len =
     (let ltype = prefetch_ulong 2 cs; len_bits = nat_bits max_label_len in
      if ltype = 0 then Some \<lparr>lp_remainder = drop_bits 2 cs, lp_same = 0, lp_bits = 0\<rparr>
      else if ltype = 1 then
        (let cs1 = drop_bits 1 cs; l = count_leading True cs1
         in if l > max_label_len \<or> \<not> have_bits (2 * l + 1) cs1 then None
            else Some \<lparr>lp_remainder = drop_bits (l + 1) cs1, lp_same = 0, lp_bits = l\<rparr>)
      else if ltype = 2 then
        (case fetch_ulong len_bits (drop_bits 2 cs) of (l, cs1) \<Rightarrow>
           if l = fetch_ulong_eof \<or> l > max_label_len then None
           else if have_bits l cs1 then Some \<lparr>lp_remainder = cs1, lp_same = 0, lp_bits = l\<rparr> else None)
      else if ltype = 3 then
        (if \<not> have_bits (3 + len_bits) cs then None
         else case fetch_ulong 3 cs of (same, cs1) \<Rightarrow> case fetch_ulong len_bits cs1 of (l, cs2) \<Rightarrow>
           if l > max_label_len then None else Some \<lparr>lp_remainder = cs2, lp_same = same, lp_bits = l\<rparr>)
      else None)"

text \<open>Checks after parsing: \<open>validate_ext\<close> and \<open>validate_simple\<close>.\<close>

definition validate_ext :: "label_parser \<Rightarrow> nat \<Rightarrow> unit vm" where
  "validate_ext lb n =
     (if lp_bits lb > n then vthrow dict_err
      else if lp_bits lb < n \<and> (sl_size (lp_remainder lb) \<noteq> s_bits lb \<or> sl_size_refs (lp_remainder lb) \<noteq> 2)
      then vthrow dict_err else vret ())"

definition validate_simple :: "label_parser \<Rightarrow> nat \<Rightarrow> unit vm" where
  "validate_simple lb n =
     (if lp_bits lb > n then vthrow dict_err
      else if lp_bits lb < n \<and> (sl_size (lp_remainder lb) < s_bits lb \<or> sl_size_refs (lp_remainder lb) < 2)
      then vthrow dict_err else vret ())"

text \<open>The constructor from a cell, with validation: 1 is \<open>chk_min\<close>, 2 \<open>chk_size\<close>, 3 \<open>chk_all\<close>.\<close>

definition label_of_cell :: "cell \<Rightarrow> nat \<Rightarrow> nat \<Rightarrow> label_parser vm" where
  "label_of_cell c max_label_len auto_validate =
     vbind (load_cell_slice_ref c) (\<lambda>cs.
       case parse_label cs max_label_len of
         None \<Rightarrow> vthrow cell_und
       | Some lb \<Rightarrow>
           vthen (if auto_validate > 2 then validate_ext lb max_label_len
                  else if auto_validate = 2 then validate_simple lb max_label_len else vret ())
             (vret lb))"

definition skip_label :: "label_parser \<Rightarrow> slice" where
  "skip_label lb = drop_bits (s_bits lb) (lp_remainder lb)"

definition label_is_prefix_of :: "label_parser \<Rightarrow> bits \<Rightarrow> bool" where
  "label_is_prefix_of lb key =
     (if lp_bits lb > length key then False
      else if lp_same lb = 0
      then sl_size (lp_remainder lb) \<ge> lp_bits lb \<and> bits_memcmp (sl_bits (lp_remainder lb)) key (lp_bits lb) = 0
      else bits_memscan (take (lp_bits lb) key) (odd (lp_same lb)) = lp_bits lb)"

text \<open>\<open>common_prefix_len\<close> of the label with a key.\<close>

definition label_common :: "label_parser \<Rightarrow> bits \<Rightarrow> nat" where
  "label_common lb key =
     (let n = min (lp_bits lb) (length key)
      in if lp_same lb = 0 then same_upto (sl_bits (lp_remainder lb)) (take n key)
         else bits_memscan (take n key) (odd (lp_same lb)))"

text \<open>\<open>extract_label_to\<close>: the bits, and what is left after them.\<close>

definition extract_label :: "label_parser \<Rightarrow> bits \<times> slice" where
  "extract_label lb =
     (if lp_same lb = 0 then (take (lp_bits lb) (sl_bits (lp_remainder lb)), drop_bits (lp_bits lb) (lp_remainder lb))
      else (replicate (lp_bits lb) (odd (lp_same lb)), lp_remainder lb))"

text \<open>
  Writing of labels, in the shortest encoding. A call \<open>store_long(x, 0)\<close> shifts by 64 bits before
  it stores none of them.
\<close>

definition append_dict_label_same :: "bool \<Rightarrow> nat \<Rightarrow> nat \<Rightarrow> builder \<Rightarrow> builder option" where
  "append_dict_label_same same len max_len cb =
     (let k = nat_bits max_len; b = (if same then - 1 else 0) in
      if len > 1 \<and> k < 2 * len - 1 then store_list [store_long (6 + (if same then 1 else 0)) 3, store_long (int len) k] cb
      else if k < len then store_list [store_long 2 2, store_long (int len) k, store_long b len] cb
      else store_list [store_long 0 1, store_long (- 2) (len + 1), store_long b len] cb)"

definition append_dict_label :: "bits \<Rightarrow> nat \<Rightarrow> builder \<Rightarrow> builder option" where
  "append_dict_label label max_len cb =
     (let len = length label; k = nat_bits max_len in
      if len > 0 \<and> bits_memscan label (hd label) = len then append_dict_label_same (hd label) len max_len cb
      else
        (case (if k < len then store_list [store_long 2 2, store_long (int len) k] cb
               else store_list [store_long 0 1, store_long (- 2) (len + 1)] cb) of
           None \<Rightarrow> None
         | Some cb' \<Rightarrow> if remaining_bits cb' < len then None else store_bits label cb'))"

section \<open>Reading and writing\<close>

text \<open>An operation of a builder that throws when it fails.\<close>

definition vwrite :: "'a option \<Rightarrow> 'a vm" where
  "vwrite r = (case r of None \<Rightarrow> vthrow cell_ov | Some b \<Rightarrow> vret b)"

text \<open>The child of a fork on one side.\<close>

definition fork_ref :: "label_parser \<Rightarrow> bool \<Rightarrow> cell option" where
  "fork_ref lb sw = prefetch_ref (if sw then 1 else 0) (lp_remainder lb)"

lemma same_upto_le: "same_upto as bs \<le> length bs" "same_upto as bs \<le> length as"
  by (induction as bs rule: same_upto.induct) auto

lemma label_common_le: "label_common lb key \<le> length key" "label_common lb key \<le> lp_bits lb"
  using same_upto_le(1) [of "sl_bits (lp_remainder lb)" "take (min (lp_bits lb) (length key)) key"]
    bits_memscan_le(1) [of "take (min (lp_bits lb) (length key)) key" "odd (lp_same lb)"]
  by (auto simp: label_common_def Let_def)

lemma drop_label_less: "\<not> label_common lb key < lp_bits lb \<Longrightarrow> lp_bits lb \<noteq> length key \<Longrightarrow> length key - Suc (lp_bits lb) < length key"
  using label_common_le(1) [of lb key] by auto

lemma label_is_prefix_of_le: "label_is_prefix_of lb key \<Longrightarrow> lp_bits lb \<le> length key"
  by (auto simp: label_is_prefix_of_def split: if_splits)

function dict_lookup :: "cell option \<Rightarrow> bits \<Rightarrow> slice option vm" where
  "dict_lookup None key = vret None"
| "dict_lookup (Some c) key =
     vbind (label_of_cell c (length key) 3) (\<lambda>lb.
       if \<not> label_is_prefix_of lb key then vret None
       else if lp_bits lb = length key then vret (Some (skip_label lb))
       else dict_lookup (fork_ref lb (key ! lp_bits lb)) (drop (lp_bits lb + 1) key))"
  by pat_completeness auto
termination
  by (relation "measure (\<lambda>(c, key). length key)") (auto dest: label_is_prefix_of_le)

datatype set_mode = SetMode_Set | SetMode_Replace | SetMode_Add

text \<open>A leaf with the label \<open>key\<close>, a fork, and the lower part of a split edge, as \<open>dict_set\<close> makes them.\<close>

definition new_leaf :: "bits \<Rightarrow> nat \<Rightarrow> (builder \<Rightarrow> builder option) \<Rightarrow> cell vm" where
  "new_leaf key n store_val =
     vbind (vwrite (append_dict_label key n new_builder)) (\<lambda>cb. vbind (vwrite (store_val cb)) (finalize_copy False))"

definition new_fork :: "bits \<Rightarrow> nat \<Rightarrow> cell option \<Rightarrow> cell option \<Rightarrow> cell vm" where
  "new_fork label n left right =
     vbind (vwrite (append_dict_label label n new_builder)) (\<lambda>cb.
       case (left, right) of
         (Some l, Some r) \<Rightarrow> vbind (vwrite (store_list [store_ref_bool l, store_ref_bool r] cb)) (finalize_copy False)
       | _ \<Rightarrow> vundef)"

definition lower_edge :: "label_parser \<Rightarrow> nat \<Rightarrow> nat \<Rightarrow> cell vm" where
  "lower_edge lb pfx_len m =
     (let t = lp_bits lb - pfx_len - 1 in
      vbind (vwrite
        (if lp_same lb \<noteq> 0 then append_dict_label_same (odd (lp_same lb)) t m new_builder
         else append_dict_label (take t (drop (pfx_len + 1) (sl_bits (lp_remainder lb)))) m new_builder)) (\<lambda>cb.
        vbind (vwrite (cell_builder_add_slice_bool (skip_label lb) cb)) (finalize_copy False)))"

function dict_set :: "cell option \<Rightarrow> bits \<Rightarrow> (builder \<Rightarrow> builder option) \<Rightarrow> set_mode \<Rightarrow> cell option vm" where
  "dict_set None key store_val mode =
     (if mode = SetMode_Replace then vret None
      else vbind (new_leaf key (length key) store_val) (\<lambda>c. vret (Some c)))"
| "dict_set (Some c) key store_val mode =
     vbind (label_of_cell c (length key) 3) (\<lambda>lb.
       let n = length key; pfx_len = label_common lb key in
       if pfx_len < lp_bits lb then
         (if mode = SetMode_Replace then vret None
          else
            let m = n - pfx_len - 1 in
            vbind (new_leaf (drop (pfx_len + 1) key) m store_val) (\<lambda>c1. vbind (lower_edge lb pfx_len m) (\<lambda>c2.
              vbind (if key ! pfx_len then new_fork (take pfx_len key) n (Some c2) (Some c1)
                     else new_fork (take pfx_len key) n (Some c1) (Some c2)) (\<lambda>r. vret (Some r)))))
       else if lp_bits lb = n then
         (if mode = SetMode_Add then vret None else vbind (new_leaf key n store_val) (\<lambda>r. vret (Some r)))
       else if key ! lp_bits lb then
         vbind (dict_set (fork_ref lb True) (drop (lp_bits lb + 1) key) store_val mode) (\<lambda>res.
           if res = None then vret None
           else vbind (new_fork (take (lp_bits lb) key) n (fork_ref lb False) res) (\<lambda>r. vret (Some r)))
       else
         vbind (dict_set (fork_ref lb False) (drop (lp_bits lb + 1) key) store_val mode) (\<lambda>res.
           if res = None then vret None
           else vbind (new_fork (take (lp_bits lb) key) n res (fork_ref lb True)) (\<lambda>r. vret (Some r))))"
  by pat_completeness auto
termination by (relation "measure (\<lambda>(c, key, st, md). length key)") (auto simp: drop_label_less)

text \<open>\<open>dict_lookup_set\<close> also returns the value there was.\<close>

function dict_lookup_set ::
    "cell option \<Rightarrow> bits \<Rightarrow> (builder \<Rightarrow> builder option) \<Rightarrow> set_mode \<Rightarrow> (slice option \<times> cell option) vm" where
  "dict_lookup_set None key store_val mode =
     (if mode = SetMode_Replace then vret (None, None)
      else vbind (new_leaf key (length key) store_val) (\<lambda>c. vret (None, Some c)))"
| "dict_lookup_set (Some c) key store_val mode =
     vbind (label_of_cell c (length key) 3) (\<lambda>lb.
       let n = length key; pfx_len = label_common lb key in
       if pfx_len < lp_bits lb then
         (if mode = SetMode_Replace then vret (None, None)
          else
            let m = n - pfx_len - 1 in
            vbind (new_leaf (drop (pfx_len + 1) key) m store_val) (\<lambda>c1. vbind (lower_edge lb pfx_len m) (\<lambda>c2.
              vbind (if key ! pfx_len then new_fork (take pfx_len key) n (Some c2) (Some c1)
                     else new_fork (take pfx_len key) n (Some c1) (Some c2)) (\<lambda>r. vret (None, Some r)))))
       else if lp_bits lb = n then
         (if mode = SetMode_Add then vret (Some (skip_label lb), None)
          else vbind (new_leaf key n store_val) (\<lambda>r. vret (Some (skip_label lb), Some r)))
       else if key ! lp_bits lb then
         vbind (dict_lookup_set (fork_ref lb True) (drop (lp_bits lb + 1) key) store_val mode) (\<lambda>res.
           if snd res = None then vret (fst res, None)
           else vbind (new_fork (take (lp_bits lb) key) n (fork_ref lb False) (snd res)) (\<lambda>r. vret (fst res, Some r)))
       else
         vbind (dict_lookup_set (fork_ref lb False) (drop (lp_bits lb + 1) key) store_val mode) (\<lambda>res.
           if snd res = None then vret (fst res, None)
           else vbind (new_fork (take (lp_bits lb) key) n (snd res) (fork_ref lb True)) (\<lambda>r. vret (fst res, Some r))))"
  by pat_completeness auto
termination by (relation "measure (\<lambda>(c, key, st, md). length key)") (auto simp: drop_label_less)

text \<open>
  Deletion: the value there was, if any, and what is left. A fork that loses a child is merged with the
  edge to the other one.
\<close>

definition merge_edge :: "bits \<Rightarrow> nat \<Rightarrow> cell \<Rightarrow> nat \<Rightarrow> cell vm" where
  "merge_edge label n c m =
     vbind (label_of_cell c m 3) (\<lambda>label2.
       vbind (vwrite (append_dict_label (label @ fst (extract_label label2)) n new_builder)) (\<lambda>cb.
         vbind (vwrite (cell_builder_add_slice_bool (snd (extract_label label2)) cb)) (finalize_copy False)))"

function dict_lookup_delete :: "cell option \<Rightarrow> bits \<Rightarrow> (slice option \<times> cell option) vm" where
  "dict_lookup_delete None key = vret (None, None)"
| "dict_lookup_delete (Some c) key =
     vbind (label_of_cell c (length key) 3) (\<lambda>lb.
       let n = length key in
       if label_common lb key < lp_bits lb then vret (None, None)
       else if lp_bits lb = n then vret (Some (skip_label lb), None)
       else
         let sw_bit = key ! lp_bits lb in
         vbind (dict_lookup_delete (fork_ref lb sw_bit) (drop (lp_bits lb + 1) key)) (\<lambda>res.
           if fst res = None then vret (None, None)
           else
             case (snd res, fork_ref lb (\<not> sw_bit)) of
               (Some child, Some other) \<Rightarrow>
                 vbind (if sw_bit then new_fork (take (lp_bits lb) key) n (Some other) (Some child)
                        else new_fork (take (lp_bits lb) key) n (Some child) (Some other)) (\<lambda>r. vret (fst res, Some r))
             | (None, Some other) \<Rightarrow>
                 vbind (merge_edge (take (lp_bits lb) key @ [\<not> sw_bit]) n other (n - lp_bits lb - 1))
                   (\<lambda>r. vret (fst res, Some r))
             | _ \<Rightarrow> vundef))"
  by pat_completeness auto
termination by (relation "measure (\<lambda>(c, key). length key)") (auto simp: drop_label_less)

text \<open>
  The least or greatest key with its value. The lowest bit of \<open>mode\<close> is the direction at the first bit of the
  key and the next one that at the others, so that the first bit may be a sign.
\<close>

function dict_lookup_minmax :: "cell option \<Rightarrow> nat \<Rightarrow> int \<Rightarrow> (slice \<times> bits) option vm" where
  "dict_lookup_minmax None n mode = vret None"
| "dict_lookup_minmax (Some c) n mode =
     vbind (label_of_cell c n 3) (\<lambda>lb.
       case extract_label lb of (label, rest) \<Rightarrow>
         if n \<le> lp_bits lb then vret (Some (rest, label))
         else
           let mode1 = (if lp_bits lb \<noteq> 0 then drop_bit 1 mode else mode); sw = odd mode1 in
           vbind (dict_lookup_minmax (prefetch_ref (if sw then 1 else 0) rest) (n - lp_bits lb - 1) (drop_bit 1 mode1)) (\<lambda>res.
             vret (map_option (\<lambda>(v, key). (v, label @ sw # key)) res)))"
  by pat_completeness auto
termination by (relation "measure (\<lambda>(c, n, mode). n)") auto

text \<open>The nearest key after or before a key, or that key itself.\<close>

function dict_lookup_nearest :: "cell option \<Rightarrow> bits \<Rightarrow> bool \<Rightarrow> int \<Rightarrow> (slice \<times> bits) option vm" where
  "dict_lookup_nearest None key allow_eq mode = vret None"
| "dict_lookup_nearest (Some c) key allow_eq mode =
     vbind (label_of_cell c (length key) 3) (\<lambda>lb.
       let n = length key; pfx_len = label_common lb key in
       if pfx_len < lp_bits lb then
         (if key ! pfx_len = odd (drop_bit (if pfx_len \<noteq> 0 then 1 else 0) mode) then vret None
          else dict_lookup_minmax (Some c) n (not mode))
       else
         let mode1 = (if lp_bits lb \<noteq> 0 then drop_bit 1 mode else mode) in
         if lp_bits lb = n then (if \<not> allow_eq then vret None else vret (Some (skip_label lb, key)))
         else
           let sw = key ! lp_bits lb in
           vbind (dict_lookup_nearest (fork_ref lb sw) (drop (lp_bits lb + 1) key) allow_eq (drop_bit 1 mode1)) (\<lambda>res.
             if res \<noteq> None \<or> sw = odd mode1 then
               vret (map_option (\<lambda>(v, k). (v, take (lp_bits lb) key @ sw # k)) res)
             else
               vbind (dict_lookup_minmax (fork_ref lb (odd mode1)) (n - lp_bits lb - 1) (drop_bit 1 (not mode1))) (\<lambda>r.
                 vret (map_option (\<lambda>(v, k). (v, take (lp_bits lb) key @ odd mode1 # k)) r))))"
  by pat_completeness auto
termination by (relation "measure (\<lambda>(c, key, e, m). length key)") (auto simp: drop_label_less)

section \<open>The class\<close>

text \<open>A valid dictionary: its root, null when it is empty, and the length of its keys.\<close>

record dictionary =
  root_cell :: "cell option"
  key_bits :: nat

definition max_key_bits :: nat where "max_key_bits = 1023"

definition integer_key :: "bigint \<Rightarrow> nat \<Rightarrow> bool \<Rightarrow> bool \<Rightarrow> bits option vm" where
  "integer_key x n sgnd quiet =
     (case x of
        Some v \<Rightarrow> if fits_bits x n sgnd then vret (Some (int_bl n v)) else if quiet then vret None else vthrow range_chk
      | None \<Rightarrow> if quiet then vret None else vthrow range_chk)"

definition extract_value_ref :: "slice option \<Rightarrow> cell option vm" where
  "extract_value_ref v =
     (case v of
        None \<Rightarrow> vret None
      | Some cs \<Rightarrow> if sl_size cs = 0 \<and> sl_size_refs cs = 1 then vret (prefetch_ref 0 cs) else vthrow dict_err)"

definition lookup_key :: "dictionary \<Rightarrow> bits \<Rightarrow> slice option vm" where
  "lookup_key d key = (if length key \<noteq> key_bits d \<or> root_cell d = None then vret None else dict_lookup (root_cell d) key)"

definition lookup_ref :: "dictionary \<Rightarrow> bits \<Rightarrow> cell option vm" where
  "lookup_ref d key = vbind (lookup_key d key) extract_value_ref"

definition key_exists :: "dictionary \<Rightarrow> bits \<Rightarrow> bool vm" where
  "key_exists d key = vbind (lookup_key d key) (\<lambda>v. vret (v \<noteq> None))"

definition int_key_exists :: "dictionary \<Rightarrow> int \<Rightarrow> bool vm" where
  "int_key_exists d key =
     (let l = key_bits d in
      if root_cell d = None \<or> l > 64 then vret False
      else if l = 0 then vundef
      else if l < 64 \<and> (key < - (2 ^ (l - 1)) \<or> key \<ge> 2 ^ (l - 1)) then vret False
      else key_exists d (int_bl l key))"

definition uint_key_exists :: "dictionary \<Rightarrow> nat \<Rightarrow> bool vm" where
  "uint_key_exists d key =
     (let l = key_bits d in
      if root_cell d = None \<or> l > 64 then vret False
      else if l < 64 \<and> key \<ge> 2 ^ l then vret False
      else key_exists d (nat_bl l key))"

definition has_common_prefix :: "dictionary \<Rightarrow> bits \<Rightarrow> bool vm" where
  "has_common_prefix d pfx =
     (if root_cell d = None \<or> pfx = [] then vret True
      else if length pfx > key_bits d then vret False
      else vbind (label_of_cell (the (root_cell d)) (key_bits d) 3) (\<lambda>lb.
             vret (length pfx \<le> lp_bits lb \<and> label_common lb pfx = length pfx)))"

definition get_common_prefix :: "dictionary \<Rightarrow> nat \<Rightarrow> bits vm" where
  "get_common_prefix d buffer_len =
     (if root_cell d = None then vret []
      else vbind (label_of_cell (the (root_cell d)) (key_bits d) 3) (\<lambda>lb. vret (take buffer_len (fst (extract_label lb)))))"

definition set_gen :: "dictionary \<Rightarrow> bits \<Rightarrow> (builder \<Rightarrow> builder option) \<Rightarrow> set_mode \<Rightarrow> (bool \<times> dictionary) vm" where
  "set_gen d key store_val mode =
     (if length key \<noteq> key_bits d then vret (False, d)
      else vbind (dict_set (root_cell d) key store_val mode) (\<lambda>res.
             case res of None \<Rightarrow> vret (False, d) | Some c \<Rightarrow> vret (True, d\<lparr>root_cell := Some c\<rparr>)))"

definition dict_set_slice :: "dictionary \<Rightarrow> bits \<Rightarrow> slice \<Rightarrow> set_mode \<Rightarrow> (bool \<times> dictionary) vm" where
  "dict_set_slice d key value mode = set_gen d key (cell_builder_add_slice_bool value) mode"

definition set_ref :: "dictionary \<Rightarrow> bits \<Rightarrow> cell \<Rightarrow> set_mode \<Rightarrow> (bool \<times> dictionary) vm" where
  "set_ref d key val_ref mode = set_gen d key (store_ref_bool val_ref) mode"

definition set_builder :: "dictionary \<Rightarrow> bits \<Rightarrow> builder \<Rightarrow> set_mode \<Rightarrow> (bool \<times> dictionary) vm" where
  "set_builder d key val_b mode = set_gen d key (append_builder_bool val_b) mode"

definition lookup_set_gen ::
    "dictionary \<Rightarrow> bits \<Rightarrow> (builder \<Rightarrow> builder option) \<Rightarrow> set_mode \<Rightarrow> (slice option \<times> dictionary) vm" where
  "lookup_set_gen d key store_val mode =
     (if length key \<noteq> key_bits d then vret (None, d)
      else vbind (dict_lookup_set (root_cell d) key store_val mode) (\<lambda>(old, res).
             case res of None \<Rightarrow> vret (old, d) | Some c \<Rightarrow> vret (old, d\<lparr>root_cell := Some c\<rparr>)))"

definition lookup_set :: "dictionary \<Rightarrow> bits \<Rightarrow> slice \<Rightarrow> set_mode \<Rightarrow> (slice option \<times> dictionary) vm" where
  "lookup_set d key value mode = lookup_set_gen d key (cell_builder_add_slice_bool value) mode"

definition lookup_set_ref :: "dictionary \<Rightarrow> bits \<Rightarrow> cell \<Rightarrow> set_mode \<Rightarrow> (cell option \<times> dictionary) vm" where
  "lookup_set_ref d key val_ref mode =
     vbind (lookup_set_gen d key (store_ref_bool val_ref) mode) (\<lambda>(old, d'). vbind (extract_value_ref old) (\<lambda>c. vret (c, d')))"

definition lookup_set_builder :: "dictionary \<Rightarrow> bits \<Rightarrow> builder \<Rightarrow> set_mode \<Rightarrow> (slice option \<times> dictionary) vm" where
  "lookup_set_builder d key val_b mode = lookup_set_gen d key (append_builder_bool val_b) mode"

definition lookup_delete :: "dictionary \<Rightarrow> bits \<Rightarrow> (slice option \<times> dictionary) vm" where
  "lookup_delete d key =
     (if length key \<noteq> key_bits d then vret (None, d)
      else vbind (dict_lookup_delete (root_cell d) key) (\<lambda>(old, res).
             vret (old, if old \<noteq> None then d\<lparr>root_cell := res\<rparr> else d)))"

definition lookup_delete_ref :: "dictionary \<Rightarrow> bits \<Rightarrow> (cell option \<times> dictionary) vm" where
  "lookup_delete_ref d key =
     vbind (lookup_delete d key) (\<lambda>(old, d'). vbind (extract_value_ref old) (\<lambda>c. vret (c, d')))"

text \<open>The two flags give the directions at the first and at the other bits.\<close>

definition minmax_mode :: "bool \<Rightarrow> bool \<Rightarrow> int" where
  "minmax_mode fetch_max invert_first = xor (if fetch_max then - 1 else 0) (if invert_first then 1 else 0)"

definition get_minmax_key :: "dictionary \<Rightarrow> nat \<Rightarrow> bool \<Rightarrow> bool \<Rightarrow> (slice \<times> bits) option vm" where
  "get_minmax_key d key_len fetch_max invert_first =
     (if key_len \<noteq> key_bits d then vret None
      else dict_lookup_minmax (root_cell d) key_len (minmax_mode fetch_max invert_first))"

definition extract_minmax_key :: "dictionary \<Rightarrow> nat \<Rightarrow> bool \<Rightarrow> bool \<Rightarrow> ((slice \<times> bits) option \<times> dictionary) vm" where
  "extract_minmax_key d key_len fetch_max invert_first =
     (if key_len \<noteq> key_bits d then vret (None, d)
      else vbind (dict_lookup_minmax (root_cell d) key_len (minmax_mode fetch_max invert_first)) (\<lambda>res.
             case res of
               None \<Rightarrow> vret (None, d)
             | Some (v, key) \<Rightarrow>
                 vbind (dict_lookup_delete (root_cell d) key) (\<lambda>(old, root). vret (res, d\<lparr>root_cell := root\<rparr>))))"

definition lookup_nearest_key :: "dictionary \<Rightarrow> bits \<Rightarrow> bool \<Rightarrow> bool \<Rightarrow> bool \<Rightarrow> (slice \<times> bits) option vm" where
  "lookup_nearest_key d key fetch_next allow_eq invert_first =
     (if length key \<noteq> key_bits d then vret None
      else dict_lookup_nearest (root_cell d) key allow_eq (minmax_mode fetch_next invert_first))"

text \<open>The part of a dictionary with a given prefix; the second result tells whether it is a new root.\<close>

function extract_prefix_subdict :: "cell option \<Rightarrow> nat \<Rightarrow> bits \<Rightarrow> nat \<Rightarrow> bool \<Rightarrow> (cell option \<times> bool) vm" where
  "extract_prefix_subdict None n pfx m remove_prefix = vundef"
| "extract_prefix_subdict (Some c) n pfx m remove_prefix =
     vbind (label_of_cell c (n - m) 3) (\<lambda>lb.
       let l = min (length pfx - m) (lp_bits lb) in
       if label_common lb (take l (drop m pfx)) < l then vret (None, True)
       else if m + lp_bits lb < length pfx then
         extract_prefix_subdict (fork_ref lb (pfx ! (m + lp_bits lb))) n pfx (m + lp_bits lb + 1) remove_prefix
       else if \<not> remove_prefix \<and> m = 0 then vret (None, False)
       else
         let rest = m + lp_bits lb - length pfx in
         vbind (vwrite
           (if \<not> remove_prefix then append_dict_label (take m pfx @ fst (extract_label lb)) n new_builder
            else if lp_same lb = 0
            then append_dict_label (drop (lp_bits lb - rest) (fst (extract_label lb))) (n - length pfx) new_builder
            else append_dict_label_same (odd (lp_same lb)) rest (n - length pfx) new_builder)) (\<lambda>cb.
           vbind (vwrite (append_cellslice_bool (skip_label lb) cb)) (\<lambda>cb'.
             vbind (finalize_copy False cb') (\<lambda>r. vret (Some r, True)))))"
  by pat_completeness auto
termination by (relation "measure (\<lambda>(c, n, pfx, m, rm). length pfx - m)") auto

definition extract_prefix_subdict_internal :: "dictionary \<Rightarrow> bits \<Rightarrow> bool \<Rightarrow> (cell option \<times> bool) vm" where
  "extract_prefix_subdict_internal d pfx remove_prefix =
     (if root_cell d = None \<or> pfx = [] then vret (None, False)
      else if length pfx > key_bits d then vret (None, True)
      else extract_prefix_subdict (root_cell d) (key_bits d) pfx 0 remove_prefix)"

definition cut_prefix_subdict :: "dictionary \<Rightarrow> bits \<Rightarrow> bool \<Rightarrow> (bool \<times> dictionary) vm" where
  "cut_prefix_subdict d pfx remove_prefix =
     (if length pfx > key_bits d \<and> remove_prefix then vret (False, d)
      else vbind (extract_prefix_subdict_internal d pfx remove_prefix) (\<lambda>(c, changed).
        vret (True, \<lparr>root_cell = (if changed then c else root_cell d),
                     key_bits = (if remove_prefix then key_bits d - length pfx else key_bits d)\<rparr>)))"

section \<open>Safety\<close>

text \<open>
  An operation on dictionaries is safe when it keeps the machine well-formed and its result satisfies \<open>P\<close>; it does
  not depend on the state it is run in, so that the rules compose like those of weakest preconditions.
\<close>

definition dsafe :: "'a vm \<Rightarrow> ('a \<Rightarrow> bool) \<Rightarrow> bool" where
  "dsafe m P \<longleftrightarrow> (\<forall>s0 s. vm_inv s0 s \<longrightarrow>
     wp m (\<lambda>a s'. P a \<and> vm_inv s0 s' \<and> (has_code s \<longrightarrow> has_code s')) (vm_inv s0) s)"

named_theorems dsafe_rules

lemma wp_dsafe:
  assumes "dsafe m P" "vm_inv s0 s" "\<And>a s'. P a \<Longrightarrow> vm_inv s0 s' \<Longrightarrow> (has_code s \<Longrightarrow> has_code s') \<Longrightarrow> Q a s'"
  shows "wp m Q (vm_inv s0) s"
  using assms(1,2) unfolding dsafe_def by (auto elim!: wp_mono intro!: assms(3))

lemma dsafe_mono: "dsafe m P \<Longrightarrow> (\<And>a. P a \<Longrightarrow> Q a) \<Longrightarrow> dsafe m Q"
  unfolding dsafe_def by (fastforce elim: wp_mono)

lemma dsafe_basic [dsafe_rules]:
  "P a \<Longrightarrow> dsafe (vret a) P" "dsafe (vthrow e) P"
  by (auto simp: dsafe_def intro!: wp_vret wp_vthrow)

lemma dsafe_vbind [dsafe_rules]: "dsafe m (\<lambda>a. dsafe (f a) P) \<Longrightarrow> dsafe (vbind m f) P"
  unfolding dsafe_def [of "vbind m f"]
  by (intro allI impI wp_vbind, erule (1) wp_dsafe, erule (1) wp_dsafe) blast

lemma dsafe_vthen [dsafe_rules]: "dsafe m (\<lambda>_. dsafe n P) \<Longrightarrow> dsafe (vthen m n) P"
  unfolding vthen_def by (rule dsafe_vbind)

lemma dsafe_cases [dsafe_rules]:
  "(b \<Longrightarrow> dsafe m P) \<Longrightarrow> (\<not> b \<Longrightarrow> dsafe n P) \<Longrightarrow> dsafe (if b then m else n) P"
  "(x = None \<Longrightarrow> dsafe m P) \<Longrightarrow> (\<And>a. x = Some a \<Longrightarrow> dsafe (f a) P) \<Longrightarrow> dsafe (case x of None \<Rightarrow> m | Some a \<Rightarrow> f a) P"
  "(\<And>a b. p = (a, b) \<Longrightarrow> dsafe (g a b) P) \<Longrightarrow> dsafe (case p of (a, b) \<Rightarrow> g a b) P"
  by (cases x; cases p; simp)+

lemma dsafe_load [dsafe_rules]: "cell_ok c \<Longrightarrow> (\<And>cs. slice_ok cs \<Longrightarrow> P cs) \<Longrightarrow> dsafe (load_cell_slice_ref c) P"
  unfolding dsafe_def by (intro allI impI wp_load_cell_slice_ref) auto

lemma dsafe_finalize [dsafe_rules]: "builder_ok b \<Longrightarrow> (\<And>c. cell_ok c \<Longrightarrow> P c) \<Longrightarrow> dsafe (finalize_copy sp b) P"
  unfolding dsafe_def by (intro allI impI wp_finalize_copy) (auto elim: vm_inv_gas)

lemma dsafe_vwrite [dsafe_rules]: "(\<And>b. r = Some b \<Longrightarrow> P b) \<Longrightarrow> dsafe (vwrite r) P"
  unfolding vwrite_def by (intro dsafe_rules)

text \<open>Labels: the parser leaves a well-formed slice, and validation two references at a fork.\<close>

lemma prefetch_two:
  "prefetch_ulong 2 cs = (case sl_bits cs of a # b # bs \<Rightarrow> (if a then 2 else 0) + (if b then 1 else 0) | _ \<Rightarrow> fetch_ulong_eof)"
  by (auto simp: prefetch_ulong_def slice_defs bits_nat_Cons numeral_2_eq_2 split: list.split)

lemma fetch_same: "prefetch_ulong 2 cs = 3 \<Longrightarrow> have_bits 3 cs \<Longrightarrow> fst (fetch_ulong 3 cs) \<in> {6, 7}"
  by (auto simp: prefetch_two fetch_ulong_eof_def fetch_ulong_def slice_defs Suc_le_length_iff numeral_3_eq_3 bits_nat_Cons
      split: list.splits if_splits)

lemma parse_label_ok:
  assumes "parse_label cs n = Some lb" "slice_ok cs"
  shows "slice_ok (lp_remainder lb)" "lp_bits lb \<le> n" "s_bits lb \<le> sl_size (lp_remainder lb)"
  subgoal using assms by (auto simp: parse_label_def Let_def fetch_ulong_def split: if_splits prod.splits)
  subgoal using assms by (auto simp: parse_label_def Let_def fetch_ulong_def split: if_splits prod.splits)
  subgoal using assms fetch_same [of cs]
    by (auto simp: parse_label_def Let_def s_bits_def slice_defs split: if_splits prod.splits)
  done

lemma dsafe_label [dsafe_rules]:
  assumes "cell_ok c"
    "\<And>lb. slice_ok (lp_remainder lb) \<Longrightarrow> lp_bits lb \<le> n \<Longrightarrow> (md > 2 \<Longrightarrow> lp_bits lb < n \<Longrightarrow> sl_size_refs (lp_remainder lb) = 2) \<Longrightarrow> P lb"
  shows "dsafe (label_of_cell c n md) P"
  unfolding label_of_cell_def validate_ext_def validate_simple_def
  by (intro dsafe_rules) (use assms in \<open>auto dest: parse_label_ok\<close>)

lemma skip_label_ok [simp]: "slice_ok (lp_remainder lb) \<Longrightarrow> slice_ok (skip_label lb)" "slice_ok (lp_remainder lb) \<Longrightarrow> slice_ok (snd (extract_label lb))"
  by (simp_all add: skip_label_def extract_label_def)

lemma fork_ref_ok [simp]:
  assumes "slice_ok (lp_remainder lb)"
  shows "pred_option cell_ok (fork_ref lb sw)" "sl_size_refs (lp_remainder lb) = 2 \<Longrightarrow> fork_ref lb sw \<noteq> None"
  using slice_ok_ref(1) [OF assms]
  by (cases "fork_ref lb sw"; force simp: fork_ref_def) (simp add: fork_ref_def prefetch_ref_def)

text \<open>What stores a value keeps a builder well-formed.\<close>

definition writes :: "(builder \<Rightarrow> builder option) \<Rightarrow> bool" where
  "writes f \<longleftrightarrow> (\<forall>b b'. builder_ok b \<longrightarrow> f b = Some b' \<longrightarrow> builder_ok b')"

lemma writesD: "writes f \<Longrightarrow> f b = Some b' \<Longrightarrow> builder_ok b \<Longrightarrow> builder_ok b'"
  by (auto simp: writes_def)

lemma writes_store [simp]:
  "writes (store_long v n)" "writes (store_bits bs)" "cell_ok c \<Longrightarrow> writes (store_ref_bool c)"
  "builder_ok cb \<Longrightarrow> writes (append_builder_bool cb)" "slice_ok cs \<Longrightarrow> writes (append_cellslice_bool cs)"
  "slice_ok cs \<Longrightarrow> writes (cell_builder_add_slice_bool cs)"
  by (auto simp: writes_def dest: builder_ok_store builder_ok_append builder_ok_add_slice)

lemma writes_list: "list_all writes fs \<Longrightarrow> writes (store_list fs)"
proof (induction fs)
  case (Cons f fs)
  then have f: "writes f" and fs: "writes (store_list fs)" by simp_all
  show ?case
    unfolding writes_def by (auto split: option.splits dest: writesD [OF f] writesD [OF fs])
qed (simp add: writes_def)

lemma writes_if: "writes f \<Longrightarrow> writes g \<Longrightarrow> writes (\<lambda>b. if c then f b else g b)"
  by (cases c) simp_all

lemma writes_label_same [simp]: "writes (append_dict_label_same same len n)"
  unfolding append_dict_label_same_def Let_def by (intro writes_if writes_list) simp_all

lemma writes_label [simp]: "writes (append_dict_label label n)"
proof -
  have st: "writes (\<lambda>b. case (if c then store_list fs b else store_list gs b) of None \<Rightarrow> None
      | Some b' \<Rightarrow> if remaining_bits b' < length label then None else store_bits label b')"
    if "list_all writes fs" "list_all writes gs" for fs gs c
    using writesD [OF writes_list [OF that(1)]] writesD [OF writes_list [OF that(2)]] writesD [OF writes_store(2)]
    unfolding writes_def by (auto split: option.splits if_splits)
  show ?thesis
    unfolding append_dict_label_def Let_def by (intro writes_if writes_label_same st) simp_all
qed

lemmas writes_dest = writesD [OF writes_label_same] writesD [OF writes_label]

lemma dsafe_nodes [dsafe_rules]:
  "writes store_val \<Longrightarrow> (\<And>c. cell_ok c \<Longrightarrow> P c) \<Longrightarrow> dsafe (new_leaf key n store_val) P"
  "pred_option cell_ok l \<Longrightarrow> l \<noteq> None \<Longrightarrow> pred_option cell_ok r \<Longrightarrow> r \<noteq> None \<Longrightarrow> (\<And>c. cell_ok c \<Longrightarrow> P c) \<Longrightarrow>
     dsafe (new_fork label n l r) P"
  "slice_ok (lp_remainder lb) \<Longrightarrow> (\<And>c. cell_ok c \<Longrightarrow> P c) \<Longrightarrow> dsafe (lower_edge lb len m) P"
  "cell_ok c \<Longrightarrow> (\<And>c. cell_ok c \<Longrightarrow> P c) \<Longrightarrow> dsafe (merge_edge label n c m) P"
  subgoal
    unfolding new_leaf_def by (intro dsafe_rules) (auto dest: writes_dest writesD)
  subgoal
    unfolding new_fork_def
    by (cases l; cases r; simp; intro dsafe_rules) (auto split: option.splits dest!: writes_dest dest: builder_ok_store(6))
  subgoal
    unfolding lower_edge_def Let_def
    by (intro dsafe_rules) (auto split: if_splits dest!: writes_dest dest: builder_ok_add_slice)
  subgoal
    unfolding merge_edge_def by (intro dsafe_rules) (auto dest!: writes_dest dest: builder_ok_add_slice)
  done

text \<open>The operations. A value set with mode \<open>Set\<close> always gives a dictionary.\<close>

lemma dsafe_dict_lookup: "pred_option cell_ok c \<Longrightarrow> dsafe (dict_lookup c key) (pred_option slice_ok)"
proof (induction c key rule: dict_lookup.induct)
  case (2 c key)
  show ?case
    unfolding dict_lookup.simps by (intro dsafe_rules) (use 2 in \<open>auto dest: label_is_prefix_of_le\<close>)
qed (simp add: dsafe_basic)

lemma dsafe_dict_set:
  "pred_option cell_ok c \<Longrightarrow> writes store_val \<Longrightarrow>
     dsafe (dict_set c key store_val mode) (\<lambda>r. pred_option cell_ok r \<and> (mode = SetMode_Set \<longrightarrow> r \<noteq> None))"
proof (induction c key store_val mode rule: dict_set.induct)
  case (1 key store_val mode)
  then show ?case by (auto intro!: dsafe_rules)
next
  case (2 c key store_val mode)
  note IH = 2(1) [OF refl refl, THEN dsafe_mono] 2(2) [OF refl refl, THEN dsafe_mono]
  show ?case
    unfolding dict_set.simps Let_def by (intro dsafe_rules IH) (use 2(3,4) in auto)
qed

lemma dsafe_dict_lookup_set:
  "pred_option cell_ok c \<Longrightarrow> writes store_val \<Longrightarrow>
     dsafe (dict_lookup_set c key store_val mode) (\<lambda>(old, r). pred_option slice_ok old \<and> pred_option cell_ok r)"
proof (induction c key store_val mode rule: dict_lookup_set.induct)
  case (1 key store_val mode)
  then show ?case by (auto intro!: dsafe_rules)
next
  case (2 c key store_val mode)
  note IH = 2(1) [OF refl refl, THEN dsafe_mono] 2(2) [OF refl refl, THEN dsafe_mono]
  show ?case
    unfolding dict_lookup_set.simps Let_def by (intro dsafe_rules IH) (use 2(3,4) in auto)
qed

lemma dsafe_dict_lookup_delete:
  "pred_option cell_ok c \<Longrightarrow> dsafe (dict_lookup_delete c key) (\<lambda>(old, r). pred_option slice_ok old \<and> pred_option cell_ok r)"
proof (induction c key rule: dict_lookup_delete.induct)
  case (2 c key)
  have other: "dsafe (case (r, fork_ref lb sw) of (Some child, Some other) \<Rightarrow> f child other
      | (None, Some other) \<Rightarrow> g other | _ \<Rightarrow> vundef) P"
    if "slice_ok (lp_remainder lb)" "sl_size_refs (lp_remainder lb) = 2" "pred_option cell_ok r"
      "\<And>child other. cell_ok child \<Longrightarrow> cell_ok other \<Longrightarrow> dsafe (f child other) P"
      "\<And>other. cell_ok other \<Longrightarrow> dsafe (g other) P" for lb sw r f g and P :: "slice option \<times> cell option \<Rightarrow> bool"
    using fork_ref_ok [OF that(1), of sw] that(2-5) by (auto split: option.split)
  note IH = 2(1) [OF refl _ _ refl, THEN dsafe_mono]
  show ?case
    unfolding dict_lookup_delete.simps Let_def by (intro dsafe_rules IH other) (use 2(2) in auto)
qed (simp add: dsafe_basic)

lemma extract_label_ok: "extract_label lb = (label, rest) \<Longrightarrow> slice_ok (lp_remainder lb) \<Longrightarrow> slice_ok rest"
  using skip_label_ok(2) [of lb] by simp

lemma prefetch_ref_ok: "slice_ok cs \<Longrightarrow> pred_option cell_ok (prefetch_ref i cs)"
  using slice_ok_ref(1) [of cs i] by (cases "prefetch_ref i cs") simp_all

lemma dsafe_dict_lookup_minmax:
  "pred_option cell_ok c \<Longrightarrow> dsafe (dict_lookup_minmax c n mode) (pred_option (\<lambda>(v, key). slice_ok v))"
proof (induction c n mode rule: dict_lookup_minmax.induct)
  case (2 c n mode)
  note IH = 2(1) [OF _ _ refl refl, THEN dsafe_mono]
  show ?case
    unfolding dict_lookup_minmax.simps Let_def
    by (intro dsafe_rules IH)
      (use 2(2) in \<open>auto dest: extract_label_ok intro!: prefetch_ref_ok simp: option.pred_map comp_def split_def\<close>)
qed (simp add: dsafe_basic)

lemma dsafe_dict_lookup_nearest:
  "pred_option cell_ok c \<Longrightarrow> dsafe (dict_lookup_nearest c key e mode) (pred_option (\<lambda>(v, key). slice_ok v))"
proof (induction c key e mode rule: dict_lookup_nearest.induct)
  case (2 c key e mode)
  note IH = 2(1) [OF refl refl _ refl _ refl, THEN dsafe_mono]
  note mm = dsafe_dict_lookup_minmax [THEN dsafe_mono]
  show ?case
    unfolding dict_lookup_nearest.simps Let_def
    by (intro dsafe_rules IH mm) (use 2(2) in \<open>auto simp: option.pred_map comp_def split_def\<close>)
qed (simp add: dsafe_basic)

lemma dsafe_extract_prefix_subdict:
  "pred_option cell_ok c \<Longrightarrow> c \<noteq> None \<Longrightarrow> length pfx \<le> n \<Longrightarrow>
     dsafe (extract_prefix_subdict c n pfx m rm) (\<lambda>(r, b). pred_option cell_ok r)"
proof (induction c n pfx m rm rule: extract_prefix_subdict.induct)
  case (2 c n pfx m rm)
  note IH = 2(1) [OF refl, THEN dsafe_mono]
  show ?case
    unfolding extract_prefix_subdict.simps Let_def
    by (intro dsafe_rules IH)
      (use 2(2-) in \<open>auto split: if_splits dest!: writes_dest dest: builder_ok_append(3)\<close>)
qed simp

section \<open>Safety of the class\<close>

text \<open>What the interface of the class promises to the instructions, for a dictionary with a well-formed root.\<close>

definition dict_ok :: "dictionary \<Rightarrow> bool" where
  "dict_ok d \<longleftrightarrow> pred_option cell_ok (root_cell d)"

lemma dsafe_integer_key [dsafe_rules]: "(\<And>k. pred_option (\<lambda>b. length b = n) k \<Longrightarrow> P k) \<Longrightarrow> dsafe (integer_key x n sgnd quiet) P"
  unfolding integer_key_def by (intro dsafe_rules) auto

lemma dsafe_extract_value_ref [dsafe_rules]:
  "pred_option slice_ok v \<Longrightarrow> (\<And>c. pred_option cell_ok c \<Longrightarrow> P c) \<Longrightarrow> dsafe (extract_value_ref v) P"
  unfolding extract_value_ref_def by (intro dsafe_rules) (auto intro: prefetch_ref_ok)

lemmas dsafe_dict_ops = dsafe_dict_lookup [THEN dsafe_mono] dsafe_dict_set [THEN dsafe_mono] dsafe_dict_lookup_set [THEN dsafe_mono]
  dsafe_dict_lookup_delete [THEN dsafe_mono] dsafe_dict_lookup_minmax [THEN dsafe_mono] dsafe_dict_lookup_nearest [THEN dsafe_mono]
  dsafe_extract_prefix_subdict [THEN dsafe_mono]

lemma dsafe_lookup [dsafe_rules]:
  "dict_ok d \<Longrightarrow> (\<And>v. pred_option slice_ok v \<Longrightarrow> P v) \<Longrightarrow> dsafe (lookup_key d key) P"
  unfolding lookup_key_def dict_ok_def by (intro dsafe_rules dsafe_dict_ops) auto

lemma dsafe_lookup_ref [dsafe_rules]:
  "dict_ok d \<Longrightarrow> (\<And>v. pred_option cell_ok v \<Longrightarrow> P v) \<Longrightarrow> dsafe (lookup_ref d key) P"
  unfolding lookup_ref_def by (intro dsafe_rules)

lemma dsafe_set_gen:
  assumes "dict_ok d" "writes st"
    "\<And>b d'. dict_ok d' \<Longrightarrow> (mode = SetMode_Set \<Longrightarrow> length key = key_bits d \<Longrightarrow> b) \<Longrightarrow> P (b, d')"
  shows "dsafe (set_gen d key st mode) P"
  unfolding set_gen_def by (intro dsafe_rules dsafe_dict_ops) (use assms in \<open>auto simp: dict_ok_def\<close>)

lemma dsafe_sets [dsafe_rules]:
  assumes "dict_ok d"
    "\<And>b d'. dict_ok d' \<Longrightarrow> (mode = SetMode_Set \<Longrightarrow> length key = key_bits d \<Longrightarrow> b) \<Longrightarrow> P (b, d')"
  shows "builder_ok bl \<Longrightarrow> dsafe (set_builder d key bl mode) P" "slice_ok cs \<Longrightarrow> dsafe (dict_set_slice d key cs mode) P"
    "cell_ok c \<Longrightarrow> dsafe (set_ref d key c mode) P"
  unfolding set_builder_def dict_set_slice_def set_ref_def by (intro dsafe_set_gen assms; simp)+

lemma dsafe_lookup_set_gen:
  assumes "dict_ok d" "writes st" "\<And>v d'. dict_ok d' \<Longrightarrow> pred_option slice_ok v \<Longrightarrow> P (v, d')"
  shows "dsafe (lookup_set_gen d key st mode) P"
  unfolding lookup_set_gen_def by (intro dsafe_rules dsafe_dict_ops) (use assms in \<open>auto simp: dict_ok_def intro!: dsafe_rules\<close>)

lemma dsafe_lookup_sets [dsafe_rules]:
  assumes "dict_ok d" "\<And>v d'. dict_ok d' \<Longrightarrow> pred_option slice_ok v \<Longrightarrow> P (v, d')"
    "\<And>v d'. dict_ok d' \<Longrightarrow> pred_option cell_ok v \<Longrightarrow> R (v, d')"
  shows "builder_ok bl \<Longrightarrow> dsafe (lookup_set_builder d key bl mode) P" "slice_ok cs \<Longrightarrow> dsafe (lookup_set d key cs mode) P"
    "cell_ok c \<Longrightarrow> dsafe (lookup_set_ref d key c mode) R"
  unfolding lookup_set_builder_def lookup_set_def lookup_set_ref_def
  by (intro dsafe_rules dsafe_lookup_set_gen assms; simp)+

lemma dsafe_deletes [dsafe_rules]:
  assumes "dict_ok d"
  shows "(\<And>v d'. dict_ok d' \<Longrightarrow> pred_option slice_ok v \<Longrightarrow> P (v, d')) \<Longrightarrow> dsafe (lookup_delete d key) P"
    "(\<And>v d'. dict_ok d' \<Longrightarrow> pred_option cell_ok v \<Longrightarrow> R (v, d')) \<Longrightarrow> dsafe (lookup_delete_ref d key) R"
proof -
  show del: "dsafe (lookup_delete d key) P" if "\<And>v d'. dict_ok d' \<Longrightarrow> pred_option slice_ok v \<Longrightarrow> P (v, d')" for P
    unfolding lookup_delete_def by (intro dsafe_rules dsafe_dict_ops) (use assms that in \<open>auto simp: dict_ok_def intro!: dsafe_rules\<close>)
  show "dsafe (lookup_delete_ref d key) R" if "\<And>v d'. dict_ok d' \<Longrightarrow> pred_option cell_ok v \<Longrightarrow> R (v, d')"
    unfolding lookup_delete_ref_def by (intro dsafe_vbind del) (use that in \<open>auto intro!: dsafe_rules\<close>)
qed

lemma dsafe_keys [dsafe_rules]:
  assumes "dict_ok d"
  shows "(\<And>r. pred_option (\<lambda>(v, key). slice_ok v) r \<Longrightarrow> P r) \<Longrightarrow> dsafe (get_minmax_key d n mx fi) P"
    "(\<And>r. pred_option (\<lambda>(v, key). slice_ok v) r \<Longrightarrow> P r) \<Longrightarrow> dsafe (lookup_nearest_key d key up e fi) P"
    "(\<And>r d'. dict_ok d' \<Longrightarrow> pred_option (\<lambda>(v, key). slice_ok v) r \<Longrightarrow> R (r, d')) \<Longrightarrow> dsafe (extract_minmax_key d n mx fi) R"
    "(\<And>b d'. dict_ok d' \<Longrightarrow> S (b, d')) \<Longrightarrow> dsafe (cut_prefix_subdict d key rm) S"
  using assms unfolding get_minmax_key_def lookup_nearest_key_def extract_minmax_key_def dict_ok_def cut_prefix_subdict_def
    extract_prefix_subdict_internal_def
  by (intro dsafe_rules dsafe_dict_ops; force intro!: dsafe_rules)+

end
