(* ===== verification/PfxDict.thy ===== *)
theory PfxDict
  imports Dict
begin

text \<open>
  Prefix code dictionaries (\<open>PrefixDictionary\<close> of \<open>dict.cpp\<close>): keys of different lengths, up to \<open>n\<close> bits, none of
  which is a prefix of another. A bit after the label of a node tells a leaf from a fork.
\<close>

definition pfx_leaf :: "bits \<Rightarrow> nat \<Rightarrow> (builder \<Rightarrow> builder option) \<Rightarrow> cell vm" where
  "pfx_leaf key n store_val =
     vbind (vwrite (append_dict_label key n new_builder)) (\<lambda>cb. vbind (vwrite (store_long 0 1 cb)) (\<lambda>cb'.
       vbind (vwrite (store_val cb')) (finalize_copy False)))"

definition pfx_fork :: "bits \<Rightarrow> nat \<Rightarrow> cell option \<Rightarrow> cell option \<Rightarrow> cell vm" where
  "pfx_fork label n left right =
     vbind (vwrite (append_dict_label label n new_builder)) (\<lambda>cb.
       case (left, right) of
         (Some l, Some r) \<Rightarrow>
           vbind (vwrite (store_list [store_long 1 1, store_ref_bool l, store_ref_bool r] cb)) (finalize_copy False)
       | _ \<Rightarrow> vundef)"

text \<open>What follows the label: true for a fork, whose contents are checked.\<close>

definition pfx_node :: "label_parser \<Rightarrow> (bool \<times> slice) vm" where
  "pfx_node lb =
     (let cs = skip_label lb in
      if \<not> have_bits 1 cs then vthrow dict_err
      else case fetch_ulong 1 cs of (b, cs') \<Rightarrow> vret (b \<noteq> 0, cs'))"

definition pfx_fork_chk :: "slice \<Rightarrow> unit vm" where
  "pfx_fork_chk cs = (if sl_size cs \<noteq> 0 \<or> sl_size_refs cs \<noteq> 2 then vthrow dict_err else vret ())"

lemma drop_common_less:
  "length key \<noteq> label_common lb key \<Longrightarrow> length key - Suc (label_common lb key) < length key"
  "label_common lb key \<noteq> length key \<Longrightarrow> length key - Suc (label_common lb key) < length key"
  using label_common_le(1) [of lb key] by auto

function pfx_dict_set :: "cell option \<Rightarrow> bits \<Rightarrow> nat \<Rightarrow> (builder \<Rightarrow> builder option) \<Rightarrow> set_mode \<Rightarrow> cell option vm" where
  "pfx_dict_set None key n store_val mode =
     (if length key > n then vret None
      else if mode = SetMode_Replace then vret None
      else vbind (pfx_leaf key n store_val) (\<lambda>c. vret (Some c)))"
| "pfx_dict_set (Some c) key n store_val mode =
     (if length key > n then vret None
      else vbind (label_of_cell c n 1) (\<lambda>lb.
        let m = length key; l = label_common lb key in
        if l < lp_bits lb then
          (if l = m \<or> mode = SetMode_Replace then vret None
           else
             vbind (pfx_leaf (drop (l + 1) key) (n - (l + 1)) store_val) (\<lambda>c1.
               vbind (lower_edge lb l (n - (l + 1))) (\<lambda>c2.
                 vbind (if key ! l then pfx_fork (take l key) n (Some c2) (Some c1)
                        else pfx_fork (take l key) n (Some c1) (Some c2)) (\<lambda>r. vret (Some r)))))
        else
          vbind (pfx_node lb) (\<lambda>(fork, cs).
            if \<not> fork then
              (if l \<noteq> m \<or> mode = SetMode_Add then vret None
               else vbind (pfx_leaf key n store_val) (\<lambda>r. vret (Some r)))
            else
              vthen (pfx_fork_chk cs)
                (if m = l then vret None
                 else if key ! l then
                   vbind (pfx_dict_set (prefetch_ref 1 cs) (drop (l + 1) key) (n - (l + 1)) store_val mode) (\<lambda>res.
                     if res = None then vret None
                     else vbind (pfx_fork (take l key) n (prefetch_ref 0 cs) res) (\<lambda>r. vret (Some r)))
                 else
                   vbind (pfx_dict_set (prefetch_ref 0 cs) (drop (l + 1) key) (n - (l + 1)) store_val mode) (\<lambda>res.
                     if res = None then vret None
                     else vbind (pfx_fork (take l key) n res (prefetch_ref 1 cs)) (\<lambda>r. vret (Some r)))))))"
  by pat_completeness auto
termination
  by (relation "measure (\<lambda>(c, key, n, st, md). length key)") (auto simp: drop_common_less)

function pfx_dict_lookup_delete :: "cell option \<Rightarrow> bits \<Rightarrow> nat \<Rightarrow> (slice option \<times> cell option) vm" where
  "pfx_dict_lookup_delete None key n = vret (None, None)"
| "pfx_dict_lookup_delete (Some c) key n =
     vbind (label_of_cell c n 1) (\<lambda>lb.
       let m = length key; l = label_common lb key in
       if l < lp_bits lb then vret (None, None)
       else
         vbind (pfx_node lb) (\<lambda>(fork, cs).
           if \<not> fork then (if l < m then vret (None, None) else vret (Some cs, None))
           else
             vthen (pfx_fork_chk cs)
               (if l = m then vret (None, None)
                else
                  let sw_bit = key ! l; other = prefetch_ref (if sw_bit then 0 else 1) cs in
                  vbind (pfx_dict_lookup_delete (prefetch_ref (if sw_bit then 1 else 0) cs) (drop (l + 1) key) (n - (l + 1))) (\<lambda>res.
                    if fst res = None then vret (None, None)
                    else
                      case (snd res, other) of
                        (Some child, Some oth) \<Rightarrow>
                          vbind (if sw_bit then pfx_fork (take (lp_bits lb) key) n (Some oth) (Some child)
                                 else pfx_fork (take (lp_bits lb) key) n (Some child) (Some oth)) (\<lambda>r. vret (fst res, Some r))
                      | (None, Some oth) \<Rightarrow>
                          vbind (label_of_cell oth (n - (l + 1)) 1) (\<lambda>label2.
                            vbind (vwrite (append_dict_label (take (lp_bits lb) key @ (\<not> sw_bit) # fst (extract_label label2)) n
                                new_builder)) (\<lambda>cb.
                              vbind (vwrite (cell_builder_add_slice_bool (snd (extract_label label2)) cb)) (\<lambda>cb'.
                                vbind (finalize_copy False cb') (\<lambda>r. vret (fst res, Some r)))))
                      | _ \<Rightarrow> vundef))))"
  by pat_completeness auto
termination
  by (relation "measure (\<lambda>(c, key, n). length key)") (auto simp: drop_common_less)

text \<open>The value of the key that is a prefix of the given bits, if any, and how many bits were used.\<close>

function pfx_lookup :: "cell option \<Rightarrow> bits \<Rightarrow> nat \<Rightarrow> (slice option \<times> nat) vm" where
  "pfx_lookup None key n = vundef"
| "pfx_lookup (Some c) key n =
     vbind (label_of_cell c n 1) (\<lambda>lb.
       let l = label_common lb key in
       if l < lp_bits lb then vret (None, l)
       else
         vbind (pfx_node lb) (\<lambda>(fork, cs).
           if \<not> fork then vret (Some cs, lp_bits lb)
           else if n - lp_bits lb = 0 then vthrow dict_err
           else
             vthen (pfx_fork_chk cs)
               (if length key - lp_bits lb = 0 then vret (None, lp_bits lb)
                else
                  vbind (pfx_lookup (prefetch_ref (if key ! lp_bits lb then 1 else 0) cs) (drop (lp_bits lb + 1) key)
                      (n - lp_bits lb - 1)) (\<lambda>(v, k). vret (v, lp_bits lb + 1 + k)))))"
  by pat_completeness auto
termination by (relation "measure (\<lambda>(c, key, n). length key)") auto

definition lookup_prefix :: "dictionary \<Rightarrow> bits \<Rightarrow> (slice option \<times> nat) vm" where
  "lookup_prefix d key = (if root_cell d = None then vret (None, 0) else pfx_lookup (root_cell d) key (key_bits d))"

definition pfx_dict_get :: "dictionary \<Rightarrow> bits \<Rightarrow> slice option vm" where
  "pfx_dict_get d key =
     (if length key > key_bits d then vret None
      else vbind (lookup_prefix d key) (\<lambda>(v, k). vret (if k = length key then v else None)))"

definition pfx_set_gen :: "dictionary \<Rightarrow> bits \<Rightarrow> (builder \<Rightarrow> builder option) \<Rightarrow> set_mode \<Rightarrow> (bool \<times> dictionary) vm" where
  "pfx_set_gen d key store_val mode =
     (if length key > key_bits d then vret (False, d)
      else vbind (pfx_dict_set (root_cell d) key (key_bits d) store_val mode) (\<lambda>res.
             case res of None \<Rightarrow> vret (False, d) | Some c \<Rightarrow> vret (True, d\<lparr>root_cell := Some c\<rparr>)))"

definition pfx_set :: "dictionary \<Rightarrow> bits \<Rightarrow> slice \<Rightarrow> set_mode \<Rightarrow> (bool \<times> dictionary) vm" where
  "pfx_set d key value mode = pfx_set_gen d key (cell_builder_add_slice_bool value) mode"

definition pfx_set_builder :: "dictionary \<Rightarrow> bits \<Rightarrow> builder \<Rightarrow> set_mode \<Rightarrow> (bool \<times> dictionary) vm" where
  "pfx_set_builder d key val_b mode = pfx_set_gen d key (append_builder_bool val_b) mode"

definition pfx_lookup_delete :: "dictionary \<Rightarrow> bits \<Rightarrow> (slice option \<times> dictionary) vm" where
  "pfx_lookup_delete d key =
     (if length key > key_bits d then vret (None, d)
      else vbind (pfx_dict_lookup_delete (root_cell d) key (key_bits d)) (\<lambda>(old, res).
             vret (old, if old \<noteq> None then d\<lparr>root_cell := res\<rparr> else d)))"

section \<open>Safety\<close>

lemma dsafe_pfx_nodes [dsafe_rules]:
  "writes store_val \<Longrightarrow> (\<And>c. cell_ok c \<Longrightarrow> P c) \<Longrightarrow> dsafe (pfx_leaf key n store_val) P"
  "pred_option cell_ok l \<Longrightarrow> l \<noteq> None \<Longrightarrow> pred_option cell_ok r \<Longrightarrow> r \<noteq> None \<Longrightarrow> (\<And>c. cell_ok c \<Longrightarrow> P c) \<Longrightarrow>
     dsafe (pfx_fork label n l r) P"
  "slice_ok (lp_remainder lb) \<Longrightarrow> (\<And>b cs. slice_ok cs \<Longrightarrow> R (b, cs)) \<Longrightarrow> dsafe (pfx_node lb) R"
  "(sl_size_refs cs = 2 \<Longrightarrow> S ()) \<Longrightarrow> dsafe (pfx_fork_chk cs) S"
  subgoal
    unfolding pfx_leaf_def by (intro dsafe_rules) (auto dest!: writes_dest dest: builder_ok_store(3) writesD)
  subgoal
    unfolding pfx_fork_def
    by (cases l; cases r; simp del: store_list.simps; intro dsafe_rules)
      (auto simp del: store_list.simps dest!: writes_dest elim!: writesD [OF writes_list, rotated])
  subgoal
    unfolding pfx_node_def Let_def by (intro dsafe_rules) (auto simp: fetch_ulong_def split: if_splits)
  subgoal
    unfolding pfx_fork_chk_def by (intro dsafe_rules) auto
  done

lemma prefetch_two_refs:
  "sl_size_refs cs = 2 \<Longrightarrow> prefetch_ref (if b then 1 else 0) cs \<noteq> None" "sl_size_refs cs = 2 \<Longrightarrow> prefetch_ref (Suc 0) cs \<noteq> None"
  "sl_size_refs cs = 2 \<Longrightarrow> have_refs (Suc 0) cs" "sl_size_refs cs = 2 \<Longrightarrow> \<exists>c. prefetch_ref 0 cs = Some c"
  by (simp_all add: prefetch_ref_def have_refs_def)

lemma label_common_full: "\<not> label_common lb key < lp_bits lb \<Longrightarrow> lp_bits lb \<le> length key"
  using label_common_le(1) [of lb key] by simp

lemma dsafe_pfx_dict_set:
  "pred_option cell_ok c \<Longrightarrow> writes store_val \<Longrightarrow> dsafe (pfx_dict_set c key n store_val mode) (pred_option cell_ok)"
proof (induction c key n store_val mode rule: pfx_dict_set.induct)
  case (1 key n store_val mode)
  then show ?case by (auto intro!: dsafe_rules)
next
  case (2 c key n store_val mode)
  note IH = 2(1) [OF _ refl refl, THEN dsafe_mono] 2(2) [OF _ refl refl, THEN dsafe_mono]
  show ?case
    unfolding pfx_dict_set.simps Let_def
    by (intro dsafe_rules IH) (use 2(3,4) in \<open>auto simp: prefetch_ref_ok dest: prefetch_two_refs\<close>)
qed

lemma dsafe_pfx_dict_lookup_delete:
  "pred_option cell_ok c \<Longrightarrow>
     dsafe (pfx_dict_lookup_delete c key n) (\<lambda>(old, r). pred_option slice_ok old \<and> pred_option cell_ok r)"
proof (induction c key n rule: pfx_dict_lookup_delete.induct)
  case (2 c key n)
  have other: "dsafe (case (r, prefetch_ref (if sw then 0 else 1) cs) of (Some child, Some other) \<Rightarrow> f child other
      | (None, Some other) \<Rightarrow> g other | _ \<Rightarrow> vundef) P"
    if "slice_ok cs" "sl_size_refs cs = 2" "pred_option cell_ok r"
      "\<And>child other. cell_ok child \<Longrightarrow> cell_ok other \<Longrightarrow> dsafe (f child other) P"
      "\<And>other. cell_ok other \<Longrightarrow> dsafe (g other) P" for cs sw r f g and P :: "slice option \<times> cell option \<Rightarrow> bool"
  proof -
    have "prefetch_ref (if sw then 0 else 1) cs \<noteq> None" using that(2) by (simp add: prefetch_ref_def)
    then obtain c' where "prefetch_ref (if sw then 0 else 1) cs = Some c'" by blast
    with that(3-5) prefetch_ref_ok [OF that(1), of "if sw then 0 else 1"] show ?thesis
      by (auto simp only: prod.case option.pred_inject split: option.split)
  qed
  note IH = 2(1) [OF refl refl _ _ _ refl refl, THEN dsafe_mono]
  show ?case
    unfolding pfx_dict_lookup_delete.simps Let_def
    by (intro dsafe_rules IH other)
      (use 2(2) in \<open>auto simp: prefetch_ref_ok dest!: writes_dest dest: prefetch_two_refs builder_ok_add_slice\<close>)
qed (simp add: dsafe_basic)

lemma dsafe_pfx_lookup:
  "pred_option cell_ok c \<Longrightarrow> c \<noteq> None \<Longrightarrow>
     dsafe (pfx_lookup c key n) (\<lambda>(v, k). pred_option slice_ok v \<and> k \<le> length key)"
proof (induction c key n rule: pfx_lookup.induct)
  case (2 c key n)
  note IH = 2(1) [OF refl, THEN dsafe_mono]
  show ?case
    unfolding pfx_lookup.simps Let_def
    by (intro dsafe_rules IH)
      (use 2(2) in \<open>auto simp: prefetch_ref_ok label_common_le dest: prefetch_two_refs label_common_full\<close>)
qed simp

lemmas dsafe_pfx_ops = dsafe_pfx_dict_set [THEN dsafe_mono] dsafe_pfx_dict_lookup_delete [THEN dsafe_mono] dsafe_pfx_lookup [THEN dsafe_mono]

lemma dsafe_pfx_class [dsafe_rules]:
  assumes "dict_ok d"
  shows "(\<And>v k. pred_option slice_ok v \<Longrightarrow> k \<le> length key \<Longrightarrow> P (v, k)) \<Longrightarrow> dsafe (lookup_prefix d key) P"
    "slice_ok value \<Longrightarrow> (\<And>b d'. dict_ok d' \<Longrightarrow> R (b, d')) \<Longrightarrow> dsafe (pfx_set d key value mode) R"
    "(\<And>v d'. dict_ok d' \<Longrightarrow> pred_option slice_ok v \<Longrightarrow> S (v, d')) \<Longrightarrow> dsafe (pfx_lookup_delete d key) S"
  using assms unfolding lookup_prefix_def pfx_set_def pfx_set_gen_def pfx_lookup_delete_def dict_ok_def
  by (intro dsafe_rules dsafe_pfx_ops; force intro!: dsafe_rules)+

end
