(* ===== verification/DictOps.thy ===== *)
theory DictOps
  imports PfxDict
begin

text \<open>
  The dictionary instructions (\<open>dictops.cpp\<close>), one definition per handler, and their registration. An
  argument is tested bit by bit, as in the code; the disassembler functions are not modelled. A dictionary
  on the stack is its root cell, or null when it is empty, below the length of its keys.
\<close>

section \<open>Dictionaries on the stack\<close>

definition push_maybe_cell :: "cell option \<Rightarrow> unit vm" where
  "push_maybe_cell c = (case c of None \<Rightarrow> push_null | Some x \<Rightarrow> push_cell x)"

definition push_dict :: "dictionary \<Rightarrow> unit vm" where
  "push_dict d = push_maybe_cell (root_cell d)"

definition pop_dict :: "int \<Rightarrow> dictionary vm" where
  "pop_dict mx =
     vbind (pop_smallint_range mx 0) (\<lambda>n. vbind pop_maybe_cell (\<lambda>c. vret \<lparr>root_cell = c, key_bits = nat n\<rparr>))"

text \<open>\<open>ensure_throw\<close>: the exception that ends the machine is \<open>Undef\<close>, as it never occurs.\<close>

definition ensure_throw :: "bool \<Rightarrow> int vm" where
  "ensure_throw b = (if b then vret 0 else vundef)"

text \<open>
  The key of an instruction that reads or deletes: an integer, with \<open>missing\<close> for one that does not fit,
  or the first bits of a slice.
\<close>

definition with_key :: "bool \<Rightarrow> bool \<Rightarrow> bool \<Rightarrow> nat \<Rightarrow> int vm \<Rightarrow> (bits \<Rightarrow> int vm) \<Rightarrow> int vm" where
  "with_key is_int sgnd quiet n missing f =
     (if is_int then
        vbind pop_int_finite (\<lambda>x. vbind (integer_key (Some x) n sgnd quiet) (\<lambda>k.
          case k of None \<Rightarrow> missing | Some key \<Rightarrow> f key))
      else vbind pop_cellslice (\<lambda>cs. case prefetch_bits n cs of None \<Rightarrow> vthrow cell_und | Some key \<Rightarrow> f key))"

text \<open>The key of an instruction that stores a value, which is popped before the key is checked.\<close>

definition pop_set_key :: "bool \<Rightarrow> bool \<Rightarrow> nat \<Rightarrow> bits option vm" where
  "pop_set_key is_int sgnd n =
     (if is_int then vbind pop_int (\<lambda>x. integer_key x n sgnd False)
      else vbind pop_cellslice (\<lambda>cs. vret (prefetch_bits n cs)))"

definition chk_key :: "bits option \<Rightarrow> bits vm" where
  "chk_key k = (case k of None \<Rightarrow> vthrow cell_und | Some key \<Rightarrow> vret key)"

section \<open>Dictionaries in slices and builders\<close>

definition exec_dict_empty :: "int vm" where
  "exec_dict_empty =
     vbind pop_cellslice (\<lambda>cs. if \<not> have_bits 1 cs then vthrow cell_und else vdo [push_smallint (not (prefetch_long 1 cs))])"

definition exec_store_dict :: "int vm" where
  "exec_store_dict =
     vthen (check_underflow 2) (vbind pop_builder (\<lambda>b. vbind pop_maybe_cell (\<lambda>d.
       case store_maybe_ref d b of None \<Rightarrow> vthrow cell_ov | Some b' \<Rightarrow> vdo [push_builder b'])))"

text \<open>The number of references of the dictionary at the front of a slice; \<open>None\<close> stands for -1.\<close>

definition dict_nonempty :: "slice \<Rightarrow> nat option" where
  "dict_nonempty cs =
     (if \<not> have_bits 1 cs then None
      else let res = prefetch_ulong 1 cs in if have_refs res cs then Some res else None)"

definition dict_nonempty_chk :: "slice \<Rightarrow> nat vm" where
  "dict_nonempty_chk cs = (case dict_nonempty cs of None \<Rightarrow> vthrow cell_und | Some res \<Rightarrow> vret res)"

definition exec_skip_dict :: "int vm" where
  "exec_skip_dict =
     vbind pop_cellslice (\<lambda>cs. vbind (dict_nonempty_chk cs) (\<lambda>res.
       case advance_ext 1 res cs of None \<Rightarrow> vundef | Some cs' \<Rightarrow> vdo [push_cellslice cs']))"

definition exec_load_optref :: "int vm" where
  "exec_load_optref =
     vbind pop_cellslice (\<lambda>cs. vbind (dict_nonempty_chk cs) (\<lambda>res.
       case advance 1 cs of
         None \<Rightarrow> vundef
       | Some cs1 \<Rightarrow>
           if res \<noteq> 0 then
             (case fetch_ref cs1 of None \<Rightarrow> vundef
              | Some (c, cs2) \<Rightarrow> vdo [push_cellslice cs2, push_cell c, push_smallint (- int res)])
           else vdo [push_cellslice cs1, push_smallint (- int res)]))"

definition exec_preload_optref :: "int vm" where
  "exec_preload_optref =
     vbind pop_cellslice (\<lambda>cs. vbind (dict_nonempty_chk cs) (\<lambda>res.
       if res \<noteq> 0 then
         (case prefetch_ref 0 cs of None \<Rightarrow> vundef | Some c \<Rightarrow> vdo [push_cell c, push_smallint (- int res)])
       else vdo [push_smallint (- int res)]))"

text \<open>The end of the loading instructions: a flag in the quiet variants.\<close>

definition push_quiet :: "bool \<Rightarrow> bool \<Rightarrow> unit vm list" where
  "push_quiet quiet ok = (if quiet then [push_bool ok] else [])"

definition exec_load_dict_slice :: "nat \<Rightarrow> int vm" where
  "exec_load_dict_slice args =
     vbind pop_cellslice (\<lambda>cs.
       case dict_nonempty cs of
         None \<Rightarrow>
           if \<not> bit args 1 then vthrow cell_und
           else vdo ((if \<not> bit args 0 then [push_cellslice cs] else []) @ push_quiet True False)
       | Some res \<Rightarrow>
           if bit args 0 then
             (case prefetch_subslice 1 res cs of None \<Rightarrow> vundef
              | Some sub \<Rightarrow> vdo (push_cellslice sub # push_quiet (bit args 1) True))
           else
             (case fetch_subslice 1 res cs of None \<Rightarrow> vundef
              | Some (sub, cs') \<Rightarrow> vdo ([push_cellslice sub, push_cellslice cs'] @ push_quiet (bit args 1) True)))"

definition exec_load_dict :: "nat \<Rightarrow> int vm" where
  "exec_load_dict args =
     vbind pop_cellslice (\<lambda>cs.
       case dict_nonempty cs of
         None \<Rightarrow>
           if \<not> bit args 1 then vthrow cell_und
           else vdo ((if \<not> bit args 0 then [push_cellslice cs] else []) @ push_quiet True False)
       | Some res \<Rightarrow>
           vthen (push_maybe_cell (if res \<noteq> 0 then prefetch_ref 0 cs else None))
             (if \<not> bit args 0 then
                (case advance_ext 1 res cs of None \<Rightarrow> vundef
                 | Some cs' \<Rightarrow> vdo (push_cellslice cs' # push_quiet (bit args 1) True))
              else vdo (push_quiet (bit args 1) True)))"

section \<open>Reading\<close>

definition exec_dict_get :: "nat \<Rightarrow> int vm" where
  "exec_dict_get args =
     vthen (check_underflow 3) (vbind (pop_dict (int max_key_bits)) (\<lambda>d.
       with_key (bit args 2) (\<not> bit args 1) True (key_bits d) (vdo [push_smallint 0]) (\<lambda>key.
         if bit args 0 then
           vbind (lookup_ref d key) (\<lambda>v.
             case v of None \<Rightarrow> vdo [push_smallint 0] | Some c \<Rightarrow> vdo [push_cell c, push_smallint (- 1)])
         else
           vbind (lookup_key d key) (\<lambda>v.
             case v of None \<Rightarrow> vdo [push_smallint 0] | Some cs \<Rightarrow> vdo [push_cellslice cs, push_smallint (- 1)]))))"

definition exec_dict_get_optref :: "nat \<Rightarrow> int vm" where
  "exec_dict_get_optref args =
     vthen (check_underflow 3) (vbind (pop_dict (int max_key_bits)) (\<lambda>d.
       with_key (bit args 1) (\<not> bit args 0) True (key_bits d) (vdo [push_null]) (\<lambda>key.
         vbind (lookup_ref d key) (\<lambda>v. vdo [push_maybe_cell v]))))"

section \<open>Storing\<close>

text \<open>The argument of the variants with a builder is shifted to the position the others use.\<close>

definition shift_args :: "bool \<Rightarrow> nat \<Rightarrow> nat" where
  "shift_args bld args = (if bld then 2 * args else args)"

definition exec_dict_set :: "set_mode \<Rightarrow> bool \<Rightarrow> nat \<Rightarrow> int vm" where
  "exec_dict_set mode bld args0 =
     (let args = shift_args bld args0 in
      vthen (check_underflow 4) (vbind (pop_dict (int max_key_bits)) (\<lambda>d.
        vbind (pop_set_key (bit args 2) (\<not> bit args 1) (key_bits d)) (\<lambda>k.
          vbind (if bld then vbind pop_builder (\<lambda>b. vbind (chk_key k) (\<lambda>key. set_builder d key b mode))
                 else if \<not> bit args 0 then vbind pop_cellslice (\<lambda>cs. vbind (chk_key k) (\<lambda>key. dict_set_slice d key cs mode))
                 else vbind pop_cell (\<lambda>c. vbind (chk_key k) (\<lambda>key. set_ref d key c mode))) (\<lambda>(res, d').
            vthen (push_dict d') (if mode = SetMode_Set then ensure_throw res else vdo [push_bool res]))))))"

text \<open>The end of the variants that return the old value: it was there, or not.\<close>

definition push_old :: "dictionary \<Rightarrow> bool \<Rightarrow> stack_entry option \<Rightarrow> int vm" where
  "push_old d ok_f old =
     (case old of None \<Rightarrow> vdo [push_dict d, push_bool (\<not> ok_f)] | Some v \<Rightarrow> vdo [push_dict d, push v, push_bool ok_f])"

definition exec_dict_setget :: "set_mode \<Rightarrow> bool \<Rightarrow> nat \<Rightarrow> int vm" where
  "exec_dict_setget mode bld args0 =
     (let args = shift_args bld args0; ok_f = (mode \<noteq> SetMode_Add) in
      vthen (check_underflow 4) (vbind (pop_dict (int max_key_bits)) (\<lambda>d.
        vbind (pop_set_key (bit args 2) (\<not> bit args 1) (key_bits d)) (\<lambda>k.
          if bld then
            vbind pop_builder (\<lambda>b. vbind (chk_key k) (\<lambda>key. vbind (lookup_set_builder d key b mode) (\<lambda>(res, d').
              push_old d' ok_f (map_option SliceVal res))))
          else if \<not> bit args 0 then
            vbind pop_cellslice (\<lambda>cs. vbind (chk_key k) (\<lambda>key. vbind (lookup_set d key cs mode) (\<lambda>(res, d').
              push_old d' ok_f (map_option SliceVal res))))
          else
            vbind pop_cell (\<lambda>c. vbind (chk_key k) (\<lambda>key. vbind (lookup_set_ref d key c mode) (\<lambda>(res, d').
              push_old d' ok_f (map_option CellVal res))))))))"

section \<open>Deleting\<close>

definition exec_dict_delete :: "nat \<Rightarrow> int vm" where
  "exec_dict_delete args =
     vthen (check_underflow 3) (vbind (pop_dict (int max_key_bits)) (\<lambda>d.
       with_key (bit args 1) (\<not> bit args 0) False (key_bits d) (vdo [push_dict d, push_smallint 0]) (\<lambda>key.
         vbind (lookup_delete d key) (\<lambda>(res, d'). vdo [push_dict d', push_bool (res \<noteq> None)]))))"

definition exec_dict_deleteget :: "nat \<Rightarrow> int vm" where
  "exec_dict_deleteget args =
     vthen (check_underflow 3) (vbind (pop_dict (int max_key_bits)) (\<lambda>d.
       with_key (bit args 2) (\<not> bit args 1) False (key_bits d) (vdo [push_dict d, push_smallint 0]) (\<lambda>key.
         if \<not> bit args 0 then vbind (lookup_delete d key) (\<lambda>(res, d'). push_old d' True (map_option SliceVal res))
         else vbind (lookup_delete_ref d key) (\<lambda>(res, d'). push_old d' True (map_option CellVal res)))))"

definition exec_dict_setget_optref :: "nat \<Rightarrow> int vm" where
  "exec_dict_setget_optref args =
     vthen (check_underflow 4) (vbind (pop_dict (int max_key_bits)) (\<lambda>d.
       vbind (pop_set_key (bit args 1) (\<not> bit args 0) (key_bits d)) (\<lambda>k. vbind pop_maybe_cell (\<lambda>new_value.
         vbind (chk_key k) (\<lambda>key.
           vbind (case new_value of Some c \<Rightarrow> lookup_set_ref d key c SetMode_Set | None \<Rightarrow> lookup_delete_ref d key)
             (\<lambda>(v, d'). vdo [push_dict d', push_maybe_cell v]))))))"

section \<open>Least, greatest and nearest keys\<close>

text \<open>
  The key that was found, as an integer or as a slice of a new cell. An integer of no bits is read with a shift by
  64, which is undefined.
\<close>

definition push_key :: "bool \<Rightarrow> bool \<Rightarrow> bits \<Rightarrow> unit vm" where
  "push_key is_int sgnd key =
     (if is_int then (if key = [] then vundef else push_int (Some (read_int (length key) sgnd key)))
      else vbind (vwrite (store_bits key new_builder)) (\<lambda>cb. vbind (finalize_copy False cb) (\<lambda>c.
             push_cellslice (cell_slice c))))"

definition exec_dict_getmin :: "nat \<Rightarrow> int vm" where
  "exec_dict_getmin args =
     vthen (check_underflow 2)
       (vbind (pop_dict (if bit args 2 then (if bit args 1 then 256 else 257) else int max_key_bits)) (\<lambda>d.
         vbind (if bit args 4 then extract_minmax_key d (key_bits d) (bit args 3) (\<not> bit args 1)
                else vbind (get_minmax_key d (key_bits d) (bit args 3) (\<not> bit args 1)) (\<lambda>r. vret (r, d))) (\<lambda>(res, d').
           vbind (if \<not> bit args 0 then vret (map_option (\<lambda>(v, key). SliceVal v) res)
                  else vbind (extract_value_ref (map_option fst res)) (\<lambda>c. vret (map_option CellVal c))) (\<lambda>val.
             vthen (if bit args 4 then push_dict d' else vret ())
               (case (val, res) of
                  (Some x, Some (v, key)) \<Rightarrow> vdo [push x, push_key (bit args 2) (\<not> bit args 1) key, push_bool True]
                | _ \<Rightarrow> vdo [push_bool False])))))"

definition exec_dict_getnear :: "nat \<Rightarrow> int vm" where
  "exec_dict_getnear args =
     vthen (check_underflow 3)
       (vbind (pop_dict (if bit args 3 then (if bit args 2 then 256 else 257) else int max_key_bits)) (\<lambda>d.
         let sgnd = \<not> bit args 2; go_up = \<not> bit args 1; allow_eq = bit args 0; n = key_bits d in
         vbind
           (if \<not> bit args 3 then
              vbind pop_cellslice (\<lambda>cs.
                case prefetch_bits n cs of
                  None \<Rightarrow> vthrow cell_und | Some key_hint \<Rightarrow> lookup_nearest_key d key_hint go_up allow_eq False)
            else
              vbind pop_int_finite (\<lambda>x.
                if fits_bits (Some x) n sgnd then lookup_nearest_key d (int_bl n x) go_up allow_eq sgnd
                else if (sgn_int x \<ge> 0) \<noteq> go_up then get_minmax_key d n (\<not> go_up) sgnd
                else vret None)) (\<lambda>res.
           case res of
             None \<Rightarrow> vdo [push_bool False]
           | Some (v, key) \<Rightarrow> vdo [push_cellslice v, push_key (bit args 3) sgnd key, push_bool True])))"

section \<open>Prefix code dictionaries\<close>

definition exec_pfx_dict_set :: "set_mode \<Rightarrow> int vm" where
  "exec_pfx_dict_set mode =
     vthen (check_underflow 3) (vbind (pop_dict (int max_key_bits)) (\<lambda>d.
       vbind pop_cellslice (\<lambda>key_slice. vbind pop_cellslice (\<lambda>new_value.
         vbind (pfx_set d (sl_bits key_slice) new_value mode) (\<lambda>(res, d'). vdo [push_dict d', push_bool res])))))"

definition exec_pfx_dict_delete :: "int vm" where
  "exec_pfx_dict_delete =
     vthen (check_underflow 2) (vbind (pop_dict (int max_key_bits)) (\<lambda>d.
       vbind pop_cellslice (\<lambda>key_slice.
         vbind (pfx_lookup_delete d (sl_bits key_slice)) (\<lambda>(res, d'). vdo [push_dict d', push_bool (res \<noteq> None)]))))"

definition exec_pfx_dict_get :: "nat \<Rightarrow> int vm" where
  "exec_pfx_dict_get op =
     vthen (check_underflow 3) (vbind (pop_dict (int max_key_bits)) (\<lambda>d. vbind pop_cellslice (\<lambda>cs.
       vbind (lookup_prefix d (sl_bits cs)) (\<lambda>(v, k).
         case v of
           None \<Rightarrow>
             if bit op 0 then vthrow cell_und
             else vdo (push_cellslice cs # (if op = 0 then [push_bool False] else []))
         | Some val \<Rightarrow>
             (case fetch_subslice k 0 cs of
                None \<Rightarrow> vundef
              | Some (pfx, rest) \<Rightarrow>
                  vthen (push_cellslice pfx) (vthen (if \<not> bit op 1 then push_cellslice val else vret ())
                    (vthen (push_cellslice rest)
                      (if op = 0 then vdo [push_bool True]
                       else if op = 1 then vret 0
                       else vbind (vget cp) (\<lambda>n.
                              if bit op 0 then call (OrdCont (cdata_new n) (Some val))
                              else jump (OrdCont (cdata_new n) (Some val)))))))))))"

section \<open>Jumps\<close>

definition exec_dict_get_exec :: "nat \<Rightarrow> int vm" where
  "exec_dict_get_exec args =
     vthen (check_underflow 3) (vbind (pop_dict (int max_key_bits)) (\<lambda>d. vbind pop_int_finite (\<lambda>idx.
       vbind (vbind (integer_key (Some idx) (key_bits d) (\<not> bit args 0) True) (\<lambda>k.
                case k of None \<Rightarrow> vret None | Some key \<Rightarrow> lookup_key d key)) (\<lambda>v.
         case v of
           Some val \<Rightarrow>
             vbind (vget cp) (\<lambda>n.
               if bit args 1 then call (OrdCont (cdata_new n) (Some val)) else jump (OrdCont (cdata_new n) (Some val)))
         | None \<Rightarrow> if bit args 2 then vdo [push_int (Some idx)] else vret 0))))"

text \<open>
  A dictionary in the code: a bit, which is set, with the root, and the length of the keys in ten bits. The prefix
  of the instruction includes these eleven bits.
\<close>

definition with_const_dict :: "nat \<Rightarrow> (slice \<Rightarrow> nat \<Rightarrow> int vm) \<Rightarrow> int vm" where
  "with_const_dict pfx_bits f =
     vbind (vget code_bits) (\<lambda>bs. vbind (vget code_refs) (\<lambda>rs.
       if \<not> pfx_bits \<le> length bs then vthrow inv_opcode
       else if \<not> 1 \<le> length rs then vthrow inv_opcode
       else vthen (code_advance (pfx_bits - 11)) (vbind (code_fetch_subslice 1 1) (\<lambda>slice.
              vbind (vget (\<lambda>s. bits_nat (take 10 (code_bits s)))) (\<lambda>n. vthen (code_advance 10) (f slice n))))))"

definition exec_push_const_dict :: "nat \<Rightarrow> nat \<Rightarrow> int vm" where
  "exec_push_const_dict args pfx_bits =
     with_const_dict pfx_bits (\<lambda>slice n.
       case prefetch_ref 0 slice of None \<Rightarrow> vundef | Some c \<Rightarrow> vdo [push_cell c, push_smallint (int n)])"

definition compute_len_push_const_dict :: "slice \<Rightarrow> nat \<Rightarrow> nat \<Rightarrow> nat" where
  "compute_len_push_const_dict cs args pfx_bits = (if have_both pfx_bits 1 cs then 2 ^ 16 + pfx_bits else 0)"

text \<open>The constructor from a slice, with validation: a bit, and a root if and only if it is set.\<close>

definition dictionary_of_slice :: "slice \<Rightarrow> nat \<Rightarrow> dictionary vm" where
  "dictionary_of_slice root n =
     (let non_empty = prefetch_ulong 1 root \<noteq> 0 in
      if n > max_key_bits \<or> sl_size root \<noteq> 1 \<or> sl_size_refs root \<noteq> (if non_empty then 1 else 0) then vthrow dict_err
      else vret \<lparr>root_cell = (if non_empty then prefetch_ref 0 root else None), key_bits = n\<rparr>)"

definition exec_const_pfx_dict_switch :: "nat \<Rightarrow> nat \<Rightarrow> int vm" where
  "exec_const_pfx_dict_switch args pfx_bits =
     with_const_dict pfx_bits (\<lambda>dict_slice n. vbind (dictionary_of_slice dict_slice n) (\<lambda>d.
       vbind pop_cellslice (\<lambda>cs1. vbind (lookup_prefix d (sl_bits cs1)) (\<lambda>(v, k).
         case v of
           None \<Rightarrow> vdo [push_cellslice cs1]
         | Some val \<Rightarrow>
             (case fetch_subslice k 0 cs1 of
                None \<Rightarrow> vundef
              | Some (pfx, rest) \<Rightarrow>
                  vthen (push_cellslice pfx) (vthen (push_cellslice rest)
                    (vbind (vget cp) (\<lambda>cpg. jump (OrdCont (cdata_new cpg) (Some val))))))))))"

definition exec_subdict_get :: "nat \<Rightarrow> int vm" where
  "exec_subdict_get args =
     vthen (check_underflow 4) (vbind (pop_dict (int max_key_bits)) (\<lambda>d.
       let mk = (if bit args 1 then (if bit args 0 then 256 else 257) else int max_key_bits) in
       vbind (pop_smallint_range (min mk (int (key_bits d))) 0) (\<lambda>k.
         with_key (bit args 1) (\<not> bit args 0) True (nat k) (vthrow cell_und) (\<lambda>key.
           vbind (cut_prefix_subdict d key (bit args 2)) (\<lambda>(ok, d').
             if \<not> ok then vthrow dict_err else vdo [push_dict d'])))))"

definition register_dictionary_ops :: "opcode_instr list" where
  "register_dictionary_ops =
     [mksimple 0xf400 16 exec_store_dict, mksimple 0xf401 16 exec_skip_dict,
      mksimple 0xf402 16 (exec_load_dict_slice 0), mksimple 0xf403 16 (exec_load_dict_slice 1),
      mksimple 0xf404 16 (exec_load_dict 0), mksimple 0xf405 16 (exec_load_dict 1),
      mksimple 0xf406 16 (exec_load_dict 2), mksimple 0xf407 16 (exec_load_dict 3),
      mkfixedrange 0xf40a 0xf410 16 3 exec_dict_get,
      mkfixedrange 0xf412 0xf418 16 3 (exec_dict_set SetMode_Set False),
      mkfixedrange 0xf41a 0xf420 16 3 (exec_dict_setget SetMode_Set False),
      mkfixedrange 0xf422 0xf428 16 3 (exec_dict_set SetMode_Replace False),
      mkfixedrange 0xf42a 0xf430 16 3 (exec_dict_setget SetMode_Replace False),
      mkfixedrange 0xf432 0xf438 16 3 (exec_dict_set SetMode_Add False),
      mkfixedrange 0xf43a 0xf440 16 3 (exec_dict_setget SetMode_Add False),
      mkfixedrange 0xf441 0xf444 16 2 (exec_dict_set SetMode_Set True),
      mkfixedrange 0xf445 0xf448 16 2 (exec_dict_setget SetMode_Set True),
      mkfixedrange 0xf449 0xf44c 16 2 (exec_dict_set SetMode_Replace True),
      mkfixedrange 0xf44d 0xf450 16 2 (exec_dict_setget SetMode_Replace True),
      mkfixedrange 0xf451 0xf454 16 2 (exec_dict_set SetMode_Add True),
      mkfixedrange 0xf455 0xf458 16 2 (exec_dict_setget SetMode_Add True),
      mkfixedrange 0xf459 0xf45c 16 2 exec_dict_delete,
      mkfixedrange 0xf462 0xf468 16 3 exec_dict_deleteget,
      mkfixedrange 0xf469 0xf46c 16 2 exec_dict_get_optref,
      mkfixedrange 0xf46d 0xf470 16 2 exec_dict_setget_optref,
      mksimple 0xf470 16 (exec_pfx_dict_set SetMode_Set), mksimple 0xf471 16 (exec_pfx_dict_set SetMode_Replace),
      mksimple 0xf472 16 (exec_pfx_dict_set SetMode_Add), mksimple 0xf473 16 exec_pfx_dict_delete,
      mkfixedrange 0xf474 0xf480 16 4 exec_dict_getnear,
      mkfixedrange 0xf482 0xf488 16 5 exec_dict_getmin, mkfixedrange 0xf48a 0xf490 16 5 exec_dict_getmin,
      mkfixedrange 0xf492 0xf498 16 5 exec_dict_getmin, mkfixedrange 0xf49a 0xf4a0 16 5 exec_dict_getmin,
      mkfixed 0x3d28 14 2 exec_dict_get_exec,
      mkextrange 0xf4a400 0xf4a800 24 11 exec_push_const_dict,
      mksimple 0xf4a8 16 (exec_pfx_dict_get 0), mksimple 0xf4a9 16 (exec_pfx_dict_get 1),
      mksimple 0xf4aa 16 (exec_pfx_dict_get 2), mksimple 0xf4ab 16 (exec_pfx_dict_get 3),
      mkextrange 0xf4ac00 0xf4b000 24 11 exec_const_pfx_dict_switch,
      mkfixedrange 0xf4b1 0xf4b4 16 3 exec_subdict_get, mkfixedrange 0xf4b5 0xf4b8 16 3 exec_subdict_get,
      mkfixed 0x3d2f 14 2 exec_dict_get_exec]"

section \<open>Safety\<close>

lemma wp_dsafe_all:
  assumes "vm_inv s0 s" "dsafe m (\<lambda>a. \<forall>s'. vm_inv s0 s' \<longrightarrow> (has_code s \<longrightarrow> has_code s') \<longrightarrow> Q a s')"
  shows "wp m Q (vm_inv s0) s"
  by (rule wp_dsafe [OF assms(2,1)]) blast

lemmas wp_dict = allI impI dsafe_rules
  wp_dsafe_all [of _ _ "lookup_key d k" for d k] wp_dsafe_all [of _ _ "lookup_ref d k" for d k]
  wp_dsafe_all [of _ _ "integer_key x n sg q" for x n sg q] wp_dsafe_all [of _ _ "set_builder d k v md" for d k v md]
  wp_dsafe_all [of _ _ "dict_set_slice d k v md" for d k v md] wp_dsafe_all [of _ _ "set_ref d k v md" for d k v md]
  wp_dsafe_all [of _ _ "lookup_set_builder d k v md" for d k v md] wp_dsafe_all [of _ _ "lookup_set d k v md" for d k v md]
  wp_dsafe_all [of _ _ "lookup_set_ref d k v md" for d k v md] wp_dsafe_all [of _ _ "lookup_delete d k" for d k]
  wp_dsafe_all [of _ _ "lookup_delete_ref d k" for d k] wp_dsafe_all [of _ _ "get_minmax_key d n mx fi" for d n mx fi]
  wp_dsafe_all [of _ _ "lookup_nearest_key d k u e fi" for d k u e fi] wp_dsafe_all [of _ _ "extract_minmax_key d n mx fi" for d n mx fi]
  wp_dsafe_all [of _ _ "cut_prefix_subdict d k rm" for d k rm] wp_dsafe_all [of _ _ "lookup_prefix d k" for d k]
  wp_dsafe_all [of _ _ "pfx_set d k v md" for d k v md] wp_dsafe_all [of _ _ "pfx_lookup_delete d k" for d k]
  wp_dsafe_all [of _ _ "extract_value_ref v" for v]

lemma wp_push_maybe_cell [wp_rules]:
  assumes "stack_ok (stk s)" "pred_option cell_ok c" "\<And>xs. stack_ok xs \<Longrightarrow> int (length xs) = depth s + 1 \<Longrightarrow> Q () (s\<lparr>stk := xs\<rparr>)"
  shows "wp (push_maybe_cell c) Q R s"
  unfolding push_maybe_cell_def push_defs by (intro wp_rules) (use assms in auto)

lemma wp_push_dict [wp_rules]:
  assumes "stack_ok (stk s)" "dict_ok d" "\<And>xs. stack_ok xs \<Longrightarrow> int (length xs) = depth s + 1 \<Longrightarrow> Q () (s\<lparr>stk := xs\<rparr>)"
  shows "wp (push_dict d) Q R s"
  unfolding push_dict_def by (intro wp_rules) (use assms in \<open>auto simp: dict_ok_def\<close>)

lemma wp_pop_dict [wp_rules]:
  assumes "stack_ok (stk s)" "R s" "\<And>xs. stack_ok xs \<Longrightarrow> R (s\<lparr>stk := xs\<rparr>)"
    "\<And>d xs. dict_ok d \<Longrightarrow> int (key_bits d) \<le> mx \<Longrightarrow> stack_ok xs \<Longrightarrow> Q d (s\<lparr>stk := xs\<rparr>)"
  shows "wp (pop_dict mx) Q R s"
  unfolding pop_dict_def by (intro wp_rules) (use assms in \<open>auto simp: dict_ok_def pred_option_def elem_set\<close>)


lemma wp_ensure_throw [wp_rules]: "b \<Longrightarrow> Q 0 s \<Longrightarrow> wp (ensure_throw b) Q R s"
  by (simp add: ensure_throw_def wp_vret)

lemma wp_vdo_if [wp_rules]:
  "(b \<Longrightarrow> wp (vdo ms) Q R s) \<Longrightarrow> (\<not> b \<Longrightarrow> wp (vdo ns) Q R s) \<Longrightarrow> wp (vdo (if b then ms else ns)) Q R s"
  by simp

lemma vdo_append: "vdo (ms @ ns) = vbind (vdo ms) (\<lambda>_. vdo ns)"
  by (induction ms) (simp_all add: vbind_vret vthen_def vbind_assoc)

lemma wp_vdo_append [wp_rules]: "wp (vdo ms) (\<lambda>_. wp (vdo ns) Q R) R s \<Longrightarrow> wp (vdo (ms @ ns)) Q R s"
  unfolding vdo_append by (rule wp_vbind)

lemma prefetch_bits_length: "prefetch_bits n cs = Some key \<Longrightarrow> length key = n"
  by (auto simp: prefetch_bits_def slice_defs split: if_splits)

lemma dict_nonempty_ok:
  assumes "dict_nonempty cs = Some res"
  shows "have_both (Suc 0) res cs" "have_bits (Suc 0) cs" "have_refs res cs" "res = 0 \<or> res = 1 \<and> have_refs (Suc 0) cs"
    "int257 (- int res)"
proof -
  have res: "res = bits_nat (take 1 (sl_bits cs))" "have_bits 1 cs" "have_refs res cs"
    using assms by (auto simp: dict_nonempty_def Let_def prefetch_ulong_def split: if_splits)
  then have "res \<le> 1" using bits_nat_less [of "take 1 (sl_bits cs)"] by (simp add: slice_defs)
  then show "have_both (Suc 0) res cs" "have_bits (Suc 0) cs" "have_refs res cs" "res = 0 \<or> res = 1 \<and> have_refs (Suc 0) cs"
    "int257 (- int res)"
    using res by (auto simp: have_both_iff le_Suc_eq int257_def)
qed

lemma advance_have_refs: "advance n cs = Some cs' \<Longrightarrow> have_refs r cs' = have_refs r cs"
  by (auto simp: slice_defs split: if_splits)

lemma advance_ext_None [simp]: "advance_ext n r cs = None \<longleftrightarrow> \<not> (have_bits n cs \<and> have_refs r cs)"
  by (auto simp: advance_ext_def slice_defs)

lemma builder_ok_maybe_ref: "store_maybe_ref d b = Some b' \<Longrightarrow> builder_ok b \<Longrightarrow> (\<forall>c. d = Some c \<longrightarrow> cell_ok c) \<Longrightarrow> builder_ok b'"
  by (auto simp: store_maybe_ref_def split: option.splits dest: builder_ok_store)

lemma prefetch_long_one: "have_bits (Suc 0) cs \<Longrightarrow> int257 (not (prefetch_long (Suc 0) cs))"
  by (auto simp: prefetch_long_def int257_def slice_defs bits_int_def Suc_le_length_iff bits_nat_Cons)

lemma dict_slice_safe:
  "vm_safe exec_dict_empty" "vm_safe exec_store_dict" "vm_safe exec_skip_dict" "vm_safe exec_load_optref" "vm_safe exec_preload_optref"
  unfolding exec_dict_empty_def exec_store_dict_def exec_skip_dict_def exec_load_optref_def exec_preload_optref_def
     dict_nonempty_chk_def push_defs
  by (rule vm_safeI; intro wp_rules wp_vundef; auto simp: prefetch_long_one advance_have_refs dest: builder_ok_maybe_ref slice_ok_dest dict_nonempty_ok)+

lemma dict_load_safe:
  "vm_safe (exec_load_dict_slice args)" "vm_safe (exec_load_dict args)"
  unfolding exec_load_dict_slice_def exec_load_dict_def push_quiet_def push_defs
  by (rule vm_safeI; intro wp_rules wp_vundef; auto dest: slice_ok_dest dict_nonempty_ok intro: prefetch_ref_ok)+

lemma dict_get_safe: "vm_safe (exec_dict_get args)" "vm_safe (exec_dict_get_optref args)"
  unfolding exec_dict_get_def exec_dict_get_optref_def with_key_def push_defs
  by (rule vm_safeI; intro wp_rules wp_dict; auto dest: prefetch_bits_length)+

lemma dict_set_safe: "vm_safe (exec_dict_set mode bld args)" "vm_safe (exec_dict_setget mode bld args)" "vm_safe (exec_dict_setget_optref args)"
  unfolding exec_dict_set_def exec_dict_setget_def exec_dict_setget_optref_def pop_set_key_def chk_key_def push_defs push_old_def Let_def
  by (rule vm_safeI; intro wp_rules wp_dict; auto dest: prefetch_bits_length)+

lemma dict_delete_safe: "vm_safe (exec_dict_delete args)" "vm_safe (exec_dict_deleteget args)" 
  unfolding exec_dict_delete_def exec_dict_deleteget_def with_key_def push_defs push_old_def Let_def
  by (rule vm_safeI; intro wp_rules wp_dict; auto dest: prefetch_bits_length)+

lemma wp_push_key:
  assumes "vm_inv s0 s" "has_code s" "is_int \<Longrightarrow> key \<noteq> []" "\<And>s'. vm_inv s0 s' \<Longrightarrow> has_code s' \<Longrightarrow> Q () s'"
  shows "wp (push_key is_int sgnd key) Q (vm_inv s0) s"
  unfolding push_key_def push_defs
  by (intro wp_rules wp_dict wp_vundef wp_dsafe_all [of _ _ "vwrite b" for b])
    (use assms in \<open>auto elim: builder_ok_store(1) [rotated]\<close>)

lemma wp_unless_push_key:
  assumes "vm_inv s0 s" "has_code s"
  shows "wp_unless is_int (vdo [push_key is_int sgnd key, push_bool True]) (post_ok s0) (vm_inv s0) s"
proof (cases "is_int \<and> key = []")
  case True
  then show ?thesis by (simp add: wp_unless_def vthen_def vbind_def push_key_def vundef_def)
next
  case False
  have "wp (vdo [push_key is_int sgnd key, push_bool True]) (post_ok s0) (vm_inv s0) s"
    unfolding push_defs by (intro wp_rules wp_push_key) (use assms False in auto)
  then show ?thesis by (rule wp_unless_wp)
qed

lemma wp_unless_found:
  assumes "vm_inv s0 s" "has_code s" "entry_ok x"
  shows "wp_unless is_int (vdo [push x, push_key is_int sgnd key, push_bool True]) (post_ok s0) (vm_inv s0) s"
  unfolding vdo.simps(2) [of "push x"]
  by (intro wp_unless_vthen wp_push wp_unless_push_key) (use assms in auto)

lemma wp_unless_case_prod: "(\<And>a b. p = (a, b) \<Longrightarrow> wp_unless U (f a b) Q R s) \<Longrightarrow> wp_unless U (case p of (a, b) \<Rightarrow> f a b) Q R s"
  by (cases p) simp

lemma wp_unless_option:
  "(x = None \<Longrightarrow> wp_unless U m Q R s) \<Longrightarrow> (\<And>a. x = Some a \<Longrightarrow> wp_unless U (f a) Q R s) \<Longrightarrow>
     wp_unless U (case x of None \<Rightarrow> m | Some a \<Rightarrow> f a) Q R s"
  by (cases x) simp_all

lemma dict_getmin_unless: "vm_safe_unless (bit args 2) (exec_dict_getmin args)"
proof -
  define val where "val res = (if \<not> bit args 0 then vret (map_option (\<lambda>(v, key). SliceVal v) res)
    else vbind (extract_value_ref (map_option fst res)) (\<lambda>c. vret (map_option CellVal c)))" for res :: "(slice \<times> bits) option"
  have val: "dsafe (val res) P" if "pred_option (\<lambda>(v, key). slice_ok v) res" "\<And>x. pred_option entry_ok x \<Longrightarrow> P x" for res P
    unfolding val_def by (intro dsafe_rules) (use that in \<open>auto simp: option.pred_map comp_def split_def\<close>)
  have found: "wp_unless (bit args 2) (case (x, res) of (Some x, Some (v, key)) \<Rightarrow>
      vdo [push x, push_key (bit args 2) sgnd key, push_bool True] | _ \<Rightarrow> vdo [push_bool False]) (post_ok s0) (vm_inv s0) s"
    if "vm_inv s0 s" "has_code s" "pred_option entry_ok x" for x and res :: "(slice \<times> bits) option" and sgnd s0 s
  proof -
    have "wp_unless (bit args 2) (vdo [push_bool False]) (post_ok s0) (vm_inv s0) s"
      unfolding push_defs by (intro wp_unless_wp wp_rules) (use that in auto)
    with that show ?thesis by (auto simp del: vdo.simps split: option.split intro!: wp_unless_found)
  qed
  have step: "wp_unless (bit args 2) (vbind (val res) (\<lambda>x. vthen (if bit args 4 then push_dict d else vret ())
      (case (x, res) of (Some x, Some (v, key)) \<Rightarrow> vdo [push x, push_key (bit args 2) sgnd key, push_bool True]
       | _ \<Rightarrow> vdo [push_bool False]))) (post_ok s0) (vm_inv s0) s"
    if "vm_inv s0 s" "has_code s" "pred_option (\<lambda>(v, key). slice_ok v) res" "dict_ok d" for s0 s res d sgnd
  proof (rule wp_unless_vbind, rule wp_dsafe_all [OF that(1)], rule val [OF that(3)], intro allI impI, rule wp_unless_vthen)
    fix x s' assume "pred_option entry_ok x" "vm_inv s0 s'" "has_code s \<longrightarrow> has_code s'"
    then show "wp (if bit args 4 then push_dict d else vret ())
      (\<lambda>_. wp_unless (bit args 2) (case (x, res) of (Some x, Some (v, key)) \<Rightarrow>
         vdo [push x, push_key (bit args 2) sgnd key, push_bool True] | _ \<Rightarrow> vdo [push_bool False]) (post_ok s0) (vm_inv s0))
      (vm_inv s0) s'"
      using that by (intro wp_if wp_push_dict wp_vret found) auto
  qed
  show ?thesis
    unfolding vm_safe_unless_def exec_dict_getmin_def val_def [symmetric]
    by (intro allI impI wp_unless_vthen wp_check_underflow wp_unless_vbind [of "pop_dict n" for n] wp_pop_dict
        wp_unless_vbind [of "if c then m else n" for c m n] wp_unless_case_prod step wp_if wp_vbind wp_vret wp_dict)
      (auto dest: vm_inv_refl)
qed

lemma dict_getnear_unless: "vm_safe_unless (bit args 3) (exec_dict_getnear args)"
proof -
  have no: "wp_unless (bit args 3) (vdo [push_bool False]) (post_ok s0) (vm_inv s0) s" if "vm_inv s0 s" "has_code s" for s0 s
    unfolding push_defs by (intro wp_unless_wp wp_rules) (use that in auto)
  show ?thesis
    unfolding vm_safe_unless_def exec_dict_getnear_def Let_def push_cellslice_def
    by (intro allI impI wp_unless_vbind wp_unless_vthen wp_unless_case_prod wp_unless_option no wp_unless_found wp_rules wp_dict)
      (auto dest: vm_inv_refl)
qed

lemma pfx_dict_safe: "vm_safe (exec_pfx_dict_set mode)" "vm_safe exec_pfx_dict_delete"
  unfolding exec_pfx_dict_set_def exec_pfx_dict_delete_def push_defs
  by (rule vm_safeI; intro wp_rules wp_dict; auto)+

lemma cont_ok_slice: "slice_ok cs \<Longrightarrow> cont_ok (OrdCont (cdata_new n) (Some cs))"
  by (simp add: cdata_new_def cregs_clear_def)

lemma fetch_subslice_prefix: "slice_ok cs \<Longrightarrow> fetch_subslice k 0 cs = None \<longleftrightarrow> sl_size cs < k"
  by (auto simp: slice_defs)

lemma pfx_dict_get_safe: "vm_safe (exec_pfx_dict_get op)"
  unfolding exec_pfx_dict_get_def push_defs
  by (rule vm_safeI; intro wp_rules wp_dict wp_vundef; auto simp: cont_ok_slice have_both_iff slice_defs dest: slice_ok_dest)

lemma dict_get_exec_safe: "vm_safe (exec_dict_get_exec args)"
  unfolding exec_dict_get_exec_def push_defs
  by (rule vm_safeI; intro wp_rules wp_dict; auto simp: cont_ok_slice)

lemma subdict_get_safe: "vm_safe (exec_subdict_get args)"
  unfolding exec_subdict_get_def with_key_def push_defs Let_def
  by (rule vm_safeI; intro wp_rules wp_dict; auto)

lemma wp_with_const_dict:
  assumes "vm_inv s0 s" "has_code s" "11 \<le> pfx"
    "\<And>sl n cs'. slice_ok sl \<Longrightarrow> sl_size_refs sl = 1 \<Longrightarrow> n \<le> 1023 \<Longrightarrow> slice_ok cs' \<Longrightarrow> wp (f sl n) Q (vm_inv s0) (s\<lparr>code := Some cs'\<rparr>)"
  shows "wp (with_const_dict pfx f) Q (vm_inv s0) s"
proof -
  obtain cs where cs: "code s = Some cs" "slice_ok cs" using has_code_Some [OF assms(2)] by blast
  show ?thesis
  proof (cases "pfx \<le> length (sl_bits cs) \<and> sl_refs cs \<noteq> []")
    case True
    define cs1 where "cs1 = drop_bits (pfx - 11) cs"
    define sl where "sl = first_part 1 1 cs1"
    define cs2 where "cs2 = drop_refs 1 (drop_bits 1 cs1)"
    have ok: "slice_ok sl" "slice_ok (drop_bits 10 cs2)" "sl_size_refs sl = 1"
      using cs(2) by (simp_all add: sl_def cs2_def cs1_def) (use True in \<open>simp add: slice_defs Suc_le_eq\<close>)
    have "bits_nat (take 10 (sl_bits cs2)) < 2 ^ 10"
      using bits_nat_less [of "take 10 (sl_bits cs2)"] by (rule less_le_trans) (rule power_increasing, simp_all)
    then have "wp (f sl (bits_nat (take 10 (sl_bits cs2)))) Q (vm_inv s0) (s\<lparr>code := Some (drop_bits 10 cs2)\<rparr>)"
      by (intro assms(4) ok) simp_all
    moreover have "fetch_subslice 1 1 cs1 = Some (sl, cs2)" "10 \<le> length (sl_bits cs2)" "pfx - 11 \<le> length (sl_bits cs)"
      using True assms(3) by (auto simp: cs1_def cs2_def sl_def slice_defs Suc_le_eq)
    ultimately show ?thesis
      using True cs(1) unfolding with_const_dict_def
      by (simp add: wp_def vbind_def vthen_def vget_def code_bits_def code_refs_def code_advance_def vmod_def
          code_fetch_subslice_def drop_bits_def cs1_def Suc_le_eq)
  next
    case False
    then show ?thesis
      using cs(1) assms(1) unfolding with_const_dict_def
      by (auto simp: wp_def vbind_def vthen_def vget_def code_bits_def code_refs_def vthrow_def Suc_le_eq)
  qed
qed

lemma const_dict_safe:
  assumes "11 \<le> pfx"
  shows "vm_safe (exec_push_const_dict args pfx)" "vm_safe (exec_const_pfx_dict_switch args pfx)"
proof -
  show "vm_safe (exec_push_const_dict args pfx)"
    unfolding exec_push_const_dict_def push_defs
    by (rule vm_safeI; intro wp_rules wp_vundef wp_with_const_dict) (use assms in \<open>auto simp: have_refs_def int257_nat dest: slice_ok_ref\<close>)
  show "vm_safe (exec_const_pfx_dict_switch args pfx)"
    unfolding exec_const_pfx_dict_switch_def dictionary_of_slice_def push_defs Let_def
    by (rule vm_safeI; intro wp_rules wp_dict wp_vundef wp_with_const_dict)
      (use assms in \<open>auto simp: cont_ok_slice have_both_iff slice_defs dict_ok_def prefetch_ref_ok dest: slice_ok_dest\<close>)
qed

text \<open>Instructions with an undefined shift for keys of no bits.\<close>

lemma dict_keys_instr_safe:
  "instr_safe (mkfixedrange 0xf474 0xf480 16 4 exec_dict_getnear)"
  "0xf480 \<le> a \<Longrightarrow> b \<le> 0xf4a0 \<Longrightarrow> instr_safe (mkfixedrange a b 16 5 exec_dict_getmin)"
proof -
  have range: "a \<le> opcode div 2 ^ 8 \<and> opcode div 2 ^ 8 < b" if "a * 2 ^ 8 \<le> opcode" "opcode < b * 2 ^ 8" for a b opcode :: nat
    using that by (simp add: less_eq_div_iff_mult_less_eq div_less_iff_less_mult)
  show "instr_safe (mkfixedrange 0xf474 0xf480 16 4 exec_dict_getnear)"
    unfolding instr_safe_def mkfixedrange_def
    using dict_getnear_unless range [of "0xf474" _ "0xf480"]
    by (force simp: vm_safe_unless_def ub_opcode_def elim!: wp_unless_mono)
  show "0xf480 \<le> a \<Longrightarrow> b \<le> 0xf4a0 \<Longrightarrow> instr_safe (mkfixedrange a b 16 5 exec_dict_getmin)"
    unfolding instr_safe_def mkfixedrange_def
    using dict_getmin_unless range [of a _ b]
    by (force simp: vm_safe_unless_def ub_opcode_def elim!: wp_unless_mono)
qed

lemma const_dict_instr_safe:
  "instr_safe (mkextrange a b 24 11 exec_push_const_dict)" "instr_safe (mkextrange a b 24 11 exec_const_pfx_dict_switch)"
  by (simp_all add: instr_safe_def mkextrange_def vm_safe_unless_safe const_dict_safe)

lemma register_dictionary_ops_safe: "\<forall>i \<in> set register_dictionary_ops. instr_safe i"
  unfolding register_dictionary_ops_def
  by (simp add: instr_safe_args dict_slice_safe dict_load_safe dict_get_safe dict_set_safe dict_delete_safe pfx_dict_safe
      pfx_dict_get_safe dict_get_exec_safe subdict_get_safe dict_keys_instr_safe const_dict_instr_safe)

end
