(* ===== verification/OpTables.thy ===== *)
theory OpTables
  imports DictOps "HOL-Library.Multiset"
begin

text \<open>
  The opcode table (\<open>class OpcodeTable\<close> of \<open>opctable.cpp\<close>): instructions are inserted into a map
  ordered by their first opcode, \<open>finalize\<close> fills the gaps with dummies, and
  \<open>lookup_instr\<close> searches the list by halving. The interface the interpreter relies on, that
  every opcode finds a safe instruction whose range holds it, is the locale
  \<open>dispatch_table\<close>; the table of codepage 0 (\<open>cp0.cpp\<close>) is an instance.
\<close>

section \<open>Building the table\<close>

record opcode_table =
  tab_instructions :: "opcode_instr list"
  tab_list :: "opcode_instr list"
  tab_final :: bool

definition empty_table :: opcode_table where
  "empty_table = \<lparr>tab_instructions = [], tab_list = [], tab_final = False\<rparr>"

text \<open>
  \<open>insert_bool\<close> on the map, kept as a list in the order of its keys: \<open>lower_bound\<close> splits it.
  \<open>None\<close> is the result \<open>false\<close>, for which \<open>insert\<close> stops the program.
\<close>

definition insert_sorted_instr :: "opcode_instr \<Rightarrow> opcode_instr list \<Rightarrow> opcode_instr list option" where
  "insert_sorted_instr i t =
     (let lo = takeWhile (\<lambda>j. op_min j < op_min i) t; hi = dropWhile (\<lambda>j. op_min j < op_min i) t
      in if hi \<noteq> [] \<and> op_min (hd hi) < op_max i then None
         else if lo \<noteq> [] \<and> op_max (last lo) > op_min i then None
         else Some (lo @ i # hi))"

definition insert_bool :: "opcode_instr \<Rightarrow> opcode_table \<Rightarrow> opcode_table option" where
  "insert_bool i t =
     (if tab_final t then None
      else map_option (\<lambda>l. t\<lparr>tab_instructions := l\<rparr>) (insert_sorted_instr i (tab_instructions t)))"

fun insert_all :: "opcode_instr list \<Rightarrow> opcode_table \<Rightarrow> opcode_table option" where
  "insert_all [] t = Some t"
| "insert_all (i # is) t = (case insert_bool i t of None \<Rightarrow> None | Some t' \<Rightarrow> insert_all is t')"

text \<open>The loop of \<open>finalize\<close>.\<close>

fun fill_gaps :: "nat \<Rightarrow> opcode_instr list \<Rightarrow> opcode_instr list" where
  "fill_gaps up [] = (if up < top_opcode then [mkdummy up top_opcode] else [])"
| "fill_gaps up (x # xs) =
     (if op_min x > up then [mkdummy up (op_min x)] else []) @ x # fill_gaps (op_max x) xs"

definition finalize :: "opcode_table \<Rightarrow> opcode_table" where
  "finalize t =
     (if tab_final t then t
      else t\<lparr>tab_list := fill_gaps 0 (tab_instructions t), tab_final := True\<rparr>)"

section \<open>Searching it\<close>

text \<open>The loop of \<open>lookup_instr\<close>, with \<open>i < j\<close> as it is called.\<close>

function search :: "opcode_instr list \<Rightarrow> nat \<Rightarrow> nat \<Rightarrow> nat \<Rightarrow> nat" where
  "search l opcode i j =
     (if j - i > 1 then
        let k = (j + i) div 2
        in if op_min (l ! k) \<le> opcode then search l opcode k j else search l opcode i k
      else i)"
  by auto
termination by (relation "measure (\<lambda>(l, opcode, i, j). j - i)") auto

declare search.simps [simp del]

definition lookup_instr :: "opcode_table \<Rightarrow> nat \<Rightarrow> opcode_instr" where
  "lookup_instr t opcode = tab_list t ! search (tab_list t) opcode 0 (length (tab_list t))"

text \<open>The next opcode: the first 24 bits of the code, padded with zeros, and how many there are.\<close>

definition cur_bits :: "vm_state \<Rightarrow> nat" where
  "cur_bits s = min 24 (length (code_bits s))"

definition cur_opcode :: "vm_state \<Rightarrow> nat" where
  "cur_opcode s = bits_nat (take 24 (code_bits s) @ replicate (24 - length (code_bits s)) False)"

definition dispatch :: "(nat \<Rightarrow> opcode_instr) \<Rightarrow> int vm" where
  "dispatch lookup = (\<lambda>s. instr_dispatch (lookup (cur_opcode s)) (cur_opcode s) (cur_bits s) s)"

section \<open>Correctness of the table\<close>

definition instr_wf :: "opcode_instr \<Rightarrow> bool" where
  "instr_wf i \<longleftrightarrow> op_min i < op_max i \<and> op_max i \<le> top_opcode"

text \<open>A chain of ranges from \<open>lo\<close> on, in order and without overlap.\<close>

fun chain :: "nat \<Rightarrow> opcode_instr list \<Rightarrow> bool" where
  "chain lo [] = (lo \<le> top_opcode)"
| "chain lo (x # xs) = (lo \<le> op_min x \<and> op_min x < op_max x \<and> chain (op_max x) xs)"

lemma chain_le: "chain lo xs \<Longrightarrow> lo \<le> top_opcode"
  by (induction lo xs rule: chain.induct) auto

lemma chain_mono: "chain lo xs \<Longrightarrow> lo' \<le> lo \<Longrightarrow> chain lo' xs"
  by (cases xs) auto

lemma chain_append:
  "chain lo (xs @ ys) \<longleftrightarrow> chain lo xs \<and> chain (if xs = [] then lo else op_max (last xs)) ys"
proof (induction lo xs rule: chain.induct)
  case (1 lo)
  then show ?case using chain_le by auto
next
  case (2 lo x xs)
  then show ?case by auto
qed

text \<open>The same chain without gaps: every opcode from \<open>lo\<close> on is in exactly one range.\<close>

fun exact_chain :: "nat \<Rightarrow> opcode_instr list \<Rightarrow> bool" where
  "exact_chain lo [] = (lo = top_opcode)"
| "exact_chain lo (x # xs) = (lo = op_min x \<and> op_min x < op_max x \<and> exact_chain (op_max x) xs)"

lemma exact_chain_chain: "exact_chain lo xs \<Longrightarrow> chain lo xs"
  by (induction lo xs rule: exact_chain.induct) auto

lemma fill_gaps_exact: "chain lo xs \<Longrightarrow> exact_chain lo (fill_gaps lo xs)"
  by (induction lo xs rule: fill_gaps.induct) (auto simp: mkdummy_def)

lemma set_fill_gaps: "i \<in> set (fill_gaps lo xs) \<Longrightarrow> i \<in> set xs \<or> (\<exists>a b. i = mkdummy a b)"
  by (induction lo xs rule: fill_gaps.induct) (auto split: if_splits)

lemma exact_chain_nth:
  assumes "exact_chain lo xs" "i < length xs"
  shows "op_min (xs ! i) < op_max (xs ! i)"
    "Suc i < length xs \<Longrightarrow> op_min (xs ! Suc i) = op_max (xs ! i)"
    "Suc i = length xs \<Longrightarrow> op_max (xs ! i) = top_opcode"
proof -
  have "op_min (xs ! i) < op_max (xs ! i) \<and> (Suc i < length xs \<longrightarrow> op_min (xs ! Suc i) = op_max (xs ! i)) \<and>
      (Suc i = length xs \<longrightarrow> op_max (xs ! i) = top_opcode)"
    using assms
  proof (induction lo xs arbitrary: i rule: exact_chain.induct)
    case (2 lo x xs)
    show ?case
    proof (cases i)
      case 0
      with 2(2) show ?thesis by (cases xs) auto
    next
      case (Suc j)
      from 2(1) [of j] 2(2,3) show ?thesis unfolding Suc by (auto simp: nth_Cons split: nat.split)
    qed
  qed simp
  then show "op_min (xs ! i) < op_max (xs ! i)"
    "Suc i < length xs \<Longrightarrow> op_min (xs ! Suc i) = op_max (xs ! i)"
    "Suc i = length xs \<Longrightarrow> op_max (xs ! i) = top_opcode"
    by blast+
qed

lemma exact_chain_mono:
  assumes "exact_chain lo xs" "i < j" "j < length xs"
  shows "op_max (xs ! i) \<le> op_min (xs ! j)"
  using assms(2,3)
proof (induction j)
  case (Suc j)
  note e = exact_chain_nth [OF assms(1), of j]
  show ?case
  proof (cases "i = j")
    case True
    then show ?thesis using e(2) Suc.prems by simp
  next
    case False
    then have "op_max (xs ! i) \<le> op_min (xs ! j)" using Suc by simp
    also have "\<dots> < op_max (xs ! j)" using e(1) Suc.prems by simp
    finally show ?thesis using e(2) Suc.prems by simp
  qed
qed simp

text \<open>The search keeps the entry that holds the opcode between its two bounds.\<close>

lemma search_range:
  assumes "exact_chain lo l" "i < j" "j \<le> length l" "op_min (l ! i) \<le> opcode" "opcode < op_max (l ! (j - 1))"
  shows "search l opcode i j < length l \<and> op_min (l ! search l opcode i j) \<le> opcode \<and>
    opcode < op_max (l ! search l opcode i j)"
  using assms
proof (induction l opcode i j rule: search.induct)
  case (1 l opcode i j)
  let ?k = "(j + i) div 2"
  show ?case
  proof (cases "j - i > 1")
    case True
    then have k: "i < ?k" "?k < j" by auto
    show ?thesis
    proof (cases "op_min (l ! ?k) \<le> opcode")
      case le: True
      with 1(1) [OF True refl le] 1(3-) k True show ?thesis by (simp add: search.simps [of l opcode i j] Let_def)
    next
      case gt: False
      have "op_max (l ! (?k - 1)) = op_min (l ! ?k)"
        using exact_chain_nth(2) [OF 1(3), of "?k - 1"] k 1(5) by simp
      with 1(2) [OF True refl gt] 1(3-) k True gt show ?thesis by (simp add: search.simps [of l opcode i j] Let_def)
    qed
  next
    case False
    with 1(4) have "j = Suc i" by simp
    with 1(5-) show ?thesis by (simp add: search.simps [of l opcode i "Suc i"])
  qed
qed

text \<open>Insertion keeps the chain.\<close>

lemma insert_sorted_chain:
  assumes "insert_sorted_instr i t = Some t'" "chain 0 t" "instr_wf i"
  shows "chain 0 t'" "set t' = insert i (set t)"
proof -
  let ?lo = "takeWhile (\<lambda>j. op_min j < op_min i) t" and ?hi = "dropWhile (\<lambda>j. op_min j < op_min i) t"
  have t': "t' = ?lo @ i # ?hi" and hi: "?hi = [] \<or> op_max i \<le> op_min (hd ?hi)" and lo: "?lo = [] \<or> op_max (last ?lo) \<le> op_min i"
    using assms(1) by (auto simp: insert_sorted_instr_def Let_def split: if_splits)
  have "chain 0 (?lo @ ?hi)" using assms(2) by simp
  then have c: "chain 0 ?lo" "chain (if ?lo = [] then 0 else op_max (last ?lo)) ?hi" unfolding chain_append by blast+
  have "chain (op_max i) h" if "chain lo h" "h = [] \<or> op_max i \<le> op_min (hd h)" for lo h
    using that assms(3) by (cases h) (auto simp: instr_wf_def)
  then have "chain (op_max i) ?hi" using c(2) hi by blast
  then show "chain 0 t'"
    unfolding t' chain_append using c(1) lo assms(3) by (auto simp: instr_wf_def)
  show "set t' = insert i (set t)"
    unfolding t' using set_append [of ?lo ?hi] by auto
qed

lemma insert_all_chain:
  assumes "insert_all is t = Some t'" "chain 0 (tab_instructions t)" "\<forall>i \<in> set is. instr_wf i" "\<not> tab_final t"
  shows "chain 0 (tab_instructions t') \<and> set (tab_instructions t') = set is \<union> set (tab_instructions t) \<and> \<not> tab_final t'"
  using assms
proof (induction "is" t rule: insert_all.induct)
  case (2 i "is" t)
  from 2(2,5) obtain l where l: "insert_sorted_instr i (tab_instructions t) = Some l"
    and r: "insert_all is (t\<lparr>tab_instructions := l\<rparr>) = Some t'"
    by (auto simp: insert_bool_def split: option.splits)
  note c = insert_sorted_chain [OF l 2(3)]
  have b: "insert_bool i t = Some (t\<lparr>tab_instructions := l\<rparr>)" using l 2(5) by (simp add: insert_bool_def)
  show ?case using 2(1) [OF b r] c 2(4,5) by auto
qed simp

section \<open>The interface of the interpreter\<close>

locale dispatch_table =
  fixes lookup :: "nat \<Rightarrow> opcode_instr"
  assumes lookup_range: "opcode < top_opcode \<Longrightarrow> op_min (lookup opcode) \<le> opcode \<and> opcode < op_max (lookup opcode)"
    and lookup_safe: "opcode < top_opcode \<Longrightarrow> instr_safe (lookup opcode)"
begin

text \<open>
  One instruction from a well-formed state: unless the opcode is one of those singled out, there is
  a result, and with every result the invariant is kept and at least ten units of gas are gone.
\<close>

lemma dispatch_safe:
  assumes "vm_wf s" "has_code s" "cur_opcode s < top_opcode"
  shows "wp_unless (ub_opcode (cur_opcode s)) (dispatch lookup)
    (\<lambda>r s'. vm_inv s s' \<and> gas_remaining (gas s') \<le> gas_remaining (gas s) - 10 \<and> (r = 0 \<longrightarrow> has_code s'))
    (\<lambda>s'. vm_inv s s' \<and> gas_remaining (gas s') \<le> gas_remaining (gas s) - 10) s"
proof -
  let ?i = "lookup (cur_opcode s)"
  let ?s1 = "s\<lparr>gas := (gas s)\<lparr>gas_remaining := gas_remaining (gas s) - 10\<rparr>\<rparr>"
  have "wp_unless (ub_opcode (cur_opcode s)) (instr_dispatch ?i (cur_opcode s) (cur_bits s))
      (\<lambda>r s'. vm_inv ?s1 s' \<and> (r = 0 \<longrightarrow> has_code s')) (vm_inv ?s1) s"
    by (rule instr_dispatch_safe) (use assms lookup_range lookup_safe in auto)
  moreover have "vm_inv s s' \<and> gas_remaining (gas s') \<le> gas_remaining (gas s) - 10" if "vm_inv ?s1 s'" for s'
    using that by (auto simp: vm_inv_def)
  ultimately show ?thesis
    unfolding dispatch_def by (auto simp: wp_unless_def split: vres.splits)
qed

end

lemma cur_opcode_less: "cur_opcode s < top_opcode"
proof -
  have b: "bits_nat bs < 2 ^ length bs" for bs
  proof -
    have "foldl (\<lambda>a b. 2 * a + (if b then 1 else 0)) a bs < (a + 1) * 2 ^ length bs" for a :: nat
    proof (induction bs arbitrary: a)
      case (Cons b bs)
      have "foldl (\<lambda>a b. 2 * a + (if b then 1 else 0)) a (b # bs) < (2 * a + (if b then 1 else 0) + 1) * 2 ^ length bs"
        using Cons [of "2 * a + (if b then 1 else 0)"] by simp
      also have "\<dots> \<le> (2 * a + 2) * 2 ^ length bs" by (intro mult_right_mono) auto
      finally show ?case by (simp add: algebra_simps)
    qed simp
    from this [of 0] show ?thesis by (simp add: bits_nat_def)
  qed
  show ?thesis
    using b [of "take 24 (code_bits s) @ replicate (24 - length (code_bits s)) False"]
    by (cases "24 \<le> length (code_bits s)") (simp_all add: cur_opcode_def top_opcode_def min_absorb2)
qed

text \<open>A finalised table of well-formed safe instructions is a dispatch table.\<close>

lemma finalize_list:
  assumes "chain 0 (tab_instructions t)" "\<not> tab_final t"
  shows "exact_chain 0 (tab_list (finalize t))"
  using fill_gaps_exact [OF assms(1)] assms(2) by (simp add: finalize_def)

lemma lookup_instr_range:
  assumes "exact_chain 0 (tab_list t)" "opcode < top_opcode"
  shows "lookup_instr t opcode \<in> set (tab_list t) \<and> op_min (lookup_instr t opcode) \<le> opcode \<and>
    opcode < op_max (lookup_instr t opcode)"
proof -
  have ne: "tab_list t \<noteq> []" using assms by auto
  have "op_min (tab_list t ! 0) = 0" using assms(1) ne by (cases "tab_list t") auto
  moreover have "op_max (tab_list t ! (length (tab_list t) - 1)) = top_opcode"
    using exact_chain_nth(3) [OF assms(1), of "length (tab_list t) - 1"] ne by simp
  ultimately show ?thesis
    using search_range [OF assms(1), of 0 "length (tab_list t)" opcode] ne assms(2)
    unfolding lookup_instr_def by simp
qed

lemma dispatch_table_finalize:
  assumes "chain 0 (tab_instructions t)" "\<not> tab_final t" "\<forall>i \<in> set (tab_instructions t). instr_safe i"
  shows "dispatch_table (lookup_instr (finalize t))"
proof
  fix opcode
  assume o: "opcode < top_opcode"
  note l = lookup_instr_range [OF finalize_list [OF assms(1,2)] o]
  show "op_min (lookup_instr (finalize t) opcode) \<le> opcode \<and> opcode < op_max (lookup_instr (finalize t) opcode)"
    using l by blast
  have "lookup_instr (finalize t) opcode \<in> set (fill_gaps 0 (tab_instructions t))"
    using l assms(2) by (simp add: finalize_def)
  then show "instr_safe (lookup_instr (finalize t) opcode)"
    using assms(3) set_fill_gaps by fastforce
qed

section \<open>Codepage 0\<close>

text \<open>
  \<open>init_op_cp0\<close>. The instructions of the groups that are not modelled
  (blockchain, debugging, and the double-length arithmetic) are the parameter \<open>other_ops\<close>.
\<close>

definition cp0_ops :: "opcode_instr list" where
  "cp0_ops = register_stack_ops @ register_tuple_ops @ register_arith_ops @ register_cell_ops
     @ register_continuation_ops @ register_dictionary_ops @ register_codepage_ops"

definition init_op_cp0 :: "opcode_instr list \<Rightarrow> opcode_table option" where
  "init_op_cp0 other_ops = map_option finalize (insert_all (cp0_ops @ other_ops) empty_table)"

text \<open>Ranges as pairs of integers, sorted by merging, to decide that they are disjoint.\<close>

definition range_of :: "opcode_instr \<Rightarrow> int \<times> int" where
  "range_of i = (int (op_min i), int (op_max i))"

fun merge_ranges :: "(int \<times> int) list \<Rightarrow> (int \<times> int) list \<Rightarrow> (int \<times> int) list" where
  "merge_ranges [] ys = ys"
| "merge_ranges xs [] = xs"
| "merge_ranges (x # xs) (y # ys) =
     (if fst x \<le> fst y then x # merge_ranges xs (y # ys) else y # merge_ranges (x # xs) ys)"

fun merge_adj :: "(int \<times> int) list list \<Rightarrow> (int \<times> int) list list" where
  "merge_adj (xs # ys # zss) = merge_ranges xs ys # merge_adj zss"
| "merge_adj xss = xss"

lemma length_merge_adj: "length (merge_adj xss) \<le> length xss"
  by (induction xss rule: merge_adj.induct) auto

function merge_all :: "(int \<times> int) list list \<Rightarrow> (int \<times> int) list" where
  "merge_all [] = []"
| "merge_all [xs] = xs"
| "merge_all (xs # ys # zss) = merge_all (merge_adj (xs # ys # zss))"
  by pat_completeness auto
termination
  by (relation "measure length") (use length_merge_adj in \<open>auto simp: less_Suc_eq_le le_imp_less_Suc\<close>)

fun range_chain :: "int \<Rightarrow> (int \<times> int) list \<Rightarrow> bool" where
  "range_chain lo [] = (lo \<le> 16777216)"
| "range_chain lo ((a, b) # xs) = (lo \<le> a \<and> a < b \<and> range_chain b xs)"

definition apart :: "int \<times> int \<Rightarrow> int \<times> int \<Rightarrow> bool" where
  "apart x y \<longleftrightarrow> snd x \<le> fst y \<or> snd y \<le> fst x"

lemma mset_merge_ranges: "mset (merge_ranges xs ys) = mset xs + mset ys"
  by (induction xs ys rule: merge_ranges.induct) auto

lemma mset_merge_all: "mset (merge_all xss) = mset (concat xss)"
proof -
  have a: "mset (concat (merge_adj xss)) = mset (concat xss)" for xss
    by (induction xss rule: merge_adj.induct) (auto simp: mset_merge_ranges)
  show ?thesis
    by (induction xss rule: merge_all.induct) (use a in \<open>auto simp: mset_merge_ranges\<close>)
qed

lemma range_chain_apart: "range_chain lo xs \<Longrightarrow> sorted_wrt apart xs \<and> (\<forall>x \<in> set xs. lo \<le> fst x \<and> fst x < snd x \<and> snd x \<le> 16777216)"
proof (induction lo xs rule: range_chain.induct)
  case (2 lo a b xs)
  then have "range_chain b xs" "lo \<le> a" "a < b" by simp_all
  moreover from this 2 have "b \<le> 16777216" by (cases xs) (auto simp: order_trans)
  ultimately show ?case using 2 by (auto simp: apart_def)
qed simp

lemma sorted_wrt_mset:
  assumes "\<And>x y. R x y \<Longrightarrow> R y x" "sorted_wrt R xs" "mset ys = mset xs"
  shows "sorted_wrt R ys"
  using assms(2,3)
proof (induction ys arbitrary: xs)
  case (Cons y ys)
  then have "y \<in> set xs" by (metis list.set_intros(1) mset_eq_setD)
  then obtain as bs where xs: "xs = as @ y # bs" by (meson split_list)
  with Cons(3) have m: "mset ys = mset (as @ bs)" by simp
  have "sorted_wrt R (as @ bs)" "\<forall>z \<in> set (as @ bs). R y z"
    using Cons(2) assms(1) by (auto simp: xs sorted_wrt_append)
  then show ?case using Cons.IH [OF _ m] mset_eq_setD [OF m] by auto
qed simp

lemma apart_range_of: "apart (range_of j) (range_of i) \<longleftrightarrow> op_max j \<le> op_min i \<or> op_max i \<le> op_min j"
  by (simp add: apart_def range_of_def)

lemma chain_ranges: "chain lo t \<Longrightarrow> j \<in> set t \<Longrightarrow> op_min j < op_max j"
  by (induction lo t rule: chain.induct) auto

lemma insert_sorted_succeeds:
  assumes "chain 0 t" "instr_wf i" "\<forall>j \<in> set t. apart (range_of j) (range_of i)"
  shows "insert_sorted_instr i t \<noteq> None"
proof -
  define lo hi where "lo = takeWhile (\<lambda>j. op_min j < op_min i) t" and "hi = dropWhile (\<lambda>j. op_min j < op_min i) t"
  have "\<not> (hi \<noteq> [] \<and> op_min (hd hi) < op_max i)"
  proof
    assume h: "hi \<noteq> [] \<and> op_min (hd hi) < op_max i"
    then have "hd hi \<in> set hi" by simp
    then have m: "hd hi \<in> set t" unfolding hi_def by (rule set_dropWhileD)
    have "op_min i \<le> op_min (hd hi)" using hd_dropWhile [of "\<lambda>j. op_min j < op_min i" t] h by (simp add: hi_def)
    then show False using h bspec [OF assms(3) m] chain_ranges [OF assms(1) m] by (simp add: apart_range_of)
  qed
  moreover have "\<not> (lo \<noteq> [] \<and> op_max (last lo) > op_min i)"
  proof
    assume h: "lo \<noteq> [] \<and> op_max (last lo) > op_min i"
    then have "last lo \<in> set lo" by simp
    then have m: "last lo \<in> set t \<and> op_min (last lo) < op_min i" unfolding lo_def by (rule set_takeWhileD)
    then show False using h bspec [OF assms(3) conjunct1 [OF m]] assms(2) by (simp add: apart_range_of instr_wf_def)
  qed
  ultimately show ?thesis by (simp add: insert_sorted_instr_def Let_def lo_def hi_def)
qed

lemma mset_insert_sorted:
  assumes "insert_sorted_instr i t = Some l"
  shows "mset l = add_mset i (mset t)"
proof -
  let ?P = "\<lambda>j. op_min j < op_min i"
  have "l = takeWhile ?P t @ i # dropWhile ?P t"
    using assms by (simp add: insert_sorted_instr_def Let_def split: if_split_asm)
  then have "mset l = add_mset i (mset (takeWhile ?P t) + mset (dropWhile ?P t))" by (simp only: mset_append mset.simps union_mset_add_mset_right)
  also have "mset (takeWhile ?P t) + mset (dropWhile ?P t) = mset t"
    by (simp only: mset_append [symmetric] takeWhile_dropWhile_id)
  finally show ?thesis .
qed

lemma insert_all_succeeds:
  assumes "sorted_wrt apart (map range_of (tab_instructions t @ is))" "chain 0 (tab_instructions t)"
    "\<forall>i \<in> set is. instr_wf i" "\<not> tab_final t"
  shows "insert_all is t \<noteq> None"
  using assms
proof (induction "is" arbitrary: t)
  case (Cons i "is")
  have ap: "\<forall>j \<in> set (tab_instructions t). apart (range_of j) (range_of i)"
    using Cons(2) by (auto simp: sorted_wrt_append)
  obtain l where l: "insert_sorted_instr i (tab_instructions t) = Some l"
    using insert_sorted_succeeds [OF Cons(3) _ ap] Cons(4) by auto
  note c = insert_sorted_chain [OF l Cons(3)]
  have "mset l = add_mset i (mset (tab_instructions t))" by (rule mset_insert_sorted [OF l])
  then have "mset (map range_of (l @ is)) = mset (map range_of (tab_instructions t @ i # is))" by simp
  then have "sorted_wrt apart (map range_of (l @ is))"
    by (rule sorted_wrt_mset [OF _ Cons(2), rotated]) (auto simp: apart_def)
  then have "insert_all is (t\<lparr>tab_instructions := l\<rparr>) \<noteq> None"
    using c(1) Cons(4,5) by (intro Cons.IH) auto
  then show ?case using l Cons(5) by (simp add: insert_bool_def)
qed simp

lemmas register_defs = register_stack_ops_def register_tuple_ops_def register_arith_ops_def register_int_const_ops_def
  register_add_mul_ops_def register_div_ops_def register_shift_logic_ops_def register_other_arith_ops_def
  register_int_cmp_ops_def register_continuation_ops_def register_continuation_jump_ops_def
  register_continuation_cond_loop_ops_def register_continuation_change_ops_def
  register_continuation_dict_jump_ops_def register_exception_ops_def register_codepage_ops_def reg_ctr_oprange_def
  register_cell_ops_def register_cell_const_ops_def register_cell_cmp_ops_def register_cell_serialize_ops_def
  register_cell_deserialize_ops_def register_dictionary_ops_def

lemma range_of_mk:
  "range_of (mksimple opc bits ex) = (int opc * 2 ^ (24 - bits), (int opc + 1) * 2 ^ (24 - bits))"
  "range_of (mkfixed opc bits n exf) = (int opc * 2 ^ (24 - bits), (int opc + 1) * 2 ^ (24 - bits))"
  "range_of (mkext opc bits n exx) = (int opc * 2 ^ (24 - bits), (int opc + 1) * 2 ^ (24 - bits))"
  "range_of (mkfixedrange mn mx bits n exf) = (int mn * 2 ^ (24 - bits), int mx * 2 ^ (24 - bits))"
  "range_of (mkextrange mn mx bits n exx) = (int mn * 2 ^ (24 - bits), int mx * 2 ^ (24 - bits))"
  by (simp_all add: range_of_def mksimple_def mkfixed_def mkext_def mkfixedrange_def mkextrange_def algebra_simps)

text \<open>The ranges of codepage 0, sorted, are in order and do not overlap.\<close>

lemma cp0_ranges: "range_chain 0 (merge_all (map (\<lambda>i. [range_of i]) cp0_ops))"
  by (simp add: cp0_ops_def register_defs range_of_mk del: merge_all.simps range_chain.simps) code_simp

lemma cp0_apart: "sorted_wrt apart (map range_of cp0_ops)" "\<forall>i \<in> set cp0_ops. instr_wf i"
proof -
  note r = range_chain_apart [OF cp0_ranges]
  have "concat (map (\<lambda>i. [range_of i]) cp0_ops) = map range_of cp0_ops" by (induction cp0_ops) auto
  then have m: "mset (map range_of cp0_ops) = mset (merge_all (map (\<lambda>i. [range_of i]) cp0_ops))"
    by (simp only: mset_merge_all)
  show "sorted_wrt apart (map range_of cp0_ops)"
    by (rule sorted_wrt_mset [OF _ conjunct1 [OF r] m]) (auto simp: apart_def)
  have "\<forall>x \<in> set (map range_of cp0_ops). fst x < snd x \<and> snd x \<le> 16777216"
    using r mset_eq_setD [OF m] by auto
  then show "\<forall>i \<in> set cp0_ops. instr_wf i"
    by (auto simp: range_of_def instr_wf_def top_opcode_def)
qed

lemma cp0_ops_safe: "i \<in> set cp0_ops \<Longrightarrow> instr_safe i"
  using register_stack_ops_safe register_tuple_ops_safe register_arith_ops_safe register_cell_ops_safe
    register_continuation_ops_safe register_dictionary_ops_safe register_codepage_ops_safe by (auto simp: cp0_ops_def)

lemma init_op_cp0_table:
  assumes "init_op_cp0 other_ops = Some t" "\<forall>i \<in> set other_ops. instr_wf i"
  obtains t0 where "t = finalize t0" "chain 0 (tab_instructions t0)" "\<not> tab_final t0"
    "set (tab_instructions t0) = set (cp0_ops @ other_ops)"
proof -
  obtain t0 where t0: "insert_all (cp0_ops @ other_ops) empty_table = Some t0" "t = finalize t0"
    using assms(1) by (auto simp: init_op_cp0_def)
  from insert_all_chain [OF t0(1)] cp0_apart(2) assms(2) show ?thesis
    by (intro that [OF t0(2)]) (auto simp: empty_table_def)
qed

lemma init_op_cp0_dispatch:
  assumes "init_op_cp0 other_ops = Some t" "\<forall>i \<in> set other_ops. instr_wf i \<and> instr_safe i"
  shows "dispatch_table (lookup_instr t)"
proof -
  have "\<forall>i \<in> set other_ops. instr_wf i" using assms(2) by blast
  from init_op_cp0_table [OF assms(1) this] show ?thesis
    using assms(2) cp0_ops_safe by (metis Un_iff dispatch_table_finalize set_append)
qed

lemma init_op_cp0_succeeds: "init_op_cp0 [] \<noteq> None"
  using insert_all_succeeds [of empty_table cp0_ops] cp0_apart by (simp add: init_op_cp0_def empty_table_def)

definition cp0_table :: opcode_table where
  "cp0_table = the (init_op_cp0 [])"

lemma init_op_cp0_Nil: "init_op_cp0 [] = Some cp0_table"
  using init_op_cp0_succeeds by (simp add: cp0_table_def)

interpretation cp0: dispatch_table "lookup_instr cp0_table"
  by (rule init_op_cp0_dispatch [OF init_op_cp0_Nil]) simp

text \<open>Two instructions of a chain that hold the same opcode are the same.\<close>

lemma chain_unique:
  "chain lo t \<Longrightarrow> i \<in> set t \<Longrightarrow> j \<in> set t \<Longrightarrow> op_min i \<le> opcode \<Longrightarrow> opcode < op_max i \<Longrightarrow>
     op_min j \<le> opcode \<Longrightarrow> opcode < op_max j \<Longrightarrow> i = j"
proof (induction lo t rule: chain.induct)
  case (2 lo x xs)
  have "op_max x \<le> op_min k" if "k \<in> set xs" "chain a xs" "a = op_max x" for k a
    using that by (induction a xs arbitrary: x rule: chain.induct) (auto, fastforce)
  with 2 show ?case by force
qed simp

lemma fill_gaps_keeps: "set xs \<subseteq> set (fill_gaps lo xs)"
  by (induction lo xs rule: fill_gaps.induct) auto

lemma find_SomeD': "find P xs = Some x \<Longrightarrow> x \<in> set xs \<and> P x"
  by (induction xs) (auto split: if_splits)

section \<open>Properties\<close>


text \<open>
  C14: the search by halving finds what a linear search through the registered instructions finds. For
  every 24-bit opcode the entry found in the finished table is the registered instruction whose range
  holds the opcode, and a dummy (invalid opcode) when there is none.
\<close>

theorem opcode_lookup_correct:
  assumes "init_op_cp0 other_ops = Some t" "\<forall>i \<in> set other_ops. instr_wf i" "opcode < top_opcode"
  shows "case find (\<lambda>i. op_min i \<le> opcode \<and> opcode < op_max i) (cp0_ops @ other_ops) of
      Some i \<Rightarrow> lookup_instr t opcode = i
    | None \<Rightarrow> op_exec (lookup_instr t opcode) = ExecDummy"
proof -
  obtain t0 where t0: "t = finalize t0" "chain 0 (tab_instructions t0)" "\<not> tab_final t0"
    "set (tab_instructions t0) = set (cp0_ops @ other_ops)"
    by (rule init_op_cp0_table [OF assms(1,2)])
  have l: "tab_list t = fill_gaps 0 (tab_instructions t0)" using t0(1,3) by (simp add: finalize_def)
  have e: "exact_chain 0 (tab_list t)" using finalize_list [OF t0(2,3)] t0(1) by simp
  note r = lookup_instr_range [OF e assms(3)]
  show ?thesis
  proof (cases "find (\<lambda>i. op_min i \<le> opcode \<and> opcode < op_max i) (cp0_ops @ other_ops)")
    case None
    then have "lookup_instr t opcode \<notin> set (tab_instructions t0)"
      using r t0(4) by (auto simp: find_None_iff)
    then show ?thesis using None r set_fill_gaps unfolding l by (fastforce simp: mkdummy_def)
  next
    case (Some i)
    then have i: "i \<in> set (cp0_ops @ other_ops)" "op_min i \<le> opcode" "opcode < op_max i"
      using find_SomeD' by fast+
    then have "i \<in> set (tab_list t)" unfolding l using t0(4) fill_gaps_keeps by blast
    then have "lookup_instr t opcode = i"
      using chain_unique [OF exact_chain_chain [OF e]] r i(2,3) by blast
    then show ?thesis using Some by simp
  qed
qed

text \<open>At opcode \<open>0x01\<close> (padded to 24 bits) the table of codepage 0 has \<open>SWAP\<close>.\<close>

theorem opcode_lookup_correct_witness: "lookup_instr cp0_table 0x010000 = mksimple 0x01 8 exec_swap"
proof -
  have "(0x010000 :: nat) < top_opcode" by (simp add: top_opcode_def)
  from opcode_lookup_correct [OF init_op_cp0_Nil _ this] show ?thesis
    by (simp add: cp0_ops_def register_stack_ops_def mksimple_def)
qed

end
