(* ===== verification/VmRun.thy ===== *)
theory VmRun
  imports OpTables
begin

text \<open>
  The interpreter (\<open>vm.cpp\<close>): the registry of codepages (\<open>dispatch.cpp\<close>), the gas counters, the
  initial state, one step, the loop of \<open>run\<close> with its exception handling, the commit at the end, and
  \<open>run_vm_code\<close>. The loop of the code has no bound; here it has fuel, and it is proved that the gas
  bounds the number of rounds. Gas counters are integers: the amounts charged are small, and a
  negative counter ends the run at the next check, so the 64-bit counters do not wrap.
\<close>

section \<open>Codepages\<close>

text \<open>\<open>dispatch_tables\<close> and \<open>DispatchTable::register_table\<close>; \<open>None\<close> is the result \<open>false\<close>.\<close>

type_synonym dispatch_tables = "int \<rightharpoonup> opcode_table"

definition register_table :: "int \<Rightarrow> opcode_table \<Rightarrow> dispatch_tables \<Rightarrow> dispatch_tables option" where
  "register_table n dt dts =
     (if n < - 0x8000 \<or> n \<ge> 0x8000 \<or> n = - 1 then None
      else if dts n = None then Some (dts(n \<mapsto> dt)) else None)"

text \<open>What \<open>init_op_cp0\<close> registers: its table, under \<open>Codepage::test_cp\<close>, which is 0.\<close>

definition cp0_tables :: "opcode_table \<Rightarrow> dispatch_tables" where
  "cp0_tables t = (case register_table 0 t Map.empty of None \<Rightarrow> Map.empty | Some dts \<Rightarrow> dts)"

section \<open>Gas limits\<close>

definition gas_infty :: int where "gas_infty = 2 ^ 63 - 1"

definition gas_default :: gas_limits where
  "gas_default = \<lparr>gas_max = gas_infty, gas_limit = gas_infty, gas_credit = 0, gas_remaining = gas_infty, gas_base = gas_infty\<rparr>"

definition gas_new :: "int \<Rightarrow> int \<Rightarrow> int \<Rightarrow> gas_limits" where
  "gas_new limit mx credit = \<lparr>gas_max = mx, gas_limit = limit, gas_credit = credit,
     gas_remaining = limit + credit, gas_base = limit + credit\<rparr>"

definition gas_consumed :: "gas_limits \<Rightarrow> int" where
  "gas_consumed g = gas_base g - gas_remaining g"

definition change_base :: "int \<Rightarrow> gas_limits \<Rightarrow> gas_limits" where
  "change_base b g = g\<lparr>gas_remaining := gas_remaining g + (b - gas_base g), gas_base := b\<rparr>"

definition set_limits :: "int \<Rightarrow> int \<Rightarrow> int \<Rightarrow> gas_limits \<Rightarrow> gas_limits" where
  "set_limits mx limit credit g =
     change_base (limit + credit) (g\<lparr>gas_max := mx, gas_limit := limit, gas_credit := credit\<rparr>)"

definition change_limit :: "int \<Rightarrow> gas_limits \<Rightarrow> gas_limits" where
  "change_limit limit g =
     (let l = min (max limit 0) (gas_max g) in change_base l (g\<lparr>gas_credit := 0, gas_limit := l\<rparr>))"

section \<open>The initial state\<close>

definition init_cregs :: "bool \<Rightarrow> bool \<Rightarrow> vm_state \<Rightarrow> vm_state" where
  "init_cregs same_c3 push_0 s =
     (let r = cr_c2 (Some ExcQuitCont) (cr_c1 (Some quit1) (cr_c0 (Some quit0) (cr s)));
          r3 = cr_c3 (Some (if same_c3 then OrdCont (cdata_new (cp s)) (code s) else QuitCont 11)) r;
          rd = (if d0 r3 = None then cr_d0 (Some empty_cell) r3 else r3);
          rd1 = (if d1 rd = None then cr_d1 (Some empty_cell) rd else rd)
      in s\<lparr>cr := (if c7 rd1 = None then cr_c7 (Some []) rd1 else rd1),
           stk := (if same_c3 \<and> push_0 then IntVal (Some 0) # stk s else stk s)\<rparr>)"

text \<open>
  The constructor of \<open>VmState\<close>. \<open>None\<close> is the exception it throws when codepage 0 is not registered.
  \<open>sha\<close> and \<open>libs\<close> stand for the hash function and the lookup in the library collections.
\<close>

definition vm_init :: "dispatch_tables \<Rightarrow> (bits \<Rightarrow> bits) \<Rightarrow> (bool list \<Rightarrow> cell option) \<Rightarrow>
    slice option \<Rightarrow> stack \<Rightarrow> gas_limits \<Rightarrow> nat \<Rightarrow> cell option \<Rightarrow> stack_entry list option \<Rightarrow> vm_state option" where
  "vm_init dts sha libs cd st g flags data init_c7 =
     (if dts 0 = None then None
      else Some (init_cregs (flags mod 2 = 1) (flags div 2 mod 2 = 1)
        (blank_vm\<lparr>code := cd, stk := st, cp := 0, gas := g, cr := cr_c7 init_c7 (cr_d0 data cregs_clear),
           sha256 := sha, lib_lookup := libs, known_cps := (\<lambda>n. dts n \<noteq> None)\<rparr>)))"

section \<open>One step\<close>

text \<open>
  \<open>VmState::step\<close>. The dispatch table in use is that of the current codepage; when there is
  none it is the dummy table, on which every opcode is invalid.
\<close>

definition step_code :: "dispatch_tables \<Rightarrow> vm_state \<Rightarrow> int vm" where
  "step_code dts s =
     (if code_bits s \<noteq> [] then
        (case dts (cp s) of None \<Rightarrow> vthrow inv_opcode | Some t \<Rightarrow> dispatch (lookup_instr t))
      else if code_refs s \<noteq> [] then
        vthen (consume_gas_chk 10) (vbind (ref_to_cont (hd (code_refs s))) jump)
      else vthen (consume_gas_chk 5) ret)"

definition vm_step :: "dispatch_tables \<Rightarrow> int vm" where
  "vm_step dts = (\<lambda>s. if code s = None then Undef else step_code dts s (s\<lparr>steps := steps s + 1\<rparr>))"

section \<open>The loop\<close>

datatype iter_res = Res int vm_state | Return int vm_state | Undefined

definition run_no_gas :: "vm_state \<Rightarrow> iter_res" where
  "run_no_gas s = Return (get_errno out_of_gas)
     (s\<lparr>steps := steps s + 1, stk := [IntVal (Some (gas_consumed (gas s)))]\<rparr>)"

text \<open>The handler of a \<open>VmError\<close>; errors while it runs end the run.\<close>

definition run_handle :: "excno \<Rightarrow> vm_state \<Rightarrow> iter_res" where
  "run_handle e s =
     (case throw_exception (get_errno e) (s\<lparr>steps := steps s + 1\<rparr>) of
        Ok r s' \<Rightarrow> Res r s'
      | Exc (VmError e2) s' \<Rightarrow> Return (exit_result (get_errno e2)) s'
      | Exc VmNoGas s' \<Rightarrow> run_no_gas s'
      | Undef \<Rightarrow> Undefined)"

definition vm_iter :: "dispatch_tables \<Rightarrow> vm_state \<Rightarrow> iter_res" where
  "vm_iter dts s =
     (case vbind (vm_step dts) (\<lambda>r. vthen gas_check (vret r)) s of
        Ok r s' \<Rightarrow> Res r s'
      | Exc (VmError e) s' \<Rightarrow> run_handle e s'
      | Exc VmNoGas s' \<Rightarrow> run_no_gas s'
      | Undef \<Rightarrow> Undefined)"

text \<open>
  \<open>Exited\<close> is the value \<open>run\<close> returns; \<open>Aborted\<close> holds the state in which a step was undefined;
  \<open>OutOfFuel\<close> says nothing about the code.
\<close>

datatype run_res = Exited int vm_state | Aborted vm_state | OutOfFuel

definition run_finish :: "int \<Rightarrow> vm_state \<Rightarrow> run_res" where
  "run_finish r s =
     (if r = - 1 \<or> r = - 2 then
        (case try_commit s of
           Ok ok s' \<Rightarrow> if ok then Exited r s'
             else Exited (exit_result (get_errno cell_ov)) (s'\<lparr>stk := [IntVal (Some 0)]\<rparr>)
         | _ \<Rightarrow> Aborted s)
      else Exited r s)"

fun vm_loop :: "nat \<Rightarrow> dispatch_tables \<Rightarrow> vm_state \<Rightarrow> run_res" where
  "vm_loop 0 dts s = OutOfFuel"
| "vm_loop (Suc n) dts s =
     (case vm_iter dts s of
        Res r s' \<Rightarrow> if r = 0 then vm_loop n dts s' else run_finish r s'
      | Return r s' \<Rightarrow> Exited r s'
      | Undefined \<Rightarrow> Aborted s)"

definition vm_run :: "nat \<Rightarrow> dispatch_tables \<Rightarrow> vm_state \<Rightarrow> run_res" where
  "vm_run n dts s = (if code s = None then Exited (get_errno exc_fatal) s else vm_loop n dts s)"

text \<open>Enough rounds for the gas there is: every round that does not end the run costs at least five units.\<close>

definition run_fuel :: "gas_limits \<Rightarrow> nat" where
  "run_fuel g = nat (gas_remaining g) div 5 + 1"

record run_report =
  rep_exit :: int
  rep_stack :: stack
  rep_data :: "cell option"
  rep_actions :: "cell option"
  rep_steps :: int
  rep_gas :: gas_limits

text \<open>
  \<open>run_vm_code\<close>: the exit code, the stack, and the new data and actions, which are those given
  unless the run has committed. \<open>None\<close> stands for all that is not a normal return.
\<close>

definition run_vm_code :: "dispatch_tables \<Rightarrow> (bits \<Rightarrow> bits) \<Rightarrow> (bool list \<Rightarrow> cell option) \<Rightarrow>
    slice option \<Rightarrow> stack \<Rightarrow> gas_limits \<Rightarrow> nat \<Rightarrow> cell option \<Rightarrow> cell option \<Rightarrow> stack_entry list option \<Rightarrow> run_report option" where
  "run_vm_code dts sha libs cd st g flags data actions init_c7 =
     (case vm_init dts sha libs cd st g flags data init_c7 of
        None \<Rightarrow> None
      | Some s \<Rightarrow>
          (case vm_run (run_fuel g) dts s of
             Exited r s' \<Rightarrow> Some \<lparr>rep_exit = exit_result r, rep_stack = stk s',
               rep_data = (if cs_committed (cstate s') then cs_c4 (cstate s') else data),
               rep_actions = (if cs_committed (cstate s') then cs_c5 (cstate s') else actions),
               rep_steps = steps s', rep_gas = gas s'\<rparr>
           | _ \<Rightarrow> None))"

section \<open>Steps within the invariant\<close>

text \<open>
  The states from which a step may be undefined: the next instruction is one of those with the
  undefined shift.
\<close>

definition at_ub :: "vm_state \<Rightarrow> bool" where
  "at_ub s \<longleftrightarrow> code_bits s \<noteq> [] \<and> ub_opcode (cur_opcode s)"

lemma cur_opcode_steps [simp]: "cur_opcode (s\<lparr>steps := n\<rparr>) = cur_opcode s" "cur_bits (s\<lparr>steps := n\<rparr>) = cur_bits s"
  by (simp_all add: cur_opcode_def cur_bits_def code_bits_def)

lemma vm_wf_steps [simp]: "vm_wf (s\<lparr>steps := n\<rparr>) = vm_wf s" "has_code (s\<lparr>steps := n\<rparr>) = has_code s"
  by (simp_all add: vm_wf_def has_code_def)

lemma vm_wf_gas [simp]: "vm_wf (s\<lparr>gas := g\<rparr>) = vm_wf s"
  by (simp add: vm_wf_def)

lemma vm_wf_stk [simp]: "vm_wf s \<Longrightarrow> stack_ok xs \<Longrightarrow> vm_wf (s\<lparr>stk := xs\<rparr>)"
  by (simp add: vm_wf_def)

text \<open>What a step that is charged \<open>n\<close> first may do.\<close>

lemma wp_charged:
  assumes "n \<le> gas_remaining (gas s) \<Longrightarrow> wp m Q R (s\<lparr>gas := (gas s)\<lparr>gas_remaining := gas_remaining (gas s) - n\<rparr>\<rparr>)"
    "R (s\<lparr>gas := (gas s)\<lparr>gas_remaining := gas_remaining (gas s) - n\<rparr>\<rparr>)"
  shows "wp (vthen (consume_gas_chk n) m) Q R s"
  using assms by (simp add: wp_def consume_gas_chk_def vthen_def vbind_def consume_gas_def vmod_def)

lemma vm_inv_charged:
  "vm_inv (s\<lparr>gas := (gas s)\<lparr>gas_remaining := gas_remaining (gas s) - n\<rparr>\<rparr>) s' \<Longrightarrow> 0 \<le> n \<Longrightarrow>
     vm_inv s s' \<and> gas_remaining (gas s') \<le> gas_remaining (gas s) - n"
  by (auto simp: vm_inv_def)

lemma int257_errno [simp]: "int257 (get_errno e)"
  by (cases e) (simp_all add: int257_def)

text \<open>Entering the exception handler.\<close>

lemma throw_exception_safe:
  assumes "vm_wf s" "int257 n"
  shows "wp (throw_exception n)
    (\<lambda>r s'. vm_inv s s' \<and> gas_remaining (gas s') \<le> gas_remaining (gas s) - 50 \<and> 50 \<le> gas_remaining (gas s) \<and>
       (r = 0 \<longrightarrow> has_code s')) (vm_inv s) s"
  unfolding throw_exception_def throw_exception_arg_def exception_gas_price_def
proof (intro wp_vthen [of "set_stack xs" for xs] wp_set_stack wp_vthen [of "vmod f" for f] wp_vmod wp_charged)
  let ?s = "s\<lparr>stk := [IntVal (Some n), IntVal (Some 0)]\<rparr>\<lparr>code := None\<rparr>"
  let ?s1 = "?s\<lparr>gas := (gas ?s)\<lparr>gas_remaining := gas_remaining (gas ?s) - 50\<rparr>\<rparr>"
  have "vm_wf ?s1" using assms by (simp add: vm_wf_def int257_def)
  then have s1: "vm_inv ?s1 ?s1" by (rule vm_inv_refl)
  have up: "vm_inv s s' \<and> gas_remaining (gas s') \<le> gas_remaining (gas s) - 50" if "vm_inv ?s1 s'" for s'
    using that by (simp add: vm_inv_def)
  show "vm_inv s ?s1" using up [OF s1] by simp
  assume g: "50 \<le> gas_remaining (gas ?s)"
  have "wp (vbind (vm_get_c 2) jump) (post_ok ?s1) (vm_inv ?s1) ?s1"
    by (intro wp_get_c_inv [OF s1] wp_jump s1) auto
  then show "wp (vbind (vm_get_c 2) jump)
      (\<lambda>r s'. vm_inv s s' \<and> gas_remaining (gas s') \<le> gas_remaining (gas s) - 50 \<and> 50 \<le> gas_remaining (gas s) \<and>
         (r = 0 \<longrightarrow> has_code s')) (vm_inv s) ?s1"
    by (rule wp_mono) (use up g in auto)
qed

text \<open>
  One round of the loop. A round that goes on has used at least five units of gas per step
  counted, and there were as many.
\<close>

definition iter_ok :: "vm_state \<Rightarrow> iter_res \<Rightarrow> bool" where
  "iter_ok s res =
     (case res of
        Res r s' \<Rightarrow> vm_wf s' \<and> gas_ok (gas s) (gas s') \<and> (r = 0 \<longrightarrow> has_code s') \<and> 5 \<le> gas_remaining (gas s) \<and>
          gas_remaining (gas s') \<le> gas_remaining (gas s) - 5 \<and> steps s < steps s' \<and>
          5 * (steps s' - steps s) + max 0 (gas_remaining (gas s')) \<le> gas_remaining (gas s)
      | Return r s' \<Rightarrow> commit_ok (cstate s') \<and> gas_ok (gas s) (gas s') \<and> (r \<noteq> get_errno out_of_gas \<longrightarrow> vm_wf s') \<and>
          steps s' \<le> steps s + 3
      | Undefined \<Rightarrow> at_ub s)"

lemma run_no_gas_ok:
  "vm_wf s' \<Longrightarrow> gas_ok (gas s) (gas s') \<Longrightarrow> steps s' \<le> steps s + 2 \<Longrightarrow> iter_ok s (run_no_gas s')"
  by (simp add: iter_ok_def run_no_gas_def vm_wf_def)

lemma run_handle_ok:
  assumes "vm_wf s'" "gas_ok (gas s) (gas s')" "steps s' = steps s + 1"
  shows "iter_ok s (run_handle e s')"
proof -
  let ?s = "s'\<lparr>steps := steps s' + 1\<rparr>"
  have th: "wp (throw_exception (get_errno e))
    (\<lambda>r s2. vm_inv ?s s2 \<and> gas_remaining (gas s2) \<le> gas_remaining (gas ?s) - 50 \<and> 50 \<le> gas_remaining (gas ?s) \<and>
       (r = 0 \<longrightarrow> has_code s2)) (vm_inv ?s) ?s"
    by (rule throw_exception_safe) (use assms in simp_all)
  have inv: "vm_wf s2 \<and> gas_ok (gas s) (gas s2) \<and> steps s2 = steps s + 2" if "vm_inv ?s s2" for s2
    using that assms by (auto simp: vm_inv_def gas_ok_def)
  show ?thesis
  proof (cases "throw_exception (get_errno e) ?s")
    case (Ok r s2)
    with th inv [of s2] assms show ?thesis by (auto simp: iter_ok_def run_handle_def wp_def gas_ok_def)
  next
    case (Exc e2 s2)
    with th have "vm_wf s2 \<and> gas_ok (gas s) (gas s2) \<and> steps s2 = steps s + 2" using inv by (simp add: wp_def)
    then show ?thesis
      using Exc run_no_gas_ok [of s2 s] by (cases e2) (auto simp: run_handle_def iter_ok_def vm_wf_def)
  next
    case Undef
    with th show ?thesis by (simp add: wp_def)
  qed
qed

text \<open>What a run from \<open>s\<close> may end in.\<close>

definition run_ok :: "vm_state \<Rightarrow> run_res \<Rightarrow> bool" where
  "run_ok s res =
     (case res of
        Exited r s' \<Rightarrow> commit_ok (cstate s') \<and> (r \<noteq> get_errno out_of_gas \<longrightarrow> vm_wf s') \<and> gas_ok (gas s) (gas s') \<and>
          steps s' \<le> steps s + max 0 (gas_remaining (gas s)) div 5 + 3
      | Aborted s' \<Rightarrow> vm_wf s' \<and> has_code s' \<and> at_ub s'
      | OutOfFuel \<Rightarrow> False)"

lemma run_ok_trans:
  assumes "run_ok s' res" "gas_ok (gas s) (gas s')" "5 \<le> gas_remaining (gas s)"
    "5 * (steps s' - steps s) + max 0 (gas_remaining (gas s')) \<le> gas_remaining (gas s)"
  shows "run_ok s res"
proof -
  have arith: "a + m div 5 \<le> b + g div 5" if "5 * (a - b) + m \<le> g" for a b m g :: int
  proof -
    have "(5 * (a - b) + m) div 5 \<le> g div 5" using that by (rule zdiv_mono1) simp
    then show ?thesis by simp
  qed
  have "steps s' + max 0 (gas_remaining (gas s')) div 5 \<le> steps s + max 0 (gas_remaining (gas s)) div 5"
    using arith [OF assms(4)] assms(3) by (simp add: max_def)
  then show ?thesis using assms(1) gas_ok_trans [OF assms(2)] by (cases res) (simp_all add: run_ok_def)
qed

lemma run_finish_ok:
  assumes "vm_wf s'" "gas_ok (gas s) (gas s')" "5 \<le> gas_remaining (gas s)"
    "5 * (steps s' - steps s) + max 0 (gas_remaining (gas s')) \<le> gas_remaining (gas s)"
  shows "run_ok s (run_finish r s')"
proof (rule run_ok_trans [OF _ assms(2-4)])
  have "wp try_commit (\<lambda>b s2. vm_inv s' s2) (vm_inv s') s'" by (rule wp_try_commit) (use assms(1) in \<open>auto simp: vm_inv_refl\<close>)
  moreover have "try_commit s' \<noteq> Exc e s2" for e s2 by (simp add: try_commit_def split: option.split)
  ultimately obtain b s2 where c: "try_commit s' = Ok b s2" "vm_inv s' s2"
    by (cases "try_commit s'") (auto simp: wp_def)
  then have "vm_wf s2" "gas_ok (gas s') (gas s2)" "steps s2 = steps s'" by (simp_all add: vm_inv_def gas_ok_def)
  moreover have "vm_wf (s2\<lparr>stk := [IntVal (Some 0)]\<rparr>)" using \<open>vm_wf s2\<close> by (simp add: int257_def)
  moreover have "commit_ok (cstate t)" if "vm_wf t" for t using that by (simp add: vm_wf_def)
  moreover have "gas_ok (gas s') (gas s')" by (simp add: gas_ok_def)
  ultimately show "run_ok s' (run_finish r s')" using assms(1) c(1) by (simp add: run_finish_def run_ok_def)
qed

text \<open>The states the loop passes through, one round after the other.\<close>

inductive vm_reach :: "dispatch_tables \<Rightarrow> vm_state \<Rightarrow> vm_state \<Rightarrow> bool" for dts where
  refl: "vm_reach dts s0 s0"
| step: "vm_reach dts s0 s \<Longrightarrow> vm_iter dts s = Res 0 s' \<Longrightarrow> vm_reach dts s0 s'"

text \<open>The interface between the interpreter and the codepages it may switch to.\<close>

locale codepages =
  fixes dts :: dispatch_tables
  assumes tables_ok: "dts n = Some t \<Longrightarrow> dispatch_table (lookup_instr t)"
begin

lemma step_safe:
  assumes "vm_wf s" "has_code s"
  shows "wp_unless (at_ub s) (vm_step dts)
    (\<lambda>r s'. vm_inv (s\<lparr>steps := steps s + 1\<rparr>) s' \<and> gas_remaining (gas s') \<le> gas_remaining (gas s) - 5 \<and> (r = 0 \<longrightarrow> has_code s'))
    (vm_inv (s\<lparr>steps := steps s + 1\<rparr>)) s"
proof -
  let ?s = "s\<lparr>steps := steps s + 1\<rparr>"
  let ?Q = "\<lambda>r s'. vm_inv ?s s' \<and> gas_remaining (gas s') \<le> gas_remaining (gas s) - 5 \<and> (r = 0 \<longrightarrow> has_code s')"
  have wf: "vm_wf ?s" "has_code ?s" using assms(1,2) by simp_all
  have disp: "wp_unless (at_ub s) (dispatch (lookup_instr t)) ?Q (vm_inv ?s) ?s"
    if "dts (cp s) = Some t" "code_bits s \<noteq> []" for t
    by (rule wp_unless_mono [OF dispatch_table.dispatch_safe [OF tables_ok [OF that(1)] wf cur_opcode_less]])
      (use that(2) in \<open>auto simp: at_ub_def\<close>)
  have charged: "wp_unless (at_ub s) (vthen (consume_gas_chk n) m) ?Q (vm_inv ?s) ?s"
    if "5 \<le> n" "\<And>s1. vm_inv s1 s1 \<Longrightarrow> wp m (post_ok s1) (vm_inv s1) s1" for n m
  proof (rule wp_unless_wp, rule wp_charged)
    let ?s1 = "?s\<lparr>gas := (gas ?s)\<lparr>gas_remaining := gas_remaining (gas ?s) - n\<rparr>\<rparr>"
    have s1: "vm_inv ?s1 ?s1" using wf by (simp add: vm_inv_refl)
    have up: "vm_inv ?s s' \<and> gas_remaining (gas s') \<le> gas_remaining (gas s) - 5" if "vm_inv ?s1 s'" for s'
      using vm_inv_charged [OF that] \<open>5 \<le> n\<close> by simp
    show "wp m ?Q (vm_inv ?s) ?s1" by (rule wp_mono [OF that(2) [OF s1]]) (use up in auto)
    show "vm_inv ?s ?s1" using up [OF s1] by simp
  qed
  have "code s \<noteq> None" using has_code_Some [OF assms(2)] by auto
  then have "wp_unless (at_ub s) (vm_step dts) ?Q (vm_inv ?s) s \<longleftrightarrow> wp_unless (at_ub s) (step_code dts s) ?Q (vm_inv ?s) ?s"
    by (simp only: wp_unless_def vm_step_def if_False)
  moreover have "wp (vbind (ref_to_cont c) jump) (post_ok s1) (vm_inv s1) s1" if "vm_inv s1 s1" "cell_ok c" for c s1
    by (rule wp_vbind, rule wp_ref_to_cont [OF that], rule wp_jump)
  moreover have "cell_ok (hd (code_refs s))" if "code_refs s \<noteq> []"
    using has_code_Some [OF assms(2)] that by (auto simp: code_refs_def slice_ok_def)
  moreover have "wp_unless U (vthrow inv_opcode) ?Q (vm_inv ?s) ?s" for U
    by (rule wp_unless_wp, rule wp_vthrow) (use wf in \<open>simp add: vm_inv_refl\<close>)
  ultimately show ?thesis
    by (auto simp: step_code_def intro!: charged disp wp_ret(1) split: option.split)
qed

lemma iter_safe:
  assumes "vm_wf s" "has_code s"
  shows "iter_ok s (vm_iter dts s)"
proof -
  note st = step_safe [OF assms]
  have inv: "vm_wf s' \<and> gas_ok (gas s) (gas s') \<and> steps s' = steps s + 1" if "vm_inv (s\<lparr>steps := steps s + 1\<rparr>) s'" for s'
    using that by (simp add: vm_inv_def gas_ok_def)
  show ?thesis
  proof (cases "vm_step dts s")
    case (Ok r s')
    with st have s': "vm_inv (s\<lparr>steps := steps s + 1\<rparr>) s'" "gas_remaining (gas s') \<le> gas_remaining (gas s) - 5"
      "r = 0 \<longrightarrow> has_code s'" by (simp_all add: wp_unless_def)
    with Ok have "vm_iter dts s = (if 0 \<le> gas_remaining (gas s') then Res r s' else run_no_gas s')"
      by (simp add: vm_iter_def vbind_def vthen_def gas_check_def vret_def)
    then show ?thesis
      using inv [OF s'(1)] s'(2,3) run_no_gas_ok [of s' s] by (simp add: iter_ok_def)
  next
    case (Exc e s')
    with st have i: "vm_wf s' \<and> gas_ok (gas s) (gas s') \<and> steps s' = steps s + 1" using inv by (simp add: wp_unless_def)
    from Exc have "vm_iter dts s = (case e of VmNoGas \<Rightarrow> run_no_gas s' | VmError e1 \<Rightarrow> run_handle e1 s')"
      by (cases e) (simp_all add: vm_iter_def vbind_def)
    then show ?thesis using run_no_gas_ok [of s' s] run_handle_ok [of s' s] i by (cases e) auto
  next
    case Undef
    with st show ?thesis by (simp add: wp_unless_def iter_ok_def vm_iter_def vbind_def)
  qed
qed

text \<open>
  The whole loop: with the fuel for the gas there is, it ends. The result keeps the invariant
  (after running out of gas the stack holds a number of its own), and the step counter is bounded
  by the gas.
\<close>

lemma loop_ends:
  assumes "vm_wf s" "has_code s" "run_fuel (gas s) \<le> n"
  shows "run_ok s (vm_loop n dts s)"
  using assms
proof (induction n arbitrary: s)
  case 0
  then show ?case by (simp add: run_fuel_def)
next
  case (Suc n)
  have it: "iter_ok s (vm_iter dts s)" using Suc.prems(1,2) by (rule iter_safe)
  show ?case
  proof (cases "vm_iter dts s")
    case (Res r s')
    with it have s': "vm_wf s'" "gas_ok (gas s) (gas s')" "r = 0 \<longrightarrow> has_code s'" "5 \<le> gas_remaining (gas s)"
      "5 * (steps s' - steps s) + max 0 (gas_remaining (gas s')) \<le> gas_remaining (gas s)"
      "gas_remaining (gas s') \<le> gas_remaining (gas s) - 5"
      by (simp_all add: iter_ok_def)
    show ?thesis
    proof (cases "r = 0")
      case True
      have "nat (gas_remaining (gas s')) div 5 + 1 \<le> n"
        using Suc.prems(3) s'(4,6) unfolding run_fuel_def by linarith
      then have "run_ok s' (vm_loop n dts s')" using s' True by (intro Suc.IH) (simp_all add: run_fuel_def)
      then have "run_ok s (vm_loop n dts s')" by (rule run_ok_trans) (use s' in auto)
      then show ?thesis using Res True by simp
    next
      case False
      then show ?thesis using Res s' run_finish_ok [of s' s r] by simp
    qed
  next
    case (Return r s')
    with it have "steps s' \<le> steps s + 3" "commit_ok (cstate s')" "r \<noteq> get_errno out_of_gas \<longrightarrow> vm_wf s'"
      "gas_ok (gas s) (gas s')"
      by (simp_all add: iter_ok_def)
    then show ?thesis using Return by (simp add: run_ok_def)
  next
    case Undefined
    with it show ?thesis using Suc.prems by (simp add: iter_ok_def run_ok_def)
  qed
qed

text \<open>Every state the loop passes through keeps the invariant.\<close>

lemma reach_safe:
  assumes "vm_reach dts s0 s" "vm_wf s0" "has_code s0"
  shows "vm_wf s \<and> has_code s \<and> gas_ok (gas s0) (gas s) \<and> steps s0 \<le> steps s \<and>
    5 * (steps s - steps s0) \<le> gas_remaining (gas s0) - gas_remaining (gas s)"
  using assms
proof (induction rule: vm_reach.induct)
  case (refl s0)
  then show ?case by (simp add: gas_ok_def)
next
  case (step s0 s s')
  then have s: "vm_wf s" "has_code s" "gas_ok (gas s0) (gas s)" "steps s0 \<le> steps s"
    "5 * (steps s - steps s0) \<le> gas_remaining (gas s0) - gas_remaining (gas s)" by simp_all
  have "iter_ok s (Res 0 s')" using iter_safe [OF s(1,2)] step.hyps(2) by simp
  then have s': "vm_wf s'" "has_code s'" "gas_ok (gas s) (gas s')" "steps s < steps s'"
    "5 * (steps s' - steps s) \<le> gas_remaining (gas s) - gas_remaining (gas s')" by (auto simp: iter_ok_def)
  then show ?case using s gas_ok_trans [OF s(3) s'(3)] by auto
qed

end

section \<open>The machine with codepage 0\<close>

lemma codepages_cp0:
  assumes "init_op_cp0 other_ops = Some t" "\<forall>i \<in> set other_ops. instr_wf i \<and> instr_safe i"
  shows "codepages (cp0_tables t)"
proof (rule codepages.intro)
  fix n t'
  assume "cp0_tables t n = Some t'"
  then have "t' = t" by (auto simp: cp0_tables_def register_table_def split: if_splits)
  then show "dispatch_table (lookup_instr t')" using init_op_cp0_dispatch [OF assms] by simp
qed

interpretation base: codepages "cp0_tables cp0_table"
  by (rule codepages_cp0 [OF init_op_cp0_Nil]) simp

text \<open>The initial state is well-formed when what it is made of is.\<close>

definition vm_input_ok :: "(bits \<Rightarrow> cell option) \<Rightarrow> slice \<Rightarrow> stack \<Rightarrow> cell option \<Rightarrow> stack_entry list option \<Rightarrow> bool" where
  "vm_input_ok libs cd st data init_c7 \<longleftrightarrow> slice_ok cd \<and> stack_ok st \<and> (\<forall>c. data = Some c \<longrightarrow> cell_ok c) \<and>
     (\<forall>t. init_c7 = Some t \<longrightarrow> length t \<le> 255 \<and> stack_ok t) \<and> (\<forall>h c. libs h = Some c \<longrightarrow> cell_ok c \<and> \<not> cell_special c)"

lemma cell_ok_empty [simp]: "cell_ok empty_cell"
  by code_simp

lemma vm_init_wf:
  assumes "vm_init dts sha libs (Some cd) st g flags data init_c7 = Some s"
    "vm_input_ok libs cd st data init_c7"
  shows "vm_wf s \<and> has_code s \<and> gas s = g \<and> steps s = 0"
proof -
  let ?r = "\<lambda>k. cr_c3 (Some k) (cr_c2 (Some ExcQuitCont) (cr_c1 (Some quit1) (cr_c0 (Some quit0) (cr_c7 init_c7 (cr_d0 data cregs_clear)))))"
  have k: "cregs_ok (?r k)" if "cont_ok k" for k using that assms(2) by (auto simp: vm_input_ok_def)
  show ?thesis
    using assms(1,2) k [of "QuitCont 11"] k [of "OrdCont (cdata_new 0) (Some cd)"]
    by (auto simp: vm_input_ok_def vm_init_def init_cregs_def Let_def vm_wf_def regs_full_def has_code_def blank_vm_def commit_ok_def
        cr_defs cregs_clear_def int257_def quit0_def quit1_def split: if_splits)
qed

end
