(* ===== verification/MerkleProofs.thy ===== *)
theory MerkleProofs
  imports CellBuilders
begin

text \<open>
  Merkle proofs (\<open>MerkleProof.cpp\<close>): a copy of a tree of cells in which some subtrees are replaced
  by pruned branches, and which still has the hash of the tree. The first part is about
  pruned branches (\<open>CellBuilder::create_pruned_branch\<close>), the second is the generation of proofs: the
  recursion with its table of results, a reference without the table, and what both promise.
  Which cells are pruned is a parameter.
\<close>

section \<open>Pruned branches keep hashes and depths\<close>

lemma prunned_shape:
  assumes "cell_ok c" "special_type c = PrunnedBranch"
  shows "get_level_mask c = bits_nat (take 8 (drop 8 (cell_bits c)))" "get_level_mask c \<noteq> 0"
    "length (cell_bits c) = (2 + lm_hash_i (get_level_mask c) * 34) * 8" "cell_refs c = []"
proof -
  obtain sp bs rs where c: "c = Cell sp bs rs" by (cases c)
  have t: "special_type_of sp bs = PrunnedBranch" using assms(2) by (simp only: c special_type_def cell.sel)
  have "special_shape PrunnedBranch bs rs" using assms(1) unfolding c cell_ok.simps cell_shape_def t by (elim conjE)
  then have cj: "rs = [] \<and> 16 \<le> length bs \<and> 0 < bits_nat (take 8 (drop 8 bs)) \<and> bits_nat (take 8 (drop 8 bs)) < 8 \<and>
    length bs = (2 + lm_hash_i (bits_nat (take 8 (drop 8 bs))) * 34) * 8"
    unfolding special_shape_def cell_type.case Let_def .
  note h = conjunct1 [OF cj] conjunct1 [OF conjunct2 [OF conjunct2 [OF cj]]]
    conjunct1 [OF conjunct2 [OF conjunct2 [OF conjunct2 [OF cj]]]] conjunct2 [OF conjunct2 [OF conjunct2 [OF conjunct2 [OF cj]]]]
  have "get_level_mask c = bits_nat (take 8 (drop 8 bs))"
    unfolding c get_level_mask.simps t create_level_mask_def cell_type.case by (rule lm_level_facts(4) [OF h(3)])
  then show "get_level_mask c = bits_nat (take 8 (drop 8 (cell_bits c)))" "get_level_mask c \<noteq> 0"
    "length (cell_bits c) = (2 + lm_hash_i (get_level_mask c) * 34) * 8" "cell_refs c = []"
    using h(1,2,4) unfolding c cell.sel by (simp_all only: neq0_conv)
qed

text \<open>The hash and the depth stored for the highest level of a pruned branch.\<close>

lemma prunned_top:
  assumes "special_type c = PrunnedBranch"
  shows "\<exists>l inp. cell_hashes sha c = [sha inp] \<and> hash_levels PrunnedBranch (get_level_mask c) = [l]"
proof -
  obtain sp bs rs where c: "c = Cell sp bs rs" by (cases c)
  have t: "special_type_of sp bs = PrunnedBranch" using assms by (simp only: c special_type_def cell.sel)
  have "length (hash_levels PrunnedBranch (get_level_mask c)) = 1"
    unfolding hash_levels_def hash_count_def using lm_facts(1) [OF get_level_mask_less, of c]
    by (simp add: lm_hashes_count_def)
  then obtain l where "hash_levels PrunnedBranch (get_level_mask c) = [l]" by (metis length_Suc_conv length_0_conv One_nat_def)
  then show ?thesis unfolding c cell_hashes.simps t Let_def by (simp del: get_level_mask.simps) (rule exI, rule refl)
qed

lemma hash_i_less:
  assumes "lm_hash_i (lm_apply (get_level_mask c) l) \<noteq> lm_hash_i (get_level_mask c)"
  shows "lm_hash_i (lm_apply (get_level_mask c) l) < lm_hash_i (get_level_mask c)"
proof -
  have "lm_hash_i (lm_apply (get_level_mask c) l) < lm_hash_i (get_level_mask c) + 1"
    using lm_facts(1,2) [OF get_level_mask_less, of c] unfolding lm_hashes_count_def by (simp only:)
  then show ?thesis using assms by simp
qed

lemma hash_offset: "(h :: nat) < t \<Longrightarrow> 256 + 8 * (2 + 32 * h) \<le> (2 + t * 34) * 8"
proof -
  assume "h < t"
  then have "Suc h \<le> t" by simp
  then have "272 * Suc h \<le> 272 * t" by (rule mult_le_mono2)
  then show ?thesis by simp
qed

lemma length_get_hash:
  assumes "cell_ok c" "\<And>x. length (sha x) = 256"
  shows "length (get_hash sha c l) = 256"
proof (cases "special_type c = PrunnedBranch")
  case False
  then show ?thesis by (simp add: get_hash_rec [OF False] Let_def assms(2))
next
  case True
  obtain inp where hs: "cell_hashes sha c = [sha inp]" using prunned_top [OF True] by blast
  let ?h = "lm_hash_i (lm_apply (get_level_mask c) l)" and ?t = "lm_hash_i (get_level_mask c)"
  have "256 + 8 * (2 + 32 * ?h) \<le> length (cell_bits c)" if "?h \<noteq> ?t"
    unfolding prunned_shape(3) [OF assms(1) True] by (rule hash_offset [OF hash_i_less [OF that]])
  then show ?thesis
    unfolding get_hash_def do_get_hash_def True Let_def hs by (cases "?h = ?t") (auto simp: assms(2))
qed

lemma get_depth_less:
  assumes "cell_ok c"
  shows "get_depth c l < 2 ^ 16"
proof (cases "special_type c = PrunnedBranch")
  case True
  have d: "load_depth bs < 2 ^ 16" for bs
    unfolding load_depth_def by (rule less_le_trans [OF bits_nat_less], rule power_increasing) simp_all
  obtain x where "hash_levels PrunnedBranch (get_level_mask c) = [x]" using prunned_top [OF True] by blast
  then have "cell_depths c = [0]"
    using True prunned_shape(4) [OF assms True] by (cases c) (simp add: special_type_def calc_depth_def del: get_level_mask.simps)
  then show ?thesis unfolding get_depth_def do_get_depth_def True Let_def using d by simp
next
  case False
  obtain sp bs rs where c: "c = Cell sp bs rs" by (cases c)
  have t: "hash_levels (special_type_of sp bs) (get_level_mask c) = lm_levels (get_level_mask c)"
    using False by (simp add: c special_type_def hash_levels_all del: get_level_mask.simps)
  have "eff_level c l \<in> set (lm_levels (get_level_mask c))"
    unfolding eff_level_def using lm_facts(2,3) [OF get_level_mask_less] by (metis nth_mem)
  then have "\<not> too_deep (map (\<lambda>r. get_depth r (child_level (special_type c) (eff_level c l))) (cell_refs c))"
    using assms t unfolding c cell_ok.simps cell_shape_def depths_ok_def by (simp add: special_type_def del: get_level_mask.simps)
  then have "get_depth c l \<le> max_depth" unfolding get_depth_rec [OF False] calc_depth_def too_deep_def by auto
  then show ?thesis by (simp add: max_depth_def)
qed

lemma concat_nth:
  "\<forall>x \<in> set xs. length x = n \<Longrightarrow> k < length xs \<Longrightarrow> take n (drop (n * k) (concat xs @ ys)) = xs ! k"
proof (induction xs arbitrary: k)
  case (Cons x xs)
  then show ?case by (cases k) simp_all
qed simp

lemma lm_prune_table:
  "\<forall>m \<in> {0, 1, 2, 3, 4, 5, 6, 7}. \<forall>nl \<in> {1, 2, 3, 4, 5, 6, 7, 8}. lm_level m < nl \<longrightarrow>
     (let p = lm_apply_or m (lm_one_level nl) in p < 256 \<and>
       (p < 8 \<longrightarrow> lm_level p = nl \<and> nl \<le> 3 \<and>
       (\<forall>i \<in> {0, 1, 2}. i < nl \<longrightarrow> lm_apply p i = lm_apply m i)))"
  by code_simp

lemma get_same_level:
  assumes "lm_apply (get_level_mask c) a = lm_apply (get_level_mask c) b"
  shows "get_hash sha c a = get_hash sha c b" "get_depth c a = get_depth c b"
  by (simp_all add: get_hash_def do_get_hash_def get_depth_def do_get_depth_def assms)

lemma store_list_bits:
  assumes "list_all2 (\<lambda>f bs. \<forall>b b'. f b = Some b' \<longrightarrow> bl_bits b' = bl_bits b @ bs \<and> bl_refs b' = bl_refs b) fs bss"
    "store_list fs b = Some b'"
  shows "bl_bits b' = bl_bits b @ concat bss \<and> bl_refs b' = bl_refs b"
  using assms by (induction fs bss arbitrary: b rule: list_all2_induct) (auto split: option.splits)

lemma store_appends:
  "store_long v n b = Some b' \<Longrightarrow> bl_bits b' = bl_bits b @ int_bl n v \<and> bl_refs b' = bl_refs b"
  "store_bytes bs b = Some b' \<Longrightarrow> bl_bits b' = bl_bits b @ bs \<and> bl_refs b' = bl_refs b"
  by (auto simp: store_long_def store_bytes_def store_bits_def split: if_splits)

text \<open>The data of a pruned branch.\<close>

lemma pruned_data:
  assumes "do_create_pruned_branch sha c nl vl = Some p"
  defines "m \<equiv> lm_apply (get_level_mask c) vl"
  shows "lm_level m < nl" "cell_ok p" "cell_refs p = []" "cell_special p"
    "cell_bits p = int_bl 8 1 @ int_bl 8 (int (lm_apply_or m (lm_one_level nl)))
       @ concat (map (get_hash sha c) (lm_levels m)) @ concat (map (\<lambda>i. int_bl 16 (int (get_depth c i))) (lm_levels m))"
proof -
  let ?fs = "[store_long 1 8, store_long (int (lm_apply_or m (lm_one_level nl))) 8]
    @ map (\<lambda>i. store_bytes (get_hash sha c i)) (lm_levels m) @ map (\<lambda>i. store_long (int (get_depth c i)) 16) (lm_levels m)"
  let ?bss = "[int_bl 8 1, int_bl 8 (int (lm_apply_or m (lm_one_level nl)))]
    @ map (get_hash sha c) (lm_levels m) @ map (\<lambda>i. int_bl 16 (int (get_depth c i))) (lm_levels m)"
  have l2: "list_all2 (\<lambda>f bs. \<forall>b b'. f b = Some b' \<longrightarrow> bl_bits b' = bl_bits b @ bs \<and> bl_refs b' = bl_refs b) ?fs ?bss"
    by (intro list_all2_appendI) (auto simp: list_all2_conv_all_nth nth_Cons' store_appends dest: store_appends)
  show "lm_level m < nl" using assms(1) by (auto simp: do_create_pruned_branch_def m_def Let_def split: if_splits)
  then obtain b where b: "store_list ?fs new_builder = Some b" "finalize_novm sha True b = Some p"
    using assms(1) unfolding do_create_pruned_branch_def m_def Let_def by (auto split: if_splits option.splits)
  have d: "bl_bits b = concat ?bss" "bl_refs b = []" using store_list_bits [OF l2 b(1)] by (simp_all add: new_builder_def)
  from finalize_novm_Some [OF b(2)] d
  have p: "p = Cell True (concat ?bss) []" and sh: "cell_shape True (concat ?bss) []" by simp_all
  show "cell_ok p" unfolding p cell_ok.simps using sh by simp
  show "cell_refs p = []" "cell_special p" by (simp_all add: p)
  show "cell_bits p = int_bl 8 1 @ int_bl 8 (int (lm_apply_or m (lm_one_level nl)))
       @ concat (map (get_hash sha c) (lm_levels m)) @ concat (map (\<lambda>i. int_bl 16 (int (get_depth c i))) (lm_levels m))"
    by (simp add: p)
qed

lemma take_bit_one_level: "9 \<le> nl \<Longrightarrow> m < 8 \<Longrightarrow> lm_apply_or m (lm_one_level nl) mod 256 = m"
proof -
  assume "9 \<le> nl" "m < 8"
  then have "take_bit 8 (lm_one_level nl) = 0" by (simp add: lm_one_level_def take_bit_of_exp)
  moreover have "take_bit 8 m = m" using \<open>m < 8\<close> by (simp add: take_bit_nat_eq_self)
  ultimately have "take_bit 8 (lm_apply_or m (lm_one_level nl)) = m" by (simp add: lm_apply_or_def)
  then show ?thesis by (simp add: take_bit_eq_mod)
qed

lemma drop_length_append: "drop (k + length xs) (xs @ ys) = drop k ys"
  by simp

lemma bits_nat_int_bl_mod: "bits_nat (int_bl n (int x)) = x mod 2 ^ n"
proof -
  have "int (bits_nat (int_bl n (int x))) = int (x mod 2 ^ n)" unfolding bits_nat_int_bl by (simp add: zmod_int)
  then show ?thesis by (simp only: of_nat_eq_iff)
qed

lemma bits_nat_int_bl_nat: "x < 2 ^ n \<Longrightarrow> bits_nat (int_bl n (int x)) = x"
  by (simp add: bits_nat_int_bl_mod)

lemma pruned_mask:
  assumes "do_create_pruned_branch sha c nl vl = Some p" "cell_ok c" "\<And>x. length (sha x) = 256"
  defines "m \<equiv> lm_apply (get_level_mask c) vl"
  shows "special_type p = PrunnedBranch" "nl \<le> max_level" "get_level p = nl" "lm_hash_i (get_level_mask p) = lm_hash_i m + 1"
    "\<And>i. i < nl \<Longrightarrow> lm_apply (get_level_mask p) i = lm_apply m i"
proof -
  note pd = pruned_data [OF assms(1), folded m_def]
  have m: "m < 8" unfolding m_def by (rule le_less_trans [OF lm_apply_le]) simp
  have b1: "bits_nat (int_bl 8 1) = 1" and b2: "bits_nat (int_bl 8 (int n)) = n mod 256" for n
    using bits_nat_int_bl_mod [of 8 1] bits_nat_int_bl_mod [of 8 n] by simp_all
  have t8: "take 8 (cell_bits p) = int_bl 8 1" "take 8 (drop 8 (cell_bits p)) = int_bl 8 (int (lm_apply_or m (lm_one_level nl)))"
    by (simp_all add: pd(5))
  show t: "special_type p = PrunnedBranch" using pd(4) t8(1) b1 by (simp add: special_type_def special_type_of_def special_of_nat_def)
  let ?q = "lm_apply_or m (lm_one_level nl)"
  have q: "get_level_mask p = ?q mod 256" using prunned_shape(1) [OF pd(2) t] t8(2) b2 by simp
  have "sum_list (map length (map (get_hash sha c) (lm_levels m))) = 256 * length (lm_levels m)"
    using length_get_hash [OF assms(2,3)] by (simp add: sum_list_triv comp_def)
  then have "length (cell_bits p) = 16 + 272 * length (lm_levels m)"
    by (simp add: pd(5) length_concat sum_list_triv comp_def)
  moreover have "length (lm_levels m) = lm_hash_i m + 1" using lm_facts(1) [OF m] by (simp add: lm_hashes_count_def)
  ultimately have h: "lm_hash_i (get_level_mask p) = lm_hash_i m + 1" using prunned_shape(3) [OF pd(2) t] by simp
  then show "lm_hash_i (get_level_mask p) = lm_hash_i m + 1" .
  have "nl < 9"
  proof (rule ccontr)
    assume "\<not> nl < 9"
    then have "get_level_mask p = m" using take_bit_one_level [of nl m] m q by simp
    with h show False by simp
  qed
  then have nl: "nl \<in> {1, 2, 3, 4, 5, 6, 7, 8}" using pd(1) by auto
  note tab = mp [OF bspec [OF bspec [OF lm_prune_table mask_cases [OF m]] nl] pd(1), unfolded Let_def]
  have q8: "?q < 8" and eq: "get_level_mask p = ?q" using q conjunct1 [OF tab] get_level_mask_less [of p] by simp_all
  note tab2 = mp [OF conjunct2 [OF tab] q8]
  show nl3: "nl \<le> max_level" "get_level p = nl" using tab2 by (simp_all add: max_level_def get_level_def eq)
  fix i
  assume "i < nl"
  then have "i \<in> {0, 1, 2}" using nl3 by (auto simp: max_level_def)
  then show "lm_apply (get_level_mask p) i = lm_apply m i" using tab2 \<open>i < nl\<close> unfolding eq by blast
qed

text \<open>
  Below its new level a pruned branch has the hashes and depths of the cell it stands for.
\<close>

lemma pruned_same:
  assumes "do_create_pruned_branch sha c nl vl = Some p" "cell_ok c" "\<And>x. length (sha x) = 256" "i < nl"
  shows "get_hash sha p i = get_hash sha c (min vl i)" "get_depth p i = get_depth c (min vl i)"
proof -
  let ?mc = "get_level_mask c"
  let ?m = "lm_apply ?mc vl" and ?h = "lm_hash_i (lm_apply ?mc (min vl i))"
  let ?ls = "lm_levels ?m"
  note pd = pruned_data [OF assms(1)] and pm = pruned_mask [OF assms(1-3)]
  have m: "?m < 8" by (rule le_less_trans [OF lm_apply_le]) simp
  have hi: "lm_hash_i (lm_apply (get_level_mask p) i) = ?h" using pm(5) [OF assms(4)] by simp
  have hl: "?h < length ?ls" "?ls ! ?h = lm_level (lm_apply ?mc (min vl i))" using lm_facts(2,3) [OF m, of i] by simp_all
  have ne: "?h \<noteq> lm_hash_i (get_level_mask p)" "length ?ls = lm_hash_i (get_level_mask p)"
    using hl(1) lm_facts(1) [OF m] pm(4) by (simp_all add: lm_hashes_count_def)
  have same: "lm_apply ?mc (?ls ! ?h) = lm_apply ?mc (min vl i)" unfolding hl(2) by (rule lm_facts(5)) simp
  let ?hs = "map (get_hash sha c) ?ls" and ?ds = "map (\<lambda>i. int_bl 16 (int (get_depth c i))) ?ls"
  have hlen: "\<forall>x \<in> set ?hs. length x = 256" using length_get_hash [OF assms(2,3)] by auto
  then have "sum_list (map length ?hs) = 256 * length ?ls" by (simp add: sum_list_triv comp_def cong: map_cong)
  then have lh: "length (concat ?hs) = 256 * lm_hash_i (get_level_mask p)" using ne(2) by (simp add: length_concat)
  have dp: "drop (8 * (2 + n)) (cell_bits p) = drop (8 * n) (concat ?hs @ concat ?ds)" for n
  proof -
    have "drop (8 * (2 + n)) (cell_bits p) = drop (8 * n) (drop 16 (cell_bits p))" by (simp add: add.commute)
    also have "drop 16 (cell_bits p) = concat ?hs @ concat ?ds" by (simp add: pd(5))
    finally show ?thesis .
  qed
  have "get_hash sha p i = take 256 (drop (8 * (2 + 32 * ?h)) (cell_bits p))"
    unfolding get_hash_def [of sha p] do_get_hash_def pm(1) hi Let_def using ne(1) by simp
  also have "\<dots> = take 256 (drop (256 * ?h) (concat ?hs @ concat ?ds))" unfolding dp by simp
  also have "\<dots> = ?hs ! ?h" by (rule concat_nth [OF hlen]) (simp add: hl(1))
  finally show "get_hash sha p i = get_hash sha c (min vl i)" using get_same_level(1) [OF same] hl(1) by simp
  let ?k = "32 * lm_hash_i (get_level_mask p) + ?h * 2"
  have "8 * ?k = 16 * ?h + length (concat ?hs)" unfolding lh by simp
  then have "drop (8 * (2 + ?k)) (cell_bits p) = drop (16 * ?h) (concat ?ds @ [])" unfolding dp by (simp only: drop_length_append append_Nil2)
  moreover have "take 16 (drop (16 * ?h) (concat ?ds @ [])) = ?ds ! ?h" by (rule concat_nth) (auto simp: hl(1))
  moreover have "get_depth p i = bits_nat (take 16 (drop (8 * (2 + ?k)) (cell_bits p)))"
    unfolding get_depth_def [of p] do_get_depth_def pm(1) hi Let_def load_depth_def using ne(1) by (simp only: add.assoc if_True simp_thms)
  ultimately have "get_depth p i = bits_nat (?ds ! ?h)" by (simp only:)
  also have "\<dots> = get_depth c (?ls ! ?h)"
    unfolding nth_map [OF hl(1)] by (rule bits_nat_int_bl_nat) (rule get_depth_less [OF assms(2)])
  finally show "get_depth p i = get_depth c (min vl i)" using get_same_level(2) [OF same] by simp
qed

lemma create_pruned_branch_ok:
  "create_pruned_branch sha c nl vl = Some r \<Longrightarrow> cell_ok c \<Longrightarrow> cell_ok r"
  using pruned_data(2) [of sha c nl vl r] by (auto simp: create_pruned_branch_def split: if_splits)

text \<open>Two cells agree up to level \<open>d\<close> when their level masks, hashes and depths do.\<close>

definition agrees :: "(bits \<Rightarrow> bits) \<Rightarrow> nat \<Rightarrow> cell \<Rightarrow> cell \<Rightarrow> bool" where
  "agrees sha d r c \<longleftrightarrow> (\<forall>i \<le> d. get_hash sha r i = get_hash sha c i \<and> get_depth r i = get_depth c i \<and>
     lm_apply (get_level_mask r) i = lm_apply (get_level_mask c) i)"

lemma agrees_refl [simp]: "agrees sha d c c"
  by (simp add: agrees_def)

lemma agreesD:
  assumes "agrees sha d r c" "i \<le> d"
  shows "get_hash sha r i = get_hash sha c i" "get_depth r i = get_depth c i"
    "lm_apply (get_level_mask r) i = lm_apply (get_level_mask c) i"
  using assms by (simp_all add: agrees_def)

lemma lm_apply_cap: "lm_apply (get_level_mask c) (min max_level i) = lm_apply (get_level_mask c) i"
proof (cases "3 \<le> i")
  case True
  have "lm_apply (get_level_mask c) i = get_level_mask c" "lm_apply (get_level_mask c) 3 = get_level_mask c"
    by (rule lm_apply_big [OF get_level_mask_less True], rule lm_apply_big [OF get_level_mask_less order_refl])
  then show ?thesis by (simp only: max_level_def min_absorb1 [OF True])
next
  case False
  then have "min 3 i = i" by simp
  then show ?thesis by (simp only: max_level_def)
qed

lemma create_pruned_agrees:
  assumes "create_pruned_branch sha c (d + 1) max_level = Some r" "cell_ok c" "\<And>x. length (sha x) = 256"
  shows "cell_ok r \<and> agrees sha d r c"
proof (cases "get_level c \<le> max_level \<and> cell_refs c = []")
  case True
  then have "r = c" using assms(1) by (simp add: create_pruned_branch_def)
  then show ?thesis using assms(2) by simp
next
  case False
  then have p: "do_create_pruned_branch sha c (d + 1) max_level = Some r"
    using assms(1) unfolding create_pruned_branch_def by (simp only: if_False)
  have "get_hash sha r i = get_hash sha c i" "get_depth r i = get_depth c i"
    "lm_apply (get_level_mask r) i = lm_apply (get_level_mask c) i" if "i \<le> d" for i
  proof -
    have i: "i < d + 1" using that by simp
    show "get_hash sha r i = get_hash sha c i"
      unfolding pruned_same(1) [OF p assms(2,3) i] by (rule get_same_level(1) [OF lm_apply_cap])
    show "get_depth r i = get_depth c i"
      unfolding pruned_same(2) [OF p assms(2,3) i] by (rule get_same_level(2) [OF lm_apply_cap])
    show "lm_apply (get_level_mask r) i = lm_apply (get_level_mask c) i"
      unfolding pruned_mask(5) [OF p assms(2,3) i] lm_apply_apply by (rule lm_apply_cap)
  qed
  then show ?thesis using pruned_data(2) [OF p] unfolding agrees_def by blast
qed

section \<open>Generation\<close>

text \<open>\<open>child_merkle_depth\<close> counts the Merkle cells on the way down; 255 stands for no limit.\<close>

definition child_merkle_depth :: "cell_type \<Rightarrow> nat \<Rightarrow> nat" where
  "child_merkle_depth t d = (if d = 255 then d else if t = MerkleProof \<or> t = MerkleUpdate then d + 1 else d)"

text \<open>A copy of a cell with other references.\<close>

definition rebuild_cell :: "(bits \<Rightarrow> bits) \<Rightarrow> bool \<Rightarrow> bits \<Rightarrow> cell list \<Rightarrow> cell option" where
  "rebuild_cell sha sp bs rs =
     (case store_bits bs new_builder of None \<Rightarrow> None
      | Some b \<Rightarrow> (case store_refs rs b of None \<Rightarrow> None | Some b' \<Rightarrow> finalize_novm sha sp b'))"

text \<open>
  \<open>MerkleProofImpl::dfs\<close>. The table \<open>cells_\<close> maps a hash and a depth to the result for them;
  \<open>emplace\<close> keeps an entry that is there already. An exception is \<open>None\<close>.
\<close>

type_synonym proof_table = "bits \<times> nat \<rightharpoonup> cell"

definition emplace :: "bits \<times> nat \<Rightarrow> cell \<Rightarrow> proof_table \<Rightarrow> proof_table" where
  "emplace k r tab = (if tab k = None then tab(k \<mapsto> r) else tab)"

fun dfs :: "(bits \<Rightarrow> bits) \<Rightarrow> (cell \<Rightarrow> bool) \<Rightarrow> cell \<Rightarrow> nat \<Rightarrow> proof_table \<Rightarrow> (cell \<times> proof_table) option"
  and dfs_refs :: "(bits \<Rightarrow> bits) \<Rightarrow> (cell \<Rightarrow> bool) \<Rightarrow> cell list \<Rightarrow> nat \<Rightarrow> proof_table \<Rightarrow> (cell list \<times> proof_table) option" where
  "dfs sha is_prunned (Cell sp bs rs) d tab =
     (let c = Cell sp bs rs; key = (get_hash sha c max_level, d)
      in case tab key of
           Some r \<Rightarrow> Some (r, tab)
         | None \<Rightarrow>
             if is_prunned c then
               (case create_pruned_branch sha c (d + 1) max_level of None \<Rightarrow> None | Some r \<Rightarrow> Some (r, emplace key r tab))
             else
               (case dfs_refs sha is_prunned rs (child_merkle_depth (special_type c) d) tab of
                  None \<Rightarrow> None
                | Some (rs', tab') \<Rightarrow>
                    (case rebuild_cell sha sp bs rs' of None \<Rightarrow> None | Some r \<Rightarrow> Some (r, emplace key r tab'))))"
| "dfs_refs sha is_prunned [] d tab = Some ([], tab)"
| "dfs_refs sha is_prunned (c # cs) d tab =
     (case dfs sha is_prunned c d tab of
        None \<Rightarrow> None
      | Some (r, tab') \<Rightarrow>
          (case dfs_refs sha is_prunned cs d tab' of None \<Rightarrow> None | Some (rs, tab2) \<Rightarrow> Some (r # rs, tab2)))"

definition generate_raw :: "(bits \<Rightarrow> bits) \<Rightarrow> (cell \<Rightarrow> bool) \<Rightarrow> cell \<Rightarrow> cell option" where
  "generate_raw sha is_prunned c = map_option fst (dfs sha is_prunned c (get_level c) Map.empty)"

definition generate :: "(bits \<Rightarrow> bits) \<Rightarrow> (cell \<Rightarrow> bool) \<Rightarrow> cell \<Rightarrow> cell option" where
  "generate sha is_prunned c =
     (if get_level c \<noteq> 0 then None
      else case generate_raw sha is_prunned c of None \<Rightarrow> None | Some raw \<Rightarrow> create_merkle_proof sha raw)"

text \<open>\<open>unpack_proof\<close>: what a proof is a proof of.\<close>

definition unpack_proof :: "cell \<Rightarrow> cell option" where
  "unpack_proof c =
     (if get_level c \<noteq> 0 \<or> special_type c \<noteq> MerkleProof then None
      else case fetch_ref (cell_slice c) of None \<Rightarrow> None | Some (r, cs) \<Rightarrow> Some r)"

section \<open>The recursion without a table\<close>

text \<open>
  The reference: pruning and rebuilding are parameters, so that the properties of the
  recursion follow from theirs.
\<close>

fun dfs_ref :: "(cell \<Rightarrow> nat \<Rightarrow> cell option) \<Rightarrow> (bool \<Rightarrow> bits \<Rightarrow> cell list \<Rightarrow> cell option) \<Rightarrow> (cell \<Rightarrow> bool) \<Rightarrow>
      cell \<Rightarrow> nat \<Rightarrow> cell option"
  and dfs_ref_list :: "(cell \<Rightarrow> nat \<Rightarrow> cell option) \<Rightarrow> (bool \<Rightarrow> bits \<Rightarrow> cell list \<Rightarrow> cell option) \<Rightarrow> (cell \<Rightarrow> bool) \<Rightarrow>
      cell list \<Rightarrow> nat \<Rightarrow> cell list option" where
  "dfs_ref prune build is_prunned (Cell sp bs rs) d =
     (if is_prunned (Cell sp bs rs) then prune (Cell sp bs rs) d
      else case dfs_ref_list prune build is_prunned rs (child_merkle_depth (special_type (Cell sp bs rs)) d) of
             None \<Rightarrow> None | Some rs' \<Rightarrow> build sp bs rs')"
| "dfs_ref_list prune build is_prunned [] d = Some []"
| "dfs_ref_list prune build is_prunned (c # cs) d =
     (case dfs_ref prune build is_prunned c d of
        None \<Rightarrow> None
      | Some r \<Rightarrow> map_option (Cons r) (dfs_ref_list prune build is_prunned cs d))"

lemma dfs_ref_list_all2:
  "dfs_ref_list prune build is_prunned cs d = Some rs \<longleftrightarrow> list_all2 (\<lambda>r c. dfs_ref prune build is_prunned c d = Some r) rs cs"
proof (induction cs arbitrary: rs)
  case (Cons c cs)
  then show ?case by (cases rs) (auto split: option.splits)
qed auto

lemma list_all2_mono_set:
  "list_all2 P xs ys \<Longrightarrow> (\<And>x y. y \<in> set ys \<Longrightarrow> P x y \<Longrightarrow> Q x y) \<Longrightarrow> list_all2 Q xs ys"
  by (induction xs ys rule: list_all2_induct) auto

lemma list_all2_map_cong: "list_all2 P xs ys \<Longrightarrow> (\<And>x y. P x y \<Longrightarrow> f x = g y) \<Longrightarrow> map f xs = map g ys"
  by (induction xs ys rule: list_all2_induct) auto

lemma list_all2_left: "list_all2 P xs ys \<Longrightarrow> (\<And>x y. P x y \<Longrightarrow> Q x) \<Longrightarrow> \<forall>x \<in> set xs. Q x"
  by (induction xs ys rule: list_all2_induct) auto

text \<open>What pruning and rebuilding promise: the results agree with the cells they were made from.\<close>

locale blinding =
  fixes agrees :: "nat \<Rightarrow> cell \<Rightarrow> cell \<Rightarrow> bool"
    and prune :: "cell \<Rightarrow> nat \<Rightarrow> cell option"
    and build :: "bool \<Rightarrow> bits \<Rightarrow> cell list \<Rightarrow> cell option"
  assumes prune_agrees: "prune c d = Some r \<Longrightarrow> cell_ok c \<Longrightarrow> cell_ok r \<and> agrees d r c"
    and build_agrees: "build sp bs rs' = Some r \<Longrightarrow> cell_ok (Cell sp bs rs) \<Longrightarrow>
      list_all2 (\<lambda>r' c. cell_ok r' \<and> agrees (child_merkle_depth (special_type (Cell sp bs rs)) d) r' c) rs' rs \<Longrightarrow>
      cell_ok r \<and> agrees d r (Cell sp bs rs)"
begin

lemma ref_agrees:
  "dfs_ref prune build is_prunned c d = Some r \<Longrightarrow> cell_ok c \<Longrightarrow> cell_ok r \<and> agrees d r c"
proof (induction c arbitrary: d r)
  case (Cell sp bs rs)
  let ?c = "Cell sp bs rs" and ?d = "child_merkle_depth (special_type (Cell sp bs rs)) d"
  show ?case
  proof (cases "is_prunned ?c")
    case True
    then show ?thesis using Cell.prems prune_agrees by simp
  next
    case False
    then obtain rs' where l: "dfs_ref_list prune build is_prunned rs ?d = Some rs'" and b: "build sp bs rs' = Some r"
      using Cell.prems(1) by (auto split: option.splits)
    have "list_all2 (\<lambda>r' c. dfs_ref prune build is_prunned c ?d = Some r') rs' rs" using l by (simp only: dfs_ref_list_all2)
    then have "list_all2 (\<lambda>r' c. cell_ok r' \<and> agrees ?d r' c) rs' rs"
    proof (rule list_all2_mono_set)
      fix r' c assume "c \<in> set rs" "dfs_ref prune build is_prunned c ?d = Some r'"
      then show "cell_ok r' \<and> agrees ?d r' c" using Cell.IH Cell.prems(2) by simp
    qed
    then show ?thesis by (rule build_agrees [OF b Cell.prems(2)])
  qed
qed

end

section \<open>Rebuilt cells agree\<close>

lemma store_refs_Some: "store_refs rs b = Some b' \<Longrightarrow> bl_refs b' = bl_refs b @ rs \<and> bl_bits b' = bl_bits b"
  by (induction rs arbitrary: b) (auto simp: store_ref_bool_def split: option.splits if_splits)

lemma rebuild_cell_Some:
  assumes "rebuild_cell sha sp bs rs = Some r"
  shows "r = Cell sp bs rs" "cell_shape sp bs rs"
proof -
  obtain b b' where b: "store_bits bs new_builder = Some b" "store_refs rs b = Some b'" "finalize_novm sha sp b' = Some r"
    using assms by (auto simp: rebuild_cell_def split: option.splits)
  have "bl_bits b' = bs" "bl_refs b' = rs"
    using store_refs_Some [OF b(2)] b(1) by (auto simp: store_bits_def new_builder_def split: if_splits)
  then show "r = Cell sp bs rs" "cell_shape sp bs rs" using finalize_novm_Some [OF b(3)] by simp_all
qed

lemma agrees_capped:
  assumes "agrees sha d r c" "min max_level j \<le> d"
  shows "get_hash sha r j = get_hash sha c j" "get_depth r j = get_depth c j"
    "lm_apply (get_level_mask r) j = lm_apply (get_level_mask c) j"
  using agreesD [OF assms] by (simp_all only: get_same_level [OF lm_apply_cap] lm_apply_cap)

lemma child_levels_capped: "k \<le> d \<Longrightarrow> min max_level (child_level t k) \<le> child_merkle_depth t d"
  by (auto simp: child_level_def child_merkle_depth_def max_level_def)

lemma foldl_or_apply:
  "lm_apply (foldl lm_apply_or a ms) j = foldl lm_apply_or (lm_apply a j) (map (\<lambda>m. lm_apply m j) ms)"
  by (induction ms arbitrary: a) (simp_all add: lm_apply_or_dist)

lemma and7_apply: "x AND 7 = lm_apply x 3"
  by (simp add: lm_apply_def)

lemma create_level_mask_agrees:
  assumes "\<And>k. k \<le> d \<Longrightarrow> map (\<lambda>m. lm_apply m (child_level t k)) ms' = map (\<lambda>m. lm_apply m (child_level t k)) ms"
    "t = MerkleProof \<Longrightarrow> length ms = 1" "t = MerkleUpdate \<Longrightarrow> length ms = 2" "i \<le> d"
  shows "lm_apply (create_level_mask t bs ms' AND 7) i = lm_apply (create_level_mask t bs ms AND 7) i"
proof -
  have len: "length ms' = length ms" using assms(1) [OF order_refl] by (rule map_eq_imp_length_eq)
  have j: "min 3 i \<le> d" using assms(4) by simp
  note eq = assms(1) [OF j]
  have nth: "lm_apply (ms' ! n) (child_level t (min 3 i)) = lm_apply (ms ! n) (child_level t (min 3 i))" if "n < length ms" for n
    using arg_cong [OF eq, of "\<lambda>xs. xs ! n"] that len by simp
  show ?thesis unfolding and7_apply lm_apply_apply
  proof (cases t)
    case Ordinary
    then show "lm_apply (create_level_mask t bs ms') (min 3 i) = lm_apply (create_level_mask t bs ms) (min 3 i)"
      using eq by (simp add: create_level_mask_def foldl_or_apply child_level_def)
  next
    case MerkleProof
    then show "lm_apply (create_level_mask t bs ms') (min 3 i) = lm_apply (create_level_mask t bs ms) (min 3 i)"
      using nth [of 0] assms(2) by (simp add: create_level_mask_def lm_apply_shift child_level_def)
  next
    case MerkleUpdate
    then show "lm_apply (create_level_mask t bs ms') (min 3 i) = lm_apply (create_level_mask t bs ms) (min 3 i)"
      using nth [of 0] nth [of 1] assms(3)
      by (simp add: create_level_mask_def lm_apply_shift lm_apply_or_dist child_level_def)
  qed (simp_all add: create_level_mask_def)
qed

lemma rebuild_agrees:
  assumes "rebuild_cell sha sp bs rs' = Some r" "cell_ok (Cell sp bs rs)"
    "list_all2 (\<lambda>r' c. cell_ok r' \<and> agrees sha (child_merkle_depth (special_type (Cell sp bs rs)) d) r' c) rs' rs"
  shows "cell_ok r \<and> agrees sha d r (Cell sp bs rs)"
proof -
  let ?c = "Cell sp bs rs"
  let ?t = "special_type_of sp bs"
  note rb = rebuild_cell_Some [OF assms(1)]
  have tc: "special_type ?c = ?t" "special_type r = ?t" by (simp_all add: rb(1) special_type_def)
  have "\<forall>r' \<in> set rs'. cell_ok r'" by (rule list_all2_left [OF assms(3)]) (erule conjunct1)
  then have ok: "cell_ok r" using rb(2) unfolding rb(1) cell_ok.simps by blast
  have shape: "special_shape ?t bs rs" using assms(2) unfolding cell_ok.simps cell_shape_def by (elim conjE)
  show ?thesis
  proof (cases "?t = PrunnedBranch")
    case True
    then have rs: "rs = []" using shape unfolding special_shape_def by (simp only: cell_type.case)
    have "rs' = []" using assms(3) unfolding rs by (simp only: list_all2_Nil2)
    then have "r = ?c" using rb(1) rs by (simp only:)
    then show ?thesis using ok by (simp only: agrees_refl)
  next
    case False
    have ch: "map (\<lambda>x. get_hash sha x (child_level ?t k)) rs' = map (\<lambda>x. get_hash sha x (child_level ?t k)) rs"
      "map (\<lambda>x. get_depth x (child_level ?t k)) rs' = map (\<lambda>x. get_depth x (child_level ?t k)) rs"
      "map (\<lambda>m. lm_apply m (child_level ?t k)) (map get_level_mask rs') = map (\<lambda>m. lm_apply m (child_level ?t k)) (map get_level_mask rs)"
      if "k \<le> d" for k
      unfolding map_map comp_def
      by (rule list_all2_map_cong [OF assms(3) [unfolded tc(1)]],
          rule agrees_capped [OF conjunct2 child_levels_capped [OF that]], assumption)+
    have mask: "lm_apply (get_level_mask r) i = lm_apply (get_level_mask ?c) i" if "i \<le> d" for i
      unfolding rb(1) get_level_mask.simps
      by (rule create_level_mask_agrees [OF ch(3) _ _ that])
        (use shape in \<open>simp_all only: special_shape_def cell_type.case length_map simp_thms\<close>)
    then have eff: "eff_level r i = eff_level ?c i" if "i \<le> d" for i using that unfolding eff_level_def by (simp only:)
    have k: "eff_level ?c i \<le> d" if "i \<le> d" for i by (rule order_trans [OF eff_level_le that])
    have depth: "get_depth r i = get_depth ?c i" if "i \<le> d" for i
      unfolding get_depth_rec [of r, unfolded tc, OF False] get_depth_rec [of ?c, unfolded tc, OF False] eff [OF that]
      using ch(2) [OF k [OF that]] unfolding rb(1) cell.sel by (simp only:)
    have hash: "get_hash sha r i = get_hash sha ?c i" if "i \<le> d" for i
      using that
    proof (induction i rule: less_induct)
      case (less i)
      let ?k = "eff_level ?c i"
      have prev: "get_hash sha r (?k - 1) = get_hash sha ?c (?k - 1)" if "?k \<noteq> 0"
      proof (rule less.IH)
        show "?k - 1 < i" using eff_level_le [of ?c i] that by linarith
        then show "?k - 1 \<le> d" using less.prems by linarith
      qed
      have m: "lm_apply (get_level_mask r) ?k = lm_apply (get_level_mask ?c) ?k" by (rule mask [OF k [OF less.prems]])
      have pr: "(if ?k = 0 then None else Some (get_hash sha r (?k - 1))) = (if ?k = 0 then None else Some (get_hash sha ?c (?k - 1)))"
        using prev by (cases "?k = 0") (simp_all only: if_True if_False simp_thms)
      have len: "length rs' = length rs" using assms(3) by (rule list_all2_lengthD)
      have sel: "cell_special r = sp" "cell_bits r = bs" "cell_refs r = rs'" unfolding rb(1) cell.sel by (rule refl)+
      show ?case
        unfolding get_hash_rec [of r sha i, unfolded tc, OF False] get_hash_rec [of ?c sha i, unfolded tc, OF False] Let_def
          eff [OF less.prems] level_input_def pr m sel cell.sel ch(1,2) [OF k [OF less.prems]] length_map len
        by (rule refl)
    qed
    show ?thesis using ok mask depth hash unfolding agrees_def by blast
  qed
qed

section \<open>Levels\<close>

lemma lm_level_apply: "m < 8 \<Longrightarrow> lm_level m \<le> l \<longleftrightarrow> lm_apply m l = m"
  using lm_apply_id [of m l] lm_facts(4) [of m l] by auto

lemma get_level_apply: "get_level c \<le> l \<longleftrightarrow> lm_apply (get_level_mask c) l = get_level_mask c"
  unfolding get_level_def by (rule lm_level_apply [OF get_level_mask_less])

lemma lm_apply_comm: "lm_apply (lm_apply m a) b = lm_apply (lm_apply m b) a"
  by (simp add: min.commute)

lemma level_from_children:
  assumes "special_shape t bs rs" "length ms = length rs" "t \<noteq> PrunnedBranch"
    "\<forall>m \<in> set ms. lm_apply m (child_level t l) = m"
  shows "lm_apply (create_level_mask t bs ms AND 7) l = create_level_mask t bs ms AND 7"
proof -
  have "lm_apply (create_level_mask t bs ms) l = create_level_mask t bs ms"
  proof (cases t)
    case Ordinary
    then have "map (\<lambda>m. lm_apply m l) ms = ms" using assms(4) by (simp add: child_level_def map_idI)
    then show ?thesis using Ordinary lm_apply_def [of 0] by (simp add: create_level_mask_def foldl_or_apply)
  next
    case MerkleProof
    then have "ms ! 0 \<in> set ms" using assms(1,2) by (simp add: special_shape_def)
    then show ?thesis using MerkleProof assms(4) by (simp add: create_level_mask_def lm_apply_shift child_level_def)
  next
    case MerkleUpdate
    then have "ms ! 0 \<in> set ms" "ms ! 1 \<in> set ms" using assms(1,2) by (simp_all add: special_shape_def)
    then show ?thesis using MerkleUpdate assms(4)
      by (simp add: create_level_mask_def lm_apply_shift lm_apply_or_dist child_level_def)
  qed (use assms(3) in \<open>simp_all add: create_level_mask_def lm_apply_def\<close>)
  then show ?thesis unfolding and7_apply by (simp only: lm_apply_comm [of _ 3])
qed

text \<open>A Merkle proof has level 0 when the cells under it have at most level 1.\<close>

definition level_kept :: "nat \<Rightarrow> cell \<Rightarrow> cell \<Rightarrow> bool" where
  "level_kept d r c \<longleftrightarrow> (get_level c \<le> d \<longrightarrow> get_level r \<le> d + 1)"

lemma child_merkle_level: "get_level c \<le> child_level t d \<Longrightarrow> get_level c \<le> child_merkle_depth t d"
proof -
  have "get_level c \<le> 3" unfolding get_level_apply by (rule lm_apply_big [OF get_level_mask_less order_refl])
  then show "get_level c \<le> child_level t d \<Longrightarrow> get_level c \<le> child_merkle_depth t d"
    by (auto simp: child_level_def child_merkle_depth_def split: if_splits)
qed

lemma child_merkle_level_up: "get_level c \<le> child_merkle_depth t d + 1 \<Longrightarrow> get_level c \<le> child_level t (d + 1)"
  by (auto simp: child_level_def child_merkle_depth_def split: if_splits)

lemma rebuild_level:
  assumes "special_shape (special_type_of sp bs) bs rs" "special_type_of sp bs \<noteq> PrunnedBranch"
    "list_all2 (\<lambda>r' c. level_kept (child_merkle_depth (special_type_of sp bs) d) r' c) rs' rs"
  shows "level_kept d (Cell sp bs rs') (Cell sp bs rs)"
proof (cases "special_type_of sp bs = Library")
  case True
  then show ?thesis by (simp add: level_kept_def get_level_apply create_level_mask_def lm_apply_def)
next
  case False
  let ?t = "special_type_of sp bs"
  have "get_level (Cell sp bs rs') \<le> d + 1" if l: "get_level (Cell sp bs rs) \<le> d"
  proof -
    have c: "get_level c \<le> child_merkle_depth ?t d" if "c \<in> set rs" for c
    proof (rule child_merkle_level)
      have "get_level c \<le> child_level ?t (get_level (Cell sp bs rs))" by (rule children_levels [OF assms(1) False that])
      also have "\<dots> \<le> child_level ?t d" using l by (simp add: child_level_def)
      finally show "get_level c \<le> child_level ?t d" .
    qed
    have "list_all2 (\<lambda>r' c. get_level r' \<le> child_level ?t (d + 1)) rs' rs"
    proof (rule list_all2_mono_set [OF assms(3)])
      fix r' c assume "c \<in> set rs" "level_kept (child_merkle_depth ?t d) r' c"
      then show "get_level r' \<le> child_level ?t (d + 1)" using c unfolding level_kept_def by (blast intro: child_merkle_level_up)
    qed
    then have "\<forall>r' \<in> set rs'. get_level r' \<le> child_level ?t (d + 1)" by (rule list_all2_left)
    then have "\<forall>m \<in> set (map get_level_mask rs'). lm_apply m (child_level ?t (d + 1)) = m" by (simp add: get_level_apply)
    moreover have "length (map get_level_mask rs') = length rs" using list_all2_lengthD [OF assms(3)] by simp
    ultimately show ?thesis
      unfolding get_level_apply get_level_mask.simps using level_from_children [OF assms(1) _ assms(2)] by blast
  qed
  then show ?thesis by (simp add: level_kept_def)
qed

lemma create_pruned_level:
  assumes "create_pruned_branch sha c (d + 1) max_level = Some r" "cell_ok c" "\<And>x. length (sha x) = 256"
  shows "level_kept d r c"
proof (cases "get_level c \<le> max_level \<and> cell_refs c = []")
  case True
  then have "r = c" using assms(1) by (simp add: create_pruned_branch_def)
  then show ?thesis by (simp add: level_kept_def)
next
  case False
  then have p: "do_create_pruned_branch sha c (d + 1) max_level = Some r"
    using assms(1) unfolding create_pruned_branch_def by (simp only: if_False)
  show ?thesis using pruned_mask(3) [OF p assms(2,3)] by (simp add: level_kept_def)
qed

section \<open>Proofs prove\<close>

text \<open>The relation between a cell and its copy in a proof that is kept for each subtree.\<close>

definition blinded :: "(bits \<Rightarrow> bits) \<Rightarrow> nat \<Rightarrow> cell \<Rightarrow> cell \<Rightarrow> bool" where
  "blinded sha d r c \<longleftrightarrow> ((\<forall>x. length (sha x) = 256) \<longrightarrow> agrees sha d r c \<and> level_kept d r c)"

lemma rebuild_blinded:
  assumes b: "rebuild_cell sha sp bs rs' = Some r" and ok: "cell_ok (Cell sp bs rs)"
    and l2: "list_all2 (\<lambda>r' c. cell_ok r' \<and> blinded sha (child_merkle_depth (special_type (Cell sp bs rs)) d) r' c) rs' rs"
    and sha: "\<forall>x. length (sha x) = 256"
  shows "agrees sha d r (Cell sp bs rs)" "level_kept d r (Cell sp bs rs)"
proof -
  let ?t = "special_type_of sp bs" and ?c = "Cell sp bs rs"
  have t: "special_type ?c = ?t" by (simp add: special_type_def)
  note rb = rebuild_cell_Some [OF b]
  have sh: "special_shape ?t bs rs" using ok unfolding cell_ok.simps cell_shape_def by (elim conjE)
  have "list_all2 (\<lambda>r' c. cell_ok r' \<and> agrees sha (child_merkle_depth (special_type ?c) d) r' c) rs' rs"
    by (rule list_all2_mono [OF l2]) (simp only: blinded_def sha simp_thms)
  then show "agrees sha d r ?c" using rebuild_agrees [OF b ok] by blast
  have lv: "list_all2 (\<lambda>r' c. level_kept (child_merkle_depth ?t d) r' c) rs' rs"
    by (rule list_all2_mono [OF l2]) (simp only: blinded_def sha simp_thms t)
  show "level_kept d r ?c"
  proof (cases "?t = PrunnedBranch")
    case True
    then have rs: "rs = []" using sh unfolding special_shape_def by (simp only: cell_type.case)
    have "rs' = []" using lv unfolding rs by (simp only: list_all2_Nil2)
    then have "r = ?c" using rb(1) rs by (simp only:)
    then show ?thesis by (simp add: level_kept_def)
  next
    case False
    show ?thesis unfolding rb(1) by (rule rebuild_level [OF sh False lv])
  qed
qed

lemma rebuild_ok:
  assumes "rebuild_cell sha sp bs rs' = Some r" "\<forall>r' \<in> set rs'. cell_ok r'"
  shows "cell_ok r"
  using rebuild_cell_Some(2) [OF assms(1)] assms(2) unfolding rebuild_cell_Some(1) [OF assms(1)] cell_ok.simps by blast

interpretation code: blinding "blinded sha" "\<lambda>c d. create_pruned_branch sha c (d + 1) max_level" "rebuild_cell sha" for sha
proof
  fix c d r
  assume *: "create_pruned_branch sha c (d + 1) max_level = Some r" "cell_ok c"
  then show "cell_ok r \<and> blinded sha d r c"
    unfolding blinded_def using create_pruned_branch_ok create_pruned_agrees [OF *] create_pruned_level [OF *] by simp
next
  fix sp bs rs' r rs d
  assume *: "rebuild_cell sha sp bs rs' = Some r" "cell_ok (Cell sp bs rs)"
    "list_all2 (\<lambda>r' c. cell_ok r' \<and> blinded sha (child_merkle_depth (special_type (Cell sp bs rs)) d) r' c) rs' rs"
  have "\<forall>r' \<in> set rs'. cell_ok r'" by (rule list_all2_left [OF *(3)]) (erule conjunct1)
  then have "cell_ok r" by (rule rebuild_ok [OF *(1)])
  moreover have "blinded sha d r (Cell sp bs rs)"
    unfolding blinded_def using rebuild_blinded [OF *] by (intro impI conjI) simp_all
  ultimately show "cell_ok r \<and> blinded sha d r (Cell sp bs rs)" by (rule conjI)
qed

text \<open>
  The recursion with the table computes what the reference does, when no two different cells
  of the tree have the same hash.
\<close>

fun subcells :: "cell \<Rightarrow> cell list" where
  "subcells (Cell sp bs rs) = Cell sp bs rs # concat (map subcells rs)"

definition no_collision :: "(bits \<Rightarrow> bits) \<Rightarrow> cell list \<Rightarrow> bool" where
  "no_collision sha cs \<longleftrightarrow>
     (\<forall>a \<in> set cs. \<forall>b \<in> set cs. get_hash sha a max_level = get_hash sha b max_level \<longrightarrow> a = b)"

abbreviation "proof_ref sha \<equiv> dfs_ref (\<lambda>c d. create_pruned_branch sha c (d + 1) max_level) (rebuild_cell sha)"

abbreviation "proof_ref_list sha \<equiv> dfs_ref_list (\<lambda>c d. create_pruned_branch sha c (d + 1) max_level) (rebuild_cell sha)"

definition table_ok :: "(bits \<Rightarrow> bits) \<Rightarrow> (cell \<Rightarrow> bool) \<Rightarrow> cell list \<Rightarrow> proof_table \<Rightarrow> bool" where
  "table_ok sha ip cs tab \<longleftrightarrow>
     (\<forall>c \<in> set cs. \<forall>d r. tab (get_hash sha c max_level, d) = Some r \<longrightarrow> proof_ref sha ip c d = Some r)"

lemma table_ok_emplace:
  assumes "table_ok sha ip cs tab" "no_collision sha cs" "c \<in> set cs" "proof_ref sha ip c d = Some r"
  shows "table_ok sha ip cs (emplace (get_hash sha c max_level, d) r tab)"
  using assms unfolding table_ok_def emplace_def no_collision_def by (auto split: if_splits)

lemma subcells_self: "c \<in> set (subcells c)"
  by (cases c) simp

lemma dfs_table:
  "no_collision sha cs \<Longrightarrow> set (subcells c) \<subseteq> set cs \<Longrightarrow> table_ok sha ip cs tab \<Longrightarrow>
     (case dfs sha ip c d tab of None \<Rightarrow> proof_ref sha ip c d = None
      | Some (r, tab') \<Rightarrow> proof_ref sha ip c d = Some r \<and> table_ok sha ip cs tab')"
  "no_collision sha cs \<Longrightarrow> (\<Union>x \<in> set xs. set (subcells x)) \<subseteq> set cs \<Longrightarrow> table_ok sha ip cs tab \<Longrightarrow>
     (case dfs_refs sha ip xs d tab of None \<Rightarrow> proof_ref_list sha ip xs d = None
      | Some (rs, tab') \<Rightarrow> proof_ref_list sha ip xs d = Some rs \<and> table_ok sha ip cs tab')"
proof (induction sha ip c d tab and sha ip xs d tab rule: dfs_dfs_refs.induct)
  case (1 sha ip sp bs rs d tab)
  let ?c = "Cell sp bs rs"
  let ?key = "(get_hash sha ?c max_level, d)" and ?d = "child_merkle_depth (special_type ?c) d"
  have c: "?c \<in> set cs" using "1.prems"(2) by simp
  show ?case
  proof (cases "tab ?key")
    case (Some r)
    then have "proof_ref sha ip ?c d = Some r" using "1.prems"(3) c unfolding table_ok_def by blast
    then show ?thesis using Some "1.prems"(3) by (simp add: Let_def)
  next
    case None
    have emp: "table_ok sha ip cs (emplace ?key r t)" if "table_ok sha ip cs t" "proof_ref sha ip ?c d = Some r" for r t
      by (rule table_ok_emplace [OF that(1) "1.prems"(1) c that(2)])
    show ?thesis
    proof (cases "ip ?c")
      case True
      then show ?thesis using None emp [OF "1.prems"(3)] by (auto simp: Let_def split: option.splits)
    next
      case False
      have "(case dfs_refs sha ip rs ?d tab of None \<Rightarrow> proof_ref_list sha ip rs ?d = None
        | Some (rs2, tab') \<Rightarrow> proof_ref_list sha ip rs ?d = Some rs2 \<and> table_ok sha ip cs tab')"
        using "1.IH" [OF refl refl None False] "1.prems" by auto
      then show ?thesis using None False emp by (auto simp: Let_def split: option.splits)
    qed
  qed
next
  case (3 sha ip c xs d tab)
  have "set (subcells c) \<subseteq> set cs" "(\<Union>x \<in> set xs. set (subcells x)) \<subseteq> set cs" using "3.prems"(2) by auto
  note IH1 = "3.IH"(1) [OF "3.prems"(1) this(1) "3.prems"(3)] and IH2 = "3.IH"(2) [OF _ _ "3.prems"(1) this(2)]
  show ?case
  proof (cases "dfs sha ip c d tab")
    case None
    then show ?thesis using IH1 by simp
  next
    case (Some p)
    obtain r t where p: "p = (r, t)" by (cases p)
    have "case dfs_refs sha ip xs d t of None \<Rightarrow> proof_ref_list sha ip xs d = None
      | Some (rs, tab') \<Rightarrow> proof_ref_list sha ip xs d = Some rs \<and> table_ok sha ip cs tab'"
      using IH1 IH2 [OF Some p [symmetric]] Some p by simp
    then show ?thesis using IH1 Some p by (auto split: option.splits)
  qed
qed simp_all

lemma generate_raw_ref:
  assumes "no_collision sha (subcells c)"
  shows "generate_raw sha ip c = proof_ref sha ip c (get_level c)"
proof -
  have "table_ok sha ip (subcells c) Map.empty" by (simp add: table_ok_def)
  from dfs_table(1) [OF assms subset_refl this, of "get_level c"] show ?thesis
    by (auto simp: generate_raw_def split: option.splits)
qed

text \<open>A Merkle proof consists of its reference and the hash and depth of that at level 0.\<close>

lemma create_merkle_proof_Some:
  assumes "create_merkle_proof sha c = Some p" "cell_ok c"
  shows "cell_ok p" "cell_refs p = [c]" "special_type p = MerkleProof"
    "take 256 (drop 8 (cell_bits p)) = take 256 (get_hash sha c 0 @ int_bl 16 (int (get_depth c 0)))"
proof -
  obtain b where b: "store_list [store_long 3 8, store_bytes (get_hash sha c 0), store_long (int (get_depth c 0)) 16, store_ref_bool c]
        new_builder = Some b" "finalize_novm sha True b = Some p"
    using assms(1) by (auto simp: create_merkle_proof_def split: option.splits)
  have f: "bl_bits b = int_bl 8 3 @ get_hash sha c 0 @ int_bl 16 (int (get_depth c 0))" "bl_refs b = [c]"
    using b(1) by (auto simp: store_long_def store_bytes_def store_bits_def store_ref_bool_def new_builder_def
        split: if_splits option.splits)
  note fp = finalize_novm_Some [OF b(2)]
  show "cell_ok p" using fp f(2) assms(2) unfolding conjunct1 [OF fp] cell_ok.simps by simp
  show "cell_refs p = [c]" using fp f(2) by simp
  have "bits_nat (int_bl 8 3) = 3" using bits_nat_int_bl_mod [of 8 3] by simp
  then show "special_type p = MerkleProof"
    using fp f(1) by (simp add: special_type_def special_type_of_def special_of_nat_def)
  show "take 256 (drop 8 (cell_bits p)) = take 256 (get_hash sha c 0 @ int_bl 16 (int (get_depth c 0)))"
    using fp f(1) by simp
qed

lemma merkle_proof_level:
  assumes "special_type p = MerkleProof" "cell_refs p = [c]" "get_level c \<le> 1"
  shows "get_level p = 0"
proof -
  obtain sp bs where p: "p = Cell sp bs [c]" using assms(2) by (cases p) simp
  have "lm_apply (get_level_mask c) 1 = get_level_mask c" using assms(3) unfolding get_level_apply .
  then have "lm_shift_right (get_level_mask c) = lm_apply (lm_shift_right (get_level_mask c)) 0"
    unfolding lm_apply_shift by simp
  then have "lm_shift_right (get_level_mask c) = 0" by (simp add: lm_apply_def)
  then have "get_level_mask p = 0" using assms(1) by (simp add: p special_type_def create_level_mask_def)
  then show ?thesis by (simp add: get_level_def lm_level_def nat_bits.simps)
qed

section \<open>Proofs exist\<close>

lemma special_of_proof: "special_type_of True (int_bl 8 3 @ bs) = MerkleProof"
  using bits_nat_int_bl_mod [of 8 3] by (simp add: special_type_of_def special_of_nat_def)

text \<open>A cell that is not too deep can be put into a proof.\<close>

lemma create_merkle_proof_total:
  assumes "\<And>x. length (sha x) = 256" "cell_ok c" "\<And>i. get_depth c i < max_depth"
  shows "create_merkle_proof sha c \<noteq> None"
proof -
  let ?h = "get_hash sha c 0" and ?d = "int_bl 16 (int (get_depth c 0))"
  let ?bs = "int_bl 8 3 @ ?h @ ?d"
  have h: "length ?h = 256" by (rule length_get_hash [OF assms(2,1)])
  have d: "bits_nat ?d = get_depth c 0" by (rule bits_nat_int_bl_nat [OF get_depth_less [OF assms(2)]])
  have chk: "special_check sha MerkleProof ?bs [c] = None" by (simp add: special_check_def h d)
  have "depths_ok True ?bs [c]" unfolding depths_ok_def too_deep_def using assms(3) by (auto simp: not_le)
  then have "data_cell_create sha ?bs [c] True = Inr (Cell True ?bs [c])"
    using h chk by (simp add: data_cell_create_def special_of_proof max_bits_def max_refs_def)
  then show ?thesis
    using h by (simp add: create_merkle_proof_def store_long_def store_bytes_def store_bits_def store_ref_bool_def new_builder_def
      finalize_novm_def builder_defs max_bits_def max_refs_def)
qed

text \<open>Trees without special cells.\<close>

fun ordinary_tree :: "cell \<Rightarrow> bool" where
  "ordinary_tree (Cell sp bs rs) \<longleftrightarrow> \<not> sp \<and> (\<forall>r \<in> set rs. ordinary_tree r)"

lemma foldl_or_zero: "\<forall>m \<in> set ms. m = 0 \<Longrightarrow> foldl lm_apply_or 0 ms = 0"
  by (induction ms) (simp_all add: lm_apply_or_def)

lemma ordinary_level: "ordinary_tree c \<Longrightarrow> get_level_mask c = 0"
  by (induction c) (simp add: special_type_of_def create_level_mask_def foldl_or_zero)

lemma lm_zero: "lm_apply 0 l = 0" "lm_levels 0 = [0]" "lm_hash_i 0 = 0" "lm_level 0 = 0"
  by (simp_all add: lm_apply_def lm_levels_def lm_level_def lm_is_significant_def lm_hash_i.simps nat_bits.simps)

lemma fold_max_ge: "x \<in> set xs \<Longrightarrow> x \<le> fold max xs (a :: nat)"
  using fold_max_le [of xs a "fold max xs a"] by blast

lemma prune_ordinary:
  assumes "\<And>x. length (sha x) = 256" "cell_ok c" "ordinary_tree c"
  shows "do_create_pruned_branch sha c 1 max_level \<noteq> None"
proof -
  let ?h = "get_hash sha c 0" and ?d = "int_bl 16 (int (get_depth c 0))"
  let ?bs = "int_bl 8 1 @ int_bl 8 1 @ ?h @ ?d"
  have b: "bits_nat (int_bl 8 1) = 1" using bits_nat_int_bl_mod [of 8 1] by simp
  have h: "length ?h = 256" by (rule length_get_hash [OF assms(2,1)])
  have t: "special_type_of True ?bs = PrunnedBranch" using b by (simp add: special_type_of_def special_of_nat_def)
  have l: "lm_level (Suc 0) = 1" by code_simp
  have "special_check sha PrunnedBranch ?bs [] = None"
    by (simp add: special_check_def h b l max_level_def lm_hashes_count_def lm_zero lm_apply_def Let_def)
  moreover have "depths_ok True ?bs []" by (simp add: depths_ok_def too_deep_def)
  ultimately have "data_cell_create sha ?bs [] True = Inr (Cell True ?bs [])"
    using h by (simp add: data_cell_create_def t max_bits_def max_refs_def)
  then show ?thesis
    using h by (simp add: do_create_pruned_branch_def ordinary_level [OF assms(3)] lm_zero lm_apply_or_def lm_one_level_def
      store_long_def store_bytes_def store_bits_def new_builder_def finalize_novm_def builder_defs max_bits_def Let_def)
qed

lemma pruned_top_depth:
  assumes "do_create_pruned_branch sha c 1 max_level = Some r" "\<And>x. length (sha x) = 256" "cell_ok c" 
  shows "get_depth r l \<le> get_depth c 0"
proof (cases "l = 0")
  case True
  then show ?thesis using pruned_same(2) [OF assms(1,3,2), of 0] by simp
next
  case False
  have "get_level r \<le> l" using pruned_mask(3) [OF assms(1,3,2)] False by simp
  then have "get_depth r l = get_depth r max_level" by (rule get_depth_high)
  also have "\<dots> = 0" by (rule get_depth_prunned [OF pruned_mask(1) [OF assms(1,3,2)] pruned_data(3) [OF assms(1)]])
  finally show ?thesis by simp
qed

lemma rebuild_ordinary:
  assumes "cell_ok (Cell False bs rs)" "list_all2 (\<lambda>r' r. cell_ok r' \<and> (\<forall>l. get_depth r' l \<le> get_depth r 0)) rs' rs"
  shows "rebuild_cell sha False bs rs' = Some (Cell False bs rs')" "get_depth (Cell False bs rs') l \<le> get_depth (Cell False bs rs) 0"
proof -
  have len: "length rs' = length rs" using assms(2) by (rule list_all2_lengthD)
  have sz: "length bs \<le> max_bits" "length rs \<le> max_refs" using assms(1) by (simp_all add: cell_shape_def)
  have t: "special_type (Cell False bs x) \<noteq> PrunnedBranch" "special_type_of False bs = Ordinary" for x
    by (simp_all add: special_type_def special_type_of_def)
  have e: "eff_level c 0 = 0" for c by (simp add: eff_level_def lm_apply_def lm_zero)
  have d0: "get_depth (Cell False bs rs) 0 = calc_depth (map (\<lambda>r. get_depth r 0) rs)"
    unfolding get_depth_rec [OF t(1)] e by (simp add: special_type_def t child_level_def)
  have le: "fold max (map (\<lambda>r. get_depth r l) rs') 0 \<le> fold max (map (\<lambda>r. get_depth r 0) rs) 0" for l
  proof (rule iffD2 [OF fold_max_le], rule conjI)
    have "\<forall>r' \<in> set rs'. get_depth r' l \<le> fold max (map (\<lambda>r. get_depth r 0) rs) 0"
    proof (rule list_all2_left)
      show "list_all2 (\<lambda>r' r. r \<in> set rs \<and> (\<forall>l. get_depth r' l \<le> get_depth r 0)) rs' rs"
        by (rule list_all2_mono_set [OF assms(2)]) simp
      fix r' r assume "r \<in> set rs \<and> (\<forall>l. get_depth r' l \<le> get_depth r 0)"
      then show "get_depth r' l \<le> fold max (map (\<lambda>r. get_depth r 0) rs) 0"
        using fold_max_ge [of "get_depth r 0" "map (\<lambda>r. get_depth r 0) rs" 0] by (auto intro: le_trans)
    qed
    then show "\<forall>x \<in> set (map (\<lambda>r. get_depth r l) rs'). x \<le> fold max (map (\<lambda>r. get_depth r 0) rs) 0" by simp
  qed simp
  show "get_depth (Cell False bs rs') l \<le> get_depth (Cell False bs rs) 0"
    unfolding d0 get_depth_rec [OF t(1), of rs' l] cell.sel calc_depth_def using le len by auto
  have "0 \<in> set (lm_levels (get_level_mask (Cell False bs rs)))"
    by (auto simp: lm_levels_def lm_is_significant_def simp del: get_level_mask.simps)
  then have "\<not> too_deep (map (\<lambda>r. get_depth r 0) rs)"
    using assms(1) t(2) by (auto simp: cell_shape_def depths_ok_def hash_levels_all child_level_def simp del: get_level_mask.simps)
  then have "\<not> too_deep (map (\<lambda>r. get_depth r l) rs')" for l
    using le [of l] len unfolding too_deep_def by auto
  then have "depths_ok False bs rs'" unfolding depths_ok_def by blast
  then have "data_cell_create sha bs rs' False = Inr (Cell False bs rs')"
    using sz len by (simp add: data_cell_create_def t special_check_def)
  moreover have "store_refs rs' b = Some (b\<lparr>bl_refs := bl_refs b @ rs'\<rparr>)" if "bl_refs b = []" for b
    using store_refs_append [of b rs'] that sz len by simp
  ultimately show "rebuild_cell sha False bs rs' = Some (Cell False bs rs')"
    using sz by (simp add: rebuild_cell_def store_bits_def new_builder_def builder_defs finalize_novm_def)
qed

lemma ref_total:
  assumes sha: "\<And>x. length (sha x) = 256"
  shows "cell_ok c \<Longrightarrow> ordinary_tree c \<Longrightarrow>
    \<exists>r. proof_ref sha ip c 0 = Some r \<and> cell_ok r \<and> (\<forall>l. get_depth r l \<le> get_depth c 0)"
proof (induction c)
  case (Cell sp bs rs)
  let ?c = "Cell sp bs rs"
  have sp: "\<not> sp" using Cell.prems(2) by simp
  have m: "get_level_mask ?c = 0" by (rule ordinary_level [OF Cell.prems(2)])
  have self: "get_depth ?c l = get_depth ?c 0" for l by (rule get_same_level(2)) (simp only: m lm_zero)
  show ?case
  proof (cases "ip ?c")
    case True
    show ?thesis
    proof (cases "rs = []")
      case True
      then have "create_pruned_branch sha ?c 1 max_level = Some ?c" using m by (simp add: create_pruned_branch_def get_level_def lm_zero)
      then have "proof_ref sha ip ?c 0 = Some ?c" using \<open>ip ?c\<close> by simp
      then show ?thesis using Cell.prems(1) eq_refl [OF self] by blast
    next
      case False
      then obtain r where r: "do_create_pruned_branch sha ?c 1 max_level = Some r"
        using prune_ordinary [of sha, OF sha Cell.prems] by blast
      then have "proof_ref sha ip ?c 0 = Some r" using False True by (simp add: create_pruned_branch_def)
      then show ?thesis using pruned_data(2) [OF r] pruned_top_depth [OF r sha Cell.prems(1)] by blast
    qed
  next
    case False
    have d: "child_merkle_depth (special_type ?c) 0 = 0" using sp by (simp add: special_type_def special_type_of_def child_merkle_depth_def)
    have IH: "\<exists>r. proof_ref sha ip x 0 = Some r \<and> cell_ok r \<and> (\<forall>l. get_depth r l \<le> get_depth x 0)" if "x \<in> set rs" for x
      using Cell.IH [OF that] Cell.prems that by simp
    define f where "f x = the (proof_ref sha ip x 0)" for x
    have l2: "list_all2 (\<lambda>r x. x \<in> set rs) (map f rs) rs" by (simp add: list_all2_map1 list_all2_same)
    have l3: "list_all2 (\<lambda>r x. proof_ref sha ip x 0 = Some r \<and> cell_ok r \<and> (\<forall>l. get_depth r l \<le> get_depth x 0)) (map f rs) rs"
      unfolding list_all2_map1 list_all2_same f_def using IH by force
    have "proof_ref_list sha ip rs 0 = Some (map f rs)" unfolding dfs_ref_list_all2 by (rule list_all2_mono [OF l3]) simp
    then have p: "proof_ref sha ip ?c 0 = rebuild_cell sha sp bs (map f rs)" using False d by simp
    have l4: "list_all2 (\<lambda>r x. cell_ok r \<and> (\<forall>l. get_depth r l \<le> get_depth x 0)) (map f rs) rs"
      by (rule list_all2_mono [OF l3]) simp
    have ok: "cell_ok (Cell False bs rs)" using Cell.prems(1) sp by simp
    note rb = rebuild_ordinary [OF ok l4]
    have "\<forall>r \<in> set (map f rs). cell_ok r" by (rule list_all2_left [OF l4]) simp
    then show ?thesis using p sp rb rebuild_ok [OF rb(1)] by auto
  qed
qed

lemma generate_defined:
  assumes "\<forall>x. length (sha x) = 256" "cell_ok c" "ordinary_tree c" "no_collision sha (subcells c)" "get_depth c 0 < max_depth"
  shows "generate sha is_prunned c \<noteq> None"
proof -
  have l: "get_level c = 0" using ordinary_level [OF assms(3)] by (simp add: get_level_def lm_zero)
  obtain r where r: "proof_ref sha is_prunned c 0 = Some r" "cell_ok r" "\<And>l. get_depth r l \<le> get_depth c 0"
    using ref_total [OF _ assms(2,3), of sha is_prunned] assms(1) by blast
  have "create_merkle_proof sha r \<noteq> None"
    using create_merkle_proof_total [OF _ r(2)] assms(1,5) le_less_trans [OF r(3)] by blast
  then show ?thesis using r(1) l by (simp add: generate_def generate_raw_ref [OF assms(4)])
qed

section \<open>The properties\<close>

text \<open>
  C20: A Merkle proof proves the cell it was generated from, whichever cells were pruned: it is a
  well-formed cell that \<open>unpack_proof\<close> accepts, and the cell in it has at level 0 the hash and
  the depth of the original. This holds when no two cells of the tree have the same hash.
\<close>

theorem generate_proves:
  assumes "\<forall>x. length (sha x) = 256" "cell_ok c" "no_collision sha (subcells c)" "generate sha is_prunned c = Some p"
  shows "cell_ok p \<and> (\<exists>r. unpack_proof p = Some r \<and> cell_ok r \<and>
    get_hash sha r 0 = get_hash sha c max_level \<and> get_depth r 0 = get_depth c max_level)"
proof -
  obtain r where l: "get_level c = 0" and raw: "generate_raw sha is_prunned c = Some r" and p: "create_merkle_proof sha r = Some p"
    using assms(4) by (auto simp: generate_def split: if_splits option.splits)
  have "proof_ref sha is_prunned c 0 = Some r" using raw generate_raw_ref [OF assms(3)] l by simp
  from code.ref_agrees [OF this assms(2)] assms(1) l
  have r: "cell_ok r" "agrees sha 0 r c" "get_level r \<le> 1" by (simp_all add: blinded_def level_kept_def)
  note pf = create_merkle_proof_Some [OF p r(1)]
  have "get_level p = 0" by (rule merkle_proof_level [OF pf(3,2) r(3)])
  then have "unpack_proof p = Some r" using pf(2,3) by (simp add: unpack_proof_def slice_defs cell_slice_def)
  moreover have "get_hash sha r 0 = get_hash sha c max_level" "get_depth r 0 = get_depth c max_level"
    using agreesD [OF r(2) order_refl] get_hash_high [of c 0 sha] get_depth_high [of c 0] l by simp_all
  ultimately show ?thesis using pf(1) r(1) by blast
qed

text \<open>A tree of three cells, of which one is pruned.\<close>

definition id_sha :: "bits \<Rightarrow> bits" where
  "id_sha x = take 256 (x @ replicate 256 False)"

definition proof_example :: cell where
  "proof_example = Cell False [True] [Cell False [True, False] [Cell False [False, True] []]]"

lemma proof_example_ok: "cell_ok proof_example" "ordinary_tree proof_example" "no_collision id_sha (subcells proof_example)"
  "get_depth proof_example 0 < max_depth"
  by code_simp+

lemma id_sha_length: "\<forall>x. length (id_sha x) = 256"
  by (simp add: id_sha_def min_def)

theorem generate_proves_witness:
  "\<exists>p r. generate id_sha (\<lambda>c. cell_bits c = [True, False]) proof_example = Some p \<and> unpack_proof p = Some r \<and>
     get_hash id_sha r 0 = get_hash id_sha proof_example max_level"
  using generate_proves [OF id_sha_length proof_example_ok(1,3)] generate_defined [OF id_sha_length proof_example_ok] by blast

text \<open>
  C21: The generation with its table of results refines the plain recursion: with a table, it
  returns for the whole tree what the recursion without one returns, failures included, when
  no two cells of the tree have the same hash.
\<close>

theorem generate_refines_reference:
  assumes "no_collision sha (subcells c)"
  shows "generate sha is_prunned c =
    (if get_level c \<noteq> 0 then None
     else Option.bind (dfs_ref (\<lambda>c d. create_pruned_branch sha c (d + 1) max_level) (rebuild_cell sha) is_prunned c 0)
            (create_merkle_proof sha))"
  by (simp add: generate_def generate_raw_ref [OF assms] split: option.splits)

theorem generate_refines_reference_witness:
  "no_collision id_sha (subcells proof_example) \<and> generate id_sha (\<lambda>c. True) proof_example =
    (if get_level proof_example \<noteq> 0 then None
     else Option.bind (dfs_ref (\<lambda>c d. create_pruned_branch id_sha c (d + 1) max_level) (rebuild_cell id_sha) (\<lambda>c. True) proof_example 0)
            (create_merkle_proof id_sha))"
  using generate_refines_reference [OF proof_example_ok(3)] proof_example_ok(3) by blast

text \<open>
  C24: Every tree of well-formed ordinary cells that is not of the greatest depth has a proof,
  whichever cells are pruned.
\<close>

theorem generate_total:
  assumes "\<forall>x. length (sha x) = 256" "cell_ok c" "ordinary_tree c" "no_collision sha (subcells c)" "get_depth c 0 < 1024"
  shows "\<exists>p. generate sha is_prunned c = Some p"
  using generate_defined [OF assms(1-4)] assms(5) by (simp add: max_depth_def)

theorem generate_total_witness: "\<exists>p. generate id_sha (\<lambda>c. cell_refs c = []) proof_example = Some p"
  by (rule generate_total [OF id_sha_length proof_example_ok(1-3)]) code_simp

end
