(* ===== verification/CellProps.thy ===== *)
theory CellProps
  imports CellOps
begin

text \<open>
  Properties of the instructions on cells, slices and builders: numbers are read back as they were
  stored, the length functions announce what the instructions with constants take from the code, the quiet
  variants of the storing instructions are the plain ones with the overflow caught, slices are cut
  and compared as bit strings, and every value an instruction leaves is well-formed.
\<close>

section \<open>Running handlers on concrete stacks\<close>

lemmas [vm_simps] = vbind_def vthen_def vret_def vthrow_def vget_def vmod_def check_underflow_def depth_def push_def
  push_null_def push_smallint_def push_bool_def push_cont_def push_cellslice_def push_cell_def push_builder_def
  pop_as_def pop_chk_def pop_def pop_int_def pop_cell_def pop_builder_def pop_cellslice_def pop_cont_def consume_gas_def
  bit_Suc_0_iff

lemma pop_smallint_range_eval [vm_simps]:
  assumes "stk s = IntVal (Some n) # xs" "mn \<le> n" "n \<le> mx" "- (2 ^ 63) \<le> n" "n < 2 ^ 63"
  shows "pop_smallint_range mx mn s = Ok n (s\<lparr>stk := xs\<rparr>)"
  using assms by (simp add: pop_smallint_range_def pop_long_range_def pop_long_def vm_simps)

text \<open>Handlers one after the other, as in a straight piece of code.\<close>

fun vseq :: "int vm list \<Rightarrow> int vm" where
  "vseq [] = vret 0"
| "vseq (m # ms) = vbind m (\<lambda>_. vseq ms)"

text \<open>A machine for the examples: two bytes of code, all registers set.\<close>

definition ex_code :: slice where
  "ex_code = \<lparr>sl_bits = [True, False, False, False, True, False, True, True, False, False, False, False, True, False, False, False],
     sl_refs = []\<rparr>"

definition ex_cell_vm :: "stack \<Rightarrow> vm_state" where
  "ex_cell_vm xs = blank_vm\<lparr>code := Some ex_code, stk := xs, cp := 0,
     cr := CRegs (Some (QuitCont 0)) (Some (QuitCont 1)) (Some ExcQuitCont) (Some (QuitCont 11)) (Some empty_cell) (Some empty_cell) (Some [])\<rparr>"

lemma ex_cell_vm_simps [simp]: "stk (ex_cell_vm xs) = xs" "code (ex_cell_vm xs) = Some ex_code"
  by (simp_all add: ex_cell_vm_def)

section \<open>Numbers\<close>

lemma create_plain:
  "length bs \<le> max_bits \<Longrightarrow> data_cell_create sha bs [] False = Inr (Cell False bs [])"
  by (simp add: data_cell_create_def special_check_def special_type_of_def depths_ok_def too_deep_def)

lemma end_cell_to_slice:
  assumes "stk s = BuilderVal b # xs" "bl_refs b = []" "length (bl_bits b) \<le> max_bits"
  shows "\<exists>l g. vseq [exec_builder_to_cell, exec_cell_to_slice] s =
      Ok 0 (s\<lparr>stk := SliceVal \<lparr>sl_bits = bl_bits b, sl_refs = []\<rparr> # xs, loaded_cells := l, gas := g\<rparr>) \<and>
    gas_remaining g \<in> {gas_remaining (gas s) - 600, gas_remaining (gas s) - 525}"
proof -
  define h where "h = get_hash (sha256 s) (Cell False (bl_bits b) []) max_level"
  have load: "load_cell_slice_ref (Cell False (bl_bits b) []) t =
      Ok \<lparr>sl_bits = bl_bits b, sl_refs = []\<rparr>
        (if h \<in> set (loaded_cells t) then t\<lparr>gas := (gas t)\<lparr>gas_remaining := gas_remaining (gas t) - 25\<rparr>\<rparr>
         else t\<lparr>loaded_cells := h # loaded_cells t, gas := (gas t)\<lparr>gas_remaining := gas_remaining (gas t) - 100\<rparr>\<rparr>)"
    if "sha256 t = sha256 s" for t
    using that load_cell_slice_impl.simps(2) [of 255]
    by (simp add: load_cell_slice_ref_def vm_simps register_cell_load_def cell_reload_gas_price_def
        cell_load_gas_price_def h_def cell_slice_def)
  define l where "l = (if h \<in> set (loaded_cells s) then loaded_cells s else h # loaded_cells s)"
  define g where "g = (gas s)\<lparr>gas_remaining := gas_remaining (gas s) - (if h \<in> set (loaded_cells s) then 525 else 600)\<rparr>"
  have "vseq [exec_builder_to_cell, exec_cell_to_slice] s =
      Ok 0 (s\<lparr>stk := SliceVal \<lparr>sl_bits = bl_bits b, sl_refs = []\<rparr> # xs, loaded_cells := l, gas := g\<rparr>)"
    using assms load
    by (cases s) (simp add: l_def g_def exec_builder_to_cell_def finalize_copy_def exec_cell_to_slice_def vm_simps create_plain
        cell_create_gas_price_def)
  then show ?thesis by (force simp: g_def)
qed

lemma vseq_append: "vseq (xs @ ys) = vbind (vseq xs) (\<lambda>_. vseq ys)"
  by (induction xs) (simp_all add: vbind_vret vbind_assoc)

text \<open>Storing into a new builder, making the cell, opening it and loading.\<close>

lemma store_end_load:
  assumes "vseq first s = Ok 0 (s\<lparr>stk := BuilderVal \<lparr>bl_bits = bs, bl_refs = []\<rparr> # xs\<rparr>)" "length bs \<le> max_bits"
    "\<And>t. stk t = SliceVal \<lparr>sl_bits = bs, sl_refs = []\<rparr> # xs \<Longrightarrow> load t = Ok 0 (t\<lparr>stk := ys\<rparr>)"
  shows "\<exists>l g. vseq (first @ [exec_builder_to_cell, exec_cell_to_slice, load]) s =
      Ok 0 (s\<lparr>stk := ys, loaded_cells := l, gas := g\<rparr>) \<and>
    gas_remaining g \<in> {gas_remaining (gas s) - 600, gas_remaining (gas s) - 525}"
proof -
  let ?b = "\<lparr>bl_bits = bs, bl_refs = []\<rparr>"
  obtain l g where mid: "vseq [exec_builder_to_cell, exec_cell_to_slice] (s\<lparr>stk := BuilderVal ?b # xs\<rparr>) =
      Ok 0 (s\<lparr>stk := SliceVal \<lparr>sl_bits = bs, sl_refs = []\<rparr> # xs, loaded_cells := l, gas := g\<rparr>)"
    "gas_remaining g \<in> {gas_remaining (gas s) - 600, gas_remaining (gas s) - 525}"
    using end_cell_to_slice [of "s\<lparr>stk := BuilderVal ?b # xs\<rparr>" ?b xs] assms(2) by auto
  let ?t = "s\<lparr>stk := SliceVal \<lparr>sl_bits = bs, sl_refs = []\<rparr> # xs, loaded_cells := l, gas := g\<rparr>"
  have "load ?t = Ok 0 (s\<lparr>stk := ys, loaded_cells := l, gas := g\<rparr>)" using assms(3) [of ?t] by (cases s) simp
  then have "vseq [load] ?t = Ok 0 (s\<lparr>stk := ys, loaded_cells := l, gas := g\<rparr>)" by (simp add: vbind_def vret_def)
  moreover have "vseq (first @ [exec_builder_to_cell, exec_cell_to_slice, load]) s =
      vbind (vseq first) (\<lambda>_. vbind (vseq [exec_builder_to_cell, exec_cell_to_slice]) (\<lambda>_. vseq [load])) s"
    using vseq_append [of "[exec_builder_to_cell, exec_cell_to_slice]" "[load]"] by (simp only: vseq_append append.simps)
  ultimately have "vseq (first @ [exec_builder_to_cell, exec_cell_to_slice, load]) s = Ok 0 (s\<lparr>stk := ys, loaded_cells := l, gas := g\<rparr>)"
    using assms(1) mid(1) by (simp add: vbind_def [of "vseq zs" for zs] del: vseq.simps)
  then show ?thesis using mid(2) by blast
qed

lemma fits_257:
  assumes "fits_bits (Some x) n sgnd" "n \<le> 256"
  shows "signed_fits_bits (Some x) 257"
proof -
  have p: "(2 :: int) ^ n \<le> 2 ^ 256" "(2 :: int) ^ (n - 1) \<le> 2 ^ 256" using assms(2) by (intro power_increasing; simp)+
  have "- (2 ^ (n - 1)) \<le> x \<and> x < 2 ^ (n - 1) \<or> 0 \<le> x \<and> x < 2 ^ n"
    using assms(1) unfolding fits_bits_def by (auto split: if_splits)
  then have "- (2 ^ 256) \<le> x \<and> x < 2 ^ 256" using p by linarith
  then show ?thesis by simp
qed

lemma store_int_new:
  assumes "stk s = IntVal (Some x) # xs" "fits_bits (Some x) (args mod 256 + 1) sgnd"
  shows "vseq [exec_new_builder, exec_store_int args sgnd] s =
    Ok 0 (s\<lparr>stk := BuilderVal \<lparr>bl_bits = int_bl (args mod 256 + 1) x, bl_refs = []\<rparr> # xs\<rparr>)"
proof -
  have "args mod 256 < 256" by simp
  then have "can_extend_by_bits (args mod 256 + 1) new_builder" by (simp add: builder_defs new_builder_def max_bits_def)
  then show ?thesis
    using assms
    by (cases sgnd) (simp_all add: exec_new_builder_def exec_store_int_def exec_store_int_common_def store_int_args_def push_stored_def
        store_int256_bool_def vm_simps new_builder_def)
qed

text \<open>
  C6: a number goes through a cell unchanged. With \<open>x\<close> on top of the stack, \<open>NEWC\<close>, \<open>STI\<close> or \<open>STU\<close> of a
  width that \<open>x\<close> fits, \<open>ENDC\<close>, \<open>CTOS\<close> and \<open>LDI\<close> or \<open>LDU\<close> of the same width leave \<open>x\<close> and an
  empty slice above the rest of the stack. The price is 500 for the cell and 100 or 25 for loading it.
\<close>

theorem store_load_int:
  assumes "stk s = IntVal (Some x) # xs" "fits_bits (Some x) (args mod 256 + 1) sgnd"
  shows "\<exists>l g. vseq [exec_new_builder, exec_store_int args sgnd, exec_builder_to_cell, exec_cell_to_slice,
        exec_load_int_fixed args (if sgnd then 0 else 1)] s =
      Ok 0 (s\<lparr>stk := SliceVal empty_slice # IntVal (Some x) # xs, loaded_cells := l, gas := g\<rparr>) \<and>
    gas_remaining g \<in> {gas_remaining (gas s) - 600, gas_remaining (gas s) - 525}"
proof -
  let ?n = "args mod 256 + 1"
  have n: "?n \<le> 256" by (simp add: Suc_le_eq)
  have "fetch_int256 ?n sgnd \<lparr>sl_bits = int_bl ?n x, sl_refs = []\<rparr> = Some (x, empty_slice)"
    using assms(2) sint_bl_roundtrip [of x ?n] uint_bl_roundtrip [of x ?n]
    by (auto simp: fetch_int256_def read_int_def fits_bits_def slice_defs empty_slice_def)
  then have "exec_load_int_fixed args (if sgnd then 0 else 1) t = Ok 0 (t\<lparr>stk := SliceVal empty_slice # IntVal (Some x) # xs\<rparr>)"
    if "stk t = SliceVal \<lparr>sl_bits = int_bl ?n x, sl_refs = []\<rparr> # xs" for t
    using that fits_257 [OF assms(2) n]
    by (cases sgnd) (simp_all add: exec_load_int_fixed_def exec_load_int_common_def push_int_def vm_simps slice_defs
        del: signed_fits_bits.simps)
  then show ?thesis
    using store_end_load [OF store_int_new [OF assms]] n by (simp add: max_bits_def del: vseq.simps)
qed

theorem store_load_int_witness:
  "\<exists>l g. vseq [exec_new_builder, exec_store_int 7 True, exec_builder_to_cell, exec_cell_to_slice, exec_load_int_fixed 7 0]
      (ex_cell_vm [IntVal (Some (- 5)), Null]) =
    Ok 0 ((ex_cell_vm [IntVal (Some (- 5)), Null])\<lparr>stk := [SliceVal empty_slice, IntVal (Some (- 5)), Null], loaded_cells := l, gas := g\<rparr>)"
  using store_load_int [of "ex_cell_vm [IntVal (Some (- 5)), Null]" "- 5" "[Null]" 7 True] by (auto simp: fits_bits_def)







section \<open>Quiet variants\<close>

text \<open>What a quiet variant promises: the overflow of the plain instruction becomes -1 on top of the untouched stack.\<close>

definition quiet_of :: "int vm \<Rightarrow> int vm" where
  "quiet_of m = (\<lambda>s. case m s of
     Ok r s' \<Rightarrow> Ok r (s'\<lparr>stk := IntVal (Some 0) # stk s'\<rparr>)
   | Exc e s' \<Rightarrow> if e = VmError cell_ov then Ok 0 (s\<lparr>stk := IntVal (Some (- 1)) # stk s\<rparr>) else Exc e s'
   | Undef \<Rightarrow> Undef)"

lemma stack_two: "\<not> length xs < 2 \<Longrightarrow> \<exists>x y ys. xs = x # y # ys"
  by (metis Suc_le_length_iff linorder_not_less numeral_2_eq_2)

text \<open>An instruction whose two operands are checked first follows the law when it does so for every two entries.\<close>

lemma quiet_two:
  assumes "\<And>x y ys. stk s = x # y # ys \<Longrightarrow> q s = quiet_of m s"
    "length (stk s) < 2 \<Longrightarrow> q s = Exc (VmError stk_und) s \<and> m s = Exc (VmError stk_und) s"
  shows "q s = quiet_of m s"
  using assms stack_two [of "stk s"] by (cases "length (stk s) < 2") (auto simp: quiet_of_def)

lemma add_slice_Some: "can_extend_by (sl_size cs) (sl_size_refs cs) b \<Longrightarrow> \<exists>b'. cell_builder_add_slice_bool cs b = Some b'"
proof (cases "length (bl_refs b) \<le> max_refs")
  case False
  then show "can_extend_by (sl_size cs) (sl_size_refs cs) b \<Longrightarrow> ?thesis"
    by (auto simp: cell_builder_add_slice_bool_def builder_defs slice_defs)
qed (simp add: add_slice_append append_cellslice_bool_def append_all_def slice_defs)

lemmas quiet_eval = quiet_of_def push_stored_def vm_simps store_ref_bool_def can_extend_by_def append_builder_bool_def
  append_all_def bl_size_def bl_size_refs_def

lemma as_Some:
  "as_builder x = Some b \<longleftrightarrow> x = BuilderVal b" "as_cell x = Some c \<longleftrightarrow> x = CellVal c" "as_slice x = Some cs \<longleftrightarrow> x = SliceVal cs"
  "as_int x = Some v \<longleftrightarrow> x = IntVal v"
  by (cases x; auto)+

lemma quiet_refs:
  "exec_store_ref True s = quiet_of (exec_store_ref False) s"
  "exec_store_ref_rev True s = quiet_of (exec_store_ref_rev False) s"
  by (rule quiet_two; auto simp: exec_store_ref_def exec_store_ref_rev_def quiet_eval as_Some split: option.splits)+

lemma quiet_builders:
  "exec_store_builder True s = quiet_of (exec_store_builder False) s"
  "exec_store_builder_rev True s = quiet_of (exec_store_builder_rev False) s"
  by (rule quiet_two; auto simp: exec_store_builder_def exec_store_builder_rev_def quiet_eval as_Some split: option.splits)+

lemma quiet_slices:
  "exec_store_slice True s = quiet_of (exec_store_slice False) s"
  "exec_store_slice_rev True s = quiet_of (exec_store_slice_rev False) s"
  by (rule quiet_two; auto simp: exec_store_slice_def exec_store_slice_rev_def quiet_of_def push_stored_def vm_simps as_Some
      split: option.splits dest!: add_slice_Some)+

text \<open>
  C8: the quiet storing instructions of references, slices and builders, in both orders of operands, refine
  their promise: in every state they do what the plain instruction does and add 0, or, where that one raises a cell
  overflow, leave the stack as it was and add -1. Other exceptions are passed on.
\<close>

theorem quiet_stores:
  "exec_store_ref True = quiet_of (exec_store_ref False) \<and> exec_store_ref_rev True = quiet_of (exec_store_ref_rev False) \<and>
   exec_store_slice True = quiet_of (exec_store_slice False) \<and> exec_store_slice_rev True = quiet_of (exec_store_slice_rev False) \<and>
   exec_store_builder True = quiet_of (exec_store_builder False) \<and>
   exec_store_builder_rev True = quiet_of (exec_store_builder_rev False)"
  by (intro conjI ext quiet_refs quiet_slices quiet_builders)

section \<open>Constants in the code\<close>

lemma with_const_slice_len:
  fixes r :: nat and f :: "slice \<Rightarrow> int vm"
  assumes "code s = Some cs" "0 < pfx" "pfx + n < 2 ^ 16"
  defines "len \<equiv> compute_len_push_slice_common cs n r pfx"
  shows "with_const_slice n r pfx f s =
    (if len = 0 then Exc (VmError inv_opcode) s else f (first_part n r (drop_bits pfx cs)) (s\<lparr>code := skip_ext len cs\<rparr>))"
proof -
  consider "have_both (pfx + n) r cs" | "\<not> have_both (pfx + n) r cs" by blast
  then show ?thesis
  proof cases
    case 1
    then have "len = r * 2 ^ 16 + (pfx + n)" unfolding len_def compute_len_push_slice_common_def by (simp add: slice_defs)
    moreover have "len mod 2 ^ 16 = pfx + n" "len div 2 ^ 16 = r" using calculation assms(3) by simp_all
    ultimately have skip: "skip_ext len cs = Some (drop_refs r (drop_bits n (drop_bits pfx cs)))" and len: "len \<noteq> 0"
      using 1 assms(2) by (simp_all add: skip_ext_def skip_first_def advance_def slice_defs add.commute)
    have fetch: "fetch_subslice n r (drop_bits pfx cs) =
        Some (first_part n r (drop_bits pfx cs), drop_refs r (drop_bits n (drop_bits pfx cs)))"
      using 1 by (auto simp: fetch_subslice_def have_both_def sl_size_def sl_size_refs_def drop_bits_def)
    have adv: "code_advance pfx s = Ok () (s\<lparr>code := Some (drop_bits pfx cs)\<rparr>)"
      using 1 assms(1) by (simp add: code_advance_def vmod_def slice_defs)
    have "pfx + n \<le> length (code_bits s)" "r \<le> length (code_refs s)"
      using 1 assms(1) by (simp_all add: code_bits_def code_refs_def slice_defs)
    then show ?thesis
      using skip len fetch adv by (simp add: with_const_slice_def vbind_def vthen_def vget_def code_fetch_subslice_def)
  qed (use assms(1,2) in \<open>auto simp: len_def compute_len_push_slice_common_def with_const_slice_def vm_simps code_bits_def
        code_refs_def slice_defs\<close>)
qed

text \<open>
  C12: the length functions agree with the instructions. Where \<open>compute_len\<close> is 0 the instruction raises an
  invalid opcode and changes nothing; otherwise the code goes on after exactly the bits and references that
  \<open>compute_len\<close> packs into one number, and the constant read is on the stack.
\<close>

theorem const_slice_lengths:
  assumes "code s = Some cs" "0 < pfx" "pfx \<le> 24"
  shows "exec_push_slice args pfx s =
      (let len = compute_len_push_slice cs args pfx; x = first_part (args mod 16 * 8 + 4) 0 (drop_bits pfx cs)
       in if len = 0 then Exc (VmError inv_opcode) s
          else Ok 0 (s\<lparr>code := skip_ext len cs, stk := SliceVal (remove_trailing x) # stk s\<rparr>)) \<and>
    exec_push_slice_r args pfx s =
      (let len = compute_len_push_slice_r cs args pfx; x = first_part (args mod 32 * 8 + 1) (args div 32 mod 4 + 1) (drop_bits pfx cs)
       in if len = 0 then Exc (VmError inv_opcode) s
          else Ok 0 (s\<lparr>code := skip_ext len cs, stk := SliceVal (remove_trailing x) # stk s\<rparr>)) \<and>
    exec_push_slice_r2 args pfx s =
      (let len = compute_len_push_slice_r2 cs args pfx; x = first_part (args mod 128 * 8 + 6) (args div 128 mod 8) (drop_bits pfx cs)
       in if len = 0 then Exc (VmError inv_opcode) s
          else Ok 0 (s\<lparr>code := skip_ext len cs, stk := SliceVal (remove_trailing x) # stk s\<rparr>)) \<and>
    exec_push_cont args pfx s =
      (let len = compute_len_push_cont cs args pfx; x = first_part (args mod 128 * 8) (args div 128 mod 4) (drop_bits pfx cs)
       in if len = 0 then Exc (VmError inv_opcode) s
          else Ok 0 (s\<lparr>code := skip_ext len cs, stk := ContVal (OrdCont (cdata_new (cp s)) (Some x)) # stk s\<rparr>)) \<and>
    exec_push_cont_simple args pfx s =
      (let len = compute_len_push_cont_simple cs args pfx; x = first_part (args mod 16 * 8) 0 (drop_bits pfx cs)
       in if len = 0 then Exc (VmError inv_opcode) s
          else Ok 0 (s\<lparr>code := skip_ext len cs, stk := ContVal (OrdCont (cdata_new (cp s)) (Some x)) # stk s\<rparr>))"
proof -
  have b: "args mod m * 8 + k \<le> 1030" if "m \<le> 128" "0 < m" "k \<le> 6" for m k
    using mod_less_divisor [OF that(2), of args] that by linarith
  have small: "pfx + (args mod 16 * 8 + 4) < 2 ^ 16" "pfx + (args mod 32 * 8 + 1) < 2 ^ 16" "pfx + (args mod 128 * 8 + 6) < 2 ^ 16"
    "pfx + args mod 128 * 8 < 2 ^ 16" "pfx + args mod 16 * 8 < 2 ^ 16"
    using assms(3) b [of 16 4] b [of 32 1] b [of 128 6] b [of 16 0] by simp_all
  note len = with_const_slice_len [OF assms(1,2) small(1)] with_const_slice_len [OF assms(1,2) small(2)]
    with_const_slice_len [OF assms(1,2) small(3)] with_const_slice_len [OF assms(1,2) small(4)]
    with_const_slice_len [OF assms(1,2) small(5)]
  show ?thesis
    unfolding exec_push_slice_def exec_push_slice_r_def exec_push_slice_r2_def exec_push_cont_def exec_push_cont_simple_def
      compute_len_push_slice_def compute_len_push_slice_r_def compute_len_push_slice_r2_def compute_len_push_cont_def
      compute_len_push_cont_simple_def exec_push_slice_common_def len Let_def
    by (intro conjI if_cong refl)
      (simp_all add: vbind_def vthen_def vget_def push_cellslice_def push_cont_def push_def vmod_def vret_def)
qed

theorem const_slice_lengths_witness:
  "exec_push_slice 0 12 (ex_cell_vm []) =
     Ok 0 ((ex_cell_vm [])\<lparr>code := skip_ext 16 ex_code, stk := [SliceVal \<lparr>sl_bits = [], sl_refs = []\<rparr>]\<rparr>)"
proof -
  have "compute_len_push_slice ex_code 0 12 = 16"
    "remove_trailing (first_part 4 0 (drop_bits 12 ex_code)) = \<lparr>sl_bits = [], sl_refs = []\<rparr>"
    by (simp_all add: ex_code_def compute_len_push_slice_def compute_len_push_slice_common_def slice_defs remove_trailing_def
        bits_memscan_rev_def bits_memscan_def Let_def)
  then show ?thesis using const_slice_lengths [of "ex_cell_vm []" ex_code 12 0] by (simp add: Let_def)
qed

section \<open>Parts of slices\<close>

text \<open>
  C38: \<open>SPLIT\<close> cuts a slice in two parts that together hold its bits and references, the first of the size
  asked for; without enough data it raises a cell underflow, and \<open>SPLITQ\<close> gives the slice back with 0.
\<close>

theorem split_parts:
  assumes "stk s = IntVal (Some r) # IntVal (Some n) # SliceVal cs # xs" "0 \<le> r" "r \<le> 4" "0 \<le> n" "n \<le> 1023"
  shows "(if have_both (nat n) (nat r) cs
     then \<exists>a b. sl_bits a @ sl_bits b = sl_bits cs \<and> sl_refs a @ sl_refs b = sl_refs cs \<and>
            length (sl_bits a) = nat n \<and> length (sl_refs a) = nat r \<and>
            exec_split False s = Ok 0 (s\<lparr>stk := SliceVal b # SliceVal a # xs\<rparr>) \<and>
            exec_split True s = Ok 0 (s\<lparr>stk := IntVal (Some (- 1)) # SliceVal b # SliceVal a # xs\<rparr>)
     else exec_split False s = Exc (VmError cell_und) (s\<lparr>stk := xs\<rparr>) \<and>
          exec_split True s = Ok 0 (s\<lparr>stk := IntVal (Some 0) # SliceVal cs # xs\<rparr>))"
proof (cases "have_both (nat n) (nat r) cs")
  case True
  then obtain a b where ab: "only_first (nat n) (nat r) cs = Some a" "skip_first (nat n) (nat r) cs = Some b"
    using split_defined by blast
  then have "exec_split False s = Ok 0 (s\<lparr>stk := SliceVal b # SliceVal a # xs\<rparr>)"
    "exec_split True s = Ok 0 (s\<lparr>stk := IntVal (Some (- 1)) # SliceVal b # SliceVal a # xs\<rparr>)"
    using True assms by (simp_all add: exec_split_def vm_simps have_both_iff)
  then show ?thesis using True split_first [OF ab] by (simp only: if_True) blast
next
  case False
  then show ?thesis using assms by (auto simp: exec_split_def vm_simps have_both_iff)
qed

theorem split_parts_witness:
  "\<exists>a b. sl_bits a = [True] \<and> sl_bits b = [False] \<and>
     exec_split False (ex_cell_vm [IntVal (Some 0), IntVal (Some 1), SliceVal \<lparr>sl_bits = [True, False], sl_refs = []\<rparr>]) =
       Ok 0 ((ex_cell_vm [IntVal (Some 0), IntVal (Some 1), SliceVal \<lparr>sl_bits = [True, False], sl_refs = []\<rparr>])
         \<lparr>stk := [SliceVal b, SliceVal a]\<rparr>)"
proof -
  let ?cs = "\<lparr>sl_bits = [True, False], sl_refs = []\<rparr>"
  have "have_both 1 0 ?cs" by (simp add: slice_defs)
  then obtain a b where "sl_bits a @ sl_bits b = [True, False]" "length (sl_bits a) = 1"
    "exec_split False (ex_cell_vm [IntVal (Some 0), IntVal (Some 1), SliceVal ?cs]) =
       Ok 0 ((ex_cell_vm [IntVal (Some 0), IntVal (Some 1), SliceVal ?cs])\<lparr>stk := [SliceVal b, SliceVal a]\<rparr>)"
    using split_parts [of "ex_cell_vm [IntVal (Some 0), IntVal (Some 1), SliceVal ?cs]" 0 1 ?cs "[]"] by auto
  then show ?thesis by (intro exI [of _ a] exI [of _ b]) (auto simp: length_Suc_conv)
qed

text \<open>
  C39: \<open>SDBEGINSX\<close> takes a prefix off a slice, if it is one; otherwise it raises a cell underflow, and the quiet
  variant leaves the slice with 0.
\<close>

theorem begins_with_prefix:
  assumes "stk s = SliceVal p # SliceVal cs # xs"
  shows "case exec_slice_begins_with True s of
      Ok r s' \<Rightarrow> r = 0 \<and>
        (if prefix (sl_bits p) (sl_bits cs)
         then exec_slice_begins_with False s =
              Ok 0 (s\<lparr>stk := SliceVal \<lparr>sl_bits = drop (length (sl_bits p)) (sl_bits cs), sl_refs = sl_refs cs\<rparr> # xs\<rparr>) \<and>
              s' = s\<lparr>stk := IntVal (Some (- 1)) # SliceVal \<lparr>sl_bits = drop (length (sl_bits p)) (sl_bits cs), sl_refs = sl_refs cs\<rparr> # xs\<rparr>
         else exec_slice_begins_with False s = Exc (VmError cell_und) (s\<lparr>stk := xs\<rparr>) \<and> s' = s\<lparr>stk := IntVal (Some 0) # SliceVal cs # xs\<rparr>)
    | _ \<Rightarrow> False"
proof -
  have "has_prefix cs p \<Longrightarrow> advance (sl_size p) cs = Some \<lparr>sl_bits = drop (length (sl_bits p)) (sl_bits cs), sl_refs = sl_refs cs\<rparr>"
    by (simp add: is_prefix_of_prefix prefix_length_le advance_def slice_defs)
  then show ?thesis
    using assms by (auto simp: exec_slice_begins_with_def exec_slice_begins_with_common_def vm_simps is_prefix_of_prefix)
qed

theorem begins_with_prefix_witness:
  "exec_slice_begins_with False (ex_cell_vm [SliceVal \<lparr>sl_bits = [True], sl_refs = []\<rparr>, SliceVal \<lparr>sl_bits = [True, False], sl_refs = []\<rparr>]) =
     Ok 0 ((ex_cell_vm [SliceVal \<lparr>sl_bits = [True], sl_refs = []\<rparr>, SliceVal \<lparr>sl_bits = [True, False], sl_refs = []\<rparr>])
       \<lparr>stk := [SliceVal \<lparr>sl_bits = [False], sl_refs = []\<rparr>]\<rparr>)"
  using begins_with_prefix [of "ex_cell_vm [SliceVal \<lparr>sl_bits = [True], sl_refs = []\<rparr>, SliceVal \<lparr>sl_bits = [True, False], sl_refs = []\<rparr>]"
      "\<lparr>sl_bits = [True], sl_refs = []\<rparr>" "\<lparr>sl_bits = [True, False], sl_refs = []\<rparr>" "[]"]
  by (auto split: vres.splits)

text \<open>
  C40: \<open>SDLEXCMP\<close> is the lexicographic order of the bits, and the prefix and suffix tests are those of lists.
\<close>

theorem slice_comparisons:
  assumes "stk s = SliceVal b # SliceVal a # xs"
  shows "exec_ibin_cs_cmp lex_cmp s =
      Ok 0 (s\<lparr>stk := IntVal (Some (if sl_bits a = sl_bits b then 0 else if (sl_bits a, sl_bits b) \<in> lexord {(False, True)} then - 1 else 1)) # xs\<rparr>) \<and>
    exec_bin_cs_cmp is_prefix_of s = Ok 0 (s\<lparr>stk := IntVal (Some (if prefix (sl_bits a) (sl_bits b) then - 1 else 0)) # xs\<rparr>) \<and>
    exec_bin_cs_cmp is_proper_prefix_of s = Ok 0 (s\<lparr>stk := IntVal (Some (if strict_prefix (sl_bits a) (sl_bits b) then - 1 else 0)) # xs\<rparr>) \<and>
    exec_bin_cs_cmp is_suffix_of s = Ok 0 (s\<lparr>stk := IntVal (Some (if suffix (sl_bits a) (sl_bits b) then - 1 else 0)) # xs\<rparr>) \<and>
    exec_bin_cs_cmp is_proper_suffix_of s = Ok 0 (s\<lparr>stk := IntVal (Some (if strict_suffix (sl_bits a) (sl_bits b) then - 1 else 0)) # xs\<rparr>)"
  using assms
  by (intro conjI)
    (simp_all add: exec_ibin_cs_cmp_def exec_bin_cs_cmp_def vm_simps lex_cmp_lexord is_prefix_of_prefix is_suffix_of_suffix)

theorem slice_comparisons_witness:
  "exec_ibin_cs_cmp lex_cmp (ex_cell_vm [SliceVal \<lparr>sl_bits = [True], sl_refs = []\<rparr>, SliceVal \<lparr>sl_bits = [False], sl_refs = []\<rparr>]) =
     Ok 0 ((ex_cell_vm [SliceVal \<lparr>sl_bits = [True], sl_refs = []\<rparr>, SliceVal \<lparr>sl_bits = [False], sl_refs = []\<rparr>])
       \<lparr>stk := [IntVal (Some (- 1))]\<rparr>)"
  using slice_comparisons [of "ex_cell_vm [SliceVal \<lparr>sl_bits = [True], sl_refs = []\<rparr>, SliceVal \<lparr>sl_bits = [False], sl_refs = []\<rparr>]"
      "\<lparr>sl_bits = [True], sl_refs = []\<rparr>" "\<lparr>sl_bits = [False], sl_refs = []\<rparr>" "[]"]
  by simp

section \<open>Well-formed values\<close>

lemma cell_ops_ranges: "\<forall>i \<in> set register_cell_ops. op_max i \<le> 0xa90000 \<or> 0xc70000 \<le> op_min i \<and> op_max i \<le> 0xf00000"
  unfolding register_cell_ops_def register_cell_const_ops_def register_cell_cmp_ops_def register_cell_serialize_ops_def
    register_cell_deserialize_ops_def set_append ball_Un
  by (simp add: mksimple_def mkfixed_def mkext_def mkextrange_def)

lemma ub_opcode_outside:
  assumes "ub_opcode opcode" "opcode < 0xa90000 \<or> 0xc70000 \<le> opcode \<and> opcode < 0xf00000"
  shows "0xd711 \<le> opcode div 2 ^ 8 \<and> opcode div 2 ^ 8 \<le> 0xd717"
proof -
  have "opcode div 2 ^ 8 < 0xa900 \<or> 0xc700 \<le> opcode div 2 ^ 8 \<and> opcode div 2 ^ 8 < 0xf000" using assms(2) by auto
  then show ?thesis using assms unfolding ub_opcode_def by auto
qed

text \<open>
  C7: every value that an instruction on cells, slices or builders leaves on the stack has its type's
  form: integers of 257 bits, cells, slices and builders of at most 1023 bits and four references, cells of bounded
  depth that satisfy the checks on special cells. This holds for exceptions too. Nothing undefined happens but in the
  preloads with zeros appended, and at least 10 units of gas are used.
\<close>

theorem cell_ops_typed:
  assumes "i \<in> set register_cell_ops" "op_min i \<le> opcode" "opcode < op_max i" "vm_wf s" "has_code s"
  shows "case instr_dispatch i opcode bits s of
      Ok r s' \<Rightarrow> stack_ok (stk s') \<and> (r = 0 \<longrightarrow> has_code s') \<and> gas_remaining (gas s') \<le> gas_remaining (gas s) - 10
    | Exc e s' \<Rightarrow> stack_ok (stk s') \<and> gas_remaining (gas s') \<le> gas_remaining (gas s) - 10
    | Undef \<Rightarrow> 0xd711 \<le> opcode div 2 ^ 8 \<and> opcode div 2 ^ 8 \<le> 0xd717"
proof -
  have "instr_safe i" using assms(1) register_cell_ops_safe by blast
  note safe = instr_dispatch_safe [OF this assms(4,5,2,3), of bits]
  have out: "opcode < 0xa90000 \<or> 0xc70000 \<le> opcode \<and> opcode < 0xf00000" using cell_ops_ranges assms(1-3) by fastforce
  let ?s1 = "s\<lparr>gas := (gas s)\<lparr>gas_remaining := gas_remaining (gas s) - 10\<rparr>\<rparr>"
  have inv: "stack_ok (stk s') \<and> gas_remaining (gas s') \<le> gas_remaining (gas s) - 10" if "vm_inv ?s1 s'" for s'
    using vm_inv_stack_ok [OF that] that unfolding vm_inv_def by simp
  show ?thesis
    using safe unfolding wp_unless_def
    by (cases "instr_dispatch i opcode bits s") (auto dest: inv ub_opcode_outside [OF _ out])
qed

theorem cell_ops_typed_witness:
  "case instr_dispatch (mksimple 0xc8 8 exec_new_builder) 0xc80000 24 (ex_cell_vm []) of
     Ok r s' \<Rightarrow> stack_ok (stk s') | Exc e s' \<Rightarrow> stack_ok (stk s') | Undef \<Rightarrow> False"
proof -
  have i: "mksimple 0xc8 8 exec_new_builder \<in> set register_cell_ops"
    by (simp add: register_cell_ops_def register_cell_serialize_ops_def)
  have wf: "vm_wf (ex_cell_vm [])" "has_code (ex_cell_vm [])"
    by (simp_all add: ex_cell_vm_def ex_code_def vm_wf_def has_code_def blank_vm_def commit_ok_def slice_ok_def max_bits_def
        regs_full_def int257_def empty_cell_def cell_shape_def special_shape_def special_type_of_def depths_ok_def too_deep_def)
  show ?thesis
    using cell_ops_typed [OF i _ _ wf, of "0xc80000" 24] by (auto simp: mksimple_def split: vres.splits)
qed

end
