(* ===== verification/DictProps.thy ===== *)
theory DictProps
  imports PfxDict
begin

text \<open>
  Dictionaries as finite maps. The entries of a dictionary, in the order of their keys, are the abstraction; the
  operations of \<open>dict.cpp\<close> on the cells are proved to be those of a map on the entries.
\<close>

section \<open>Labels: what is written is read back\<close>

definition label_bits :: "bits \<Rightarrow> nat \<Rightarrow> bits" where
  "label_bits label n =
     (let len = length label; k = nat_bits n in
      if len > 1 \<and> bits_memscan label (hd label) = len \<and> k < 2 * len - 1 then [True, True, hd label] @ nat_bl k len
      else if k < len then [True, False] @ nat_bl k len @ label
      else False # replicate len True @ False # label)"

lemma bits_memscan_all: "bits_memscan bs b = length bs \<longleftrightarrow> bs = replicate (length bs) b"
  by (induction bs) (auto simp: bits_memscan_def dest: arg_cong [of _ _ length])

lemma nat_bl_add: "nat_bl (n + 1) x = odd (x div 2 ^ n) # nat_bl n x"
  by (induction n arbitrary: x) (simp_all add: div_mult2_eq)

lemma int_bl_ones: "int_bl n (- 1) = replicate n True" "int_bl n 0 = replicate n False"
proof -
  have "nat_bl n (2 ^ n - 1) = replicate n True"
  proof (induction n)
    case (Suc n)
    have "(2 ^ Suc n - 1) div 2 = (2 ^ n - 1 :: nat)" "odd (2 ^ Suc n - 1 :: nat)" by (simp_all add: even_diff_nat)
    then show ?case using Suc by (simp add: replicate_append_same)
  qed simp
  moreover have "nat ((- 1) mod 2 ^ n) = 2 ^ n - 1" by (simp add: zmod_minus1 nat_diff_distrib nat_power_eq)
  ultimately show "int_bl n (- 1) = replicate n True" by (simp add: int_bl_def)
  have "nat_bl n 0 = replicate n False" by (induction n) (simp_all add: replicate_append_same)
  then show "int_bl n 0 = replicate n False" by (simp add: int_bl_def)
qed

lemma int_bl_unary: "int_bl (n + 1) (- 2) = replicate n True @ [False]"
proof -
  have "(- 2 :: int) mod 2 ^ (n + 1) = 2 * ((- 1) mod 2 ^ n)" using mult_mod_right [of "2 :: int" "- 1" "2 ^ n"] by simp
  then have "nat ((- 2) mod 2 ^ (n + 1)) = 2 * nat ((- 1) mod 2 ^ n)" by (simp add: nat_mult_distrib)
  then show ?thesis using int_bl_ones(1) [of n] by (simp add: int_bl_def)
qed

lemma store_list_long:
  "length (bl_bits b) \<le> max_bits \<Longrightarrow>
     store_list (map (\<lambda>(v, n). store_long v n) xs) b = store_bits (concat (map (\<lambda>(v, n). int_bl n v) xs)) b"
proof (induction xs arbitrary: b)
  case Nil
  then show ?case by (simp add: builder_defs)
next
  case (Cons x xs)
  obtain v n where x: "x = (v, n)" by (cases x)
  show ?case
  proof (cases "n \<le> max_bits - bl_size b")
    case True
    let ?b = "b\<lparr>bl_bits := bl_bits b @ int_bl n v\<rparr>"
    have "store_list (map (\<lambda>(v, n). store_long v n) (x # xs)) b = store_list (map (\<lambda>(v, n). store_long v n) xs) ?b"
      using True by (simp add: x store_long_def store_bits_def can_extend_by_bits_def)
    also have "\<dots> = store_bits (concat (map (\<lambda>(v, n). int_bl n v) xs)) ?b"
      by (rule Cons.IH) (use Cons.prems True in \<open>simp add: bl_size_def\<close>)
    also have "\<dots> = store_bits (concat (map (\<lambda>(v, n). int_bl n v) (x # xs))) b"
      using True Cons.prems by (auto simp: x store_bits_def can_extend_by_bits_def bl_size_def)
    finally show ?thesis .
  qed (simp add: x store_long_def store_bits_def can_extend_by_bits_def)
qed

lemma store_lists:
  assumes "length (bl_bits b) \<le> max_bits"
  shows "store_list [store_long x n, store_long y m] b = store_bits (int_bl n x @ int_bl m y) b"
    "store_list [store_long x n, store_long y m, store_long z p] b = store_bits (int_bl n x @ int_bl m y @ int_bl p z) b"
  using store_list_long [OF assms, of "[(x, n), (y, m)]"] store_list_long [OF assms, of "[(x, n), (y, m), (z, p)]"]
  by (simp_all del: store_list.simps)

lemma int_bl_small: "x < 2 ^ k \<Longrightarrow> int_bl k (int x) = nat_bl k x"
  by (simp add: int_bl_def flip: of_nat_mod [of x "2 ^ k", simplified])

lemma int_bl_consts: "int_bl 3 6 = [True, True, False]" "int_bl 3 7 = [True, True, True]" "int_bl 2 2 = [True, False]" "int_bl 1 0 = [False]"
proof -
  have "nat_bl (Suc (Suc (Suc 0))) 6 = [True, True, False]" "nat_bl (Suc (Suc (Suc 0))) 7 = [True, True, True]"
    "nat_bl (Suc (Suc 0)) 2 = [True, False]" by simp_all
  then show "int_bl 3 6 = [True, True, False]" "int_bl 3 7 = [True, True, True]" "int_bl 2 2 = [True, False]" "int_bl 1 0 = [False]"
    unfolding int_bl_def by (simp_all add: numeral_3_eq_3 [symmetric] numeral_2_eq_2 [symmetric])
qed

lemma length_small: "len \<le> n \<Longrightarrow> len < 2 ^ nat_bits n"
  using nat_bits_bound [of n] by simp

lemma append_dict_label_same_bits:
  assumes "length (bl_bits b) \<le> max_bits" "len \<le> n"
  shows "append_dict_label_same v len n b = store_bits (label_bits (replicate len v) n) b"
proof -
  let ?k = "nat_bits n"
  have k: "int_bl ?k (int len) = nat_bl ?k len" by (rule int_bl_small) (rule length_small [OF assms(2)])
  have scan: "bits_memscan (replicate len v) v = len" using bits_memscan_all [of "replicate len v" v] by simp
  have v: "int_bl len (if v then - 1 else 0) = replicate len v" by (simp add: int_bl_ones)
  have c3: "int_bl 3 (6 + (if v then 1 else 0)) = [True, True, v]" by (simp add: int_bl_consts)
  have hd: "hd (replicate len v) = v" if "0 < len" using that by (cases len) simp_all
  show ?thesis
    using assms(1) hd unfolding append_dict_label_same_def label_bits_def Let_def store_lists [OF assms(1)] k v c3
    by (auto simp: int_bl_consts int_bl_unary scan simp del: One_nat_def)
qed

lemma append_dict_label_bits:
  assumes "length (bl_bits b) \<le> max_bits" "length label \<le> n"
  shows "append_dict_label label n b = store_bits (label_bits label n) b"
proof (cases "0 < length label \<and> bits_memscan label (hd label) = length label")
  case True
  then have "replicate (length label) (hd label) = label" using bits_memscan_all [of label "hd label"] by simp
  then show ?thesis
    using True append_dict_label_same_bits [OF assms, of "hd label"] by (simp add: append_dict_label_def Let_def)
next
  case False
  have after: "(case store_bits xs b of None \<Rightarrow> None
      | Some b' \<Rightarrow> if remaining_bits b' < length label then None else store_bits label b') = store_bits (xs @ label) b" for xs
    using assms(1) by (auto simp: builder_defs remaining_bits_def)
  have k: "int_bl (nat_bits n) (int (length label)) = nat_bl (nat_bits n) (length label)"
    by (rule int_bl_small) (rule length_small [OF assms(2)])
  show ?thesis
    using False unfolding append_dict_label_def label_bits_def Let_def store_lists [OF assms(1)] k
    by (auto simp: int_bl_consts int_bl_unary after simp del: One_nat_def)
qed

lemma label_bits_length: "length label \<le> n \<Longrightarrow> length (label_bits label n) \<le> 2 + nat_bits n + length label"
  by (auto simp: label_bits_def Let_def)

lemma nat_bits_mono: "m \<le> n \<Longrightarrow> nat_bits m \<le> nat_bits n"
proof (induction n arbitrary: m rule: nat_bits.induct)
  case (1 n)
  show ?case
  proof (cases "m = 0 \<or> n = 0")
    case False
    with 1 have "nat_bits (m div 2) \<le> nat_bits (n div 2)" by (simp add: div_le_mono)
    with False show ?thesis by (subst (1 2) nat_bits.simps) simp
  qed (use 1(2) in \<open>auto simp: nat_bits.simps [of 0]\<close>)
qed

lemma nat_bits_small: "n \<le> 1023 \<Longrightarrow> nat_bits n \<le> 10" "0 < n \<Longrightarrow> 0 < nat_bits n"
proof -
  have "nat_bits 1023 = 10" by code_simp
  then show "nat_bits n \<le> 10" if "n \<le> 1023" using nat_bits_mono [OF that] by simp
  show "0 < nat_bits n" if "0 < n" using that by (subst nat_bits.simps) simp
qed

lemma fetch_ulong_app: "0 < k \<Longrightarrow> k \<le> 64 \<Longrightarrow> x < 2 ^ k \<Longrightarrow> sl_bits cs = nat_bl k x @ bs \<Longrightarrow> fetch_ulong k cs = (x, cs\<lparr>sl_bits := bs\<rparr>)"
  by (simp add: fetch_ulong_def slice_defs bits_nat_nat_bl)

text \<open>The three encodings: equal bits, a length and the bits, the length in unary and the bits.\<close>

lemma parse_label_same:
  assumes "length label \<le> n" "n \<le> 1023" "1 < length label" "replicate (length label) b = label"
    "sl_bits cs = [True, True, b] @ nat_bl (nat_bits n) (length label) @ bs"
  obtains lb where "parse_label cs n = Some lb" "extract_label lb = (label, cs\<lparr>sl_bits := bs\<rparr>)"
proof -
  let ?len = "length label" and ?k = "nat_bits n"
  have k: "0 < ?k" "?k \<le> 64" using nat_bits_small [of n] assms(1-3) by simp_all
  have "fetch_ulong 3 cs = ((if b then 7 else 6), cs\<lparr>sl_bits := nat_bl ?k ?len @ bs\<rparr>)"
    using assms(5) by (simp add: fetch_ulong_def slice_defs bits_nat_Cons numeral_3_eq_3)
  moreover have "fetch_ulong ?k (cs\<lparr>sl_bits := nat_bl ?k ?len @ bs\<rparr>) = (?len, cs\<lparr>sl_bits := bs\<rparr>)"
    using fetch_ulong_app [OF k length_small [OF assms(1)], of "cs\<lparr>sl_bits := nat_bl ?k ?len @ bs\<rparr>" bs] by simp
  moreover have "prefetch_ulong 2 cs = 3" "have_bits (3 + ?k) cs" using assms(5) by (simp_all add: prefetch_two slice_defs)
  ultimately have "parse_label cs n = Some \<lparr>lp_remainder = cs\<lparr>sl_bits := bs\<rparr>, lp_same = (if b then 7 else 6), lp_bits = ?len\<rparr>"
    using assms(1) by (simp add: parse_label_def Let_def)
  then show ?thesis by (rule that) (cases b; use assms(4) in \<open>simp add: extract_label_def\<close>)
qed

lemma parse_label_long:
  assumes "length label \<le> n" "n \<le> 1023" "nat_bits n < length label"
    "sl_bits cs = [True, False] @ nat_bl (nat_bits n) (length label) @ label @ bs"
  obtains lb where "parse_label cs n = Some lb" "extract_label lb = (label, cs\<lparr>sl_bits := bs\<rparr>)"
proof -
  let ?len = "length label" and ?k = "nat_bits n"
  have k: "0 < ?k" "?k \<le> 64" using nat_bits_small [of n] assms(1-3) by simp_all
  have "fetch_ulong ?k (drop_bits 2 cs) = (?len, cs\<lparr>sl_bits := label @ bs\<rparr>)"
    using fetch_ulong_app [OF k length_small [OF assms(1)], of "drop_bits 2 cs" "label @ bs"] assms(4) by (simp add: drop_bits_def)
  moreover have "prefetch_ulong 2 cs = 2" using assms(4) by (simp add: prefetch_two)
  moreover have "?len \<noteq> fetch_ulong_eof" using assms(1,2) by (simp add: fetch_ulong_eof_def)
  ultimately have "parse_label cs n = Some \<lparr>lp_remainder = cs\<lparr>sl_bits := label @ bs\<rparr>, lp_same = 0, lp_bits = ?len\<rparr>"
    using assms(1) by (simp add: parse_label_def Let_def slice_defs)
  then show ?thesis by (rule that) (simp add: extract_label_def drop_bits_def)
qed

lemma parse_label_short:
  assumes "length label \<le> n" "sl_bits cs = False # replicate (length label) True @ False # label @ bs"
  obtains lb where "parse_label cs n = Some lb" "extract_label lb = (label, cs\<lparr>sl_bits := bs\<rparr>)"
proof (cases "label = []")
  case True
  then have "parse_label cs n = Some \<lparr>lp_remainder = drop_bits 2 cs, lp_same = 0, lp_bits = 0\<rparr>"
    using assms(2) by (simp add: parse_label_def Let_def prefetch_two)
  then show ?thesis by (rule that) (use True assms(2) in \<open>simp add: extract_label_def drop_bits_def\<close>)
next
  case False
  let ?len = "length label"
  have "prefetch_ulong 2 cs = 1" using assms(2) False by (cases label) (simp_all add: prefetch_two)
  moreover have "count_leading True (drop_bits 1 cs) = ?len"
    using assms(2) by (simp add: count_leading_def drop_bits_def bits_memscan_def takeWhile_append)
  ultimately have "parse_label cs n = Some \<lparr>lp_remainder = drop_bits (?len + 1) (drop_bits 1 cs), lp_same = 0, lp_bits = ?len\<rparr>"
    using assms by (simp add: parse_label_def Let_def slice_defs)
  then show ?thesis by (rule that) (use assms(2) in \<open>simp add: extract_label_def drop_bits_def\<close>)
qed

lemma parse_label_bits:
  assumes "length label \<le> n" "n \<le> 1023" "sl_bits cs = label_bits label n @ bs"
  obtains lb where "parse_label cs n = Some lb" "extract_label lb = (label, cs\<lparr>sl_bits := bs\<rparr>)"
proof -
  let ?len = "length label" and ?k = "nat_bits n"
  consider (same) "?len > 1" "bits_memscan label (hd label) = ?len" "sl_bits cs = [True, True, hd label] @ nat_bl ?k ?len @ bs"
    | (long) "?k < ?len" "sl_bits cs = [True, False] @ nat_bl ?k ?len @ label @ bs"
    | (short) "sl_bits cs = False # replicate ?len True @ False # label @ bs"
    using assms(3) by (auto simp: label_bits_def Let_def split: if_splits)
  then show ?thesis
  proof cases
    case same
    have "replicate ?len (hd label) = label" using same(2) bits_memscan_all by metis
    then show ?thesis using parse_label_same [OF assms(1,2) same(1) _ same(3)] that by blast
  qed (use assms(1,2) that in \<open>blast intro: parse_label_long parse_label_short\<close>)+
qed

section \<open>Parsed labels\<close>

text \<open>What the operations use of a parsed label, in terms of its bits and of what follows them.\<close>

lemma parse_label_bounds:
  assumes "parse_label cs n = Some lb"
  shows "lp_bits lb \<le> n" "s_bits lb \<le> sl_size (lp_remainder lb)" "sl_refs (lp_remainder lb) = sl_refs cs"
  subgoal using assms by (auto simp: parse_label_def Let_def split: if_splits prod.splits)
  subgoal using assms fetch_same [of cs]
    by (auto simp: parse_label_def Let_def s_bits_def slice_defs split: if_splits prod.splits)
  subgoal using assms by (auto simp: parse_label_def Let_def fetch_ulong_def drop_bits_def split: if_splits prod.splits)
  done

lemma same_upto_take: "same_upto (take n xs) ys = min n (same_upto xs ys)" "same_upto xs (take n ys) = min n (same_upto xs ys)"
  by (induction xs ys arbitrary: n rule: same_upto.induct; case_tac n; simp)+

lemma same_upto_replicate: "same_upto (replicate n b) key = bits_memscan (take n key) b"
proof (induction n arbitrary: key)
  case (Suc n)
  then show ?case by (cases key) (auto simp: bits_memscan_def)
qed (simp add: bits_memscan_def)

lemma label_facts:
  assumes "parse_label cs n = Some lb" "extract_label lb = (label, rest)"
  shows "length label = lp_bits lb" "length label \<le> n" "skip_label lb = rest" "sl_refs rest = sl_refs cs"
    "sl_refs (lp_remainder lb) = sl_refs cs"
    "sl_size (lp_remainder lb) = s_bits lb + sl_size rest" "label_common lb key = same_upto label key"
    "label_is_prefix_of lb key \<longleftrightarrow> length label \<le> length key \<and> take (length label) key = label"
proof -
  note b = parse_label_bounds [OF assms(1)]
  have su: "same_upto xs key \<le> length key" for xs by (rule same_upto_le)
  show len: "length label = lp_bits lb" using assms(2) b(2) by (auto simp: extract_label_def s_bits_def sl_size_def split: if_splits)
  then show "length label \<le> n" using b(1) by simp
  show "skip_label lb = rest" "sl_refs rest = sl_refs cs" "sl_refs (lp_remainder lb) = sl_refs cs"
    "sl_size (lp_remainder lb) = s_bits lb + sl_size rest"
    using assms(2) b by (auto simp: extract_label_def skip_label_def s_bits_def drop_bits_def sl_size_def split: if_splits)
  have m: "take (min (lp_bits lb) (length key)) key = take (lp_bits lb) key" by (simp add: min_def)
  show "label_common lb key = same_upto label key"
    using assms(2) b(2) su [of "sl_bits (lp_remainder lb)"]
    by (auto simp: label_common_def Let_def m extract_label_def same_upto_take same_upto_replicate split: if_splits)
  show "label_is_prefix_of lb key \<longleftrightarrow> length label \<le> length key \<and> take (length label) key = label"
  proof (cases "lp_bits lb \<le> length key")
    case True
    then show ?thesis
      using assms(2) b(2) len bits_memscan_all [of "take (lp_bits lb) key" "odd (lp_same lb)"]
      by (auto simp: label_is_prefix_of_def extract_label_def s_bits_def sl_size_def bits_memcmp_0 min_def split: if_splits)
  qed (simp add: len label_is_prefix_of_def)
qed

section \<open>Entries\<close>

definition pre :: "bits \<Rightarrow> (bits \<times> slice) list \<Rightarrow> (bits \<times> slice) list" where
  "pre p es = map (\<lambda>(k, v). (p @ k, v)) es"

text \<open>The entries of a dictionary with keys of \<open>n\<close> bits; \<open>None\<close> when the cells are not those of a dictionary.\<close>

function dict_entries :: "nat \<Rightarrow> cell \<Rightarrow> (bits \<times> slice) list option" where
  "dict_entries n c =
     (if cell_special c then None
      else case parse_label (cell_slice c) n of
        None \<Rightarrow> None
      | Some lb \<Rightarrow>
          case extract_label lb of (label, rest) \<Rightarrow>
            if n \<le> length label then Some [(label, rest)]
            else if sl_bits rest \<noteq> [] then None
            else (case sl_refs rest of
                    [l, r] \<Rightarrow>
                      (case (dict_entries (n - length label - 1) l, dict_entries (n - length label - 1) r) of
                         (Some el, Some er) \<Rightarrow> Some (pre (label @ [False]) el @ pre (label @ [True]) er)
                       | _ \<Rightarrow> None)
                  | _ \<Rightarrow> None))"
  by pat_completeness auto
termination by (relation "measure fst") auto

declare dict_entries.simps [simp del]

definition entries :: "dictionary \<Rightarrow> (bits \<times> slice) list option" where
  "entries d = (case root_cell d of None \<Rightarrow> Some [] | Some c \<Rightarrow> dict_entries (key_bits d) c)"

definition node_entries :: "nat \<Rightarrow> bits \<Rightarrow> slice \<Rightarrow> (bits \<times> slice) list option" where
  "node_entries n label rest =
     (if n \<le> length label then Some [(label, rest)]
      else if sl_bits rest \<noteq> [] then None
      else (case sl_refs rest of
              [l, r] \<Rightarrow>
                (case (dict_entries (n - length label - 1) l, dict_entries (n - length label - 1) r) of
                   (Some el, Some er) \<Rightarrow> Some (pre (label @ [False]) el @ pre (label @ [True]) er)
                 | _ \<Rightarrow> None)
            | _ \<Rightarrow> None))"

text \<open>A cell that holds a node: an edge with a label, and what is at its end.\<close>

definition is_node :: "nat \<Rightarrow> cell \<Rightarrow> bits \<Rightarrow> slice \<Rightarrow> bool" where
  "is_node n c label rest \<longleftrightarrow>
     \<not> cell_special c \<and> (\<exists>lb. parse_label (cell_slice c) n = Some lb \<and> extract_label lb = (label, rest))"

lemma dict_entries_node: "is_node n c label rest \<Longrightarrow> dict_entries n c = node_entries n label rest"
  by (subst dict_entries.simps) (auto simp: is_node_def node_entries_def)

lemma dict_entriesE:
  assumes "dict_entries n c = Some es"
  obtains label rest where "is_node n c label rest" "node_entries n label rest = Some es" "length label \<le> n"
proof -
  have "\<not> cell_special c" using assms by (subst (asm) dict_entries.simps) (simp split: if_splits)
  moreover obtain lb where lb: "parse_label (cell_slice c) n = Some lb"
    using assms by (subst (asm) dict_entries.simps) (auto split: if_splits option.splits)
  moreover obtain label rest where l: "extract_label lb = (label, rest)" by force
  ultimately have "is_node n c label rest" by (auto simp: is_node_def)
  with that show ?thesis using assms label_facts(2) [OF lb l] dict_entries_node by metis
qed

lemma pre_simps [simp]:
  "pre [] es = es" "pre p [] = []" "pre p (pre q es) = pre (p @ q) es" "pre p (es @ fs) = pre p es @ pre p fs" "pre p (e # es) = (p @ fst e, snd e) # pre p es"
  by (auto simp: pre_def split_def comp_def)

lemma node_entries_append: "node_entries (length p + n) (p @ q) rest = map_option (pre p) (node_entries n q rest)"
  by (auto simp: node_entries_def split: list.split option.split)

lemma is_node_made:
  assumes "length label \<le> n" "n \<le> 1023"
  shows "is_node n (Cell False (label_bits label n @ bs) rs) label \<lparr>sl_bits = bs, sl_refs = rs\<rparr>"
proof -
  let ?cs = "cell_slice (Cell False (label_bits label n @ bs) rs)"
  obtain lb where "parse_label ?cs n = Some lb" "extract_label lb = (label, ?cs\<lparr>sl_bits := bs\<rparr>)"
    by (rule parse_label_bits [OF assms, of ?cs bs]) (simp_all add: cell_slice_def)
  then show ?thesis by (auto simp: is_node_def cell_slice_def)
qed

section \<open>Running the operations\<close>

text \<open>
  The operations load and make cells: they use gas and mark cells as loaded, and change nothing else of the machine. The
  only exception is a cell overflow, and only if \<open>F\<close> allows it.
\<close>

definition cost_only :: "vm_state \<Rightarrow> vm_state \<Rightarrow> bool" where
  "cost_only s s' \<longleftrightarrow> s' = s\<lparr>loaded_cells := loaded_cells s', gas := gas s'\<rparr>"

lemma cost_only_refl [simp]: "cost_only s s"
  by (simp add: cost_only_def)

lemma cost_only_upd: "cost_only s (s\<lparr>loaded_cells := l, gas := g\<rparr>)" "cost_only s (s\<lparr>loaded_cells := l\<rparr>)" "cost_only s (s\<lparr>gas := g\<rparr>)"
  by (simp_all add: cost_only_def)

lemma cost_only_trans: "cost_only s s' \<Longrightarrow> cost_only s' s'' \<Longrightarrow> cost_only s s''"
  by (cases s; cases s'; cases s'') (simp add: cost_only_def)

definition yields :: "bool \<Rightarrow> 'a vm \<Rightarrow> ('a \<Rightarrow> bool) \<Rightarrow> bool" where
  "yields F m P \<longleftrightarrow> (\<forall>s. case m s of
     Ok a s' \<Rightarrow> P a \<and> cost_only s s'
   | Exc e s' \<Rightarrow> F \<and> e = VmError cell_ov \<and> cost_only s s'
   | Undef \<Rightarrow> False)"

named_theorems yields_rules

lemma yields_mono: "yields F m P \<Longrightarrow> (\<And>a. P a \<Longrightarrow> Q a) \<Longrightarrow> yields F m Q"
  unfolding yields_def by (fastforce split: vres.splits)

lemma yields_ret [yields_rules]: "P a \<Longrightarrow> yields F (vret a) P"
  by (simp add: yields_def vret_def)

lemma yields_vbind [yields_rules]: "yields F m (\<lambda>a. yields F (f a) P) \<Longrightarrow> yields F (vbind m f) P"
  unfolding yields_def vbind_def by (fastforce split: vres.splits intro: cost_only_trans)

lemma yields_vthen [yields_rules]: "yields F m (\<lambda>_. yields F n P) \<Longrightarrow> yields F (vthen m n) P"
  unfolding vthen_def by (rule yields_vbind)

lemma yields_cases [yields_rules]:
  "(b \<Longrightarrow> yields F m P) \<Longrightarrow> (\<not> b \<Longrightarrow> yields F n P) \<Longrightarrow> yields F (if b then m else n) P"
  "(\<And>a b. p = (a, b) \<Longrightarrow> yields F (g a b) P) \<Longrightarrow> yields F (case p of (a, b) \<Rightarrow> g a b) P"
  by (cases p; simp)+

lemma yields_vwrite [yields_rules]: "F \<or> r \<noteq> None \<Longrightarrow> (\<And>b. r = Some b \<Longrightarrow> P b) \<Longrightarrow> yields F (vwrite r) P"
  by (auto simp: yields_def vwrite_def vret_def vthrow_def split: option.split)

lemma yields_gas [yields_rules]: "P () \<Longrightarrow> yields F (consume_gas n) P"
  by (simp add: yields_def consume_gas_def vmod_def cost_only_upd)

lemma yields_loaded [yields_rules]: "P () \<Longrightarrow> yields F (vmod (\<lambda>s. s\<lparr>loaded_cells := f s\<rparr>)) P"
  by (simp add: yields_def vmod_def cost_only_upd)

lemma yields_vget: "(\<And>x. P x) \<Longrightarrow> yields F (vget f) P"
  by (simp add: yields_def vget_def)

lemma yields_load [yields_rules]: "\<not> cell_special c \<Longrightarrow> P (cell_slice c) \<Longrightarrow> yields F (load_cell_slice_ref c) P"
  unfolding load_cell_slice_ref_def numeral_eq_Suc load_cell_slice_impl.simps register_cell_load_def
  by (intro yields_rules yields_vget) auto

lemma yields_finalize [yields_rules]:
  assumes "F \<or> length (bl_bits b) \<le> max_bits \<and> length (bl_refs b) \<le> max_refs \<and> depths_ok False (bl_bits b) (bl_refs b)"
    "P (Cell False (bl_bits b) (bl_refs b))"
  shows "yields F (finalize_copy False b) P"
proof -
  have "yields F (case data_cell_create sha (bl_bits b) (bl_refs b) False of Inl e \<Rightarrow> vthrow cell_ov | Inr c \<Rightarrow> vret c) P" for sha
    using assms by (auto simp: data_cell_create_def special_check_def special_type_of_def yields_def vret_def vthrow_def)
  then show ?thesis
    unfolding finalize_copy_def by (intro yields_rules yields_vget)
qed

text \<open>A parsed label, as the operations see it.\<close>

definition label_is :: "label_parser \<Rightarrow> bits \<Rightarrow> slice \<Rightarrow> bool" where
  "label_is lb label rest \<longleftrightarrow>
     extract_label lb = (label, rest) \<and> lp_bits lb = length label \<and> skip_label lb = rest \<and>
     label_common lb = same_upto label \<and> (\<forall>sw. fork_ref lb sw = prefetch_ref (if sw then 1 else 0) rest) \<and>
     (\<forall>key. label_is_prefix_of lb key \<longleftrightarrow> length label \<le> length key \<and> take (length label) key = label)"

text \<open>The end of an edge is a leaf, or a fork: there are no bits, but two references.\<close>

definition node_ok :: "nat \<Rightarrow> bits \<Rightarrow> slice \<Rightarrow> bool" where
  "node_ok n label rest \<longleftrightarrow> n \<le> length label \<or> sl_bits rest = [] \<and> length (sl_refs rest) = 2"

lemma yields_label:
  assumes "is_node n c label rest" "node_ok n label rest" "\<And>lb. label_is lb label rest \<Longrightarrow> P lb"
  shows "yields F (label_of_cell c n 3) P"
proof -
  obtain lb where c: "\<not> cell_special c" and lb: "parse_label (cell_slice c) n = Some lb" "extract_label lb = (label, rest)"
    using assms(1) by (auto simp: is_node_def)
  note f = label_facts [OF lb]
  have "label_is lb label rest"
    using lb(2) f unfolding label_is_def fork_ref_def prefetch_ref_def by (auto simp: sl_size_refs_def)
  moreover have "yields F (validate_ext lb n) (\<lambda>_. yields F (vret lb) P)"
    using assms(2,3) calculation f by (auto simp: validate_ext_def node_ok_def slice_defs intro!: yields_rules)
  ultimately show ?thesis
    unfolding label_of_cell_def by (intro yields_rules c) (simp_all add: lb(1) yields_vthen)
qed

text \<open>Storing a value: its bits and references are appended.\<close>

definition stores :: "slice \<Rightarrow> (builder \<Rightarrow> builder option) \<Rightarrow> bool" where
  "stores v st \<longleftrightarrow> (\<forall>b. length (bl_bits b) \<le> max_bits \<longrightarrow> length (bl_refs b) \<le> max_refs \<longrightarrow> st b = append_all (sl_bits v) (sl_refs v) b)"

lemma stores_slice: "stores v (cell_builder_add_slice_bool v)"
  by (simp add: stores_def add_slice_append append_cellslice_bool_def)

lemma stores_fork: "stores \<lparr>sl_bits = [], sl_refs = [l, r]\<rparr> (store_list [store_ref_bool l, store_ref_bool r])"
  by (auto simp: stores_def builder_defs)

definition fits :: "nat \<Rightarrow> slice \<Rightarrow> bool" where
  "fits n v \<longleftrightarrow> sl_size v + n + nat_bits n + 2 \<le> max_bits \<and> sl_size_refs v \<le> max_refs \<and>
     (\<forall>r \<in> set (sl_refs v). \<forall>l. get_depth r l < max_depth)"

lemma yields_new_leaf:
  assumes "stores v st" "length label \<le> n" "n \<le> 1023" "F \<or> fits n v" "\<And>c. is_node n c label v \<Longrightarrow> P c"
  shows "yields F (new_leaf label n st) P"
proof -
  let ?lb = "label_bits label n"
  have lab: "append_dict_label label n new_builder = store_bits ?lb new_builder"
    by (rule append_dict_label_bits) (use assms(2) in \<open>simp_all add: new_builder_def\<close>)
  have small: "F \<or> length ?lb + sl_size v \<le> max_bits"
    using assms(4) label_bits_length [OF assms(2)] assms(2) by (auto simp: fits_def)
  have st: "st b = append_all (sl_bits v) (sl_refs v) b" if "store_bits ?lb new_builder = Some b" for b
  proof -
    have "b = \<lparr>bl_bits = ?lb, bl_refs = []\<rparr>" "length ?lb \<le> max_bits"
      using that by (auto simp: builder_defs new_builder_def split: if_splits)
    then show ?thesis using assms(1) unfolding stores_def by auto
  qed
  have deep: "F \<or> depths_ok False bs (sl_refs v)" for bs
    using assms(4) by (auto simp: fits_def depths_ok_def too_deep_def not_le fold_max_less max_depth_def)
  have node: "P (Cell False (?lb @ sl_bits v) (sl_refs v))"
    by (rule assms(5), cases v) (use is_node_made [OF assms(2,3)] in simp)
  show ?thesis
    unfolding new_leaf_def lab
    using small deep node assms(4) st
    by (intro yields_rules) (auto simp: builder_defs new_builder_def fits_def slice_defs split: if_splits)
qed

lemma lower_edge_eq:
  assumes "label_is lb label rest" "len < length label" "length label - len - 1 \<le> m"
  shows "lower_edge lb len m = new_leaf (drop (len + 1) label) m (cell_builder_add_slice_bool rest)"
proof -
  let ?t = "length label - len - 1"
  have b: "length (bl_bits new_builder) \<le> max_bits" by (simp add: new_builder_def)
  have lab: "lp_bits lb = length label" "skip_label lb = rest" "extract_label lb = (label, rest)" using assms(1) by (auto simp: label_is_def)
  have "append_dict_label_same (odd (lp_same lb)) ?t m new_builder = append_dict_label (drop (len + 1) label) m new_builder"
    if "lp_same lb \<noteq> 0"
  proof -
    have "label = replicate (length label) (odd (lp_same lb))" using lab that by (auto simp: extract_label_def)
    then have "drop (len + 1) label = replicate ?t (odd (lp_same lb))" by (metis diff_diff_left drop_replicate)
    then show ?thesis
      using append_dict_label_same_bits [OF b assms(3)] append_dict_label_bits [OF b, of "replicate ?t (odd (lp_same lb))" m] assms(3)
      by simp
  qed
  moreover have "take ?t (drop (len + 1) (sl_bits (lp_remainder lb))) = drop (len + 1) label" if "lp_same lb = 0"
  proof -
    have "label = take (length label) (sl_bits (lp_remainder lb))" using lab that by (auto simp: extract_label_def)
    then show ?thesis by (metis diff_diff_left drop_take)
  qed
  ultimately show ?thesis
    unfolding lower_edge_def new_leaf_def Let_def lab(1,2) by (cases "lp_same lb = 0") simp_all
qed

lemma new_fork_eq: "new_fork label n (Some l) (Some r) = new_leaf label n (store_list [store_ref_bool l, store_ref_bool r])"
  by (simp add: new_fork_def new_leaf_def)

lemma merge_edge_eq:
  "merge_edge label n c m =
     vbind (label_of_cell c m 3) (\<lambda>lb.
       new_leaf (label @ fst (extract_label lb)) n (cell_builder_add_slice_bool (snd (extract_label lb))))"
  by (simp add: merge_edge_def new_leaf_def)

section \<open>Entries as maps\<close>

lemma map_of_pre: "map_of (pre p es) key = (if take (length p) key = p then map_of es (drop (length p) key) else None)"
proof (induction es)
  case (Cons e es)
  have "key = p @ k \<longleftrightarrow> take (length p) key = p \<and> k = drop (length p) key" for k
    using append_eq_conv_conj [of p k key] by auto
  then show ?case using Cons by (cases e) auto
qed simp

lemma node_forkE:
  assumes "node_entries n label rest = Some es" "length label < n"
  obtains l r el er where "rest = \<lparr>sl_bits = [], sl_refs = [l, r]\<rparr>" "dict_entries (n - length label - 1) l = Some el"
    "dict_entries (n - length label - 1) r = Some er" "es = pre (label @ [False]) el @ pre (label @ [True]) er"
  using assms that by (cases rest) (auto simp: node_entries_def split: if_splits list.splits option.splits)

lemma node_entries_ok: "node_entries n label rest = Some es \<Longrightarrow> node_ok n label rest"
  by (auto simp: node_entries_def node_ok_def split: if_splits list.splits)

lemma node_entries_leaf: "n \<le> length label \<Longrightarrow> node_entries n label rest = Some [(label, rest)]"
  by (simp add: node_entries_def)

lemma node_entries_fork:
  "length label < n \<Longrightarrow> dict_entries (n - length label - 1) l = Some el \<Longrightarrow> dict_entries (n - length label - 1) r = Some er \<Longrightarrow>
     node_entries n label \<lparr>sl_bits = [], sl_refs = [l, r]\<rparr> = Some (pre (label @ [False]) el @ pre (label @ [True]) er)"
  by (simp add: node_entries_def)

text \<open>The map of a fork, from those of its sides.\<close>

definition fork_map :: "bits \<Rightarrow> (bits \<rightharpoonup> slice) \<Rightarrow> (bits \<rightharpoonup> slice) \<Rightarrow> bits \<rightharpoonup> slice" where
  "fork_map label ml mr key =
     (if length label < length key \<and> take (length label) key = label
      then (if key ! length label then mr else ml) (drop (length label + 1) key) else None)"

lemma take_label_iff:
  "take (Suc (length label)) key = label @ [b] \<longleftrightarrow> length label < length key \<and> take (length label) key = label \<and> key ! length label = b"
proof
  assume t: "take (Suc (length label)) key = label @ [b]"
  then have "length (take (Suc (length label)) key) = Suc (length label)" by simp
  then have "length label < length key" by simp
  with t show "length label < length key \<and> take (length label) key = label \<and> key ! length label = b"
    by (simp add: take_Suc_conv_app_nth)
qed (simp add: take_Suc_conv_app_nth)

lemma map_of_fork: "map_of (pre (label @ [False]) el @ pre (label @ [True]) er) = fork_map label (map_of el) (map_of er)"
  by (rule ext) (auto simp: fork_map_def map_of_pre take_label_iff map_add_def split: option.split)

lemma label_key_iff:
  "k = label @ b # q \<longleftrightarrow>
     length label < length k \<and> take (length label) k = label \<and> k ! length label = b \<and> drop (Suc (length label)) k = q"
proof
  assume h: "length label < length k \<and> take (length label) k = label \<and> k ! length label = b \<and> drop (Suc (length label)) k = q"
  then have "take (Suc (length label)) k = label @ [b]" by (simp only: take_label_iff)
  then have "k = (label @ [b]) @ q" using h append_take_drop_id [of "Suc (length label)" k] by simp
  then show "k = label @ b # q" by simp
qed simp

lemma fork_map_upd:
  "fork_map label (ml(q := x)) mr = (fork_map label ml mr)(label @ False # q := x)"
  "fork_map label ml (mr(q := x)) = (fork_map label ml mr)(label @ True # q := x)"
  by (rule ext, simp add: fork_map_def label_key_iff)+

lemma fork_map_key:
  "length label < length key \<Longrightarrow> take (length label) key = label \<Longrightarrow>
     fork_map label ml mr key = (if key ! length label then mr else ml) (drop (length label + 1) key)"
  "take (length label) key \<noteq> label \<Longrightarrow> fork_map label ml mr key = None"
  by (simp_all add: fork_map_def)

text \<open>All keys have the same length, and they are in order.\<close>

definition key_less :: "bits \<Rightarrow> bits \<Rightarrow> bool" where
  "key_less a b \<longleftrightarrow> (a, b) \<in> lexord {(False, True)}"

lemma dict_entries_keys:
  "dict_entries n c = Some es \<Longrightarrow> (\<forall>(k, v) \<in> set es. length k = n) \<and> sorted_wrt key_less (map fst es) \<and> es \<noteq> []"
proof (induction n arbitrary: c es rule: less_induct)
  case (less n)
  obtain label rest where node: "node_entries n label rest = Some es" "length label \<le> n" using less.prems by (rule dict_entriesE)
  show ?case
  proof (cases "length label = n")
    case False
    with node obtain l r el er where f: "dict_entries (n - length label - 1) l = Some el"
      "dict_entries (n - length label - 1) r = Some er" "es = pre (label @ [False]) el @ pre (label @ [True]) er"
      by (elim node_forkE) auto
    have m: "n - length label - 1 < n" using False node(2) by simp
    note IH = less.IH [OF m f(1)] less.IH [OF m f(2)]
    have len: "(\<forall>(k, v) \<in> set (pre (label @ [b]) e). length k = n)" if "\<forall>(k, v) \<in> set e. length k = n - length label - 1" for b e
      using that False node(2) by (auto simp: pre_def)
    have app: "key_less (p @ a) (p @ b) \<longleftrightarrow> key_less a b" for p a b
      by (simp add: key_less_def lexord_same_pref_iff)
    have srt: "sorted_wrt key_less (map fst (pre p e)) = sorted_wrt key_less (map fst e)" for p e
      by (simp add: pre_def comp_def split_def sorted_wrt_map app)
    have "key_less a b" if ab: "a \<in> set (map fst (pre (label @ [False]) el))" "b \<in> set (map fst (pre (label @ [True]) er))" for a b
    proof -
      obtain k where "a = label @ False # k" using ab(1) by (auto simp: pre_def split_def)
      moreover obtain k' where "b = label @ True # k'" using ab(2) by (auto simp: pre_def split_def)
      ultimately show ?thesis by (simp only: app) (simp add: key_less_def)
    qed
    then have "sorted_wrt key_less (map fst es)" using IH unfolding f(3) map_append sorted_wrt_append srt by blast
    moreover have "\<forall>(k, v) \<in> set es. length k = n" using IH len [of el False] len [of er True] unfolding f(3) set_append by blast
    moreover have "es \<noteq> []" using IH by (simp add: f(3) pre_def)
    ultimately show ?thesis by blast
  qed (use node in \<open>auto simp: node_entries_leaf\<close>)
qed

lemma same_upto_spec:
  "take (same_upto xs ys) xs = take (same_upto xs ys) ys"
  "same_upto xs ys < length xs \<Longrightarrow> same_upto xs ys < length ys \<Longrightarrow> xs ! same_upto xs ys \<noteq> ys ! same_upto xs ys"
  by (induction xs ys rule: same_upto.induct) auto

lemma same_upto_full: "same_upto label key = length label \<longleftrightarrow> take (length label) key = label"
  by (induction label key rule: same_upto.induct) auto

lemma map_of_node:
  assumes "node_entries n label rest = Some es" "length label \<le> n" "take (length label) key \<noteq> label"
  shows "map_of es key = None"
proof -
  have "node_entries (length label + (n - length label)) (label @ []) rest = Some es" using assms(1,2) by simp
  then obtain es' where "es = pre label es'" unfolding node_entries_append by auto
  then show ?thesis using assms(3) by (simp add: map_of_pre)
qed

text \<open>
  How a key can meet the root of a tree: it leaves the edge before its end, it ends with the edge at a leaf, or it goes on
  from a fork.
\<close>

lemma node_cases:
  assumes "dict_entries (length key) c = Some es"
  obtains (off) label rest where "is_node (length key) c label rest" "node_entries (length key) label rest = Some es"
      "length label \<le> length key" "same_upto label key < length label" "take (length label) key \<noteq> label" "map_of es key = None"
    | (leaf) rest where "is_node (length key) c key rest" "es = [(key, rest)]"
    | (fork) label b q l r el er where "key = label @ b # q" "is_node (length key) c label \<lparr>sl_bits = [], sl_refs = [l, r]\<rparr>"
      "dict_entries (length q) l = Some el" "dict_entries (length q) r = Some er"
      "es = pre (label @ [False]) el @ pre (label @ [True]) er" "map_of es = fork_map label (map_of el) (map_of er)"
      "map_of es key = map_of (if b then er else el) q"
proof -
  obtain label rest where node: "is_node (length key) c label rest" "node_entries (length key) label rest = Some es"
      "length label \<le> length key" using assms by (rule dict_entriesE)
  consider "take (length label) key \<noteq> label" | "take (length label) key = label" "length label = length key"
    | "take (length label) key = label" "length label < length key" using node(3) by linarith
  then show thesis
  proof cases
    case 1
    then show thesis
      using off [OF node _ 1] map_of_node [OF node(2,3) 1] same_upto_le(2) [of label key] same_upto_full [of label key] by linarith
  next
    case 2
    then have "label = key" by simp
    then show thesis using leaf node(1,2) by (simp add: node_entries_leaf)
  next
    case 3
    obtain l r el er where f: "rest = \<lparr>sl_bits = [], sl_refs = [l, r]\<rparr>" "dict_entries (length key - length label - 1) l = Some el"
      "dict_entries (length key - length label - 1) r = Some er" "es = pre (label @ [False]) el @ pre (label @ [True]) er"
      using node(2) 3(2) by (rule node_forkE)
    define b q where "b = key ! length label" and "q = drop (length label + 1) key"
    have q: "key = label @ b # q" "length key - length label - 1 = length q"
      using 3 id_take_nth_drop [OF 3(2)] by (simp_all add: q_def b_def)
    have m: "map_of es = fork_map label (map_of el) (map_of er)" unfolding f(4) by (rule map_of_fork)
    then have "map_of es key = map_of (if b then er else el) q" unfolding fork_map_key(1) [OF 3(2,1)] m q_def b_def by simp
    then show thesis using fork [OF q(1) node(1) [unfolded f(1)] f(2,3) [unfolded q(2)] f(4) m] by blast
  qed
qed

text \<open>What the operations compute of the label in the three cases.\<close>

lemma label_is_eqs:
  assumes "label_is lb label rest"
  shows "lp_bits lb = length label" "skip_label lb = rest" "label_common lb key = same_upto label key" "extract_label lb = (label, rest)"
  using assms by (simp_all add: label_is_def)

lemma label_at_leaf:
  assumes "label_is lb key rest"
  shows "lp_bits lb = length key" "skip_label lb = rest" "label_common lb key = length key" "label_is_prefix_of lb key"
  using assms by (simp_all add: label_is_def same_upto_full)

lemma label_at_fork:
  assumes "label_is lb label \<lparr>sl_bits = [], sl_refs = [l, r]\<rparr>" "key = label @ b # q"
  shows "lp_bits lb = length label" "label_common lb key = length label" "key ! length label = b" "drop (length label + 1) key = q"
    "take (length label) key = label" "fork_ref lb sw = Some (if sw then r else l)" "length key - length label - 1 = length q"
    "label_is_prefix_of lb key" "length label = length key \<longleftrightarrow> False" "length label < length label \<longleftrightarrow> False"
  using assms by (simp_all add: label_is_def same_upto_full prefetch_ref_def sl_size_refs_def)

lemma node_ok_ends: "node_ok (length key) key rest" "node_ok n label \<lparr>sl_bits = [], sl_refs = [l, r]\<rparr>"
  by (simp_all add: node_ok_def)

lemma dict_lookup_yields:
  "dict_entries (length key) c = Some es \<Longrightarrow> yields F (dict_lookup (Some c) key) (\<lambda>r. r = map_of es key)"
proof (induction "length key" arbitrary: key c es rule: less_induct)
  case less
  from less.prems show ?case
  proof (cases rule: node_cases)
    case (off label rest)
    show ?thesis
      unfolding dict_lookup.simps
      by (rule yields_vbind, rule yields_label [OF off(1) node_entries_ok [OF off(2)]]) (use off(5,6) in \<open>simp add: label_is_def yields_ret\<close>)
  next
    case (leaf rest)
    show ?thesis
      unfolding dict_lookup.simps
      by (rule yields_vbind, rule yields_label [OF leaf(1) node_ok_ends(1)]) (simp add: leaf(2) label_at_leaf yields_ret)
  next
    case (fork label b q l r el er)
    have IH: "yields F (dict_lookup (Some (if b then r else l)) q) (\<lambda>r. r = map_of es key)"
      unfolding fork(7) by (rule less.hyps) (use fork(1,3,4) in simp_all)
    show ?thesis
      unfolding dict_lookup.simps
      by (rule yields_vbind, rule yields_label [OF fork(2) node_ok_ends(2)])
        (simp only: label_at_fork [OF _ fork(1)] not_True_eq_False if_False IH)
  qed
qed

section \<open>Values that fit\<close>

text \<open>A value is roomy when a leaf with a whole key and the value fits a cell, and the depth leaves room for the keys.\<close>

definition roomy :: "nat \<Rightarrow> slice \<Rightarrow> bool" where
  "roomy n v \<longleftrightarrow> sl_size v + n + nat_bits n + 2 \<le> max_bits \<and> sl_size_refs v \<le> max_refs \<and>
     (\<forall>r \<in> set (sl_refs v). \<forall>l. get_depth r l + n < max_depth)"

definition roomy_all :: "nat \<Rightarrow> (bits \<times> slice) list \<Rightarrow> bool" where
  "roomy_all n es \<longleftrightarrow> (\<forall>(k, v) \<in> set es. roomy n v)"

lemma roomy_fits: "roomy N v \<Longrightarrow> n \<le> N \<Longrightarrow> fits n v"
  using nat_bits_mono [of n N] by (auto simp: roomy_def fits_def dest!: bspec) (metis add_lessD1)

lemma ordinary_depth: "\<not> cell_special c \<Longrightarrow> (\<And>r l. r \<in> set (cell_refs c) \<Longrightarrow> get_depth r l \<le> d) \<Longrightarrow> get_depth c l \<le> d + 1"
  by (subst get_depth_rec) (auto simp: special_type_def special_type_of_def calc_depth_def fold_max_le)

lemma is_node_refs: "is_node n c label rest \<Longrightarrow> \<not> cell_special c \<and> cell_refs c = sl_refs rest"
  using label_facts(4) [of "cell_slice c" n] by (auto simp: is_node_def cell_slice_def)

lemma set_pre: "set (map snd (pre p es)) = set (map snd es)"
  by (force simp: pre_def)

lemma entries_depth:
  assumes "dict_entries n c = Some es" "\<And>k v r l. (k, v) \<in> set es \<Longrightarrow> r \<in> set (sl_refs v) \<Longrightarrow> get_depth r l \<le> d"
  shows "get_depth c l \<le> d + 1 + n"
  using assms
proof (induction n arbitrary: c es l rule: less_induct)
  case (less n)
  obtain label rest where node: "is_node n c label rest" "node_entries n label rest = Some es" "length label \<le> n"
    using less.prems(1) by (rule dict_entriesE)
  note ref = is_node_refs [OF node(1)]
  show ?case
  proof (cases "length label = n")
    case True
    then have "es = [(label, rest)]" using node(2) by (simp add: node_entries_leaf)
    then have "get_depth r l \<le> d" if "r \<in> set (cell_refs c)" for r l using less.prems(2) that ref by auto
    then show ?thesis using ordinary_depth [of c d l] ref by simp
  next
    case False
    with node obtain cl cr el er where f: "rest = \<lparr>sl_bits = [], sl_refs = [cl, cr]\<rparr>" "dict_entries (n - length label - 1) cl = Some el"
      "dict_entries (n - length label - 1) cr = Some er" "es = pre (label @ [False]) el @ pre (label @ [True]) er"
      by (elim node_forkE) auto
    have m: "n - length label - 1 < n" using False node(3) by simp
    have "get_depth r l \<le> d + 1 + (n - length label - 1)" if "r \<in> set (cell_refs c)" for r l
    proof -
      have "(\<exists>k'. (k', v) \<in> set es)" if "(k, v) \<in> set el \<or> (k, v) \<in> set er" for k v
        using that by (force simp: f(4) pre_def)
      then show ?thesis
        using less.IH [OF m f(2), of l] less.IH [OF m f(3), of l] less.prems(2) that ref f(1) by auto blast+
    qed
    then show ?thesis using ordinary_depth [of c "d + 1 + (n - length label - 1)" l] ref m by fastforce
  qed
qed

lemma roomy_depth: "dict_entries n c = Some es \<Longrightarrow> roomy_all N es \<Longrightarrow> n < N \<Longrightarrow> N \<le> 1023 \<Longrightarrow> get_depth c l < max_depth"
proof -
  assume a: "dict_entries n c = Some es" "roomy_all N es" "n < N" "N \<le> 1023"
  have "get_depth r l \<le> 1023 - N" if "(k, v) \<in> set es" "r \<in> set (sl_refs v)" for k v r l
  proof -
    have "get_depth r l + N < max_depth" using a(2) that unfolding roomy_all_def roomy_def by fastforce
    then show ?thesis by (simp add: max_depth_def)
  qed
  then have "get_depth c l \<le> 1023 - N + 1 + n" by (rule entries_depth [OF a(1)])
  then show ?thesis using a(3,4) by (simp add: max_depth_def)
qed

lemma roomy_size: "roomy_all N es \<Longrightarrow> es \<noteq> [] \<Longrightarrow> N + nat_bits N + 2 \<le> max_bits"
  by (cases es) (auto simp: roomy_all_def roomy_def)

lemma fits_fork:
  assumes "dict_entries m l = Some el" "dict_entries m r = Some er" "roomy_all N el" "roomy_all N er" "m < N" "N \<le> 1023" "n \<le> N"
  shows "fits n \<lparr>sl_bits = [], sl_refs = [l, r]\<rparr>"
proof -
  have "N + nat_bits N + 2 \<le> max_bits" using roomy_size [OF assms(3)] dict_entries_keys [OF assms(1)] by blast
  then have "n + nat_bits n + 2 \<le> max_bits" using nat_bits_mono [OF assms(7)] assms(7) by simp
  then show ?thesis
    using roomy_depth [OF assms(1,3,5,6)] roomy_depth [OF assms(2,4,5,6)] by (simp add: fits_def slice_defs max_refs_def)
qed

lemma roomy_pre: "roomy_all N (pre p es) = roomy_all N es" "roomy_all N (es @ fs) \<longleftrightarrow> roomy_all N es \<and> roomy_all N fs"
  by (auto simp: roomy_all_def pre_def)

lemma node_fits:
  assumes "node_entries n label rest = Some es" "roomy_all N es" "length label \<le> n" "n \<le> N" "N \<le> 1023"
  shows "fits n rest"
proof (cases "length label = n")
  case True
  then have "es = [(label, rest)]" using assms(1) by (simp add: node_entries_leaf)
  then show ?thesis using assms(2,4) by (auto simp: roomy_all_def intro: roomy_fits)
next
  case False
  with assms obtain l r el er where f: "rest = \<lparr>sl_bits = [], sl_refs = [l, r]\<rparr>" "dict_entries (n - length label - 1) l = Some el"
    "dict_entries (n - length label - 1) r = Some er" "es = pre (label @ [False]) el @ pre (label @ [True]) er"
    by (elim node_forkE) auto
  have "roomy_all N el" "roomy_all N er" using assms(2) unfolding f(4) roomy_pre by blast+
  then show ?thesis unfolding f(1) by (rule fits_fork [OF f(2,3)]) (use False assms in simp_all)
qed

section \<open>Storing a value\<close>

declare dict_set.simps [simp del] dict_lookup.simps [simp del] dict_lookup_delete.simps [simp del]
  dict_lookup_minmax.simps [simp del] dict_lookup_nearest.simps [simp del]

definition mode_allows :: "set_mode \<Rightarrow> slice option \<Rightarrow> bool" where
  "mode_allows mode old \<longleftrightarrow> (case mode of SetMode_Set \<Rightarrow> True | SetMode_Replace \<Rightarrow> old \<noteq> None | SetMode_Add \<Rightarrow> old = None)"

text \<open>A tree of cells that has the entries of a map.\<close>

definition has_map :: "nat \<Rightarrow> cell \<Rightarrow> (bits \<rightharpoonup> slice) \<Rightarrow> bool" where
  "has_map n c m \<longleftrightarrow> (\<exists>es. dict_entries n c = Some es \<and> map_of es = m)"

text \<open>A new leaf beside a node: the edge to the node is split.\<close>

lemma map_of_split:
  "map_of (if b then pre (p @ [False]) es @ pre (p @ [True]) [(q, v)] else pre (p @ [False]) [(q, v)] @ pre (p @ [True]) es)
     = (map_of (pre (p @ [\<not> b]) es))(p @ b # q \<mapsto> v)"
proof -
  have "map_of (pre (p @ [\<not> b]) es) = (if b then fork_map p (map_of es) Map.empty else fork_map p Map.empty (map_of es))"
    using map_of_fork [of p es "[]"] map_of_fork [of p "[]" es] by (cases b) simp_all
  then show ?thesis
    unfolding if_distrib [of map_of] map_of_fork by (cases b) (simp_all add: fork_map_upd)
qed

lemma yields_fork:
  assumes "dict_entries (n - length label - 1) l = Some el" "dict_entries (n - length label - 1) r = Some er"
    "length label < n" "n \<le> N" "N \<le> 1023" "F \<or> roomy_all N el \<and> roomy_all N er"
    "\<And>c. has_map n c (map_of (pre (label @ [False]) el @ pre (label @ [True]) er)) \<Longrightarrow> P c"
  shows "yields F (new_fork label n (Some l) (Some r)) P"
  unfolding new_fork_eq
proof (rule yields_new_leaf [OF stores_fork])
  show "F \<or> fits n \<lparr>sl_bits = [], sl_refs = [l, r]\<rparr>" using fits_fork [OF assms(1,2)] assms(3-6) by auto
  fix c assume "is_node n c label \<lparr>sl_bits = [], sl_refs = [l, r]\<rparr>"
  then have "dict_entries n c = Some (pre (label @ [False]) el @ pre (label @ [True]) er)"
    by (simp add: dict_entries_node node_entries_fork [OF assms(3,1,2)])
  then show "P c" by (intro assms(7)) (simp add: has_map_def)
qed (use assms in auto)

lemma split_node:
  assumes "node_entries (length key) label rest = Some es" "length label \<le> length key" "same_upto label key < length label"
  defines "p \<equiv> same_upto label key"
  obtains es2 where "p < length label" "p < length key" "take p key @ key ! p # drop (p + 1) key = key"
    "node_entries (length key - p - 1) (drop (p + 1) label) rest = Some es2" "es = pre (take p key @ [\<not> key ! p]) es2"
proof -
  let ?m = "length key - p - 1" and ?pre = "take p key @ [\<not> key ! p]"
  have p: "p < length label" "p < length key" "take p label = take p key" "label ! p = (\<not> key ! p)"
    using assms(2,3) same_upto_spec [of label key] unfolding p_def by auto
  have label: "label = ?pre @ drop (p + 1) label" using id_take_nth_drop [OF p(1)] p(3,4) by simp
  have "length ?pre + ?m = length key" using p(2) by auto
  then have "node_entries (length ?pre + ?m) (?pre @ drop (p + 1) label) rest = Some es" by (simp only: label [symmetric] assms(1))
  then obtain es2 where "node_entries ?m (drop (p + 1) label) rest = Some es2" "es = pre ?pre es2" unfolding node_entries_append by auto
  with p show ?thesis using that id_take_nth_drop [OF p(2)] by simp
qed

text \<open>The fork that a new leaf and the lower part of the old edge make.\<close>

lemma yields_split_fork:
  assumes "p < length key" "dict_entries (length key - p - 1) nw = Some [(drop (p + 1) key, v)]"
    "dict_entries (length key - p - 1) old = Some es2" "length key \<le> N" "N \<le> 1023" "F \<or> roomy N v \<and> roomy_all N es2"
  shows "yields F (if key ! p then new_fork (take p key) (length key) (Some old) (Some nw)
      else new_fork (take p key) (length key) (Some nw) (Some old))
    (\<lambda>c. has_map (length key) c ((map_of (pre (take p key @ [\<not> key ! p]) es2))(take p key @ key ! p # drop (p + 1) key \<mapsto> v)))"
proof -
  have len: "length (take p key) = p" using assms(1) by simp
  have r: "F \<or> roomy_all N es2 \<and> roomy_all N [(drop (p + 1) key, v)]" "F \<or> roomy_all N [(drop (p + 1) key, v)] \<and> roomy_all N es2"
    using assms(6) by (auto simp: roomy_all_def)
  note fork = yields_fork [of "length key" "take p key", unfolded len, where N = N]
  show ?thesis
    using map_of_split [of "key ! p" "take p key" es2 "drop (p + 1) key" v]
      fork [OF assms(3,2,1,4,5) r(1)] fork [OF assms(2,3,1,4,5) r(2)]
    by (cases "key ! p") simp_all
qed

lemma yields_split:
  assumes lb: "label_is lb label rest" and node: "node_entries (length key) label rest = Some es" "length label \<le> length key"
    and s: "same_upto label key < length label" and st: "stores v st" and n: "length key \<le> N" "N \<le> 1023"
    and F: "F \<or> roomy N v \<and> roomy_all N es"
  defines "p \<equiv> same_upto label key"
  shows "yields F (vbind (new_leaf (drop (p + 1) key) (length key - p - 1) st) (\<lambda>c1.
      vbind (lower_edge lb p (length key - p - 1)) (\<lambda>c2.
        vbind (if key ! p then new_fork (take p key) (length key) (Some c2) (Some c1)
               else new_fork (take p key) (length key) (Some c1) (Some c2)) (\<lambda>r. vret (Some r)))))
    (\<lambda>r. \<exists>c. r = Some c \<and> has_map (length key) c ((map_of es)(key \<mapsto> v)))"
proof -
  let ?m = "length key - p - 1"
  obtain es2 where p: "p < length label" "p < length key" and key: "take p key @ key ! p # drop (p + 1) key = key"
    and es2: "node_entries ?m (drop (p + 1) label) rest = Some es2" "es = pre (take p key @ [\<not> key ! p]) es2"
    using split_node [OF node s] unfolding p_def by blast
  have len: "length label - p - 1 \<le> ?m" using node(2) by simp
  have r: "F \<or> roomy N v \<and> roomy_all N es2" using F unfolding es2(2) roomy_pre .
  show ?thesis
    unfolding lower_edge_eq [OF lb p(1) len]
  proof (rule yields_vbind, rule yields_new_leaf [OF st], goal_cases)
    case (4 c1)
    then have c1: "dict_entries ?m c1 = Some [(drop (p + 1) key, v)]" using p(2) by (simp add: dict_entries_node node_entries_leaf)
    show ?case
    proof (rule yields_vbind, rule yields_new_leaf [OF stores_slice], goal_cases)
      case (4 c2)
      then have "dict_entries ?m c2 = Some es2" using es2(1) by (simp add: dict_entries_node)
      from yields_split_fork [OF p(2) c1 this n r] show ?case
        unfolding key es2(2) [symmetric] by (auto intro!: yields_vbind yields_ret elim!: yields_mono)
    qed (use p n r len node_fits [OF es2(1), of N] in \<open>auto simp: le_diff_conv\<close>)
  qed (use p n r in \<open>auto intro: roomy_fits\<close>)
qed

lemma dict_entries_distinct: "dict_entries n c = Some es \<Longrightarrow> distinct (map fst es)"
proof -
  have "sorted_wrt key_less ks \<Longrightarrow> distinct ks" for ks by (induction ks) (auto simp: key_less_def lexord_irreflexive)
  then show "dict_entries n c = Some es \<Longrightarrow> distinct (map fst es)" using dict_entries_keys by blast
qed

lemma roomy_upd:
  assumes "dict_entries n c = Some es'" "map_of es' = (map_of es)(k := x)" "roomy_all N es" "\<forall>v. x = Some v \<longrightarrow> roomy N v"
  shows "roomy_all N es'"
proof -
  have "roomy N w" if "(k', w) \<in> set es'" for k' w
  proof -
    have "map_of es' k' = Some w" using that dict_entries_distinct [OF assms(1)] by simp
    then have "x = Some w \<or> map_of es k' = Some w" by (auto simp: assms(2) split: if_splits)
    then show ?thesis using assms(3,4) by (auto simp: roomy_all_def dest: map_of_SomeD)
  qed
  then show ?thesis by (auto simp: roomy_all_def)
qed

text \<open>A fork whose one side has changed at one key.\<close>

lemma yields_side:
  assumes "dict_entries (n - length label - 1) l = Some el" "dict_entries (n - length label - 1) r = Some er"
    "length label < n" "n \<le> N" "N \<le> 1023" "F \<or> roomy_all N el \<and> roomy_all N er \<and> (\<forall>v. x = Some v \<longrightarrow> roomy N v)"
    "has_map (n - length label - 1) c' ((map_of (if b then er else el))(q := x))"
  shows "yields F (if b then new_fork label n (Some l) (Some c') else new_fork label n (Some c') (Some r))
    (\<lambda>c. has_map n c ((fork_map label (map_of el) (map_of er))(label @ b # q := x)))"
proof -
  obtain es' where es': "dict_entries (n - length label - 1) c' = Some es'" "map_of es' = (map_of (if b then er else el))(q := x)"
    using assms(7) by (auto simp: has_map_def)
  have room: "F \<or> roomy_all N es'" using assms(6) roomy_upd [OF es'] by auto
  show ?thesis
  proof (cases b)
    case True
    then have "fork_map label (map_of el) (map_of es') = (fork_map label (map_of el) (map_of er))(label @ b # q := x)"
      using es'(2) by (simp add: fork_map_upd)
    then show ?thesis
      using True room assms(6) by (auto intro!: yields_fork [OF assms(1) es'(1) assms(3-5)] simp: map_of_fork simp del: map_of_append)
  next
    case False
    then have "fork_map label (map_of es') (map_of er) = (fork_map label (map_of el) (map_of er))(label @ b # q := x)"
      using es'(2) by (simp add: fork_map_upd)
    then show ?thesis
      using False room assms(6) by (auto intro!: yields_fork [OF es'(1) assms(2) assms(3-5)] simp: map_of_fork simp del: map_of_append)
  qed
qed

lemma yields_set_side:
  assumes "key = label @ b # q" "dict_entries (length q) l = Some el" "dict_entries (length q) r = Some er" "length key \<le> N" "N \<le> 1023"
    "F \<or> roomy_all N el \<and> roomy_all N er \<and> roomy N v"
    "yields F m (\<lambda>res. if allowed then \<exists>c'. res = Some c' \<and> has_map (length q) c' ((map_of (if b then er else el))(q \<mapsto> v)) else res = None)"
  shows "yields F (vbind m (\<lambda>res. if res = None then vret None
      else vbind (if b then new_fork label (length key) (Some l) res else new_fork label (length key) res (Some r)) (\<lambda>r. vret (Some r))))
    (\<lambda>r. if allowed then \<exists>c'. r = Some c' \<and> has_map (length key) c' ((fork_map label (map_of el) (map_of er))(key \<mapsto> v)) else r = None)"
proof (rule yields_vbind, rule yields_mono [OF assms(7)], goal_cases)
  case (1 res)
  have n: "length label < length key" "length key - length label - 1 = length q" using assms(1) by simp_all
  show ?case
  proof (cases allowed)
    case True
    then obtain c' where c': "res = Some c'" "has_map (length q) c' ((map_of (if b then er else el))(q \<mapsto> v))" using 1 by auto
    note yields_side [of "length key" label, unfolded n(2), OF assms(2,3) n(1) assms(4,5) _ c'(2)]
    then have "yields F (if b then new_fork label (length key) (Some l) res else new_fork label (length key) res (Some r))
        (\<lambda>c. has_map (length key) c ((fork_map label (map_of el) (map_of er))(key \<mapsto> v)))"
      using assms(6) unfolding c'(1) assms(1) [symmetric] by simp
    then show ?thesis using True c'(1) by (auto intro!: yields_vbind yields_ret elim!: yields_mono)
  qed (use 1 in \<open>simp add: yields_ret\<close>)
qed

lemma yields_key_leaf:
  assumes "stores v st" "length key \<le> N" "N \<le> 1023" "F \<or> roomy N v"
  shows "yields F (new_leaf key (length key) st) (\<lambda>r. has_map (length key) r [key \<mapsto> v])"
  by (rule yields_new_leaf [OF assms(1)])
    (use assms(2-4) in \<open>auto simp: has_map_def dict_entries_node node_entries_leaf intro: roomy_fits\<close>)

lemma dict_set_yields:
  assumes "dict_entries (length key) c = Some es" "stores v st" "length key \<le> N" "N \<le> 1023" "F \<or> roomy N v \<and> roomy_all N es"
  shows "yields F (dict_set (Some c) key st mode) (\<lambda>r.
    if mode_allows mode (map_of es key) then \<exists>c'. r = Some c' \<and> has_map (length key) c' ((map_of es)(key \<mapsto> v)) else r = None)"
  using assms(1,3,5)
proof (induction "length key" arbitrary: key c es rule: less_induct)
  case less
  from less.prems(1) show ?case
  proof (cases rule: node_cases)
    case (off label rest)
    show ?thesis
      unfolding dict_set.simps Let_def
    proof (rule yields_vbind, rule yields_label [OF off(1) node_entries_ok [OF off(2)]], goal_cases)
      case (1 lb)
      show ?case
        unfolding label_is_eqs [OF 1] using yields_split [OF 1 off(2-4) assms(2) less.prems(2) assms(4) less.prems(3)]
        by (cases mode) (simp_all add: off(4,6) mode_allows_def yields_ret)
    qed
  next
    case (leaf rest)
    show ?thesis
      unfolding dict_set.simps Let_def
    proof (rule yields_vbind, rule yields_label [OF leaf(1) node_ok_ends(1)], goal_cases)
      case (1 lb)
      have "F \<or> roomy N v" using less.prems(3) by blast
      note new = yields_key_leaf [OF assms(2) less.prems(2) assms(4) this]
      show ?case
        unfolding label_at_leaf [OF 1]
        by (cases mode) (use new in \<open>auto simp: leaf(2) mode_allows_def intro!: yields_ret yields_vbind elim!: yields_mono\<close>)
    qed
  next
    case (fork label b q l r el er)
    have roomy: "F \<or> roomy N v \<and> roomy_all N el" "F \<or> roomy N v \<and> roomy_all N er"
      using less.prems(3) unfolding fork(5) roomy_pre by blast+
    have IH: "yields F (dict_set (Some (if b then r else l)) q st mode) (\<lambda>res.
        if mode_allows mode (map_of es key) then \<exists>c'. res = Some c' \<and> has_map (length q) c' ((map_of (if b then er else el))(q \<mapsto> v))
        else res = None)"
      unfolding fork(7) by (rule less.hyps) (use fork(1,3,4) roomy less.prems(2) in simp_all)
    show ?thesis
      unfolding dict_set.simps Let_def
    proof (rule yields_vbind, rule yields_label [OF fork(2) node_ok_ends(2)], goal_cases)
      case (1 lb)
      have "F \<or> roomy_all N el \<and> roomy_all N er \<and> roomy N v" using roomy by blast
      note side = yields_set_side [OF fork(1,3,4) less.prems(2) assms(4) this IH, unfolded fork(6) [symmetric]]
      show ?case
        unfolding label_at_fork [OF 1 fork(1)] using side by (cases b) (simp_all cong: if_cong)
    qed
  qed
qed

lemma dict_set_empty_yields:
  assumes "stores v st" "length key \<le> 1023" "F \<or> roomy (length key) v"
  shows "yields F (dict_set None key st mode) (\<lambda>r.
    if mode_allows mode None then \<exists>c'. r = Some c' \<and> has_map (length key) c' [key \<mapsto> v] else r = None)"
  unfolding dict_set.simps using yields_key_leaf [OF assms(1) order_refl assms(2,3)]
  by (cases mode) (auto simp: mode_allows_def intro!: yields_ret yields_vbind elim!: yields_mono)

section \<open>Deleting a key\<close>

text \<open>What is left: no root when there are no entries.\<close>

definition has_entries :: "nat \<Rightarrow> cell option \<Rightarrow> (bits \<rightharpoonup> slice) \<Rightarrow> bool" where
  "has_entries n root m \<longleftrightarrow> (case root of None \<Rightarrow> m = Map.empty | Some c \<Rightarrow> has_map n c m)"

lemma yields_merge:
  assumes "dict_entries (n - length label - 1) c = Some es" "length label < n" "n \<le> N" "N \<le> 1023" "F \<or> roomy_all N es"
  shows "yields F (merge_edge (label @ [b]) n c (n - length label - 1)) (\<lambda>r. has_map n r (map_of (pre (label @ [b]) es)))"
proof -
  let ?m = "n - length label - 1"
  obtain label2 rest where node: "is_node ?m c label2 rest" "node_entries ?m label2 rest = Some es" "length label2 \<le> ?m"
    using assms(1) by (rule dict_entriesE)
  have len: "length ((label @ [b]) @ label2) \<le> n" using node(3) assms(2) by simp
  have n: "length (label @ [b]) + ?m = n" using assms(2) by simp
  have all: "node_entries n ((label @ [b]) @ label2) rest = Some (pre (label @ [b]) es)"
    using node_entries_append [of "label @ [b]" ?m label2 rest] unfolding n node(2) by simp
  have fit: "F \<or> fits n rest" using node_fits [OF all _ len assms(3,4)] assms(5) unfolding roomy_pre by blast
  show ?thesis
    unfolding merge_edge_eq
  proof (rule yields_vbind, rule yields_label [OF node(1) node_entries_ok [OF node(2)]], goal_cases)
    case (1 lb)
    then have lb: "extract_label lb = (label2, rest)" by (simp add: label_is_def)
    show ?case
      unfolding lb fst_conv snd_conv
      by (rule yields_new_leaf [OF stores_slice len _ fit]) (use assms(3,4) all in \<open>auto simp: has_map_def dict_entries_node\<close>)
  qed
qed

text \<open>A fork after a key has gone from one side.\<close>

lemma yields_deleted:
  assumes "dict_entries (n - length label - 1) l = Some el" "dict_entries (n - length label - 1) r = Some er"
    "length label < n" "n \<le> N" "N \<le> 1023" "F \<or> roomy_all N el \<and> roomy_all N er"
    "has_entries (n - length label - 1) root ((map_of (if b then er else el))(q := None))"
  shows "yields F (case (root, Some (if b then l else r)) of
      (Some child, Some other) \<Rightarrow>
        vbind (if b then new_fork label n (Some other) (Some child) else new_fork label n (Some child) (Some other))
          (\<lambda>r. vret (w, Some r))
    | (None, Some other) \<Rightarrow> vbind (merge_edge (label @ [\<not> b]) n other (n - length label - 1)) (\<lambda>r. vret (w, Some r))
    | _ \<Rightarrow> vundef)
    (\<lambda>(v, root). v = w \<and> has_entries n root ((fork_map label (map_of el) (map_of er))(label @ b # q := None)))"
proof (cases root)
  case None
  then have gone: "(map_of (if b then er else el))(q := None) = Map.empty" using assms(7) by (simp add: has_entries_def)
  have "map_of (pre (label @ [\<not> b]) (if b then el else er)) = (fork_map label (map_of el) (map_of er))(label @ b # q := None)"
    using map_of_fork [of label el "[]"] map_of_fork [of label "[]" er] gone by (cases b) (simp_all add: fork_map_upd [symmetric])
  moreover have "yields F (merge_edge (label @ [\<not> b]) n (if b then l else r) (n - length label - 1))
      (\<lambda>c. has_map n c (map_of (pre (label @ [\<not> b]) (if b then el else er))))"
    by (rule yields_merge) (use assms in auto)
  ultimately show ?thesis by (auto simp: None has_entries_def intro!: yields_vbind yields_ret elim!: yields_mono)
next
  case (Some c')
  then have "has_map (n - length label - 1) c' ((map_of (if b then er else el))(q := None))" using assms(7) by (simp add: has_entries_def)
  from yields_side [OF assms(1-5) _ this] assms(6)
  have "yields F (if b then new_fork label n (Some l) (Some c') else new_fork label n (Some c') (Some r))
    (\<lambda>c. has_map n c ((fork_map label (map_of el) (map_of er))(label @ b # q := None)))" by simp
  then show ?thesis by (cases b) (auto simp: Some has_entries_def intro!: yields_vbind yields_ret elim!: yields_mono)
qed

lemma dict_lookup_delete_yields:
  assumes "dict_entries (length key) c = Some es" "length key \<le> N" "N \<le> 1023" "F \<or> roomy_all N es"
  shows "yields F (dict_lookup_delete (Some c) key) (\<lambda>(v, root).
    v = map_of es key \<and> (if v = None then root = None else has_entries (length key) root ((map_of es)(key := None))))"
  using assms(1,2,4)
proof (induction "length key" arbitrary: key c es rule: less_induct)
  case less
  from less.prems(1) show ?case
  proof (cases rule: node_cases)
    case (off label rest)
    show ?thesis
      unfolding dict_lookup_delete.simps Let_def
      by (rule yields_vbind, rule yields_label [OF off(1) node_entries_ok [OF off(2)]])
        (use off(4,6) in \<open>simp add: label_is_eqs yields_ret\<close>)
  next
    case (leaf rest)
    show ?thesis
      unfolding dict_lookup_delete.simps Let_def
      by (rule yields_vbind, rule yields_label [OF leaf(1) node_ok_ends(1)])
        (simp add: label_at_leaf leaf(2) has_entries_def yields_ret)
  next
    case (fork label b q l r el er)
    have roomy: "F \<or> roomy_all N el \<and> roomy_all N er" using less.prems(3) unfolding fork(5) roomy_pre by blast
    have n: "length label < length key" "length key - length label - 1 = length q" using fork(1) by simp_all
    have IH: "yields F (dict_lookup_delete (Some (if b then r else l)) q) (\<lambda>(v, root).
        v = map_of es key \<and> (if v = None then root = None else has_entries (length q) root ((map_of (if b then er else el))(q := None))))"
      unfolding fork(7) by (rule less.hyps) (use fork(1,3,4) roomy less.prems(2) in auto)
    show ?thesis
      unfolding dict_lookup_delete.simps Let_def
    proof (rule yields_vbind, rule yields_label [OF fork(2) node_ok_ends(2)], goal_cases)
      case (1 lb)
      show ?case
        unfolding label_at_fork [OF 1 fork(1)] if_False if_not_P
      proof (rule yields_vbind, rule yields_mono [OF IH], goal_cases)
        case (1 res)
        show ?case
        proof (cases "map_of es key = None")
          case False
          then have res: "fst res = map_of es key" "(fst res = None) = False"
            "has_entries (length q) (snd res) ((map_of (if b then er else el))(q := None))" using 1 by (auto split: prod.splits)
          note del = yields_deleted [of "length key" label, unfolded n(2), OF fork(3,4) n(1) less.prems(2) assms(3) roomy res(3), of "fst res",
              unfolded fork(1) [symmetric] fork(6) [symmetric]]
          show ?thesis
            unfolding res(2) if_False
            by (cases b) (use del res(1,2) in \<open>auto cong: if_cong elim!: yields_mono\<close>)
        qed (use 1 in \<open>auto simp: yields_ret\<close>)
      qed
    qed
  qed
qed

end
