(* ===== verification/DictKeys.thy ===== *)
theory DictKeys
  imports DictProps
begin

text \<open>
  The least and the greatest key of a dictionary, and the key nearest to a given one: \<open>dict_lookup_minmax\<close> and
  \<open>dict_lookup_nearest\<close> of \<open>src/crypto/vm/dict.cpp\<close> find the extreme entries for the order that the instructions
  mean, that of unsigned or of signed integers.
\<close>

section \<open>The least, the greatest and the nearest key\<close>

text \<open>
  The bits of \<open>mode\<close> are directions: the rank of a key is its value when a bit counts if it is the direction at its
  place. The first bit has a direction of its own, the others share one.
\<close>

definition two_way :: "int \<Rightarrow> bool" where
  "two_way mode \<longleftrightarrow> drop_bit 1 mode \<in> {0, - 1}"

definition next_mode :: "bits \<Rightarrow> int \<Rightarrow> int" where
  "next_mode label mode = (if label = [] then mode else drop_bit 1 mode)"

definition turned :: "int \<Rightarrow> bits \<Rightarrow> bits" where
  "turned mode k = (case k of [] \<Rightarrow> [] | b # bs \<Rightarrow> (b = odd mode) # map (\<lambda>c. c = odd (drop_bit 1 mode)) bs)"

definition rank :: "int \<Rightarrow> bits \<Rightarrow> nat" where
  "rank mode k = bits_nat (turned mode k)"

lemma length_turned [simp]: "length (turned mode k) = length k"
  by (simp add: turned_def split: list.split)

lemma rank_less: "rank mode k < 2 ^ length k"
  using bits_nat_less [of "turned mode k"] by (simp add: rank_def)

lemma two_way_drop: "two_way mode \<Longrightarrow> two_way (drop_bit 1 mode)" "two_way mode \<Longrightarrow> two_way (next_mode label mode)"
  by (auto simp: two_way_def next_mode_def drop_bit_int_def)

lemma two_way_same: "two_way mode \<Longrightarrow> odd (drop_bit 1 (drop_bit 1 mode)) = odd (drop_bit 1 mode)"
  by (auto simp: two_way_def drop_bit_int_def)

lemma turned_append:
  "two_way mode \<Longrightarrow> turned mode (label @ b # k) = turned mode label @ (b = odd (next_mode label mode)) # turned (drop_bit 1 (next_mode label mode)) k"
  using two_way_same [of mode] two_way_same [of "drop_bit 1 mode"] two_way_drop(1) [of mode]
  by (cases label; cases k) (simp_all add: turned_def next_mode_def)

lemma rank_append:
  "two_way mode \<Longrightarrow> rank mode (label @ b # k) = rank mode label * 2 ^ Suc (length k)
     + (if b = odd (next_mode label mode) then 2 ^ length k else 0) + rank (drop_bit 1 (next_mode label mode)) k"
  by (simp add: rank_def turned_append bits_nat_append bits_nat_Cons)

lemma drop_bit_not: "drop_bit 1 (not mode) = not (drop_bit 1 (mode :: int))"
  by (simp add: drop_bit_int_def not_int_def)

lemma rank_not: "rank (not mode) k + rank mode k = 2 ^ length k - 1"
proof -
  have flip: "bits_nat (map Not bs) + bits_nat bs = 2 ^ length bs - 1" for bs
    by (induction bs) (auto simp: bits_nat_Cons)
  have "turned (not mode) k = map Not (turned mode k)" unfolding turned_def drop_bit_not by (auto split: list.split)
  then show ?thesis using flip [of "turned mode k"] by (simp add: rank_def)
qed

text \<open>The entry of highest rank.\<close>

definition is_top :: "int \<Rightarrow> (bits \<times> slice) list \<Rightarrow> (slice \<times> bits) option \<Rightarrow> bool" where
  "is_top mode es r \<longleftrightarrow> (case r of None \<Rightarrow> False
     | Some (v, k) \<Rightarrow> (k, v) \<in> set es \<and> (\<forall>(k', w) \<in> set es. rank mode k' \<le> rank mode k))"

lemma rank_le_append:
  fixes label :: bits
  assumes "two_way mode" "length k = length k'"
  defines "m \<equiv> next_mode label mode"
  shows "rank mode (label @ b # k) \<le> rank mode (label @ b' # k') \<longleftrightarrow>
      (if b = b' then rank (drop_bit 1 m) k \<le> rank (drop_bit 1 m) k' else b' = odd m)"
    "rank mode (label @ b # k) < rank mode (label @ b' # k') \<longleftrightarrow>
      (if b = b' then rank (drop_bit 1 m) k < rank (drop_bit 1 m) k' else b' = odd m)"
  using rank_less [of "drop_bit 1 m" k] rank_less [of "drop_bit 1 m" k'] assms(2)
  unfolding m_def rank_append [OF assms(1)] by auto

text \<open>A list of entries that a fork joins, all with keys of the same length.\<close>

lemma fork_memE:
  assumes "(k, v) \<in> set (pre (label @ [False]) el @ pre (label @ [True]) er)" "\<forall>(k, v) \<in> set el. length k = m" "\<forall>(k, v) \<in> set er. length k = m"
  obtains b q where "k = label @ b # q" "(q, v) \<in> set (if b then er else el)" "length q = m"
  using assms by (force simp: pre_def)

lemma fork_memI: "(q, v) \<in> set (if b then er else el) \<Longrightarrow> (label @ b # q, v) \<in> set (pre (label @ [False]) el @ pre (label @ [True]) er)"
  by (cases b) (force simp: pre_def)+

lemma is_top_fork:
  assumes "two_way mode" "\<forall>(k, v) \<in> set el. length k = m" "\<forall>(k, v) \<in> set er. length k = m"
    "is_top (drop_bit 1 (next_mode label mode)) (if odd (next_mode label mode) then er else el) r"
  shows "is_top mode (pre (label @ [False]) el @ pre (label @ [True]) er) (map_option (\<lambda>(v, k). (v, label @ odd (next_mode label mode) # k)) r)"
proof -
  let ?m = "next_mode label mode"
  obtain v k where r: "r = Some (v, k)" "(k, v) \<in> set (if odd ?m then er else el)"
    "\<And>k' w. (k', w) \<in> set (if odd ?m then er else el) \<Longrightarrow> rank (drop_bit 1 ?m) k' \<le> rank (drop_bit 1 ?m) k"
    using assms(4) unfolding is_top_def by (auto split: option.splits) blast
  have len: "length k = m" using r(2) assms(2,3) by (auto split: if_splits)
  have "rank mode k' \<le> rank mode (label @ odd ?m # k)" if k': "(k', w) \<in> set (pre (label @ [False]) el @ pre (label @ [True]) er)" for k' w
  proof -
    obtain b q where q: "k' = label @ b # q" "(q, w) \<in> set (if b then er else el)" "length q = m" by (rule fork_memE [OF k' assms(2,3)])
    show ?thesis unfolding q(1) using q(2,3) r(3) len by (subst rank_le_append [OF assms(1)]) auto
  qed
  then show ?thesis using fork_memI [OF r(2)] unfolding is_top_def r(1) by auto
qed

lemma dict_lookup_minmax_yields:
  "dict_entries n c = Some es \<Longrightarrow> two_way mode \<Longrightarrow> yields F (dict_lookup_minmax (Some c) n mode) (is_top mode es)"
proof (induction n arbitrary: c es mode rule: less_induct)
  case (less n)
  obtain label rest where node: "is_node n c label rest" "node_entries n label rest = Some es" "length label \<le> n"
    using less.prems(1) by (rule dict_entriesE)
  show ?case
    unfolding dict_lookup_minmax.simps
  proof (rule yields_vbind, rule yields_label [OF node(1) node_entries_ok [OF node(2)]], goal_cases)
    case (1 lb)
    then have lb: "extract_label lb = (label, rest)" "lp_bits lb = length label" by (simp_all add: label_is_def)
    show ?case
    proof (cases "length label = n")
      case True
      then have "es = [(label, rest)]" using node(2) by (simp add: node_entries_leaf)
      then show ?thesis using True by (auto simp: lb is_top_def intro!: yields_ret)
    next
      case False
      with node obtain l r el er where f: "rest = \<lparr>sl_bits = [], sl_refs = [l, r]\<rparr>" "dict_entries (n - length label - 1) l = Some el"
        "dict_entries (n - length label - 1) r = Some er" "es = pre (label @ [False]) el @ pre (label @ [True]) er"
        by (elim node_forkE) auto
      define m where "m = next_mode label mode"
      have m: "(if length label \<noteq> 0 then drop_bit 1 mode else mode) = m" "two_way (drop_bit 1 m)"
        using two_way_drop less.prems(2) by (auto simp: m_def next_mode_def)
      have "yields F (dict_lookup_minmax (Some (if odd m then r else l)) (n - length label - 1) (drop_bit 1 m))
          (is_top (drop_bit 1 m) (if odd m then er else el))"
        by (rule less.IH) (use False node(3) f(2,3) m(2) in auto)
      moreover have "prefetch_ref (if odd m then 1 else 0) rest = Some (if odd m then r else l)" by (simp add: f(1) prefetch_ref_def sl_size_refs_def)
      moreover have "is_top mode es (map_option (\<lambda>(v, k). (v, label @ odd m # k)) res)"
        if "is_top (drop_bit 1 m) (if odd m then er else el) res" for res
        using dict_entries_keys [OF f(2)] dict_entries_keys [OF f(3)] that unfolding f(4) m_def
        by (intro is_top_fork [OF less.prems(2)]) blast+
      ultimately show ?thesis
        unfolding lb m Let_def prod.case using False node(3) by (auto intro!: yields_vbind yields_ret elim!: yields_mono)
    qed
  qed
qed

text \<open>The first entry beyond a key, in the direction of \<open>mode\<close>.\<close>

definition beyond :: "int \<Rightarrow> bool \<Rightarrow> bits \<Rightarrow> bits \<Rightarrow> bool" where
  "beyond mode allow_eq key k \<longleftrightarrow> rank mode key < rank mode k \<or> allow_eq \<and> k = key"

definition is_near :: "int \<Rightarrow> bool \<Rightarrow> bits \<Rightarrow> (bits \<times> slice) list \<Rightarrow> (slice \<times> bits) option \<Rightarrow> bool" where
  "is_near mode allow_eq key es r \<longleftrightarrow> (case r of
     None \<Rightarrow> \<forall>(k, w) \<in> set es. \<not> beyond mode allow_eq key k
   | Some (v, k) \<Rightarrow> (k, v) \<in> set es \<and> beyond mode allow_eq key k \<and>
       (\<forall>(k', w) \<in> set es. beyond mode allow_eq key k' \<longrightarrow> rank mode k \<le> rank mode k'))"

lemma beyond_append:
  "two_way mode \<Longrightarrow> length k = length q \<Longrightarrow> beyond mode e (label @ sw # q) (label @ b # k) =
     (if b = sw then beyond (drop_bit 1 (next_mode label mode)) e q k else b = odd (next_mode label mode))"
  by (auto simp: beyond_def rank_le_append)

lemma is_near_all:
  assumes "is_top (not mode) es r" "\<forall>(k, w) \<in> set es. length k = n \<and> beyond mode e key k"
  shows "is_near mode e key es r"
proof -
  obtain v k where r: "r = Some (v, k)" "(k, v) \<in> set es" "\<And>k' w. (k', w) \<in> set es \<Longrightarrow> rank (not mode) k' \<le> rank (not mode) k"
    using assms(1) unfolding is_top_def by (auto split: option.splits) blast
  have "rank mode k \<le> rank mode k'" if "(k', w) \<in> set es" for k' w
  proof -
    have "length x = n" if "(x, y) \<in> set es" for x y using assms(2) that by auto
    then have "length k' = length k" using r(2) that by metis
    then show ?thesis using r(3) [OF that] rank_not [of mode k] rank_not [of mode k'] by simp
  qed
  then show ?thesis using r(1,2) assms(2) by (auto simp: is_near_def)
qed

lemma not_two_way: "two_way mode \<Longrightarrow> two_way (not mode)"
  by (simp add: two_way_def drop_bit_int_def not_int_def) presburger

text \<open>An edge that leaves the key: all of its entries are on the same side.\<close>

lemma near_off_edge:
  assumes "two_way mode" "\<forall>(k, w) \<in> set es. length k = length key \<and> (\<exists>q. k = p @ (\<not> sw) # q)" "key = p @ sw # r"
  shows "\<forall>(k, w) \<in> set es. length k = length key \<and> beyond mode e key k = (sw \<noteq> odd (next_mode p mode))"
proof (intro ballI, clarify)
  fix k w assume "(k, w) \<in> set es"
  then obtain q where q: "length k = length key" "k = p @ (\<not> sw) # q" using assms(2) by blast
  then have "length q = length r" using assms(3) by simp
  then show "length k = length key \<and> beyond mode e key k = (sw \<noteq> odd (next_mode p mode))"
    using q beyond_append [OF assms(1), of q r e p sw "\<not> sw"] assms(3) by auto
qed

lemma is_near_fork:
  assumes "two_way mode" "\<forall>(k, v) \<in> set el. length k = m" "\<forall>(k, v) \<in> set er. length k = m" "length q = m"
    "is_near (drop_bit 1 (next_mode label mode)) e q (if sw then er else el) res" "res \<noteq> None \<or> sw = odd (next_mode label mode)"
  shows "is_near mode e (label @ sw # q) (pre (label @ [False]) el @ pre (label @ [True]) er) (map_option (\<lambda>(v, k). (v, label @ sw # k)) res)"
proof -
  let ?es = "pre (label @ [False]) el @ pre (label @ [True]) er"
  let ?m = "drop_bit 1 (next_mode label mode)"
  have *: "P k' w" if "(k', w) \<in> set ?es"
      "\<And>b k. (k, w) \<in> set (if b then er else el) \<Longrightarrow> length k = m \<Longrightarrow> P (label @ b # k) w" for P k' w
    by (rule fork_memE [OF that(1) assms(2,3)]) (use that(2) in simp)
  show ?thesis
  proof (cases res)
    case None
    then have "\<forall>(k, w) \<in> set (if sw then er else el). \<not> beyond ?m e q k" "sw = odd (next_mode label mode)"
      using assms(5,6) by (simp_all add: is_near_def)
    then have "\<not> beyond mode e (label @ sw # q) (label @ b # k)" if "(k, w) \<in> set (if b then er else el)" "length k = m" for b k w
      using that assms(4) beyond_append [OF assms(1), of k q e label sw b] by (cases "b = sw") auto
    then have "\<not> beyond mode e (label @ sw # q) k'" if "(k', w) \<in> set ?es" for k' w by (rule * [OF that])
    then show ?thesis by (auto simp: is_near_def None)
  next
    case (Some vk)
    obtain v k where vk: "vk = (v, k)" by (cases vk)
    have near: "(k, v) \<in> set (if sw then er else el)" "beyond ?m e q k"
      "\<And>k' w. (k', w) \<in> set (if sw then er else el) \<Longrightarrow> beyond ?m e q k' \<Longrightarrow> rank ?m k \<le> rank ?m k'"
      using assms(5) by (auto simp: is_near_def Some vk)
    have len: "length k = m" using near(1) assms(2,3) by (auto split: if_splits)
    have "beyond mode e (label @ sw # q) k' \<longrightarrow> rank mode (label @ sw # k) \<le> rank mode k'" if "(k', w) \<in> set ?es" for k' w
    proof (rule * [OF that])
      fix b k' assume "(k', w) \<in> set (if b then er else el)" "length k' = m"
      then show "beyond mode e (label @ sw # q) (label @ b # k') \<longrightarrow> rank mode (label @ sw # k) \<le> rank mode (label @ b # k')"
        using near(3) [of k' w] beyond_append [OF assms(1), of k' q e label sw b] rank_le_append(1) [OF assms(1), of k k' label sw b] len assms(4)
        by (cases "b = sw") (simp, metis)
    qed
    moreover have "beyond mode e (label @ sw # q) (label @ sw # k)"
      using beyond_append [OF assms(1), of k q e label sw sw] near(2) len assms(4) by simp
    ultimately show ?thesis
      using fork_memI [OF near(1), of label] unfolding is_near_def Some vk by simp blast
  qed
qed

lemma is_near_other:
  assumes "two_way mode" "\<forall>(k, v) \<in> set el. length k = m" "\<forall>(k, v) \<in> set er. length k = m" "length q = m"
    "is_near (drop_bit 1 d) e q (if odd d then el else er) None" "is_top (drop_bit 1 (not d)) (if odd d then er else el) res"
    and d_def: "d = next_mode label mode"
  shows "is_near mode e (label @ even d # q) (pre (label @ [False]) el @ pre (label @ [True]) er) (map_option (\<lambda>(v, k). (v, label @ odd d # k)) res)"
proof -
  let ?es = "pre (label @ [False]) el @ pre (label @ [True]) er"
  obtain v k where r: "res = Some (v, k)" "(k, v) \<in> set (if odd d then er else el)"
    "\<And>k' w. (k', w) \<in> set (if odd d then er else el) \<Longrightarrow> rank (not (drop_bit 1 d)) k' \<le> rank (not (drop_bit 1 d)) k"
    using assms(6) unfolding is_top_def drop_bit_not by (auto split: option.splits) blast
  have len: "length k = m" using r(2) assms(2,3) by (auto split: if_splits)
  have "beyond mode e (label @ even d # q) k' \<longrightarrow> rank mode (label @ odd d # k) \<le> rank mode k'" if k': "(k', w) \<in> set ?es" for k' w
  proof -
    obtain b q' where q': "k' = label @ b # q'" "(q', w) \<in> set (if b then er else el)" "length q' = m" by (rule fork_memE [OF k' assms(2,3)])
    show ?thesis
    proof (cases "b = odd d")
      case True
      then have "rank (drop_bit 1 d) k \<le> rank (drop_bit 1 d) q'"
        using r(3) q'(2,3) len rank_not [of "drop_bit 1 d" k] rank_not [of "drop_bit 1 d" q'] by fastforce
      then show ?thesis
        using True rank_le_append(1) [OF assms(1), of k q' label b b] len q'(3) by (simp add: q'(1) d_def)
    next
      case False
      then have "\<not> beyond (drop_bit 1 d) e q q'" "b = even d" using assms(5) q'(2) by (auto simp: is_near_def)
      then show ?thesis
        using beyond_append [OF assms(1), of q' q e label b b] q'(3) assms(4) by (simp add: q'(1) d_def)
    qed
  qed
  moreover have "beyond mode e (label @ even d # q) (label @ odd d # k)"
    using beyond_append [OF assms(1), of k q e label "even d" "odd d"] len assms(4) by (simp add: d_def)
  ultimately show ?thesis
    using fork_memI [OF r(2), of label] unfolding is_near_def r(1) by simp blast
qed

lemma near_split:
  assumes "dict_entries (length key) c = Some es" "node_entries (length key) label rest = Some es" "length label \<le> length key"
    "same_upto label key < length label" "two_way mode"
  defines "p \<equiv> same_upto label key"
  shows "key ! p = odd (next_mode (take p key) mode) \<Longrightarrow> is_near mode e key es None"
    "key ! p \<noteq> odd (next_mode (take p key) mode) \<Longrightarrow> is_top (not mode) es r \<Longrightarrow> is_near mode e key es r"
proof -
  obtain es2 where key: "key = take p key @ key ! p # drop (p + 1) key" and es2: "es = pre (take p key @ [\<not> key ! p]) es2"
    using split_node [OF assms(2-4)] unfolding p_def by metis
  have "\<exists>q. k = take p key @ (\<not> key ! p) # q" if "(k, w) \<in> set es" for k w
    using that by (auto simp: es2 pre_def)
  then have "\<forall>(k, w) \<in> set es. length k = length key \<and> (\<exists>q. k = take p key @ (\<not> key ! p) # q)"
    using dict_entries_keys [OF assms(1)] by blast
  note off = near_off_edge [OF assms(5) this key, of e]
  then show "key ! p = odd (next_mode (take p key) mode) \<Longrightarrow> is_near mode e key es None"
    by (auto simp: is_near_def)
  show "key ! p \<noteq> odd (next_mode (take p key) mode) \<Longrightarrow> is_top (not mode) es r \<Longrightarrow> is_near mode e key es r"
    by (rule is_near_all [of _ _ _ "length key"]) (use off in auto)
qed

lemma yields_near_fork:
  assumes "two_way mode" "\<forall>(k, v) \<in> set el. length k = length q" "\<forall>(k, v) \<in> set er. length k = length q" "d = next_mode label mode"
    "yields F m (is_near (drop_bit 1 d) e q (if sw then er else el))" "yields F t (is_top (drop_bit 1 (not d)) (if odd d then er else el))"
  shows "yields F (vbind m (\<lambda>res.
      if res \<noteq> None \<or> sw = odd d then vret (map_option (\<lambda>(v, k). (v, label @ sw # k)) res)
      else vbind t (\<lambda>r. vret (map_option (\<lambda>(v, k). (v, label @ odd d # k)) r))))
    (is_near mode e (label @ sw # q) (pre (label @ [False]) el @ pre (label @ [True]) er))"
proof (rule yields_vbind, rule yields_mono [OF assms(5)], rule yields_cases, goal_cases)
  case (1 res)
  then show ?case using is_near_fork [OF assms(1-3) refl 1(1) [unfolded assms(4)]] by (auto simp: assms(4) intro!: yields_ret)
next
  case (2 res)
  then have none: "res = None" "sw = even d" "(if sw then er else el) = (if odd d then el else er)" by (cases res; auto)+
  have "is_near (drop_bit 1 d) e q (if odd d then el else er) None" using 2(1) unfolding none(1,3) .
  note other = is_near_other [OF assms(1-3) refl this _ assms(4)]
  show ?case
    unfolding none(2) by (rule yields_vbind, rule yields_mono [OF assms(6)]) (use other in \<open>auto intro!: yields_ret\<close>)
qed

lemma dict_lookup_nearest_yields:
  "dict_entries (length key) c = Some es \<Longrightarrow> two_way mode \<Longrightarrow>
     yields F (dict_lookup_nearest (Some c) key e mode) (is_near mode e key es)"
proof (induction "length key" arbitrary: key c es mode rule: less_induct)
  case less
  from less.prems(1) show ?case
  proof (cases rule: node_cases)
    case (off label rest)
    have top: "yields F (dict_lookup_minmax (Some c) (length key) (not mode)) (is_top (not mode) es)"
      by (rule dict_lookup_minmax_yields [OF less.prems(1) not_two_way [OF less.prems(2)]])
    have d: "drop_bit (if same_upto label key \<noteq> 0 then 1 else 0) mode = next_mode (take (same_upto label key) key) mode"
      using off(3,4) by (auto simp: next_mode_def)
    show ?thesis
      unfolding dict_lookup_nearest.simps Let_def
    proof (rule yields_vbind, rule yields_label [OF off(1) node_entries_ok [OF off(2)]], goal_cases)
      case (1 lb)
      show ?case
        unfolding label_is_eqs [OF 1] d using near_split [OF less.prems(1) off(2-4) less.prems(2)] top off(4)
        by (auto intro!: yields_ret elim!: yields_mono)
    qed
  next
    case (leaf rest)
    show ?thesis
      unfolding dict_lookup_nearest.simps Let_def
      by (rule yields_vbind, rule yields_label [OF leaf(1) node_ok_ends(1)])
        (auto simp: label_at_leaf leaf(2) is_near_def beyond_def intro!: yields_ret)
  next
    case (fork label sw q l r el er)
    define d where "d = next_mode label mode"
    have d: "(if length label \<noteq> 0 then drop_bit 1 mode else mode) = d" by (simp add: d_def next_mode_def)
    have keys: "\<forall>(k, v) \<in> set el. length k = length q" "\<forall>(k, v) \<in> set er. length k = length q"
      using dict_entries_keys [OF fork(3)] dict_entries_keys [OF fork(4)] by blast+
    have two: "two_way (drop_bit 1 d)" "two_way (drop_bit 1 (not d))"
      unfolding d_def by (intro two_way_drop not_two_way less.prems(2))+
    have IH: "yields F (dict_lookup_nearest (Some (if sw then r else l)) q e (drop_bit 1 d)) (is_near (drop_bit 1 d) e q (if sw then er else el))"
      by (rule less.hyps) (use fork(1,3,4) two(1) in simp_all)
    have top: "yields F (dict_lookup_minmax (Some (if odd d then r else l)) (length q) (drop_bit 1 (not d)))
        (is_top (drop_bit 1 (not d)) (if odd d then er else el))"
      by (rule dict_lookup_minmax_yields [OF _ two(2)]) (use fork(3,4) in simp)
    show ?thesis
      unfolding dict_lookup_nearest.simps Let_def
    proof (rule yields_vbind, rule yields_label [OF fork(2) node_ok_ends(2)], goal_cases)
      case (1 lb)
      show ?case
        unfolding label_at_fork [OF 1 fork(1)] d if_False
        by (rule yields_near_fork [OF less.prems(2) keys d_def IH top, folded fork(1,5)])
    qed
  qed
qed

end
