(* ===== verification/DictMaps.thy ===== *)
theory DictMaps
  imports DictKeys
begin

text \<open>
  The class \<open>Dictionary\<close> of \<open>src/crypto/vm/dict.cpp\<close> as a finite map from keys to values: what each of its operations
  returns and does to the entries, and what any sequence of them comes to. The contract of a map whose operations run on
  the machine is a locale, with the sequences of operations as its client; the class is an instance of it for values that
  leave room for the keys in a cell.
\<close>

section \<open>The operations of the class\<close>

lemma entries_cases:
  assumes "entries d = Some es"
  obtains "root_cell d = None" "es = []" | c where "root_cell d = Some c" "dict_entries (key_bits d) c = Some es"
  using assms that by (auto simp: entries_def split: option.splits)

lemma entries_root: "has_entries (key_bits d) root m \<longleftrightarrow> (\<exists>es. entries (d\<lparr>root_cell := root\<rparr>) = Some es \<and> map_of es = m)"
  by (auto simp: has_entries_def has_map_def entries_def split: option.split)

lemma entries_distinct: "entries d = Some es \<Longrightarrow> distinct (map fst es)"
  by (erule entries_cases) (auto dest: dict_entries_distinct)

lemma entries_length: "entries d = Some es \<Longrightarrow> (k, v) \<in> set es \<Longrightarrow> length k = key_bits d"
  by (erule entries_cases) (use dict_entries_keys in force)+

lemma lookup_key_yields:
  assumes "entries d = Some es" "length key = key_bits d"
  shows "yields F (lookup_key d key) (\<lambda>r. r = map_of es key)"
  using assms(1)
proof (cases rule: entries_cases)
  case (2 c)
  then show ?thesis using dict_lookup_yields [of key c es F] assms(2) by (simp add: lookup_key_def)
qed (simp add: lookup_key_def yields_ret)

text \<open>What an operation that stores \<open>v\<close> returns: whether it has stored it, and the dictionary.\<close>

definition set_done :: "dictionary \<Rightarrow> (bits \<rightharpoonup> slice) \<Rightarrow> bits \<Rightarrow> slice \<Rightarrow> set_mode \<Rightarrow> bool \<times> dictionary \<Rightarrow> bool" where
  "set_done d m key v mode res \<longleftrightarrow>
     (case res of (ok, d') \<Rightarrow>
        ok = mode_allows mode (m key) \<and> (if ok then key_bits d' = key_bits d \<and> (\<exists>es'. entries d' = Some es' \<and> map_of es' = m(key \<mapsto> v)) else d' = d))"

lemma stores_ref: "stores \<lparr>sl_bits = [], sl_refs = [c]\<rparr> (store_ref_bool c)"
  by (auto simp: stores_def builder_defs)

lemma stores_builder: "stores \<lparr>sl_bits = bl_bits b, sl_refs = bl_refs b\<rparr> (append_builder_bool b)"
  by (simp add: stores_def append_builder_bool_def)

lemma set_gen_yields:
  assumes "entries d = Some es" "stores v st" "length key = key_bits d" "key_bits d \<le> 1023"
    "F \<or> roomy (key_bits d) v \<and> roomy_all (key_bits d) es"
  shows "yields F (set_gen d key st mode) (set_done d (map_of es) key v mode)"
proof -
  have "yields F (dict_set (root_cell d) key st mode) (\<lambda>r.
      if mode_allows mode (map_of es key) then \<exists>c'. r = Some c' \<and> has_map (key_bits d) c' ((map_of es)(key \<mapsto> v)) else r = None)"
    using assms(1)
  proof (cases rule: entries_cases)
    case 1
    show ?thesis
      unfolding 1 map_of.simps assms(3) [symmetric] by (rule dict_set_empty_yields [OF assms(2)]) (use assms(3-5) in auto)
  next
    case (2 c)
    show ?thesis
      unfolding 2(1) assms(3) [symmetric] by (rule dict_set_yields [OF _ assms(2), where N = "key_bits d"]) (use 2 assms(3-5) in auto)
  qed
  then show ?thesis
    unfolding set_gen_def using assms(3)
    by (auto simp: set_done_def has_map_def entries_def intro!: yields_vbind yields_ret elim!: yields_mono split: if_splits)
qed

lemma lookup_delete_yields:
  assumes "entries d = Some es" "length key = key_bits d" "key_bits d \<le> 1023" "F \<or> roomy_all (key_bits d) es"
  shows "yields F (lookup_delete d key) (\<lambda>(old, d'). old = map_of es key \<and> key_bits d' = key_bits d \<and>
    (\<exists>es'. entries d' = Some es' \<and> map_of es' = (map_of es)(key := None)))"
proof -
  have "yields F (dict_lookup_delete (root_cell d) key) (\<lambda>(v, root).
      v = map_of es key \<and> (if v = None then root = None else has_entries (key_bits d) root ((map_of es)(key := None))))"
    using assms(1)
  proof (cases rule: entries_cases)
    case 1
    then show ?thesis by (auto simp: dict_lookup_delete.simps intro!: yields_ret)
  next
    case (2 c)
    show ?thesis
      unfolding 2(1) assms(2) [symmetric] by (rule dict_lookup_delete_yields [where N = "key_bits d"]) (use 2 assms(2-4) in auto)
  qed
  moreover have "map_of es key = None \<Longrightarrow> (map_of es)(key := None) = map_of es" by auto
  ultimately show ?thesis
    unfolding lookup_delete_def using assms(1,2)
    by (auto simp: entries_root intro!: yields_vbind yields_ret elim!: yields_mono split: if_splits)
qed

section \<open>Keys as integers\<close>

definition key_value :: "bool \<Rightarrow> bits \<Rightarrow> int" where
  "key_value sgnd k = (if sgnd then bits_int k else int (bits_nat k))"

text \<open>The keys above (or below) a given one, and that one if it is allowed.\<close>

definition past :: "bool \<Rightarrow> bool \<Rightarrow> bool \<Rightarrow> bits \<Rightarrow> bits \<Rightarrow> bool" where
  "past up sgnd allow_eq key k \<longleftrightarrow>
     (if up then key_value sgnd key < key_value sgnd k else key_value sgnd k < key_value sgnd key) \<or> allow_eq \<and> k = key"

lemma minmax_modes:
  "minmax_mode True False = - 1" "minmax_mode True True = - 2" "minmax_mode False False = 0" "minmax_mode False True = 1"
  by (simp_all add: minmax_mode_def)

lemma two_way_minmax: "two_way (minmax_mode up sgnd)"
  by (cases up; cases sgnd) (simp_all add: minmax_modes two_way_def drop_bit_int_def)

lemma rank_up: "int (rank (minmax_mode True sgnd) k) = key_value sgnd k + (if sgnd \<and> k \<noteq> [] then 2 ^ (length k - 1) else 0)"
proof (cases k)
  case (Cons b bs)
  have m: "drop_bit 1 (minmax_mode True sgnd) = - 1" "odd (minmax_mode True sgnd) = (\<not> sgnd)"
    by (cases sgnd; simp add: minmax_modes drop_bit_int_def)+
  have "turned (minmax_mode True sgnd) k = (b \<noteq> sgnd) # bs" unfolding turned_def Cons list.case m by (cases sgnd) simp_all
  then show ?thesis by (cases sgnd) (simp_all add: Cons rank_def key_value_def bits_nat_Cons bits_int_Cons)
qed (simp add: rank_def turned_def key_value_def bits_int_def)

lemma rank_down: "int (rank (minmax_mode False sgnd) k) = 2 ^ length k - 1 - int (rank (minmax_mode True sgnd) k)"
proof -
  have "minmax_mode False sgnd = not (minmax_mode True sgnd)" by (cases sgnd) (simp_all add: minmax_modes)
  then have "int (rank (minmax_mode False sgnd) k + rank (minmax_mode True sgnd) k) = int (2 ^ length k - 1)"
    using rank_not [of "minmax_mode True sgnd" k] by metis
  moreover have "int (2 ^ length k - 1) = 2 ^ length k - 1" by (simp add: of_nat_diff)
  ultimately show ?thesis by linarith
qed

lemma rank_value:
  assumes "length k = length k'"
  shows "rank (minmax_mode up sgnd) k \<le> rank (minmax_mode up sgnd) k' \<longleftrightarrow>
      (if up then key_value sgnd k \<le> key_value sgnd k' else key_value sgnd k' \<le> key_value sgnd k)"
    "rank (minmax_mode up sgnd) k < rank (minmax_mode up sgnd) k' \<longleftrightarrow>
      (if up then key_value sgnd k < key_value sgnd k' else key_value sgnd k' < key_value sgnd k)"
proof -
  have e: "(k = []) = (k' = [])" using assms by auto
  have up: "int (rank (minmax_mode up sgnd) k') - int (rank (minmax_mode up sgnd) k) =
      (if up then key_value sgnd k' - key_value sgnd k else key_value sgnd k - key_value sgnd k')"
    by (cases up) (simp_all add: rank_down rank_up assms e)
  then show "rank (minmax_mode up sgnd) k \<le> rank (minmax_mode up sgnd) k' \<longleftrightarrow>
      (if up then key_value sgnd k \<le> key_value sgnd k' else key_value sgnd k' \<le> key_value sgnd k)" by (cases up) auto
  show "rank (minmax_mode up sgnd) k < rank (minmax_mode up sgnd) k' \<longleftrightarrow>
      (if up then key_value sgnd k < key_value sgnd k' else key_value sgnd k' < key_value sgnd k)" using up by (cases up) auto
qed

lemma is_top_value:
  assumes "is_top (minmax_mode up sgnd) es r" "\<forall>(k, w) \<in> set es. length k = n" "distinct (map fst es)"
  obtains v k where "r = Some (v, k)" "map_of es k = Some v"
    "\<forall>(k', w) \<in> set es. if up then key_value sgnd k' \<le> key_value sgnd k else key_value sgnd k \<le> key_value sgnd k'"
proof -
  obtain v k where r: "r = Some (v, k)" "(k, v) \<in> set es"
    "\<forall>(k', w) \<in> set es. rank (minmax_mode up sgnd) k' \<le> rank (minmax_mode up sgnd) k"
    using assms(1) unfolding is_top_def by (auto split: option.splits)
  have "if up then key_value sgnd k' \<le> key_value sgnd k else key_value sgnd k \<le> key_value sgnd k'" if "(k', w) \<in> set es" for k' w
  proof -
    have "length k' = n" "length k = n" "rank (minmax_mode up sgnd) k' \<le> rank (minmax_mode up sgnd) k" using that r(2,3) assms(2) by auto
    then show ?thesis using rank_value(1) [of k' k up sgnd] by simp
  qed
  then show ?thesis using that [OF r(1)] r(2) assms(3) by auto
qed

lemma beyond_past: "length k = length key \<Longrightarrow> beyond (minmax_mode up sgnd) e key k = past up sgnd e key k"
  by (simp add: beyond_def past_def rank_value)

lemma is_near_value:
  assumes "is_near (minmax_mode up sgnd) e key es r" "\<forall>(k, w) \<in> set es. length k = length key" "distinct (map fst es)"
  shows "r = None \<Longrightarrow> (k, w) \<in> set es \<Longrightarrow> \<not> past up sgnd e key k"
    "r = Some (v, k) \<Longrightarrow> map_of es k = Some v \<and> past up sgnd e key k"
    "r = Some (v, k) \<Longrightarrow> (k', w) \<in> set es \<Longrightarrow> past up sgnd e key k' \<Longrightarrow>
       if up then key_value sgnd k \<le> key_value sgnd k' else key_value sgnd k' \<le> key_value sgnd k"
proof -
  have len: "length k = length key" if "(k, w) \<in> set es" for k w using assms(2) that by auto
  have near: "(k, v) \<in> set es \<and> past up sgnd e key k \<and>
      (\<forall>(k', w) \<in> set es. beyond (minmax_mode up sgnd) e key k' \<longrightarrow> rank (minmax_mode up sgnd) k \<le> rank (minmax_mode up sgnd) k')"
    if "r = Some (v, k)"
    using assms(1) beyond_past len that unfolding is_near_def by fastforce
  show "r = None \<Longrightarrow> (k, w) \<in> set es \<Longrightarrow> \<not> past up sgnd e key k"
    using assms(1) beyond_past [OF len] unfolding is_near_def by fastforce
  show "r = Some (v, k) \<Longrightarrow> map_of es k = Some v \<and> past up sgnd e key k" using near assms(3) by simp
  assume a: "r = Some (v, k)" "(k', w) \<in> set es" "past up sgnd e key k'"
  then have "rank (minmax_mode up sgnd) k \<le> rank (minmax_mode up sgnd) k'" "length k = length k'"
    using near [OF a(1)] beyond_past [OF len [OF a(2)], of up sgnd e] len by auto
  then show "if up then key_value sgnd k \<le> key_value sgnd k' else key_value sgnd k' \<le> key_value sgnd k"
    using rank_value(1) [of k k' up sgnd] by simp
qed

lemma get_minmax_key_yields:
  assumes "entries d = Some es"
  shows "yields False (get_minmax_key d (key_bits d) fetch_max sgnd) (\<lambda>r. case r of
      None \<Rightarrow> es = []
    | Some (v, k) \<Rightarrow> map_of es k = Some v \<and>
        (\<forall>(k', w) \<in> set es. if fetch_max then key_value sgnd k' \<le> key_value sgnd k else key_value sgnd k \<le> key_value sgnd k'))"
  using assms
proof (cases rule: entries_cases)
  case (2 c)
  then have "yields False (get_minmax_key d (key_bits d) fetch_max sgnd) (is_top (minmax_mode fetch_max sgnd) es)"
    by (simp add: get_minmax_key_def dict_lookup_minmax_yields two_way_minmax)
  then show ?thesis
    by (rule yields_mono, elim is_top_value) (use entries_length [OF assms] entries_distinct [OF assms] in auto)
qed (simp add: get_minmax_key_def dict_lookup_minmax.simps yields_ret)

lemma lookup_nearest_key_yields:
  assumes "entries d = Some es" "length key = key_bits d"
  shows "yields False (lookup_nearest_key d key fetch_next allow_eq sgnd) (\<lambda>r. case r of
      None \<Rightarrow> \<forall>(k, w) \<in> set es. \<not> past fetch_next sgnd allow_eq key k
    | Some (v, k) \<Rightarrow> map_of es k = Some v \<and> past fetch_next sgnd allow_eq key k \<and>
        (\<forall>(k', w) \<in> set es. past fetch_next sgnd allow_eq key k' \<longrightarrow> (if fetch_next then key_value sgnd k \<le> key_value sgnd k' else key_value sgnd k' \<le> key_value sgnd k)))"
  using assms(1)
proof (cases rule: entries_cases)
  case (2 c)
  have "yields False (lookup_nearest_key d key fetch_next allow_eq sgnd) (is_near (minmax_mode fetch_next sgnd) allow_eq key es)"
    using dict_lookup_nearest_yields [of key c es "minmax_mode fetch_next sgnd"] 2 assms(2) by (simp add: lookup_nearest_key_def two_way_minmax)
  then show ?thesis
  proof (rule yields_mono)
    fix r assume near: "is_near (minmax_mode fetch_next sgnd) allow_eq key es r"
    have len: "\<forall>(k, w) \<in> set es. length k = length key" using entries_length [OF assms(1)] assms(2) by auto
    note near = is_near_value [OF near len entries_distinct [OF assms(1)]]
    show "case r of None \<Rightarrow> \<forall>(k, w) \<in> set es. \<not> past fetch_next sgnd allow_eq key k
      | Some (v, k) \<Rightarrow> map_of es k = Some v \<and> past fetch_next sgnd allow_eq key k \<and>
        (\<forall>(k', w) \<in> set es. past fetch_next sgnd allow_eq key k' \<longrightarrow>
          (if fetch_next then key_value sgnd k \<le> key_value sgnd k' else key_value sgnd k' \<le> key_value sgnd k))"
      using near by (cases r) (simp_all add: split_def, force+)
  qed
qed (use assms(2) in \<open>simp add: lookup_nearest_key_def dict_lookup_nearest.simps yields_ret\<close>)

section \<open>Maps whose operations run on the machine\<close>

datatype ('k, 'v) map_op = Put 'k 'v | Del 'k

fun run_op :: "('d \<Rightarrow> 'k \<Rightarrow> 'v \<Rightarrow> 'd vm) \<Rightarrow> ('d \<Rightarrow> 'k \<Rightarrow> 'd vm) \<Rightarrow> ('k, 'v) map_op \<Rightarrow> 'd \<Rightarrow> 'd vm" where
  "run_op put del (Put k v) d = put d k v"
| "run_op put del (Del k) d = del d k"

primrec run_ops :: "('d \<Rightarrow> 'k \<Rightarrow> 'v \<Rightarrow> 'd vm) \<Rightarrow> ('d \<Rightarrow> 'k \<Rightarrow> 'd vm) \<Rightarrow> ('k, 'v) map_op list \<Rightarrow> 'd \<Rightarrow> 'd vm" where
  "run_ops put del [] d = vret d"
| "run_ops put del (op # ops) d = vbind (run_op put del op d) (run_ops put del ops)"

fun map_step :: "('k, 'v) map_op \<Rightarrow> ('k \<rightharpoonup> 'v) \<Rightarrow> ('k \<rightharpoonup> 'v)" where
  "map_step (Put k v) m = m(k \<mapsto> v)"
| "map_step (Del k) m = m(k := None)"

fun op_ok :: "('k \<Rightarrow> bool) \<Rightarrow> ('v \<Rightarrow> bool) \<Rightarrow> ('k, 'v) map_op \<Rightarrow> bool" where
  "op_ok kok vok (Put k v) = (kok k \<and> vok v)"
| "op_ok kok vok (Del k) = kok k"

text \<open>
  The contract: the operations return, raise no exception, and do to the abstraction what the operations of a map do.
\<close>

locale machine_map =
  fixes invar :: "'d \<Rightarrow> bool" and abs_map :: "'d \<Rightarrow> 'k \<rightharpoonup> 'v" and kok :: "'k \<Rightarrow> bool" and vok :: "'v \<Rightarrow> bool"
    and get :: "'d \<Rightarrow> 'k \<Rightarrow> 'v option vm" and put :: "'d \<Rightarrow> 'k \<Rightarrow> 'v \<Rightarrow> 'd vm" and del :: "'d \<Rightarrow> 'k \<Rightarrow> 'd vm"
  assumes get: "invar d \<Longrightarrow> kok k \<Longrightarrow> yields False (get d k) (\<lambda>r. r = abs_map d k)"
    and put: "invar d \<Longrightarrow> kok k \<Longrightarrow> vok v \<Longrightarrow> yields False (put d k v) (\<lambda>d'. invar d' \<and> abs_map d' = (abs_map d)(k \<mapsto> v))"
    and del: "invar d \<Longrightarrow> kok k \<Longrightarrow> yields False (del d k) (\<lambda>d'. invar d' \<and> abs_map d' = (abs_map d)(k := None))"
begin

lemma run_op_yields:
  "invar d \<Longrightarrow> op_ok kok vok op \<Longrightarrow> yields False (run_op put del op d) (\<lambda>d'. invar d' \<and> abs_map d' = map_step op (abs_map d))"
  using put del by (cases op) auto

lemma run_ops_yields:
  "invar d \<Longrightarrow> list_all (op_ok kok vok) ops \<Longrightarrow>
     yields False (run_ops put del ops d) (\<lambda>d'. invar d' \<and> abs_map d' = fold map_step ops (abs_map d))"
proof (induction ops arbitrary: d)
  case (Cons op ops)
  then have "yields False (run_op put del op d) (\<lambda>d'. invar d' \<and> abs_map d' = map_step op (abs_map d))" by (simp add: run_op_yields)
  moreover have "yields False (run_ops put del ops d') (\<lambda>e. invar e \<and> abs_map e = fold map_step (op # ops) (abs_map d))"
    if "invar d'" "abs_map d' = map_step op (abs_map d)" for d'
    using Cons.IH [OF that(1)] Cons.prems(2) that(2) by simp
  ultimately show ?case unfolding run_ops.simps by (intro yields_vbind) (auto elim!: yields_mono)
qed (auto intro!: yields_ret)

lemma get_after_run:
  assumes "invar d" "list_all (op_ok kok vok) ops" "kok k"
  shows "yields False (vbind (run_ops put del ops d) (\<lambda>d'. get d' k)) (\<lambda>r. r = fold map_step ops (abs_map d) k)"
proof (rule yields_vbind, rule yields_mono [OF run_ops_yields [OF assms(1,2)]])
  show "yields False (get d' k) (\<lambda>r. r = fold map_step ops (abs_map d) k)" if "invar d' \<and> abs_map d' = fold map_step ops (abs_map d)" for d'
    using get [of d' k] that assms(3) by simp
qed

end

text \<open>The class as such a map: keys of \<open>n\<close> bits, and values that leave room for them.\<close>

definition dict_inv :: "nat \<Rightarrow> dictionary \<Rightarrow> bool" where
  "dict_inv n d \<longleftrightarrow> key_bits d = n \<and> n \<le> 1023 \<and> (\<exists>es. entries d = Some es \<and> roomy_all n es)"

definition dict_map :: "dictionary \<Rightarrow> bits \<rightharpoonup> slice" where
  "dict_map d = map_of (the (entries d))"

definition dict_put :: "dictionary \<Rightarrow> bits \<Rightarrow> slice \<Rightarrow> dictionary vm" where
  "dict_put d key v = vbind (dict_set_slice d key v SetMode_Set) (\<lambda>(ok, d'). vret d')"

definition dict_del :: "dictionary \<Rightarrow> bits \<Rightarrow> dictionary vm" where
  "dict_del d key = vbind (lookup_delete d key) (\<lambda>(old, d'). vret d')"

lemma entries_roomy:
  assumes "entries d' = Some es'" "map_of es' = (map_of es)(k := x)" "roomy_all n es" "\<forall>v. x = Some v \<longrightarrow> roomy n v"
  shows "roomy_all n es'"
  using assms(1)
proof (cases rule: entries_cases)
  case (2 c)
  then show ?thesis using assms(2-4) by (auto intro: roomy_upd)
qed (simp add: roomy_all_def)

interpretation dictionary_map: machine_map "dict_inv n" dict_map "\<lambda>k. length k = n" "roomy n" lookup_key dict_put dict_del for n
proof unfold_locales
  fix d :: dictionary and k :: bits and v :: slice
  assume d: "dict_inv n d" and k: "length k = n"
  then obtain es where es: "entries d = Some es" "roomy_all n es" "key_bits d = n" "n \<le> 1023" by (auto simp: dict_inv_def)
  then have m: "dict_map d = map_of es" by (simp add: dict_map_def)
  show "yields False (lookup_key d k) (\<lambda>r. r = dict_map d k)"
    unfolding m using lookup_key_yields [OF es(1)] es(3) k by simp
  show "yields False (dict_del d k) (\<lambda>d'. dict_inv n d' \<and> dict_map d' = (dict_map d)(k := None))"
    unfolding dict_del_def m
    by (rule yields_vbind, rule yields_mono [OF lookup_delete_yields [OF es(1)]])
      (use es k entries_roomy in \<open>auto simp: dict_inv_def dict_map_def intro!: yields_ret\<close>)
  show "yields False (dict_put d k v) (\<lambda>d'. dict_inv n d' \<and> dict_map d' = (dict_map d)(k \<mapsto> v))" if "roomy n v"
    unfolding dict_put_def dict_set_slice_def m
    by (rule yields_vbind, rule yields_mono [OF set_gen_yields [OF es(1) stores_slice]])
      (use es k that entries_roomy in \<open>auto simp: set_done_def mode_allows_def dict_inv_def dict_map_def intro!: yields_ret\<close>)
qed

section \<open>Properties\<close>

text \<open>
  A dictionary with two entries: \<open>01\<close> has the value \<open>1\<close>, and \<open>10\<close> the empty value.
\<close>

definition sample_dict :: dictionary where
  "sample_dict = \<lparr>root_cell = Some (Cell False (label_bits [] 2)
     [Cell False (label_bits [True] 1 @ [True]) [], Cell False (label_bits [False] 1) []]), key_bits = 2\<rparr>"

definition sample_entries :: "(bits \<times> slice) list" where
  "sample_entries = [([False, True], \<lparr>sl_bits = [True], sl_refs = []\<rparr>), ([True, False], \<lparr>sl_bits = [], sl_refs = []\<rparr>)]"

lemma sample_dict_entries: "entries sample_dict = Some sample_entries" "key_bits sample_dict = 2"
  by code_simp+

lemma sample_roomy: "roomy 2 \<lparr>sl_bits = [b], sl_refs = []\<rparr>" "roomy_all 2 sample_entries"
  using nat_bits_small(1) [of 2] by (simp_all add: roomy_def roomy_all_def sample_entries_def slice_defs max_bits_def)

text \<open>
  C9: Storing a value, from a slice, a builder or a cell reference, refines the update of a map. On a dictionary whose cells
  have the entries \<open>es\<close>, with a key of its length, the operation returns whether the mode allows it (\<open>Add\<close> only a new
  key, \<open>Replace\<close> only an old one); if so, the new cells are a dictionary that has the updated map, and otherwise the
  dictionary is as it was. Nothing but gas and the set of loaded cells changes, and the only exception is a cell overflow,
  when some value leaves no room for a key in its cell or is too deep.
\<close>

theorem dict_set_refines:
  assumes "entries d = Some es" "length key = key_bits d" "key_bits d \<le> max_key_bits"
  shows "yields (\<not> (roomy (key_bits d) v \<and> roomy_all (key_bits d) es)) (dict_set_slice d key v mode) (set_done d (map_of es) key v mode) \<and>
    (v = \<lparr>sl_bits = bl_bits b, sl_refs = bl_refs b\<rparr> \<longrightarrow>
      yields (\<not> (roomy (key_bits d) v \<and> roomy_all (key_bits d) es)) (set_builder d key b mode) (set_done d (map_of es) key v mode)) \<and>
    (v = \<lparr>sl_bits = [], sl_refs = [c]\<rparr> \<longrightarrow>
      yields (\<not> (roomy (key_bits d) v \<and> roomy_all (key_bits d) es)) (set_ref d key c mode) (set_done d (map_of es) key v mode))"
  unfolding dict_set_slice_def set_builder_def set_ref_def
  using set_gen_yields [OF assms(1) stores_slice assms(2)] set_gen_yields [OF assms(1) stores_builder assms(2)]
    set_gen_yields [OF assms(1) stores_ref assms(2)] assms(3) by (simp add: max_key_bits_def)

theorem dict_set_refines_witness:
  "yields False (dict_set_slice sample_dict [True, True] \<lparr>sl_bits = [True], sl_refs = []\<rparr> SetMode_Add)
     (set_done sample_dict (map_of sample_entries) [True, True] \<lparr>sl_bits = [True], sl_refs = []\<rparr> SetMode_Add)"
  using dict_set_refines [OF sample_dict_entries(1), of "[True, True]" "\<lparr>sl_bits = [True], sl_refs = []\<rparr>" SetMode_Add]
  by (simp add: sample_dict_entries sample_roomy max_key_bits_def)

text \<open>
  C10: Deleting a key refines the deletion from a map: \<open>lookup_delete\<close> returns the value there was, and the dictionary it
  leaves, with a fork that lost a side merged into one edge, has the map without the key.
\<close>

theorem dict_delete_refines:
  assumes "entries d = Some es" "length key = key_bits d" "key_bits d \<le> max_key_bits"
  shows "yields (\<not> roomy_all (key_bits d) es) (lookup_delete d key) (\<lambda>(old, d'). old = map_of es key \<and> key_bits d' = key_bits d \<and>
    (\<exists>es'. entries d' = Some es' \<and> map_of es' = (map_of es)(key := None)))"
  using lookup_delete_yields [OF assms(1,2)] assms(3) by (simp add: max_key_bits_def)

theorem dict_delete_refines_witness:
  "yields False (lookup_delete sample_dict [True, False]) (\<lambda>(old, d'). old = Some \<lparr>sl_bits = [], sl_refs = []\<rparr> \<and> key_bits d' = 2 \<and>
    (\<exists>es'. entries d' = Some es' \<and> map_of es' = [[False, True] \<mapsto> \<lparr>sl_bits = [True], sl_refs = []\<rparr>]))"
proof -
  have "map_of sample_entries [True, False] = Some \<lparr>sl_bits = [], sl_refs = []\<rparr>"
    "(map_of sample_entries)([True, False] := None) = [[False, True] \<mapsto> \<lparr>sl_bits = [True], sl_refs = []\<rparr>]"
    by (auto simp: sample_entries_def)
  then show ?thesis
    using dict_delete_refines [OF sample_dict_entries(1), of "[True, False]"]
    by (simp add: sample_dict_entries sample_roomy max_key_bits_def)
qed

text \<open>
  C11: Any sequence of insertions and deletions, from the empty dictionary, with keys of the right length and values that
  leave room for them, runs to its end with no exception, and a lookup then finds what the map of the insertions and
  deletions has.
\<close>

theorem dict_sequence:
  assumes "n \<le> max_key_bits" "list_all (op_ok (\<lambda>k. length k = n) (roomy n)) ops" "length key = n"
  shows "yields False (vbind (run_ops dict_put dict_del ops \<lparr>root_cell = None, key_bits = n\<rparr>) (\<lambda>d. lookup_key d key))
    (\<lambda>r. r = fold map_step ops Map.empty key)"
proof -
  have "dict_inv n \<lparr>root_cell = None, key_bits = n\<rparr>" "dict_map \<lparr>root_cell = None, key_bits = n\<rparr> = Map.empty"
    using assms(1) by (auto simp: dict_inv_def dict_map_def entries_def roomy_all_def max_key_bits_def)
  then show ?thesis using dictionary_map.get_after_run [of n _ ops key] assms(2,3) by metis
qed

theorem dict_sequence_witness:
  "yields False (vbind (run_ops dict_put dict_del
       [Put [False, True] \<lparr>sl_bits = [True], sl_refs = []\<rparr>, Put [True, True] \<lparr>sl_bits = [False], sl_refs = []\<rparr>, Del [False, True]]
       \<lparr>root_cell = None, key_bits = 2\<rparr>) (\<lambda>d. lookup_key d [True, True])) (\<lambda>r. r = Some \<lparr>sl_bits = [False], sl_refs = []\<rparr>)"
  using dict_sequence [of 2 "[Put [False, True] \<lparr>sl_bits = [True], sl_refs = []\<rparr>, Put [True, True] \<lparr>sl_bits = [False], sl_refs = []\<rparr>,
      Del [False, True]]" "[True, True]"]
  by (simp add: sample_roomy max_key_bits_def)

end
