(* ===== verification/DictScan.thy ===== *)
theory DictScan
  imports DictMaps
begin

text \<open>
  The operations of \<open>dict.cpp\<close> that go through all entries of a dictionary and call a function for each: \<open>check_for_each\<close>,
  \<open>filter\<close> and \<open>map\<close>. The function is a parameter, with the state of its closure passed along. The first goes through the
  entries in the order of their keys as integers; the other two are those of a list on the entries.
\<close>

section \<open>The operations\<close>

text \<open>\<open>dict_check_for_each\<close>: the key so far is \<open>pfx\<close>, the other arguments are as in the code.\<close>

function dict_check_for_each ::
    "cell option \<Rightarrow> bits \<Rightarrow> nat \<Rightarrow> (slice \<Rightarrow> bits \<Rightarrow> 'a \<Rightarrow> bool \<times> 'a) \<Rightarrow> bool \<Rightarrow> 'a \<Rightarrow> (bool \<times> 'a) vm" where
  "dict_check_for_each None pfx n foreach_func invert_first a = vret (True, a)"
| "dict_check_for_each (Some c) pfx n foreach_func invert_first a =
     vbind (label_of_cell c n 3) (\<lambda>lb.
       case extract_label lb of (label, rest) \<Rightarrow>
         if n \<le> lp_bits lb then vret (foreach_func rest (pfx @ label) a)
         else
           let inv = (invert_first \<and> lp_bits lb = 0); m = n - lp_bits lb - 1 in
           vbind (dict_check_for_each (prefetch_ref (if inv then 1 else 0) rest) (pfx @ label @ [inv]) m foreach_func False a) (\<lambda>(ok, a1).
             if \<not> ok then vret (False, a1)
             else dict_check_for_each (prefetch_ref (if inv then 0 else 1) rest) (pfx @ label @ [\<not> inv]) m foreach_func False a1))"
  by pat_completeness auto
termination by (relation "measure (\<lambda>(c, pfx, n, f, inv, a). n)") auto

definition check_for_each :: "dictionary \<Rightarrow> (slice \<Rightarrow> bits \<Rightarrow> 'a \<Rightarrow> bool \<times> 'a) \<Rightarrow> bool \<Rightarrow> 'a \<Rightarrow> (bool \<times> 'a) vm" where
  "check_for_each d foreach_func invert_first a =
     (if root_cell d = None then vret (True, a)
      else dict_check_for_each (root_cell d) [] (key_bits d) foreach_func invert_first a)"

text \<open>
  A node from what is left of its two sides: nothing, a fork, or one edge merged with that to the only side left. The
  end of \<open>dict_filter\<close> and of \<open>dict_map\<close>.
\<close>

definition join_sides :: "bits \<Rightarrow> nat \<Rightarrow> cell option \<Rightarrow> cell option \<Rightarrow> cell option vm" where
  "join_sides label n left right =
     (case (left, right) of
        (None, None) \<Rightarrow> vret None
      | (Some l, Some r) \<Rightarrow> vbind (new_fork label n (Some l) (Some r)) (\<lambda>c. vret (Some c))
      | (Some l, None) \<Rightarrow> vbind (merge_edge (label @ [False]) n l (n - length label - 1)) (\<lambda>c. vret (Some c))
      | (None, Some r) \<Rightarrow> vbind (merge_edge (label @ [True]) n r (n - length label - 1)) (\<lambda>c. vret (Some c)))"

text \<open>
  \<open>dict_filter\<close> returns the new tree, the number of changes (0 for none, and then there is no new tree; \<open>2 ^ 30\<close> for an
  unknown number; a negative number for an error), \<open>skip_rest\<close> and the state of the closure. The function returns 0
  for an entry to drop, a number from \<open>2 ^ 30\<close> on to treat the rest like this entry.
\<close>

definition leaf_verdict :: "int \<Rightarrow> int \<Rightarrow> int \<times> int" where
  "leaf_verdict res skip_rest =
     (let res' = (if res \<ge> 2 ^ 30 then take_bit 30 res else res);
          skip' = (if res \<ge> 2 ^ 30 then (if res' \<noteq> 0 then 0 else 2 ^ 30) else skip_rest)
      in (if res' < 0 then res' else if res' = 0 then 1 else 0, skip'))"

function dict_filter ::
    "cell option \<Rightarrow> bits \<Rightarrow> nat \<Rightarrow> (slice \<Rightarrow> bits \<Rightarrow> 'a \<Rightarrow> int \<times> 'a) \<Rightarrow> int \<Rightarrow> 'a \<Rightarrow> (cell option \<times> int \<times> int \<times> 'a) vm" where
  "dict_filter None pfx n check_leaf skip_rest a = vret (None, 0, skip_rest, a)"
| "dict_filter (Some c) pfx n check_leaf skip_rest a =
     (if skip_rest \<ge> 0 then vret (None, skip_rest, skip_rest, a)
      else vbind (label_of_cell c n 3) (\<lambda>lb.
        case extract_label lb of (label, rest) \<Rightarrow>
          if n \<le> lp_bits lb then
            (case check_leaf rest (pfx @ label) a of (res, a') \<Rightarrow>
               case leaf_verdict res skip_rest of (chg, skip') \<Rightarrow> vret (None, chg, skip', a'))
          else
            let m = n - lp_bits lb - 1 in
            vbind (dict_filter (prefetch_ref 0 rest) (pfx @ label @ [False]) m check_leaf skip_rest a) (\<lambda>(left, lc, skip1, a1).
              if lc < 0 then vret (left, lc, skip1, a1)
              else vbind (dict_filter (prefetch_ref 1 rest) (pfx @ label @ [True]) m check_leaf skip1 a1) (\<lambda>(right, rc, skip2, a2).
                if or lc rc \<le> 0 then vret (right, rc, skip2, a2)
                else
                  vbind (join_sides label n (if lc \<noteq> 0 then left else prefetch_ref 0 rest)
                      (if rc \<noteq> 0 then right else prefetch_ref 1 rest)) (\<lambda>root.
                    vret (root, if bit (or lc rc) 30 then 2 ^ 30 else lc + rc, skip2, a2))))))"
  by pat_completeness auto
termination by (relation "measure (\<lambda>(c, pfx, n, f, sk, a). n)") auto

definition dict_filter_entries :: "dictionary \<Rightarrow> (slice \<Rightarrow> bits \<Rightarrow> 'a \<Rightarrow> int \<times> 'a) \<Rightarrow> 'a \<Rightarrow> (int \<times> dictionary \<times> 'a) vm" where
  "dict_filter_entries d check_leaf a =
     vbind (dict_filter (root_cell d) [] (key_bits d) check_leaf (- 1) a) (\<lambda>(root, chg, skip, a').
       vret (chg, if chg > 0 then d\<lparr>root_cell := root\<rparr> else d, a'))"

text \<open>\<open>dict_map\<close>: the function appends the new value to the label of the leaf, or tells to omit the entry.\<close>

function dict_map_tree ::
    "cell option \<Rightarrow> bits \<Rightarrow> nat \<Rightarrow> (slice \<Rightarrow> bits \<Rightarrow> 'a \<Rightarrow> (builder \<Rightarrow> builder option) \<times> 'a) \<Rightarrow> 'a \<Rightarrow> (cell option \<times> 'a) vm" where
  "dict_map_tree None pfx n map_func a = vret (None, a)"
| "dict_map_tree (Some c) pfx n map_func a =
     vbind (label_of_cell c n 3) (\<lambda>lb.
       case extract_label lb of (label, rest) \<Rightarrow>
         if n \<le> lp_bits lb then
           vbind (vwrite (append_dict_label label n new_builder)) (\<lambda>cb.
             case map_func rest (pfx @ label) a of (store, a') \<Rightarrow>
               case store cb of None \<Rightarrow> vret (None, a') | Some cb' \<Rightarrow> vbind (finalize_copy False cb') (\<lambda>r. vret (Some r, a')))
         else
           let m = n - lp_bits lb - 1 in
           vbind (dict_map_tree (prefetch_ref 0 rest) (pfx @ label @ [False]) m map_func a) (\<lambda>(left, a1).
             vbind (dict_map_tree (prefetch_ref 1 rest) (pfx @ label @ [True]) m map_func a1) (\<lambda>(right, a2).
               vbind (join_sides label n left right) (\<lambda>root. vret (root, a2)))))"
  by pat_completeness auto
termination by (relation "measure (\<lambda>(c, pfx, n, f, a). n)") auto

definition map_entries :: "dictionary \<Rightarrow> (slice \<Rightarrow> bits \<Rightarrow> 'a \<Rightarrow> (builder \<Rightarrow> builder option) \<times> 'a) \<Rightarrow> 'a \<Rightarrow> (dictionary \<times> 'a) vm" where
  "map_entries d map_func a =
     vbind (dict_map_tree (root_cell d) [] (key_bits d) map_func a) (\<lambda>(root, a'). vret (d\<lparr>root_cell := root\<rparr>, a'))"

declare dict_check_for_each.simps [simp del] dict_filter.simps [simp del] dict_map_tree.simps [simp del]

section \<open>Going through the entries\<close>

text \<open>The calls on a list of entries, up to the first that fails.\<close>

fun scan :: "(slice \<Rightarrow> bits \<Rightarrow> 'a \<Rightarrow> bool \<times> 'a) \<Rightarrow> (bits \<times> slice) list \<Rightarrow> 'a \<Rightarrow> bool \<times> 'a" where
  "scan f [] a = (True, a)"
| "scan f ((k, v) # es) a = (case f v k a of (ok, a1) \<Rightarrow> if ok then scan f es a1 else (False, a1))"

lemma scan_append: "scan f (xs @ ys) a = (case scan f xs a of (ok, a1) \<Rightarrow> if ok then scan f ys a1 else (False, a1))"
  by (induction f xs a rule: scan.induct) (auto split: prod.split)

text \<open>The keys whose first bit is set come first when the order is that of signed numbers.\<close>

definition negative :: "bits \<times> slice \<Rightarrow> bool" where
  "negative e = (case fst e of [] \<Rightarrow> False | b # bs \<Rightarrow> b)"

definition in_order :: "bool \<Rightarrow> (bits \<times> slice) list \<Rightarrow> (bits \<times> slice) list" where
  "in_order sgnd es = (if sgnd then filter negative es @ filter (\<lambda>e. \<not> negative e) es else es)"

lemma negative_pre: "filter negative (pre (b # p) es) = (if b then pre (b # p) es else [])"
    "filter (\<lambda>e. \<not> negative e) (pre (b # p) es) = (if b then [] else pre (b # p) es)"
  by (induction es) (auto simp: negative_def)

lemma in_order_fork:
  "in_order sgnd (pre (label @ [False]) el @ pre (label @ [True]) er) =
     (if sgnd \<and> label = [] then pre (label @ [True]) er @ pre (label @ [False]) el
      else pre (label @ [False]) el @ pre (label @ [True]) er)"
  by (cases label) (simp_all add: in_order_def negative_pre)

lemma in_order_leaf: "in_order sgnd [e] = [e]"
  by (simp add: in_order_def)

lemma dict_check_for_each_yields:
  "dict_entries n c = Some es \<Longrightarrow>
     yields F (dict_check_for_each (Some c) pfx n f sgnd a) (\<lambda>r. r = scan f (pre pfx (in_order sgnd es)) a)"
proof (induction n arbitrary: c es pfx sgnd a rule: less_induct)
  case (less n)
  obtain label rest where node: "is_node n c label rest" "node_entries n label rest = Some es" "length label \<le> n"
    using less.prems by (rule dict_entriesE)
  show ?case
    unfolding dict_check_for_each.simps
  proof (rule yields_vbind, rule yields_label [OF node(1) node_entries_ok [OF node(2)]], goal_cases)
    case (1 lb)
    note lb = label_is_eqs(1,4) [OF 1]
    show ?case
    proof (cases "length label = n")
      case True
      then have "es = [(label, rest)]" using node(2) by (simp add: node_entries_leaf)
      then show ?thesis using True by (auto simp: lb in_order_leaf yields_ret split: prod.split)
    next
      case False
      with node obtain l r el er where f: "rest = \<lparr>sl_bits = [], sl_refs = [l, r]\<rparr>" "dict_entries (n - length label - 1) l = Some el"
        "dict_entries (n - length label - 1) r = Some er" "es = pre (label @ [False]) el @ pre (label @ [True]) er"
        by (elim node_forkE) auto
      define inv where "inv = (sgnd \<and> length label = 0)"
      have m: "n - length label - 1 < n" using False node(3) by simp
      have ref: "prefetch_ref (if b then 1 else 0) rest = Some (if b then r else l)" "prefetch_ref (if b then 0 else 1) rest = Some (if b then l else r)" for b
        by (simp_all add: f(1) prefetch_ref_def sl_size_refs_def)
      have IH: "yields F (dict_check_for_each (Some (if b then r else l)) (pfx @ label @ [b]) (n - length label - 1) f False a)
          (\<lambda>res. res = scan f (pre (pfx @ label @ [b]) (if b then er else el)) a)" for b a
        using less.IH [OF m, of "if b then r else l" "if b then er else el" "pfx @ label @ [b]" False a] f(2,3) by (simp add: in_order_def)
      have order: "in_order sgnd es = pre (label @ [inv]) (if inv then er else el) @ pre (label @ [\<not> inv]) (if \<not> inv then er else el)"
      proof -
        have "(sgnd \<and> label = []) = inv" by (simp add: inv_def)
        then show ?thesis unfolding f(4) in_order_fork by (cases inv) (simp_all only: if_True if_False not_True_eq_False not_False_eq_True)
      qed
      show ?thesis
        unfolding lb prod.case Let_def inv_def [symmetric] ref order using False node(3) IH [of inv a] IH [of "\<not> inv"]
        by (auto simp: scan_append intro!: yields_vbind yields_ret elim!: yields_mono split: prod.splits)
    qed
  qed
qed

lemma key_less_value: "length k = length k' \<Longrightarrow> key_less k k' \<Longrightarrow> bits_nat k < bits_nat k'"
proof (induction k k' rule: list_induct2)
  case (Cons b k b' k')
  then show ?case using bits_nat_less [of k] by (auto simp: key_less_def bits_nat_Cons)
qed (simp add: key_less_def)

lemma in_order_sorted:
  assumes "\<forall>(k, v) \<in> set es. length k = n" "sorted_wrt key_less (map fst es)"
  shows "sorted_wrt (\<lambda>x y. key_value sgnd (fst x) < key_value sgnd (fst y)) (in_order sgnd es)" "set (in_order sgnd es) = set es"
proof -
  have len: "length (fst x) = n" if "x \<in> set es" for x using assms(1) that by auto
  have less: "bits_nat (fst x) < bits_nat (fst y)" if "x \<in> set es" "y \<in> set es" "key_less (fst x) (fst y)" for x y
    using key_less_value that len by metis
  have srt: "sorted_wrt (\<lambda>x y. bits_nat (fst x) < bits_nat (fst y)) (filter P es)" for P
    by (rule sorted_wrt_mono_rel [OF _ sorted_wrt_filter [of "\<lambda>x y. key_less (fst x) (fst y)"]])
      (use less assms(2) in \<open>auto simp: sorted_wrt_map\<close>)
  have same: "bits_int (fst x) < bits_int (fst y)" if "x \<in> set es" "y \<in> set es" "bits_nat (fst x) < bits_nat (fst y)" "negative x = negative y" for x y
    using len [OF that(1)] len [OF that(2)] that(3,4) by (auto simp: bits_int_def negative_def split: list.splits)
  have sides: "bits_int (fst x) < bits_int (fst y)" if "negative x" "\<not> negative y" for x y
  proof -
    have "int (bits_nat k) < 2 ^ length k" for k using bits_nat_less [of k] by simp
    then have "bits_int (fst x) < 0" using that(1) by (cases "fst x") (auto simp: bits_int_Cons negative_def)
    moreover have "0 \<le> bits_int (fst y)" using that(2) by (auto simp: bits_int_def negative_def split: list.splits)
    ultimately show ?thesis by simp
  qed
  have "sorted_wrt (\<lambda>x y. bits_int (fst x) < bits_int (fst y)) (filter negative es)"
    "sorted_wrt (\<lambda>x y. bits_int (fst x) < bits_int (fst y)) (filter (\<lambda>e. \<not> negative e) es)"
    by (rule sorted_wrt_mono_rel [OF _ srt]; use same in auto)+
  then show "sorted_wrt (\<lambda>x y. key_value sgnd (fst x) < key_value sgnd (fst y)) (in_order sgnd es)"
    using srt [of "\<lambda>_. True"] sides by (cases sgnd) (auto simp: in_order_def key_value_def sorted_wrt_append)
  show "set (in_order sgnd es) = set es" by (auto simp: in_order_def)
qed

section \<open>Nodes from their sides\<close>

lemma roomy_ran: "dict_entries n c = Some es \<Longrightarrow> \<forall>v \<in> ran (map_of es). roomy N v \<Longrightarrow> roomy_all N es"
  using dict_entries_distinct [of n c es] by (auto simp: roomy_all_def ran_def)

lemma yields_join:
  assumes "has_entries m left ml" "has_entries m right mr" "m = n - length label - 1" "length label < n" "n \<le> N" "N \<le> 1023"
    "F \<or> (\<forall>v \<in> ran ml \<union> ran mr. roomy N v)"
  shows "yields F (join_sides label n left right) (\<lambda>root. has_entries n root (fork_map label ml mr))"
proof -
  have one: "yields F (merge_edge (label @ [b]) n c m) (\<lambda>x. has_map n x (if b then fork_map label Map.empty x' else fork_map label x' Map.empty))"
    if has: "has_map m c x'" and room: "F \<or> (\<forall>v \<in> ran x'. roomy N v)" for b c x'
  proof -
    obtain es where es: "dict_entries m c = Some es" "map_of es = x'" using has by (auto simp: has_map_def)
    then have "F \<or> roomy_all N es" using room roomy_ran [OF es(1), of N] by auto
    note yields_merge [OF es(1) [unfolded assms(3)] assms(4-6) this, of b]
    moreover have "map_of (pre (label @ [b]) es) = (if b then fork_map label Map.empty x' else fork_map label x' Map.empty)"
      using map_of_fork [of label es "[]"] map_of_fork [of label "[]" es] es(2) by (cases b) simp_all
    ultimately show ?thesis unfolding assms(3) by simp
  qed
  have none: "fork_map label Map.empty Map.empty = Map.empty" by (auto simp: fork_map_def)
  show ?thesis
  proof (cases left; cases right)
    fix l r assume lr: "left = Some l" "right = Some r"
    then obtain el er where e: "dict_entries m l = Some el" "map_of el = ml" "dict_entries m r = Some er" "map_of er = mr"
      using assms(1,2) by (auto simp: has_entries_def has_map_def)
    then have "F \<or> roomy_all N el \<and> roomy_all N er" using assms(7) roomy_ran [OF e(1), of N] roomy_ran [OF e(3), of N] by auto
    note yields_fork [OF e(1,3) [unfolded assms(3)] assms(4-6) this]
    then have "yields F (new_fork label n (Some l) (Some r)) (\<lambda>c. has_map n c (fork_map label ml mr))"
      unfolding map_of_fork e(2,4) .
    then show ?thesis unfolding join_sides_def lr by (auto simp: has_entries_def intro!: yields_vbind yields_ret elim!: yields_mono)
  next
    fix r assume lr: "left = None" "right = Some r"
    then have "ml = Map.empty" "has_map m r mr" using assms(1,2) by (simp_all add: has_entries_def)
    then show ?thesis
      using one [of r mr True] assms(7) unfolding join_sides_def lr assms(3) [symmetric]
      by (auto simp: has_entries_def intro!: yields_vbind yields_ret elim!: yields_mono)
  next
    fix l assume lr: "left = Some l" "right = None"
    then have "mr = Map.empty" "has_map m l ml" using assms(1,2) by (simp_all add: has_entries_def)
    then show ?thesis
      using one [of l ml False] assms(7) unfolding join_sides_def lr assms(3) [symmetric]
      by (auto simp: has_entries_def intro!: yields_vbind yields_ret elim!: yields_mono)
  next
    assume lr: "left = None" "right = None"
    then show ?thesis using assms(1,2) by (simp add: has_entries_def join_sides_def none yields_ret)
  qed
qed

section \<open>Filtering\<close>

text \<open>A function that only tells which entries to keep.\<close>

definition decides :: "(slice \<Rightarrow> bits \<Rightarrow> 'a \<Rightarrow> int \<times> 'a) \<Rightarrow> (bits \<Rightarrow> slice \<Rightarrow> bool) \<Rightarrow> bool" where
  "decides f keep \<longleftrightarrow> (\<forall>v k a. 0 \<le> fst (f v k a) \<and> fst (f v k a) < 2 ^ 30 \<and> (fst (f v k a) \<noteq> 0 \<longleftrightarrow> keep k v))"

definition kept :: "(bits \<Rightarrow> slice \<Rightarrow> bool) \<Rightarrow> bits \<Rightarrow> (bits \<times> slice) list \<Rightarrow> (bits \<times> slice) list" where
  "kept keep pfx es = filter (\<lambda>(k, v). keep (pfx @ k) v) es"

lemma kept_simps:
  "kept keep pfx (pre p es) = pre p (kept keep (pfx @ p) es)" "kept keep pfx (xs @ ys) = kept keep pfx xs @ kept keep pfx ys"
  "length (kept keep pfx es) \<le> length es" "kept keep pfx [(k, v)] = (if keep (pfx @ k) v then [(k, v)] else [])"
  by (auto simp: kept_def pre_def filter_map comp_def split_def)

lemma kept_all: "length (kept keep pfx es) = length es \<Longrightarrow> kept keep pfx es = es"
  unfolding kept_def by (metis length_filter_less filter_True less_irrefl)

text \<open>What \<open>dict_filter\<close> returns when it neither fails nor skips: the number of entries dropped, and the others if any were.\<close>

definition filtered :: "nat \<Rightarrow> (bits \<times> slice) list \<Rightarrow> (bits \<times> slice) list \<Rightarrow> cell option \<times> int \<times> int \<times> 'a \<Rightarrow> bool" where
  "filtered n es es' res \<longleftrightarrow> (case res of (root, chg, skip, a) \<Rightarrow>
     skip = - 1 \<and> chg = int (length es - length es') \<and> (chg \<noteq> 0 \<longrightarrow> has_entries n root (map_of es')))"

lemma no_bit_30: "0 \<le> x \<Longrightarrow> x < 2 ^ 30 \<Longrightarrow> \<not> bit (x :: int) 30"
  by (simp add: bit_iff_odd)

lemma leaf_filtered:
  assumes "decides f keep"
  shows "filtered (length k) [(k, v)] (kept keep pfx [(k, v)])
    (case f v (pfx @ k) a of (res, a') \<Rightarrow> case leaf_verdict res (- 1) of (chg, skip') \<Rightarrow> (None, chg, skip', a'))"
proof -
  obtain res a' where r: "f v (pfx @ k) a = (res, a')" by force
  then have "0 \<le> res" "res < 2 ^ 30" "res \<noteq> 0 \<longleftrightarrow> keep (pfx @ k) v" 
    using assms [unfolded decides_def, rule_format, of v "pfx @ k" a] by simp_all
  then show ?thesis by (auto simp: r leaf_verdict_def filtered_def kept_simps has_entries_def)
qed

lemma length_pre [simp]: "length (pre p es) = length es"
  by (simp add: pre_def)

lemma kept_side:
  assumes "dict_entries m c = Some es" "es' = kept keep p es" "length es \<le> length es'"
  shows "has_entries m (Some c) (map_of es')"
proof -
  have "length (kept keep p es) = length es" using assms(3) kept_simps(3) [of keep p es] unfolding assms(2) by linarith
  then have "es' = es" unfolding assms(2) by (rule kept_all)
  then show ?thesis using assms(1) by (simp add: has_entries_def has_map_def)
qed

lemma yields_filtered_fork:
  assumes "filtered m el el' (left, lc, skip1, a1)" "filtered m er er' res2" "dict_entries m l = Some el" "dict_entries m r = Some er"
    "el' = kept keep p1 el" "er' = kept keep p2 er" "length el + length er < 2 ^ 30"
    "m = n - length label - 1" "length label < n" "n \<le> N" "N \<le> 1023" "F \<or> roomy_all N el \<and> roomy_all N er"
  shows "yields F (case res2 of (right, rc, skip2, a2) \<Rightarrow> if or lc rc \<le> 0 then vret (right, rc, skip2, a2)
      else vbind (join_sides label n (if lc \<noteq> 0 then left else Some l) (if rc \<noteq> 0 then right else Some r)) (\<lambda>root.
        vret (root, if bit (or lc rc) 30 then 2 ^ 30 else lc + rc, skip2, a2)))
    (filtered n (pre (label @ [False]) el @ pre (label @ [True]) er) (pre (label @ [False]) el' @ pre (label @ [True]) er'))"
proof -
  obtain right rc skip2 a2 where res2: "res2 = (right, rc, skip2, a2)" by (cases res2)
  have len: "length el' \<le> length el" "length er' \<le> length er" unfolding assms(5,6) by (rule kept_simps)+
  have c: "lc = int (length el - length el')" "rc = int (length er - length er')" "skip2 = - 1" using assms(1,2) by (simp_all add: res2 filtered_def)
  show ?thesis
  proof (cases "lc = 0 \<and> rc = 0")
    case True
    then show ?thesis using c len by (auto simp: res2 filtered_def intro!: yields_ret)
  next
    case False
    have nn: "0 \<le> lc" "0 \<le> rc" using c(1,2) by simp_all
    then have pos: "\<not> or lc rc \<le> 0" using False or_eq_0_iff [of lc rc] or_nonnegative_int_iff [of lc rc] by linarith
    have small: "\<not> bit (or lc rc) 30" using no_bit_30 [of lc] no_bit_30 [of rc] c(1,2) assms(7) by (simp add: bit_or_iff)
    have l: "has_entries m (if lc \<noteq> 0 then left else Some l) (map_of el')"
      using assms(1) kept_side [OF assms(3,5)] len(1) c(1) by (simp add: filtered_def)
    have r: "has_entries m (if rc \<noteq> 0 then right else Some r) (map_of er')"
      using assms(2) kept_side [OF assms(4,6)] len(2) c(2) by (simp add: res2 filtered_def)
    note join = yields_join [OF l r assms(8-11)]
    have "F \<or> (\<forall>v \<in> ran (map_of el') \<union> ran (map_of er'). roomy N v)"
      using assms(12) unfolding assms(5,6) by (auto simp: kept_def roomy_all_def ran_def dest!: map_of_SomeD)
    from join [OF this] show ?thesis
      using pos small c len unfolding map_of_fork [symmetric]
      by (auto simp: res2 filtered_def intro!: yields_vbind yields_ret elim!: yields_mono)
  qed
qed

lemma yields_filter_sides:
  assumes "yields F ml (filtered m el el')" "\<And>a. yields F (mr (- 1) a) (filtered m er er')"
    "dict_entries m l = Some el" "dict_entries m r = Some er" "el' = kept keep p1 el" "er' = kept keep p2 er" "length el + length er < 2 ^ 30"
    "m = n - length label - 1" "length label < n" "n \<le> N" "N \<le> 1023" "F \<or> roomy_all N el \<and> roomy_all N er"
  shows "yields F (vbind ml (\<lambda>(left, lc, skip1, a1). if lc < 0 then vret (left, lc, skip1, a1)
      else vbind (mr skip1 a1) (\<lambda>(right, rc, skip2, a2). if or lc rc \<le> 0 then vret (right, rc, skip2, a2)
        else vbind (join_sides label n (if lc \<noteq> 0 then left else Some l) (if rc \<noteq> 0 then right else Some r)) (\<lambda>root.
          vret (root, if bit (or lc rc) 30 then 2 ^ 30 else lc + rc, skip2, a2)))))
    (filtered n (pre (label @ [False]) el @ pre (label @ [True]) er) (pre (label @ [False]) el' @ pre (label @ [True]) er'))"
proof (rule yields_vbind, rule yields_mono [OF assms(1)])
  fix res1 :: "cell option \<times> int \<times> int \<times> 'a" assume 1: "filtered m el el' res1"
  obtain left lc skip1 a1 where res1: "res1 = (left, lc, skip1, a1)" by (cases res1)
  have l: "\<not> lc < 0" "skip1 = - 1" using 1 by (simp_all add: res1 filtered_def)
  show "yields F (case res1 of (left, lc, skip1, a1) \<Rightarrow> if lc < 0 then vret (left, lc, skip1, a1)
      else vbind (mr skip1 a1) (\<lambda>(right, rc, skip2, a2). if or lc rc \<le> 0 then vret (right, rc, skip2, a2)
        else vbind (join_sides label n (if lc \<noteq> 0 then left else Some l) (if rc \<noteq> 0 then right else Some r)) (\<lambda>root.
          vret (root, if bit (or lc rc) 30 then 2 ^ 30 else lc + rc, skip2, a2))))
    (filtered n (pre (label @ [False]) el @ pre (label @ [True]) er) (pre (label @ [False]) el' @ pre (label @ [True]) er'))"
    unfolding res1 prod.case l(2) using l(1)
    by (simp only: if_False, intro yields_vbind, intro yields_mono [OF assms(2)])
      (rule yields_filtered_fork [OF 1 [unfolded res1] _ assms(3-12)])
qed

lemma dict_filter_yields:
  assumes "decides f keep" "dict_entries n c = Some es" "n \<le> N" "N \<le> 1023" "F \<or> roomy_all N es" "length es < 2 ^ 30"
  shows "yields F (dict_filter (Some c) pfx n f (- 1) a) (filtered n es (kept keep pfx es))"
  using assms(2,3,5,6)
proof (induction n arbitrary: c es pfx a rule: less_induct)
  case (less n)
  obtain label rest where node: "is_node n c label rest" "node_entries n label rest = Some es" "length label \<le> n"
    using less.prems(1) by (rule dict_entriesE)
  have neg: "(0 :: int) \<le> - 1 \<longleftrightarrow> False" by simp
  show ?case
    unfolding dict_filter.simps neg if_False
  proof (rule yields_vbind, rule yields_label [OF node(1) node_entries_ok [OF node(2)]], goal_cases)
    case (1 lb)
    note lb = label_is_eqs(1,4) [OF 1]
    show ?case
    proof (cases "length label = n")
      case True
      then have "es = [(label, rest)]" using node(2) by (simp add: node_entries_leaf)
      then show ?thesis
        using leaf_filtered [OF assms(1), of label rest pfx a] True by (auto simp: lb split: prod.splits intro!: yields_ret)
    next
      case False
      with node obtain l r el er where f: "rest = \<lparr>sl_bits = [], sl_refs = [l, r]\<rparr>" "dict_entries (n - length label - 1) l = Some el"
        "dict_entries (n - length label - 1) r = Some er" "es = pre (label @ [False]) el @ pre (label @ [True]) er"
        by (elim node_forkE) auto
      have m: "n - length label - 1 < n" "length label < n" "n - length label - 1 \<le> N" using False node(3) less.prems(2) by simp_all
      have ref: "prefetch_ref 0 rest = Some l" "prefetch_ref 1 rest = Some r" by (simp_all add: f(1) prefetch_ref_def sl_size_refs_def)
      have size: "length el + length er < 2 ^ 30" "length el < 2 ^ 30" "length er < 2 ^ 30" using less.prems(4) by (simp_all add: f(4))
      have roomy: "F \<or> roomy_all N el \<and> roomy_all N er" "F \<or> roomy_all N el" "F \<or> roomy_all N er"
        using less.prems(3) unfolding f(4) roomy_pre by blast+
      note IH = less.IH [OF m(1) f(2) m(3) roomy(2) size(2)] less.IH [OF m(1) f(3) m(3) roomy(3) size(3)]
      have es: "kept keep pfx (pre (label @ [False]) el @ pre (label @ [True]) er) =
          pre (label @ [False]) (kept keep (pfx @ label @ [False]) el) @ pre (label @ [True]) (kept keep (pfx @ label @ [True]) er)"
        by (simp add: kept_simps)
      have step: "(n \<le> length label) = False" using m(2) by simp
      show ?thesis
        unfolding lb prod.case Let_def ref step if_False f(4) es
        by (rule yields_filter_sides [where mr = "\<lambda>s a. dict_filter (Some r) (pfx @ label @ [True]) (n - length label - 1) f s a", OF IH(1) IH(2) f(2,3) refl refl size(1) refl m(2) less.prems(2) assms(4) roomy(1)])
    qed
  qed
qed

section \<open>Mapping\<close>

text \<open>A function that stores \<open>g k v\<close> for the entry of \<open>k\<close> with the value \<open>v\<close>, or omits it.\<close>

definition rewriting :: "(slice \<Rightarrow> bits \<Rightarrow> 'a \<Rightarrow> (builder \<Rightarrow> builder option) \<times> 'a) \<Rightarrow> (bits \<Rightarrow> slice \<Rightarrow> slice option) \<Rightarrow> bool" where
  "rewriting f g \<longleftrightarrow> (\<forall>v k a. case g k v of None \<Rightarrow> \<forall>b. fst (f v k a) b = None | Some w \<Rightarrow> stores w (fst (f v k a)))"

definition mapped :: "(bits \<Rightarrow> slice \<Rightarrow> slice option) \<Rightarrow> bits \<Rightarrow> (bits \<rightharpoonup> slice) \<Rightarrow> bits \<rightharpoonup> slice" where
  "mapped g pfx m k = Option.bind (m k) (g (pfx @ k))"

lemma mapped_fork: "mapped g pfx (fork_map label ml mr) = fork_map label (mapped g (pfx @ label @ [False]) ml) (mapped g (pfx @ label @ [True]) mr)"
proof
  fix k
  show "mapped g pfx (fork_map label ml mr) k = fork_map label (mapped g (pfx @ label @ [False]) ml) (mapped g (pfx @ label @ [True]) mr) k"
  proof (cases "length label < length k \<and> take (length label) k = label")
    case True
    then have "label @ k ! length label # drop (length label + 1) k = k" using id_take_nth_drop [of "length label" k] by simp
    then show ?thesis using True by (cases "k ! length label") (simp_all add: mapped_def fork_map_def)
  qed (auto simp: mapped_def fork_map_def)
qed

lemma map_leaf_eq:
  assumes "stores w st" "fits n w" "length label \<le> n"
  shows "vbind (vwrite (append_dict_label label n new_builder)) (\<lambda>cb. case st cb of None \<Rightarrow> vret (None, a)
      | Some cb' \<Rightarrow> vbind (finalize_copy False cb') (\<lambda>r. vret (Some r, a))) = vbind (new_leaf label n st) (\<lambda>r. vret (Some r, a))"
proof -
  let ?b = "\<lparr>bl_bits = label_bits label n, bl_refs = []\<rparr>"
  have small: "length (label_bits label n) + sl_size w \<le> max_bits" using assms(2) label_bits_length [OF assms(3)] assms(3) by (simp add: fits_def)
  have "append_dict_label label n new_builder = Some ?b"
    using append_dict_label_bits [of new_builder label n] assms(3) small by (simp add: new_builder_def builder_defs)
  moreover have "st ?b \<noteq> None"
    using assms(1,2) small by (simp add: stores_def builder_defs fits_def slice_defs)
  ultimately show ?thesis by (auto simp: new_leaf_def vwrite_def vbind_def vret_def fun_eq_iff split: vres.splits)
qed

lemma yields_map_leaf:
  assumes "rewriting f g" "roomy N v" "\<forall>w. g (pfx @ k) v = Some w \<longrightarrow> roomy N w" "length k \<le> N" "N \<le> 1023"
  shows "yields False (vbind (vwrite (append_dict_label k (length k) new_builder)) (\<lambda>cb. case f v (pfx @ k) a of (store, a') \<Rightarrow>
      case store cb of None \<Rightarrow> vret (None, a') | Some cb' \<Rightarrow> vbind (finalize_copy False cb') (\<lambda>r. vret (Some r, a'))))
    (\<lambda>(root, a'). has_entries (length k) root (mapped g pfx [k \<mapsto> v]))"
proof -
  obtain store a' where f: "f v (pfx @ k) a = (store, a')" by force
  note g = assms(1) [unfolded rewriting_def, THEN spec [of _ v], THEN spec [of _ "pfx @ k"], THEN spec [of _ a], unfolded f fst_conv]
  have "length (label_bits k (length k)) \<le> max_bits"
    using roomy_fits [OF assms(2,4)] label_bits_length [of k "length k"] by (simp add: fits_def)
  then have lab: "append_dict_label k (length k) new_builder \<noteq> None"
    using append_dict_label_bits [of new_builder k "length k"] by (simp add: new_builder_def builder_defs)
  show ?thesis
  proof (cases "g (pfx @ k) v")
    case None
    then have "mapped g pfx [k \<mapsto> v] = Map.empty" "\<forall>b. store b = None" using g by (auto simp: mapped_def fun_eq_iff)
    then show ?thesis using lab by (auto simp: f has_entries_def intro!: yields_vbind yields_vwrite yields_ret)
  next
    case (Some w)
    then have w: "mapped g pfx [k \<mapsto> v] = [k \<mapsto> w]" "stores w store" "roomy N w" using g assms(3) by (auto simp: mapped_def fun_eq_iff)
    have "yields False (new_leaf k (length k) store) (\<lambda>r. has_map (length k) r [k \<mapsto> w])"
      by (rule yields_key_leaf [OF w(2) assms(4,5)]) (simp add: w(3))
    then show ?thesis
      unfolding f prod.case map_leaf_eq [OF w(2) roomy_fits [OF w(3) assms(4)] order_refl] w(1)
      by (auto simp: has_entries_def intro!: yields_vbind yields_ret elim!: yields_mono)
  qed
qed

lemma mapped_ran:
  "\<forall>(k, v) \<in> set es. \<forall>w. g (pfx @ k) v = Some w \<longrightarrow> roomy N w \<Longrightarrow> \<forall>v \<in> ran (mapped g pfx (map_of es)). roomy N v"
  by (fastforce simp: ran_def mapped_def bind_eq_Some_conv dest: map_of_SomeD)

lemma dict_map_tree_yields:
  assumes "rewriting f g" "dict_entries n c = Some es" "n \<le> N" "N \<le> 1023" "roomy_all N es"
    "\<forall>(k, v) \<in> set es. \<forall>w. g (pfx @ k) v = Some w \<longrightarrow> roomy N w"
  shows "yields False (dict_map_tree (Some c) pfx n f a) (\<lambda>(root, a'). has_entries n root (mapped g pfx (map_of es)))"
  using assms(2,3,5,6)
proof (induction n arbitrary: c es pfx a rule: less_induct)
  case (less n)
  obtain label rest where node: "is_node n c label rest" "node_entries n label rest = Some es" "length label \<le> n"
    using less.prems(1) by (rule dict_entriesE)
  show ?case
    unfolding dict_map_tree.simps
  proof (rule yields_vbind, rule yields_label [OF node(1) node_entries_ok [OF node(2)]], goal_cases)
    case (1 lb)
    note lb = label_is_eqs(1,4) [OF 1]
    show ?case
    proof (cases "length label = n")
      case True
      then have es: "es = [(label, rest)]" using node(2) by (simp add: node_entries_leaf)
      then have m: "map_of es = [label \<mapsto> rest]" by simp
      show ?thesis
        unfolding lb prod.case m True [symmetric] if_P [OF order_refl]
        by (rule yields_map_leaf [OF assms(1)]) (use less.prems(2-4) assms(4) True in \<open>auto simp: es roomy_all_def\<close>)
    next
      case False
      with node obtain l r el er where f: "rest = \<lparr>sl_bits = [], sl_refs = [l, r]\<rparr>" "dict_entries (n - length label - 1) l = Some el"
        "dict_entries (n - length label - 1) r = Some er" "es = pre (label @ [False]) el @ pre (label @ [True]) er"
        by (elim node_forkE) auto
      have m: "n - length label - 1 < n" "length label < n" "n - length label - 1 \<le> N" using False node(3) less.prems(2) by simp_all
      have ref: "prefetch_ref 0 rest = Some l" "prefetch_ref 1 rest = Some r" by (simp_all add: f(1) prefetch_ref_def sl_size_refs_def)
      have roomy: "roomy_all N el" "roomy_all N er" using less.prems(3) unfolding f(4) roomy_pre by blast+
      have g: "\<forall>(k, v) \<in> set (if b then er else el). \<forall>w. g ((pfx @ label @ [b]) @ k) v = Some w \<longrightarrow> roomy N w" for b
        using less.prems(4) unfolding f(4) by (cases b) (force simp: pre_def)+
      note IH = less.IH [OF m(1) f(2) m(3) roomy(1) g [of False, unfolded if_False]] less.IH [OF m(1) f(3) m(3) roomy(2) g [of True, unfolded if_True]]
      have step: "(n \<le> length label) = False" using m(2) by simp
      show ?thesis
        unfolding lb prod.case Let_def ref step if_False f(4) map_of_fork mapped_fork
      proof (rule yields_vbind, rule yields_mono [OF IH(1)], clarify, rule yields_vbind, rule yields_mono [OF IH(2)], clarify, goal_cases)
        case (1 left a1 right a2)
        note join = yields_join [OF this refl m(2) less.prems(2) assms(4)]
        have "False \<or> (\<forall>v \<in> ran (mapped g (pfx @ label @ [False]) (map_of el)) \<union> ran (mapped g (pfx @ label @ [True]) (map_of er)). roomy N v)"
          using mapped_ran [OF g [of False, unfolded if_False]] mapped_ran [OF g [of True, unfolded if_True]] by auto
        from join [OF this] show ?case by (auto intro!: yields_vbind yields_ret elim!: yields_mono)
      qed
    qed
  qed
qed

section \<open>The class\<close>

lemma filter_yields:
  assumes "entries d = Some es" "key_bits d \<le> max_key_bits" "decides f keep" "length es < 2 ^ 30"
  shows "yields (\<not> roomy_all (key_bits d) es) (dict_filter_entries d f a) (\<lambda>(chg, d', a').
      chg = int (length (filter (\<lambda>(k, v). \<not> keep k v) es)) \<and> key_bits d' = key_bits d \<and>
      (\<exists>es'. entries d' = Some es' \<and> map_of es' = map_of (filter (\<lambda>(k, v). keep k v) es)))"
  using assms(1)
proof (cases rule: entries_cases)
  case 1
  then show ?thesis using assms(1) by (auto simp: dict_filter_entries_def dict_filter.simps intro!: yields_vbind yields_ret)
next
  case (2 c)
  have kept: "kept keep [] es = filter (\<lambda>(k, v). keep k v) es" by (simp add: kept_def)
  have drop: "length es - length (kept keep [] es) = length (filter (\<lambda>(k, v). \<not> keep k v) es)"
    using sum_length_filter_compl [of "\<lambda>(k, v). keep k v" es] unfolding kept by (simp add: split_def)
  have "yields (\<not> roomy_all (key_bits d) es) (dict_filter (Some c) [] (key_bits d) f (- 1) a) (filtered (key_bits d) es (kept keep [] es))"
    by (rule dict_filter_yields [OF assms(3) 2(2) order_refl]) (use assms(2,4) in \<open>auto simp: max_key_bits_def\<close>)
  then show ?thesis
    unfolding dict_filter_entries_def 2(1)
  proof (intro yields_vbind, elim yields_mono)
    fix res :: "cell option \<times> int \<times> int \<times> 'a" assume res: "filtered (key_bits d) es (kept keep [] es) res"
    obtain root chg skip a' where r: "res = (root, chg, skip, a')" by (cases res)
    have chg: "chg = int (length (filter (\<lambda>(k, v). \<not> keep k v) es))" "chg \<noteq> 0 \<longrightarrow> has_entries (key_bits d) root (map_of (kept keep [] es))"
      using res drop by (simp_all add: r filtered_def)
    have "chg = 0 \<Longrightarrow> kept keep [] es = es" unfolding chg(1) kept by (auto simp: filter_empty_conv filter_id_conv)
    then show "yields (\<not> roomy_all (key_bits d) es) (case res of (root, chg, skip, a') \<Rightarrow> vret (chg, if chg > 0 then d\<lparr>root_cell := root\<rparr> else d, a'))
        (\<lambda>(chg, d', a'). chg = int (length (filter (\<lambda>(k, v). \<not> keep k v) es)) \<and> key_bits d' = key_bits d \<and>
          (\<exists>es'. entries d' = Some es' \<and> map_of es' = map_of (filter (\<lambda>(k, v). keep k v) es)))"
      using chg assms(1) unfolding r kept entries_root by (cases "chg = 0") (auto intro!: yields_ret)
  qed
qed

lemma map_yields:
  assumes "entries d = Some es" "key_bits d \<le> max_key_bits" "rewriting h g" "roomy_all (key_bits d) es"
    "\<forall>(k, v) \<in> set es. \<forall>w. g k v = Some w \<longrightarrow> roomy (key_bits d) w"
  shows "yields False (map_entries d h b) (\<lambda>(d', b'). key_bits d' = key_bits d \<and>
      (\<exists>es'. entries d' = Some es' \<and> map_of es' = (\<lambda>k. Option.bind (map_of es k) (g k))))"
  using assms(1)
proof (cases rule: entries_cases)
  case 1
  then show ?thesis by (auto simp: map_entries_def dict_map_tree.simps entries_def intro!: yields_vbind yields_ret)
next
  case (2 c)
  have "mapped g [] (map_of es) = (\<lambda>k. Option.bind (map_of es k) (g k))" by (simp add: mapped_def fun_eq_iff)
  moreover have "yields False (dict_map_tree (Some c) [] (key_bits d) h b) (\<lambda>(root, a'). has_entries (key_bits d) root (mapped g [] (map_of es)))"
    by (rule dict_map_tree_yields [OF assms(3) 2(2) order_refl]) (use assms(2,4,5) in \<open>auto simp: max_key_bits_def\<close>)
  ultimately show ?thesis
    unfolding map_entries_def 2(1) by (auto simp: entries_root intro!: yields_vbind yields_ret elim!: yields_mono)
qed

section \<open>Properties\<close>

text \<open>
  C22: A dictionary is ordered. \<open>get_minmax_key\<close> returns the entry with the least or the greatest key, as unsigned
  integers or, when the first bit is inverted, as signed ones, and nothing only when the dictionary is empty.
  \<open>lookup_nearest_key\<close> returns the entry whose key is the nearest above or below a given one, or that one itself when
  this is allowed, and nothing only when there is no such entry. \<open>check_for_each\<close> calls its function on the entries in
  increasing order of the keys, each of them once, up to the first call that fails. None of them raises an exception.
\<close>

theorem dict_ordered_access:
  assumes "entries d = Some es" "length key = key_bits d"
  shows "yields False (get_minmax_key d (key_bits d) fetch_max sgnd) (\<lambda>r. case r of
      None \<Rightarrow> es = []
    | Some (v, k) \<Rightarrow> map_of es k = Some v \<and>
        (\<forall>(k', w) \<in> set es. if fetch_max then key_value sgnd k' \<le> key_value sgnd k else key_value sgnd k \<le> key_value sgnd k')) \<and>
    yields False (lookup_nearest_key d key fetch_next allow_eq sgnd) (\<lambda>r. case r of
      None \<Rightarrow> \<forall>(k, w) \<in> set es. \<not> past fetch_next sgnd allow_eq key k
    | Some (v, k) \<Rightarrow> map_of es k = Some v \<and> past fetch_next sgnd allow_eq key k \<and>
        (\<forall>(k', w) \<in> set es. past fetch_next sgnd allow_eq key k' \<longrightarrow>
          (if fetch_next then key_value sgnd k \<le> key_value sgnd k' else key_value sgnd k' \<le> key_value sgnd k))) \<and>
    yields False (check_for_each d f sgnd a) (\<lambda>r. \<exists>es'. set es' = set es \<and>
      sorted_wrt (\<lambda>x y. key_value sgnd (fst x) < key_value sgnd (fst y)) es' \<and> r = scan f es' a)"
proof (intro conjI)
  show "yields False (check_for_each d f sgnd a) (\<lambda>r. \<exists>es'. set es' = set es \<and>
      sorted_wrt (\<lambda>x y. key_value sgnd (fst x) < key_value sgnd (fst y)) es' \<and> r = scan f es' a)"
    using assms(1)
  proof (cases rule: entries_cases)
    case 1
    then show ?thesis by (auto simp: check_for_each_def intro!: yields_ret exI [of _ "[]"])
  next
    case (2 c)
    note order = in_order_sorted [of es "key_bits d" sgnd]
    show ?thesis
      unfolding check_for_each_def 2(1)
      using order dict_entries_keys [OF 2(2)] dict_check_for_each_yields [OF 2(2), of False "[]" f sgnd a] by (auto elim!: yields_mono)
  qed
qed (rule get_minmax_key_yields [OF assms(1)] lookup_nearest_key_yields [OF assms])+

theorem dict_ordered_access_witness:
  "yields False (get_minmax_key sample_dict 2 False True) (\<lambda>r. r = Some (\<lparr>sl_bits = [], sl_refs = []\<rparr>, [True, False])) \<and>
   yields False (lookup_nearest_key sample_dict [False, True] True False False) (\<lambda>r. r = Some (\<lparr>sl_bits = [], sl_refs = []\<rparr>, [True, False]))"
proof -
  note order = dict_ordered_access [OF sample_dict_entries(1), unfolded sample_dict_entries(2)]
  show ?thesis
    by (rule conjI [OF yields_mono [OF conjunct1 [OF order [of "[False, True]"]]] yields_mono [OF conjunct1 [OF conjunct2 [OF order]]]])
      (auto simp: sample_entries_def past_def key_value_def bits_int_def bits_nat_def split: option.splits if_splits)
qed

text \<open>
  C23: Filtering and mapping refine those of the entries. With a function that tells of each entry whether to keep it,
  \<open>filter\<close> returns the number of entries dropped and leaves exactly the others (fewer than \<open>2 ^ 30\<close> entries, the number
  the code takes for infinity); the only exception is a cell overflow, when some value leaves no room for a key. With
  a function that stores a new roomy value for an entry or omits it, \<open>map\<close> leaves exactly the new values.
\<close>

theorem dict_filter_map_refine:
  assumes "entries d = Some es" "key_bits d \<le> max_key_bits"
  shows "(decides f keep \<and> length es < 2 ^ 30 \<longrightarrow>
      yields (\<not> roomy_all (key_bits d) es) (dict_filter_entries d f a) (\<lambda>(chg, d', a').
        chg = int (length (filter (\<lambda>(k, v). \<not> keep k v) es)) \<and> key_bits d' = key_bits d \<and>
        (\<exists>es'. entries d' = Some es' \<and> map_of es' = map_of (filter (\<lambda>(k, v). keep k v) es)))) \<and>
    (rewriting h g \<and> roomy_all (key_bits d) es \<and> (\<forall>(k, v) \<in> set es. \<forall>w. g k v = Some w \<longrightarrow> roomy (key_bits d) w) \<longrightarrow>
      yields False (map_entries d h b) (\<lambda>(d', b'). key_bits d' = key_bits d \<and>
        (\<exists>es'. entries d' = Some es' \<and> map_of es' = (\<lambda>k. Option.bind (map_of es k) (g k)))))"
proof (intro conjI impI; elim conjE)
  show "yields (\<not> roomy_all (key_bits d) es) (dict_filter_entries d f a) (\<lambda>(chg, d', a').
      chg = int (length (filter (\<lambda>(k, v). \<not> keep k v) es)) \<and> key_bits d' = key_bits d \<and>
      (\<exists>es'. entries d' = Some es' \<and> map_of es' = map_of (filter (\<lambda>(k, v). keep k v) es)))"
    if "decides f keep" "length es < 2 ^ 30" by (rule filter_yields [OF assms that])
qed (rule map_yields [OF assms])

theorem dict_filter_map_refine_witness:
  "yields False (dict_filter_entries sample_dict (\<lambda>v k a. (if k ! 0 then 0 else 1, a)) ()) (\<lambda>(chg, d', a').
     chg = 1 \<and> key_bits d' = 2 \<and> (\<exists>es'. entries d' = Some es' \<and> map_of es' = [[False, True] \<mapsto> \<lparr>sl_bits = [True], sl_refs = []\<rparr>])) \<and>
   yields False (map_entries sample_dict (\<lambda>v k a. (cell_builder_add_slice_bool v, a)) ()) (\<lambda>(d', b').
     key_bits d' = 2 \<and> (\<exists>es'. entries d' = Some es' \<and> map_of es' = map_of sample_entries))"
proof -
  have "decides (\<lambda>v k (a :: unit). (if k ! 0 then 0 else 1, a)) (\<lambda>k v. \<not> k ! 0)" "rewriting (\<lambda>v k (a :: unit). (cell_builder_add_slice_bool v, a)) (\<lambda>k. Some)"
    by (simp_all add: decides_def rewriting_def stores_slice)
  moreover have "filter (\<lambda>(k, v). k ! 0) sample_entries = [([True, False], \<lparr>sl_bits = [], sl_refs = []\<rparr>)]"
    "filter (\<lambda>(k, v). \<not> k ! 0) sample_entries = [([False, True], \<lparr>sl_bits = [True], sl_refs = []\<rparr>)]"
    "\<forall>(k, v) \<in> set sample_entries. \<forall>w. Some v = Some w \<longrightarrow> roomy 2 w" "length sample_entries < 2 ^ 30"
    using sample_roomy(2) by (auto simp: sample_entries_def roomy_all_def)
  ultimately show ?thesis
    using dict_filter_map_refine [OF sample_dict_entries(1), of "\<lambda>v k a. (if k ! 0 then 0 else 1, a)" "\<lambda>k v. \<not> k ! 0" "()"
        "\<lambda>v k a. (cell_builder_add_slice_bool v, a)" "\<lambda>k. Some" "()"]
    by (simp add: sample_dict_entries(2) sample_roomy(2) max_key_bits_def)
qed

end
