(* ===== verification/Spec2Isabelle.thy ===== *)
theory Spec2Isabelle
  imports MinerProps VmProps MerkleProofs CellProps DictScan
begin

text \<open>
  Verification library of a fork of the TON node with a GPU proof-of-work miner.

  \<^bold>\<open>The program.\<close> The fork's own part is the miner under \<open>src/crypto/util\<close>: it looks for a 256-bit
  nonce that makes the SHA-256 digest of a giver message smaller than a bound, on the CPU
  (\<open>Miner.cpp\<close>) or with a kernel on a GPU (\<open>cruncher.h\<close>, \<open>opencl/\<close>, driven by
  \<open>MinerOpenCL.cpp\<close>). The message found is the body of a transaction that a contract checks on the
  virtual machine under \<open>src/crypto/vm\<close>; this machine is the second subject. The rest of the node
  (networking, consensus, storage, language tools) is not part of this library.

  \<^bold>\<open>The miner.\<close> \<open>Prelude\<close> has words, bytes and their big-endian readings. \<open>Sha256\<close> is the
  FIPS 180-4 compression function and digest, as a reference. \<open>Hdata\<close> models the message
  (\<open>HData\<close>, \<open>HDataEnv\<close> of \<open>Miner.h\<close>) and its increment. \<open>CpuMiner\<close> models \<open>Miner::run\<close> over any SHA-256
  library with the documented contract. \<open>GpuMiner\<close> models the preparation of the data and the kernel,
  \<open>GpuDriver\<close> a launch under any schedule of the device and the loop of the host. \<open>MinerProps\<close> has
  the properties: the loops end and find what they promise, the kernel computes the digest of
  the message the host rebuilds, and a hit is reported exactly when the host accepts it.

  \<^bold>\<open>Cells.\<close> The machine's data are trees of cells, each with up to 1023 bits and four references.
  \<open>BitStrings\<close> has bit strings as lists, the numbers they denote and their comparisons
  (\<open>common/bitstring.cpp\<close>). \<open>Cells\<close> models level masks, the special cells, \<open>DataCell::create\<close> with its checks, and
  the hashes and depths at every level (\<open>vm/cells/\<close>); a cell is the tree itself, and what the code stores in it is
  computed. \<open>CellSlices\<close> models reading (\<open>CellSlice\<close>) and \<open>CellBuilders\<close> writing (\<open>CellBuilder\<close>). \<open>MerkleProofs\<close>
  models the generation of Merkle proofs and their unpacking; its locale \<open>blinding\<close> is what is needed of the
  function that replaces subtrees, and is interpreted on the code's \<open>dfs\<close> for every hash function.

  \<^bold>\<open>The machine.\<close> \<open>BigInt\<close> models the 257-bit integers with NaN (\<open>common/bigint.hpp\<close>,
  \<open>common/refint.cpp\<close>); \<open>VmState\<close> the data (stack entries, continuations, control registers,
  gas, the state) and operations as functions from a state to a result, an exception or \<open>Undef\<close>, with their
  weakest preconditions; \<open>VmStack\<close> the stack (\<open>stack.hpp\<close>, \<open>stack.cpp\<close>) and well-formed values;
  \<open>OpcTable\<close> the invariant of the machine, gas, code slices and the dispatch of one instruction
  (\<open>opctable.cpp\<close>). The instructions are in \<open>StackOps\<close>, \<open>TupleOps\<close>, \<open>ArithOps\<close>, \<open>ContOps\<close> and \<open>CellOps\<close>, one
  definition per handler with the name it has in the file of the same name under \<open>src/crypto/vm\<close>, and
  the registration lists. \<open>VmCont\<close> models jumps, calls, returns, loops, exceptions, loading of cells and
  commits (\<open>vm.cpp\<close>, \<open>continuation.cpp\<close>). \<open>OpTables\<close> models the instruction table with its binary search
  and codepage 0 (\<open>cp0.cpp\<close>); \<open>VmRun\<close> the registry of codepages, the initial state, \<open>step\<close>, \<open>run\<close> and
  \<open>run_vm_code\<close>; \<open>VmProps\<close> has the properties of the whole machine, \<open>CellProps\<close> those of the instructions on cells.

  \<^bold>\<open>Dictionaries.\<close> \<open>Dict\<close> models the labels and the class \<open>Dictionary\<close> (\<open>dict.h\<close>, \<open>dict.cpp\<close>), \<open>PfxDict\<close> the
  prefix code dictionaries of the same file, \<open>DictOps\<close> their instructions (\<open>dictops.cpp\<close>). The operations load and make
  cells, so they run in the machine and cost gas. \<open>DictProps\<close> takes the entries of a tree of cells as its abstraction and
  shows that lookup, storing and deletion on the cells are those of a map; \<open>DictKeys\<close> does this for the least, greatest
  and nearest keys; \<open>DictMaps\<close> has the operations of the class, the locale \<open>machine_map\<close> (a map whose operations
  run on the machine), its interpretation on the class, and the properties; \<open>DictScan\<close> models \<open>check_for_each\<close>,
  \<open>filter\<close> and \<open>map\<close>, whose callbacks are parameters with a state of their own, and shows what they do to the entries.

  \<^bold>\<open>What is proved.\<close> Every handler is safe: from a well-formed state it ends with a result or an
  exception, keeps the invariant (no null register, values in range, cells, slices and builders within their limits, tuples
  at most 255 long, committed data at most 512 deep) and only uses up gas; \<open>Undef\<close>, a step the C++ code leaves
  undefined, is reached only by two reductions with rounding to nearest, by preloads with zeros appended and by
  least, greatest and nearest integer keys of no bits (\<open>ub_opcode\<close>). The locale \<open>dispatch_table\<close> is what the
  interpreter needs of a table, the locale \<open>codepages\<close> what it needs of the registry; both are
  interpreted on codepage 0, and give: the loop ends, with fuel of a fifth of the gas plus
  one (each round that goes on costs at least five units), and every state it passes through
  is well-formed. Functional properties cover the table search, calls and returns, \<open>TRY\<close>, \<open>REPEAT\<close>, unhandled
  exceptions, running out of gas, the commit, gas limits, arithmetic, comparisons, tuples and
  block moves on the stack. For cells: numbers stored are read back, the quiet stores are the plain ones with the
  overflow caught, the length functions announce what the instructions take from the code, slices are cut
  and compared as bit strings. A Merkle proof generated for a cell
  unpacks to a well-formed tree with the hash and the depth of that cell, the generation with its table of results
  gives what plain recursion gives when no two cells of the tree have the same hash
  (\<open>no_collision\<close>), and every tree of ordinary cells below the greatest depth has a proof. For dictionaries: what the
  operations return and the entries they leave are those of a finite map, in every mode; a label that is written is read back;
  an exception is only a cell overflow, and only when a value leaves no room for a whole key in its cell or is within the
  length of the keys of the greatest depth (\<open>roomy\<close>); so any sequence of insertions and deletions of roomy values
  runs to its end and agrees with the map.

  \<^bold>\<open>Bounds and parameters.\<close> Fuel of the loop: \<open>run_fuel\<close>, proved to be enough. Loading a cell follows
  library cells at most 256 times; the safety theorems assume that library entries are ordinary
  cells, so one step is enough. SHA-256 as the cells use it, the library lookup, the system clock, cancellation, the SHA-256 library of the miner
  and the schedule of the GPU are parameters. Gas counters are integers.

  \<^bold>\<open>Not modelled.\<close> Within the miner: floating-point statistics, command lines, set-up calls of
  OpenCL and CUDA. Within the machine: the blockchain
  and debug instructions and the double-length arithmetic (they are the parameter
  \<open>other_ops\<close> of codepage 0, with their safety as a hypothesis where it matters), the disassembler, serialisation,
  reference counts, logging. Of dictionaries: iterators, the operations that traverse two dictionaries
  (combination, comparison), augmented dictionaries. Of cells: their representation in memory, virtualisation, usage trees, bags of cells
  and the cell database.
\<close>

end
